(* ===== verification/Py_Base.thy ===== *)
theory Py_Base
  imports Complex_Main "HOL-Library.AList" "HOL-Library.Char_ord" "HOL-Library.List_Lexorder"
    "HOL-Library.Product_Lexorder" "HOL-Library.Multiset"
begin

text \<open>
  The prelude of the development: the values the Python sources work on and the operations of
  the language and its standard library that they use.

  \<^item> JSON values (\<open>json\<close>), dictionaries as association lists in insertion order (\<open>jdict\<close>).
    A float is the rational it denotes; \<open>JInf\<close> is an overflowed literal such as \<open>1e999\<close>.
  \<^item> exceptions (\<open>exn\<close>) and results (\<open>exn + 'a\<close>), sequenced with \<open>rbind\<close>: every \<open>raise\<close> of
    the source is an \<open>Inl\<close>. The text of a message is not modelled, its class, HTTP code and
    errcode are.
  \<^item> the string operations the sources use (\<open>find\<close>, \<open>split(":", 1)\<close>, \<open>startswith\<close>, \<open>endswith\<close>,
    \<open>lstrip\<close>), \<open>int(...)\<close> and truth testing.

  A Python string is a list of code points; \<open>string\<close> represents those up to U+00FF.
\<close>

named_theorems res_simps \<open>equations of the result monad\<close>

section \<open>Values\<close>

datatype json =
    JNull
  | JBool bool
  | JInt int
  | JFloat rat
  | JInf bool
  | JStr string
  | JList "json list"
  | JObj "(string \<times> json) list"

type_synonym jdict = "(string \<times> json) list"

text \<open>\<open>type(v) is int\<close>: a bool is an instance of int, but its type is bool.\<close>

fun is_int_json :: "json \<Rightarrow> bool" where
  "is_int_json (JInt _) = True"
| "is_int_json _ = False"

text \<open>\<open>bool(v)\<close>.\<close>

fun py_truthy :: "json \<Rightarrow> bool" where
  "py_truthy JNull = False"
| "py_truthy (JBool b) = b"
| "py_truthy (JInt i) = (i \<noteq> 0)"
| "py_truthy (JFloat r) = (r \<noteq> 0)"
| "py_truthy (JInf _) = True"
| "py_truthy (JStr s) = (s \<noteq> [])"
| "py_truthy (JList xs) = (xs \<noteq> [])"
| "py_truthy (JObj d) = (d \<noteq> [])"

section \<open>Exceptions and results\<close>

datatype errcode =
    FORBIDDEN | INSUFFICIENT_POWER | NOT_JOINED | ALREADY_JOINED | BAD_JSON | UNKNOWN
  | INVALID_PARAM | TOO_LARGE | NOT_FOUND | LIZA_BLOCKED

datatype exn =
    AuthError int errcode
  | UnstableSpecAuthError int errcode
  | SynapseError int errcode
  | EventSizeError bool
  | LimitExceededError int
  | SignatureVerifyException
  | PyKeyError | PyTypeError | PyAttributeError | PyValueError | PyAssertionError
  | ModuleFailedException
  | PyRuntimeError | PyIndexError | PyOverflowError | PyStopIteration | PyNameError | PyException
  | PyZeroDivisionError
  | RuleNotFoundException | InconsistentRuleException

type_synonym 'a res = "exn + 'a"

text \<open>\<open>except AuthError\<close> also catches its subclass.\<close>

fun is_auth_error :: "exn \<Rightarrow> bool" where
  "is_auth_error (AuthError _ _) = True"
| "is_auth_error (UnstableSpecAuthError _ _) = True"
| "is_auth_error _ = False"

text \<open>\<open>except SynapseError\<close> catches the whole hierarchy below it.\<close>

fun is_synapse_error :: "exn \<Rightarrow> bool" where
  "is_synapse_error (AuthError _ _) = True"
| "is_synapse_error (UnstableSpecAuthError _ _) = True"
| "is_synapse_error (SynapseError _ _) = True"
| "is_synapse_error (EventSizeError _) = True"
| "is_synapse_error (LimitExceededError _) = True"
| "is_synapse_error _ = False"

definition rbind :: "'a res \<Rightarrow> ('a \<Rightarrow> 'b res) \<Rightarrow> 'b res" where
  "rbind m f = (case m of Inl e \<Rightarrow> Inl e | Inr x \<Rightarrow> f x)"

text \<open>\<open>if c: raise e\<close> followed by the rest of the function.\<close>

definition raise_if :: "bool \<Rightarrow> exn \<Rightarrow> unit res" where
  "raise_if c e = (if c then Inl e else Inr ())"

fun mapM_res :: "('a \<Rightarrow> 'b res) \<Rightarrow> 'a list \<Rightarrow> 'b list res" where
  "mapM_res f [] = Inr []"
| "mapM_res f (x # xs) = rbind (f x) (\<lambda>y. rbind (mapM_res f xs) (\<lambda>ys. Inr (y # ys)))"

fun forM_res :: "('a \<Rightarrow> unit res) \<Rightarrow> 'a list \<Rightarrow> unit res" where
  "forM_res f [] = Inr ()"
| "forM_res f (x # xs) = rbind (f x) (\<lambda>_. forM_res f xs)"

fun foldM_res :: "('a \<Rightarrow> 's \<Rightarrow> 's res) \<Rightarrow> 'a list \<Rightarrow> 's \<Rightarrow> 's res" where
  "foldM_res f [] s = Inr s"
| "foldM_res f (x # xs) s = rbind (f x s) (foldM_res f xs)"

section \<open>Dictionaries\<close>

definition dget :: "('k \<times> 'v) list \<Rightarrow> 'k \<Rightarrow> 'v option" where
  "dget d k = map_of d k"

definition dhas :: "('k \<times> 'v) list \<Rightarrow> 'k \<Rightarrow> bool" where
  "dhas d k = (map_of d k \<noteq> None)"

text \<open>\<open>d[k] = v\<close>: in place when the key is present, at the end otherwise.\<close>

definition dset :: "('k \<times> 'v) list \<Rightarrow> 'k \<Rightarrow> 'v \<Rightarrow> ('k \<times> 'v) list" where
  "dset d k v = AList.update k v d"

text \<open>\<open>d[k]\<close>.\<close>

definition dindex :: "('k \<times> 'v) list \<Rightarrow> 'k \<Rightarrow> 'v res" where
  "dindex d k = (case map_of d k of None \<Rightarrow> Inl PyKeyError | Some v \<Rightarrow> Inr v)"

definition dget_default :: "('k \<times> 'v) list \<Rightarrow> 'k \<Rightarrow> 'v \<Rightarrow> 'v" where
  "dget_default d k v = (case map_of d k of None \<Rightarrow> v | Some w \<Rightarrow> w)"

text \<open>\<open>d.get(k, {})\<close> used as a dictionary afterwards: any other value has no such attribute.\<close>

definition dget_dict :: "jdict \<Rightarrow> string \<Rightarrow> jdict res" where
  "dget_dict d k = (case map_of d k of
      None \<Rightarrow> Inr []
    | Some (JObj o') \<Rightarrow> Inr o'
    | Some _ \<Rightarrow> Inl PyAttributeError)"

text \<open>\<open>d.get(k)\<close> is \<open>None\<close> both for a missing key and for a JSON null.\<close>

definition dget_none :: "jdict \<Rightarrow> string \<Rightarrow> json" where
  "dget_none d k = (case map_of d k of None \<Rightarrow> JNull | Some v \<Rightarrow> v)"

text \<open>\<open>v or {}\<close>, of which an attribute is taken.\<close>

definition or_obj :: "json \<Rightarrow> jdict res" where
  "or_obj v = (if \<not> py_truthy v then Inr [] else (case v of JObj d \<Rightarrow> Inr d | _ \<Rightarrow> Inl PyAttributeError))"

section \<open>Strings\<close>

definition split1 :: "char \<Rightarrow> string \<Rightarrow> string \<times> string option" where
  "split1 c s = (case dropWhile (\<lambda>x. x \<noteq> c) s of
      [] \<Rightarrow> (s, None)
    | _ # rest \<Rightarrow> (takeWhile (\<lambda>x. x \<noteq> c) s, Some rest))"

definition py_startswith :: "string \<Rightarrow> string \<Rightarrow> bool" where
  "py_startswith s p = (take (length p) s = p)"

definition py_endswith :: "string \<Rightarrow> string \<Rightarrow> bool" where
  "py_endswith s p = (length p \<le> length s \<and> drop (length s - length p) s = p)"

definition lstrip_at :: "string \<Rightarrow> string" where
  "lstrip_at s = dropWhile (\<lambda>x. x = CHR ''@'') s"

text \<open>The length in bytes of the UTF-8 encoding of a string of code points up to U+00FF.\<close>

definition utf8_len :: "string \<Rightarrow> nat" where
  "utf8_len s = (\<Sum>c\<leftarrow>s. if (of_char c :: nat) < 128 then 1 else 2)"

section \<open>\<open>int(...)\<close>\<close>

definition is_space :: "char \<Rightarrow> bool" where
  "is_space c = ((of_char c :: nat) \<in> {9, 10, 11, 12, 13, 28, 29, 30, 31, 32, 133, 160})"

definition is_digit :: "char \<Rightarrow> bool" where
  "is_digit c = (48 \<le> (of_char c :: nat) \<and> (of_char c :: nat) \<le> 57)"

definition digit_val :: "char \<Rightarrow> int" where
  "digit_val c = int (of_char c) - 48"

definition strip :: "string \<Rightarrow> string" where
  "strip s = rev (dropWhile is_space (rev (dropWhile is_space s)))"

text \<open>
  The digits of a decimal literal: single underscores may stand between two digits.
\<close>

fun digits_of :: "string \<Rightarrow> char list option" where
  "digits_of [] = None"
| "digits_of [c] = (if is_digit c then Some [c] else None)"
| "digits_of (c # d # cs) =
     (if \<not> is_digit c then None
      else if d = CHR ''_'' then map_option (\<lambda>ds. c # ds) (digits_of cs)
      else map_option (\<lambda>ds. c # ds) (digits_of (d # cs)))"

text \<open>More than 4300 digits are refused by the interpreter (\<open>sys.int_info\<close>).\<close>

definition nat_literal :: "string \<Rightarrow> int option" where
  "nat_literal s = (case digits_of s of
      None \<Rightarrow> None
    | Some ds \<Rightarrow> if 4300 < length ds then None
                else Some (foldl (\<lambda>n d. 10 * n + digit_val d) 0 ds))"

definition int_of_str :: "string \<Rightarrow> int res" where
  "int_of_str s = (let t = strip s in
     (case (case t of
          CHR ''-'' # u \<Rightarrow> map_option uminus (nat_literal u)
        | CHR ''+'' # u \<Rightarrow> nat_literal u
        | _ \<Rightarrow> nat_literal t) of
        None \<Rightarrow> Inl PyValueError
      | Some i \<Rightarrow> Inr i))"

text \<open>Truncation towards zero of a finite float.\<close>

definition trunc_rat :: "rat \<Rightarrow> int" where
  "trunc_rat r = (if r < 0 then - \<lfloor>- r\<rfloor> else \<lfloor>r\<rfloor>)"

fun py_int :: "json \<Rightarrow> int res" where
  "py_int (JInt i) = Inr i"
| "py_int (JBool b) = Inr (if b then 1 else 0)"
| "py_int (JFloat r) = Inr (trunc_rat r)"
| "py_int (JInf _) = Inl PyOverflowError"
| "py_int (JStr s) = int_of_str s"
| "py_int JNull = Inl PyTypeError"
| "py_int (JList _) = Inl PyTypeError"
| "py_int (JObj _) = Inl PyTypeError"

section \<open>Sets of JSON values\<close>

fun hashable :: "json \<Rightarrow> bool" where
  "hashable (JList _) = False"
| "hashable (JObj _) = False"
| "hashable _ = True"

text \<open>\<open>set(v)\<close>: a list of hashable values, the keys of a dictionary, the characters of a string.\<close>

fun py_set :: "json \<Rightarrow> json list res" where
  "py_set (JList xs) = (if list_all hashable xs then Inr xs else Inl PyTypeError)"
| "py_set (JObj d) = Inr (map (JStr \<circ> fst) d)"
| "py_set (JStr s) = Inr (map (\<lambda>c. JStr [c]) s)"
| "py_set _ = Inl PyTypeError"

text \<open>
  A JSON value as the second component of a \<open>(type, state_key)\<close> tuple: a string is a state key,
  an unhashable value raises, any other value is a key no state map holds.
\<close>

fun as_state_key :: "json \<Rightarrow> string option res" where
  "as_state_key (JStr s) = Inr (Some s)"
| "as_state_key (JList _) = Inl PyTypeError"
| "as_state_key (JObj _) = Inl PyTypeError"
| "as_state_key _ = Inr None"

section \<open>Lemmas\<close>

lemma rbind_simps [simp, res_simps]:
  "rbind (Inl e) f = Inl e"
  "rbind (Inr x) f = f x"
  by (simp_all add: rbind_def)

lemma rbind_Inr_iff [res_simps]:
  "rbind m f = Inr y \<longleftrightarrow> (\<exists>x. m = Inr x \<and> f x = Inr y)"
  by (cases m) simp_all

lemma rbind_Inl_iff [res_simps]:
  "rbind m f = Inl e \<longleftrightarrow> m = Inl e \<or> (\<exists>x. m = Inr x \<and> f x = Inl e)"
  by (cases m) auto

lemma rbind_cong [fundef_cong]:
  "m = m' \<Longrightarrow> (\<And>x. m' = Inr x \<Longrightarrow> f x = g x) \<Longrightarrow> rbind m f = rbind m' g"
  by (cases m') simp_all

text \<open>Congruences that let the simplifier rewrite inside branches.\<close>

lemmas branch_congs = rbind_cong option.case_cong if_cong sum.case_cong

lemma raise_if_Inr [simp, res_simps]: "raise_if c e = Inr u \<longleftrightarrow> \<not> c"
  by (simp add: raise_if_def)

lemma raise_if_Inl [simp, res_simps]: "raise_if c e = Inl e' \<longleftrightarrow> c \<and> e = e'"
  by (auto simp: raise_if_def)

lemma forM_res_Inr [res_simps]: "forM_res f xs = Inr u \<longleftrightarrow> (\<forall>x \<in> set xs. f x = Inr ())"
  by (induction xs) (auto simp: rbind_Inr_iff)

lemma forM_res_cong [fundef_cong]:
  "xs = ys \<Longrightarrow> (\<And>x. x \<in> set ys \<Longrightarrow> f x = g x) \<Longrightarrow> forM_res f xs = forM_res g ys"
  by (induction ys arbitrary: xs) (auto intro!: rbind_cong)

lemma mapM_res_Inr: "mapM_res f xs = Inr ys \<longleftrightarrow> list_all2 (\<lambda>x y. f x = Inr y) xs ys"
  by (induction xs arbitrary: ys) (auto simp: rbind_Inr_iff list_all2_Cons1)

lemma foldM_res_append:
  "foldM_res f (xs @ ys) s = rbind (foldM_res f xs s) (foldM_res f ys)"
proof (induction xs arbitrary: s)
  case (Cons x xs)
  then show ?case by (cases "f x s") simp_all
qed simp

lemma foldM_res_invariant:
  assumes "foldM_res f xs s = Inr t" and "P s"
    and "\<And>x s s'. x \<in> set xs \<Longrightarrow> P s \<Longrightarrow> f x s = Inr s' \<Longrightarrow> P s'"
  shows "P t"
  using assms by (induction xs arbitrary: s) (auto simp: rbind_Inr_iff)

lemma dget_dset: "dget (dset d k v) k' = (if k' = k then Some v else dget d k')"
  by (simp add: dget_def dset_def update_conv)

lemma map_of_dset [simp]: "map_of (dset d k v) = (map_of d)(k \<mapsto> v)"
  by (simp add: dset_def update_conv')

lemma distinct_keys_dset [simp]: "distinct (map fst d) \<Longrightarrow> distinct (map fst (dset d k v))"
  by (simp add: dset_def distinct_update)

lemma keys_dset: "fst ` set (dset d k v) = insert k (fst ` set d)"
  by (simp flip: dom_map_of_conv_image_fst)

lemma dset_fresh: "k \<notin> fst ` set d \<Longrightarrow> dset d k v = d @ [(k, v)]"
  unfolding dset_def by (induction d) auto

lemma dhas_iff: "dhas d k \<longleftrightarrow> k \<in> fst ` set d"
  by (metis dhas_def domIff dom_map_of_conv_image_fst)

lemma split1_None: "snd (split1 c s) = None \<longleftrightarrow> c \<notin> set s"
  by (auto simp: split1_def dropWhile_eq_Nil_conv split: list.splits)
    (metis (mono_tags, lifting) dropWhile_eq_Nil_conv list.distinct(1))

lemma split1_append:
  assumes "c \<notin> set a"
  shows "split1 c (a @ c # b) = (a, Some b)"
proof -
  have "dropWhile (\<lambda>x. x \<noteq> c) (a @ c # b) = c # b"
    using assms by (subst dropWhile_append2) auto
  moreover have "takeWhile (\<lambda>x. x \<noteq> c) (a @ c # b) = a"
    using assms by (subst takeWhile_append2) auto
  ultimately show ?thesis by (simp add: split1_def)
qed

lemma split1_Some:
  assumes "split1 c s = (a, Some b)"
  shows "s = a @ c # b" and "c \<notin> set a"
proof -
  from assms obtain x where dw: "dropWhile (\<lambda>x. x \<noteq> c) s = x # b"
    and tw: "takeWhile (\<lambda>x. x \<noteq> c) s = a"
    by (auto simp: split1_def split: list.splits)
  from dw have "x = c" using hd_dropWhile [of "\<lambda>x. x \<noteq> c" s] by simp
  with dw tw show "s = a @ c # b"
    using takeWhile_dropWhile_id [of "\<lambda>x. x \<noteq> c" s] by simp
  from tw show "c \<notin> set a" using set_takeWhileD by fastforce
qed

lemma py_endswith_append [simp]: "py_endswith (a @ b) b"
  by (simp add: py_endswith_def)

lemma py_endswith_iff: "py_endswith s p \<longleftrightarrow> (\<exists>a. s = a @ p)"
  by (metis append_take_drop_id py_endswith_append py_endswith_def)

lemma py_startswith_iff: "py_startswith s p \<longleftrightarrow> (\<exists>b. s = p @ b)"
  by (metis append_eq_conv_conj append_take_drop_id py_startswith_def)

end
