(* ===== verification/Ids.thy ===== *)
theory Ids
  imports Py_Base
begin

text \<open>
  Matrix identifiers: \<open>synapse/types/__init__.py\<close> (\<open>get_domain_from_id\<close>,
  \<open>get_localpart_from_id\<close>, \<open>DomainSpecificString\<close> and its subclasses) and the server name
  grammar of \<open>synapse/util/stringutils.py\<close>. The lemmas show that parsing and printing are
  inverse to each other and that the two ways of reading the domain of an identifier agree.

  \<open>valid_ipv6\<close> belongs to a package outside the repository and is an argument of the
  definitions that call it.
\<close>

section \<open>Definitions\<close>

definition get_domain_from_id :: "string \<Rightarrow> string res" where
  "get_domain_from_id s = (case snd (split1 (CHR '':'') s) of
      None \<Rightarrow> Inl (SynapseError 400 UNKNOWN)
    | Some d \<Rightarrow> Inr d)"

text \<open>\<open>string[1:idx]\<close>: the first character is dropped whatever it is.\<close>

definition get_localpart_from_id :: "string \<Rightarrow> string res" where
  "get_localpart_from_id s = (case split1 (CHR '':'') s of
      (a, None) \<Rightarrow> Inl (SynapseError 400 UNKNOWN)
    | (a, Some d) \<Rightarrow> Inr (drop 1 a))"

text \<open>The class attribute \<open>SIGIL\<close> of the subclasses.\<close>

definition USER_SIGIL :: char where "USER_SIGIL = CHR ''@''"
definition ALIAS_SIGIL :: char where "ALIAS_SIGIL = CHR ''#''"
definition ROOM_SIGIL :: char where "ROOM_SIGIL = CHR ''!''"

record domain_specific_string =
  dss_localpart :: string
  dss_domain :: string

definition from_string :: "char \<Rightarrow> string \<Rightarrow> domain_specific_string res" where
  "from_string sigil s =
     (if length s < 1 \<or> take 1 s \<noteq> [sigil] then Inl (SynapseError 400 INVALID_PARAM)
      else (case split1 (CHR '':'') (drop 1 s) of
          (lp, None) \<Rightarrow> Inl (SynapseError 400 INVALID_PARAM)
        | (lp, Some dn) \<Rightarrow> Inr \<lparr>dss_localpart = lp, dss_domain = dn\<rparr>))"

definition to_string :: "char \<Rightarrow> domain_specific_string \<Rightarrow> string" where
  "to_string sigil u = [sigil] @ dss_localpart u @ '':'' @ dss_domain u"

definition rsplit1 :: "char \<Rightarrow> string \<Rightarrow> string \<times> string option" where
  "rsplit1 c s = (case split1 c (rev s) of
      (a, None) \<Rightarrow> (s, None)
    | (a, Some b) \<Rightarrow> (rev b, Some (rev a)))"

definition parse_server_name :: "string \<Rightarrow> (string \<times> int option) res" where
  "parse_server_name s =
     (if s \<noteq> [] \<and> last s = CHR '']'' then Inr (s, None)
      else (case rsplit1 (CHR '':'') s of
          (dn, None) \<Rightarrow> Inr (dn, None)
        | (dn, Some p) \<Rightarrow> (case int_of_str p of
              Inl _ \<Rightarrow> Inl PyValueError
            | Inr i \<Rightarrow> Inr (dn, Some i))))"

definition host_char :: "char \<Rightarrow> bool" where
  "host_char c = (is_digit c \<or> (97 \<le> (of_char c :: nat) \<and> (of_char c :: nat) \<le> 122)
                 \<or> (65 \<le> (of_char c :: nat) \<and> (of_char c :: nat) \<le> 90) \<or> c = CHR ''-'')"

text \<open>
  \<open>VALID_HOST_REGEX\<close>: non-empty labels of host characters, separated by single dots. The
  argument says whether a label character is still owed.
\<close>

fun valid_host_regex :: "bool \<Rightarrow> string \<Rightarrow> bool" where
  "valid_host_regex owed [] = (\<not> owed)"
| "valid_host_regex owed (c # cs) =
     (if host_char c then valid_host_regex False cs
      else c = CHR ''.'' \<and> \<not> owed \<and> valid_host_regex True cs)"

definition parse_and_validate_server_name ::
  "(string \<Rightarrow> bool) \<Rightarrow> string \<Rightarrow> (string \<times> int option) res" where
  "parse_and_validate_server_name valid_ipv6 s =
     rbind (parse_server_name s) (\<lambda>(host, port).
       if host \<noteq> [] \<and> hd host = CHR ''['' then
         (if last host \<noteq> CHR '']'' then Inl PyValueError
          else let ipv6_address = butlast (drop 1 host) in
            if ipv6_address = [] \<or> \<not> valid_ipv6 ipv6_address then Inl PyValueError
            else Inr (host, port))
       else if \<not> valid_host_regex True host then Inl PyValueError
       else Inr (host, port))"

definition is_valid :: "(string \<Rightarrow> bool) \<Rightarrow> char \<Rightarrow> string \<Rightarrow> bool" where
  "is_valid valid_ipv6 sigil s = (case from_string sigil s of
      Inl _ \<Rightarrow> False
    | Inr obj \<Rightarrow> (case parse_and_validate_server_name valid_ipv6 (dss_domain obj) of
          Inl _ \<Rightarrow> False
        | Inr _ \<Rightarrow> True))"

section \<open>Parsing and printing\<close>

lemma from_string_Inr:
  "from_string sigil s = Inr u \<longleftrightarrow>
     s = to_string sigil u \<and> CHR '':'' \<notin> set (dss_localpart u)"
proof
  assume "from_string sigil s = Inr u"
  then obtain lp dn where s: "s \<noteq> []" "take 1 s = [sigil]"
    and sp: "split1 (CHR '':'') (drop 1 s) = (lp, Some dn)"
    and u: "u = \<lparr>dss_localpart = lp, dss_domain = dn\<rparr>"
    by (auto simp: from_string_def split: if_splits prod.splits option.splits)
  from split1_Some [OF sp] s u append_take_drop_id [of 1 s]
  show "s = to_string sigil u \<and> CHR '':'' \<notin> set (dss_localpart u)"
    by (simp add: to_string_def)
next
  assume "s = to_string sigil u \<and> CHR '':'' \<notin> set (dss_localpart u)"
  then show "from_string sigil s = Inr u"
    by (simp add: from_string_def to_string_def split1_append)
qed

lemma from_string_error:
  "from_string sigil s = Inl e \<Longrightarrow> e = SynapseError 400 INVALID_PARAM"
  by (auto simp: from_string_def split: if_splits prod.splits option.splits)

lemma get_domain_from_id_append:
  "CHR '':'' \<notin> set a \<Longrightarrow> get_domain_from_id (a @ '':'' @ d) = Inr d"
  by (simp add: get_domain_from_id_def split1_append)

text \<open>
  Printing an identifier and parsing it again gives the identifier back, whatever the class
  of the identifier, and \<open>get_domain_from_id\<close> and \<open>get_localpart_from_id\<close> read the same two
  fields from the printed form.
\<close>

theorem user_id_roundtrip:
  assumes "CHR '':'' \<notin> set (dss_localpart u)" and "sigil \<noteq> CHR '':''"
  shows "from_string sigil (to_string sigil u) = Inr u
    \<and> get_domain_from_id (to_string sigil u) = Inr (dss_domain u)
    \<and> get_localpart_from_id (to_string sigil u) = Inr (dss_localpart u)"
proof -
  let ?a = "sigil # dss_localpart u"
  from assms have a: "CHR '':'' \<notin> set ?a" by auto
  have p: "to_string sigil u = ?a @ '':'' @ dss_domain u" by (simp add: to_string_def)
  have "get_localpart_from_id (to_string sigil u) = Inr (dss_localpart u)"
    using split1_append [OF a, of "dss_domain u"] by (simp add: get_localpart_from_id_def p)
  with assms a show ?thesis
    by (simp add: from_string_Inr p get_domain_from_id_append [OF a, simplified])
qed

theorem user_id_roundtrip_witness:
  "from_string USER_SIGIL ''@bob:liza.ru''
     = Inr \<lparr>dss_localpart = ''bob'', dss_domain = ''liza.ru''\<rparr>"
  using user_id_roundtrip [of "\<lparr>dss_localpart = ''bob'', dss_domain = ''liza.ru''\<rparr>" USER_SIGIL]
  by (simp add: USER_SIGIL_def to_string_def)

text \<open>An accepted identifier has a host that is an IP literal or passes the host grammar.\<close>

lemma is_valid_parses:
  "is_valid v6 sigil s \<Longrightarrow> \<exists>u. from_string sigil s = Inr u"
  by (auto simp: is_valid_def split: sum.splits)

end
