(* ===== verification/Events.thy ===== *)
theory Events
  imports Ids
begin

text \<open>
  The data every component of the homeserver shares: the constants of \<open>synapse/api/constants.py\<close>,
  the room version flags (\<open>RoomVersion\<close>, declared in \<open>rust/src/room_versions.rs\<close> and typed in
  \<open>synapse/synapse_rust/room_versions.pyi\<close>), and events (\<open>synapse/events/__init__.py\<close>).

  An \<open>event\<close> record holds what the accessors of \<open>EventBase\<close> return; \<open>ev_state_key\<close> is
  \<open>None\<close> for an event that is not a state event, where the attribute access of the source
  raises \<open>AttributeError\<close> (\<open>state_key_of\<close>).
\<close>

section \<open>Constants\<close>

definition EventTypes_Member :: string where "EventTypes_Member = ''m.room.member''"
definition EventTypes_Create :: string where "EventTypes_Create = ''m.room.create''"
definition EventTypes_JoinRules :: string where "EventTypes_JoinRules = ''m.room.join_rules''"
definition EventTypes_PowerLevels :: string where "EventTypes_PowerLevels = ''m.room.power_levels''"
definition EventTypes_Aliases :: string where "EventTypes_Aliases = ''m.room.aliases''"
definition EventTypes_Redaction :: string where "EventTypes_Redaction = ''m.room.redaction''"
definition EventTypes_RoomHistoryVisibility :: string where
  "EventTypes_RoomHistoryVisibility = ''m.room.history_visibility''"
definition EventTypes_ThirdPartyInvite :: string where
  "EventTypes_ThirdPartyInvite = ''m.room.third_party_invite''"

definition Membership_INVITE :: string where "Membership_INVITE = ''invite''"
definition Membership_JOIN :: string where "Membership_JOIN = ''join''"
definition Membership_KNOCK :: string where "Membership_KNOCK = ''knock''"
definition Membership_LEAVE :: string where "Membership_LEAVE = ''leave''"
definition Membership_BAN :: string where "Membership_BAN = ''ban''"

definition JoinRules_PUBLIC :: string where "JoinRules_PUBLIC = ''public''"
definition JoinRules_KNOCK :: string where "JoinRules_KNOCK = ''knock''"
definition JoinRules_INVITE :: string where "JoinRules_INVITE = ''invite''"
definition JoinRules_RESTRICTED :: string where "JoinRules_RESTRICTED = ''restricted''"
definition JoinRules_KNOCK_RESTRICTED :: string where
  "JoinRules_KNOCK_RESTRICTED = ''knock_restricted''"

definition FEDERATE :: string where "FEDERATE = ''m.federate''"
definition ROOM_CREATOR :: string where "ROOM_CREATOR = ''creator''"
definition ADDITIONAL_CREATORS :: string where "ADDITIONAL_CREATORS = ''additional_creators''"
definition AUTHORISING_USER :: string where
  "AUTHORISING_USER = ''join_authorised_via_users_server''"

definition MAX_PDU_SIZE :: nat where "MAX_PDU_SIZE = 65536"
definition CREATOR_POWER_LEVEL :: int where "CREATOR_POWER_LEVEL = 2 ^ 53"

section \<open>Room versions\<close>

datatype event_format = ROOM_V1_V2 | ROOM_V3 | ROOM_V4_PLUS | ROOM_V11_HYDRA_PLUS
datatype state_res_version = SR_V1 | SR_V2 | SR_V2_1

record room_version =
  rv_identifier :: string
  event_format :: event_format
  state_res :: state_res_version
  special_case_aliases_auth :: bool
  limit_notifications_power_levels :: bool
  implicit_room_creator :: bool
  updated_redaction_rules :: bool
  restricted_join_rule :: bool
  restricted_join_rule_fix :: bool
  knock_join_rule :: bool
  msc3389_relation_redactions :: bool
  knock_restricted_join_rule :: bool
  enforce_int_power_levels :: bool
  msc3757_enabled :: bool
  msc4289_creator_power_enabled :: bool
  msc4291_room_ids_as_hashes :: bool
  strict_event_byte_limits :: bool
  strict_canonicaljson :: bool
  msc3931_push_features :: "string list"

definition ROOM_VERSION_V1 :: room_version where
  "ROOM_VERSION_V1 = \<lparr>rv_identifier = ''1'', event_format = ROOM_V1_V2, state_res = SR_V1,
     special_case_aliases_auth = True, limit_notifications_power_levels = False,
     implicit_room_creator = False, updated_redaction_rules = False,
     restricted_join_rule = False, restricted_join_rule_fix = False, knock_join_rule = False,
     msc3389_relation_redactions = False, knock_restricted_join_rule = False,
     enforce_int_power_levels = False, msc3757_enabled = False,
     msc4289_creator_power_enabled = False, msc4291_room_ids_as_hashes = False,
     strict_event_byte_limits = False, strict_canonicaljson = False, msc3931_push_features = []\<rparr>"

definition ROOM_VERSION_V2 :: room_version where
  "ROOM_VERSION_V2 = ROOM_VERSION_V1\<lparr>rv_identifier := ''2'', state_res := SR_V2\<rparr>"

definition ROOM_VERSION_V3 :: room_version where
  "ROOM_VERSION_V3 = ROOM_VERSION_V2\<lparr>rv_identifier := ''3'', event_format := ROOM_V3\<rparr>"

definition ROOM_VERSION_V4 :: room_version where
  "ROOM_VERSION_V4 = ROOM_VERSION_V3\<lparr>rv_identifier := ''4'', event_format := ROOM_V4_PLUS\<rparr>"

definition ROOM_VERSION_V5 :: room_version where
  "ROOM_VERSION_V5 = ROOM_VERSION_V4\<lparr>rv_identifier := ''5''\<rparr>"

definition ROOM_VERSION_V6 :: room_version where
  "ROOM_VERSION_V6 = ROOM_VERSION_V5\<lparr>rv_identifier := ''6'', special_case_aliases_auth := False,
     limit_notifications_power_levels := True, strict_canonicaljson := True\<rparr>"

definition ROOM_VERSION_V7 :: room_version where
  "ROOM_VERSION_V7 = ROOM_VERSION_V6\<lparr>rv_identifier := ''7'', knock_join_rule := True\<rparr>"

definition ROOM_VERSION_V8 :: room_version where
  "ROOM_VERSION_V8 = ROOM_VERSION_V7\<lparr>rv_identifier := ''8'', restricted_join_rule := True\<rparr>"

definition ROOM_VERSION_V9 :: room_version where
  "ROOM_VERSION_V9 = ROOM_VERSION_V8\<lparr>rv_identifier := ''9'', restricted_join_rule_fix := True\<rparr>"

definition ROOM_VERSION_V10 :: room_version where
  "ROOM_VERSION_V10 = ROOM_VERSION_V9\<lparr>rv_identifier := ''10'', knock_restricted_join_rule := True,
     enforce_int_power_levels := True\<rparr>"

definition ROOM_VERSION_MSC3757V10 :: room_version where
  "ROOM_VERSION_MSC3757V10 =
     ROOM_VERSION_V10\<lparr>rv_identifier := ''org.matrix.msc3757.10'', msc3757_enabled := True\<rparr>"

definition ROOM_VERSION_V11 :: room_version where
  "ROOM_VERSION_V11 = ROOM_VERSION_V10\<lparr>rv_identifier := ''11'', implicit_room_creator := True,
     updated_redaction_rules := True, strict_event_byte_limits := True\<rparr>"

definition ROOM_VERSION_MSC3757V11 :: room_version where
  "ROOM_VERSION_MSC3757V11 =
     ROOM_VERSION_V11\<lparr>rv_identifier := ''org.matrix.msc3757.11'', msc3757_enabled := True\<rparr>"

definition ROOM_VERSION_HYDRA_V11 :: room_version where
  "ROOM_VERSION_HYDRA_V11 = ROOM_VERSION_V11\<lparr>rv_identifier := ''org.matrix.hydra.11'',
     event_format := ROOM_V11_HYDRA_PLUS, state_res := SR_V2_1,
     msc4289_creator_power_enabled := True, msc4291_room_ids_as_hashes := True\<rparr>"

definition ROOM_VERSION_V12 :: room_version where
  "ROOM_VERSION_V12 = ROOM_VERSION_HYDRA_V11\<lparr>rv_identifier := ''12''\<rparr>"

definition KNOWN_ROOM_VERSIONS :: "room_version list" where
  "KNOWN_ROOM_VERSIONS = [ROOM_VERSION_V1, ROOM_VERSION_V2, ROOM_VERSION_V3, ROOM_VERSION_V4,
     ROOM_VERSION_V5, ROOM_VERSION_V6, ROOM_VERSION_V7, ROOM_VERSION_V8, ROOM_VERSION_V9,
     ROOM_VERSION_V10, ROOM_VERSION_V11, ROOM_VERSION_V12, ROOM_VERSION_MSC3757V10,
     ROOM_VERSION_MSC3757V11, ROOM_VERSION_HYDRA_V11]"

text \<open>\<open>__contains__\<close> of \<open>KnownRoomVersionsMapping\<close>: a key that is not a string is not known.\<close>

fun is_known_room_version :: "json \<Rightarrow> bool" where
  "is_known_room_version (JStr s) = (s \<in> set (map rv_identifier KNOWN_ROOM_VERSIONS))"
| "is_known_room_version _ = False"

section \<open>Events\<close>

record event =
  ev_event_id :: string
  ev_type :: string
  ev_state_key :: "string option"
  ev_sender :: string
  ev_room_id :: string
  ev_has_room_id :: bool
  ev_content :: jdict
  ev_prev_event_ids :: "string list"
  ev_auth_event_ids :: "string list"
  ev_depth :: int
  ev_origin_server_ts :: int
  ev_rejected_reason :: "string option"
  ev_room_version :: room_version
  ev_redacts_field :: json
  ev_signatures :: jdict

type_synonym state_key = "string \<times> string"
type_synonym auth_map = "state_key \<rightharpoonup> event"

definition CREATE_KEY :: state_key where "CREATE_KEY = (EventTypes_Create, '''')"
definition POWER_KEY :: state_key where "POWER_KEY = (EventTypes_PowerLevels, '''')"
definition JOIN_RULES_KEY :: state_key where "JOIN_RULES_KEY = (EventTypes_JoinRules, '''')"

text \<open>The attribute access \<open>event.state_key\<close>.\<close>

definition state_key_of :: "event \<Rightarrow> string res" where
  "state_key_of e = (case ev_state_key e of None \<Rightarrow> Inl PyAttributeError | Some k \<Rightarrow> Inr k)"

definition is_state :: "event \<Rightarrow> bool" where
  "is_state e = (ev_state_key e \<noteq> None)"

text \<open>The property \<open>membership\<close>: \<open>self.content["membership"]\<close>.\<close>

definition membership_of :: "event \<Rightarrow> json res" where
  "membership_of e = dindex (ev_content e) ''membership''"

text \<open>The property \<open>redacts\<close>.\<close>

definition redacts_of :: "event \<Rightarrow> json" where
  "redacts_of e = (if updated_redaction_rules (ev_room_version e)
                   then dget_none (ev_content e) ''redacts'' else ev_redacts_field e)"

definition is_creator :: "event \<Rightarrow> string \<Rightarrow> bool res" where
  "is_creator create user_id =
     (if ev_type create \<noteq> EventTypes_Create then Inl PyAssertionError
      else if ev_sender create = user_id then Inr True
      else if msc4289_creator_power_enabled (ev_room_version create) then
        rbind (py_set (dget_default (ev_content create) ADDITIONAL_CREATORS (JList [])))
          (\<lambda>additional. Inr (JStr user_id \<in> set additional))
      else Inr False)"

text \<open>
  A sample room of version 10, for the concrete instances at the end of the theories: the
  creation event, its creator at level 100 and a second member at level 0.
\<close>

definition sample_event ::
  "string \<Rightarrow> string \<Rightarrow> string option \<Rightarrow> string \<Rightarrow> jdict \<Rightarrow> string list \<Rightarrow> event" where
  "sample_event eid ty sk sndr c auth = \<lparr>ev_event_id = eid, ev_type = ty, ev_state_key = sk,
     ev_sender = sndr, ev_room_id = ''!r:s'', ev_has_room_id = True, ev_content = c,
     ev_prev_event_ids = [''$p'', ''$q''], ev_auth_event_ids = auth, ev_depth = 5,
     ev_origin_server_ts = 1000, ev_rejected_reason = None, ev_room_version = ROOM_VERSION_V10,
     ev_redacts_field = JNull, ev_signatures = []\<rparr>"

definition sample_create :: event where
  "sample_create = sample_event ''$c'' EventTypes_Create (Some []) ''@a:s''
     [(''creator'', JStr ''@a:s''), (''room_version'', JStr ''10'')] []"

definition sample_power :: event where
  "sample_power = sample_event ''$pl'' EventTypes_PowerLevels (Some []) ''@a:s''
     [(''users'', JObj [(''@a:s'', JInt 100)])] [''$c'', ''$ja'']"

definition sample_member :: "string \<Rightarrow> string \<Rightarrow> string \<Rightarrow> string \<Rightarrow> event" where
  "sample_member eid sndr target ms = sample_event eid EventTypes_Member (Some target) sndr
     [(''membership'', JStr ms)] [''$c'']"

definition sample_state :: auth_map where
  "sample_state = [CREATE_KEY \<mapsto> sample_create, POWER_KEY \<mapsto> sample_power,
     (EventTypes_Member, ''@a:s'') \<mapsto> sample_member ''$ja'' ''@a:s'' ''@a:s'' ''join'',
     (EventTypes_Member, ''@b:s'') \<mapsto> sample_member ''$jb'' ''@b:s'' ''@b:s'' ''join'']"

lemmas sample_defs = sample_event_def sample_create_def sample_power_def sample_member_def
  sample_state_def

section \<open>Facts the components share\<close>

lemmas event_type_defs =
  EventTypes_Member_def EventTypes_Create_def EventTypes_JoinRules_def EventTypes_PowerLevels_def
  EventTypes_Aliases_def EventTypes_Redaction_def EventTypes_RoomHistoryVisibility_def
  EventTypes_ThirdPartyInvite_def

lemmas membership_defs =
  Membership_INVITE_def Membership_JOIN_def Membership_KNOCK_def Membership_LEAVE_def
  Membership_BAN_def

lemmas join_rule_defs =
  JoinRules_PUBLIC_def JoinRules_KNOCK_def JoinRules_INVITE_def JoinRules_RESTRICTED_def
  JoinRules_KNOCK_RESTRICTED_def

lemmas content_field_defs = FEDERATE_def ROOM_CREATOR_def ADDITIONAL_CREATORS_def AUTHORISING_USER_def

lemmas room_version_defs =
  ROOM_VERSION_V1_def ROOM_VERSION_V2_def ROOM_VERSION_V3_def ROOM_VERSION_V4_def
  ROOM_VERSION_V5_def ROOM_VERSION_V6_def ROOM_VERSION_V7_def ROOM_VERSION_V8_def
  ROOM_VERSION_V9_def ROOM_VERSION_V10_def ROOM_VERSION_MSC3757V10_def ROOM_VERSION_V11_def
  ROOM_VERSION_MSC3757V11_def ROOM_VERSION_HYDRA_V11_def ROOM_VERSION_V12_def

lemma event_types_distinct:
  "distinct [EventTypes_Member, EventTypes_Create, EventTypes_JoinRules, EventTypes_PowerLevels,
     EventTypes_Aliases, EventTypes_Redaction, EventTypes_ThirdPartyInvite]"
  by (simp add: event_type_defs)

lemma memberships_distinct:
  "distinct [Membership_INVITE, Membership_JOIN, Membership_KNOCK, Membership_LEAVE,
     Membership_BAN]"
  by (simp add: membership_defs)

lemma event_types_neq [simp]:
  "EventTypes_Member \<noteq> EventTypes_Create" "EventTypes_Create \<noteq> EventTypes_Member"
  "EventTypes_Member \<noteq> EventTypes_JoinRules" "EventTypes_JoinRules \<noteq> EventTypes_Member"
  "EventTypes_Member \<noteq> EventTypes_PowerLevels" "EventTypes_PowerLevels \<noteq> EventTypes_Member"
  "EventTypes_Member \<noteq> EventTypes_ThirdPartyInvite"
  "EventTypes_ThirdPartyInvite \<noteq> EventTypes_Member"
  "EventTypes_Create \<noteq> EventTypes_PowerLevels" "EventTypes_PowerLevels \<noteq> EventTypes_Create"
  "EventTypes_Create \<noteq> EventTypes_JoinRules" "EventTypes_JoinRules \<noteq> EventTypes_Create"
  "EventTypes_PowerLevels \<noteq> EventTypes_JoinRules" "EventTypes_JoinRules \<noteq> EventTypes_PowerLevels"
  "EventTypes_PowerLevels \<noteq> EventTypes_ThirdPartyInvite"
  "EventTypes_ThirdPartyInvite \<noteq> EventTypes_PowerLevels"
  "EventTypes_PowerLevels \<noteq> EventTypes_Aliases" "EventTypes_Aliases \<noteq> EventTypes_PowerLevels"
  "EventTypes_PowerLevels \<noteq> EventTypes_Redaction" "EventTypes_Redaction \<noteq> EventTypes_PowerLevels"
  "EventTypes_Member \<noteq> EventTypes_Aliases" "EventTypes_Aliases \<noteq> EventTypes_Member"
  using event_types_distinct by auto

lemma memberships_neq [simp]:
  "Membership_INVITE \<noteq> Membership_JOIN" "Membership_JOIN \<noteq> Membership_INVITE"
  "Membership_INVITE \<noteq> Membership_KNOCK" "Membership_KNOCK \<noteq> Membership_INVITE"
  "Membership_INVITE \<noteq> Membership_LEAVE" "Membership_LEAVE \<noteq> Membership_INVITE"
  "Membership_INVITE \<noteq> Membership_BAN" "Membership_BAN \<noteq> Membership_INVITE"
  "Membership_JOIN \<noteq> Membership_KNOCK" "Membership_KNOCK \<noteq> Membership_JOIN"
  "Membership_JOIN \<noteq> Membership_LEAVE" "Membership_LEAVE \<noteq> Membership_JOIN"
  "Membership_JOIN \<noteq> Membership_BAN" "Membership_BAN \<noteq> Membership_JOIN"
  "Membership_KNOCK \<noteq> Membership_LEAVE" "Membership_LEAVE \<noteq> Membership_KNOCK"
  "Membership_KNOCK \<noteq> Membership_BAN" "Membership_BAN \<noteq> Membership_KNOCK"
  "Membership_LEAVE \<noteq> Membership_BAN" "Membership_BAN \<noteq> Membership_LEAVE"
  using memberships_distinct by auto

text \<open>
  No known room version has the join rule \<open>knock_restricted\<close> without \<open>restricted\<close>: the auth
  event selection relies on it.
\<close>

lemma known_room_versions_wf:
  "rv \<in> set KNOWN_ROOM_VERSIONS \<Longrightarrow> knock_restricted_join_rule rv \<Longrightarrow> restricted_join_rule rv"
  by (auto simp: KNOWN_ROOM_VERSIONS_def room_version_defs)

lemma known_room_versions_knock:
  "rv \<in> set KNOWN_ROOM_VERSIONS \<Longrightarrow> knock_restricted_join_rule rv \<Longrightarrow> knock_join_rule rv"
  by (auto simp: KNOWN_ROOM_VERSIONS_def room_version_defs)

end
