(* ===== verification/Event_Auth.thy ===== *)
theory Event_Auth
  imports Events
begin

text \<open>
  The authorisation rules of \<open>synapse/event_auth.py\<close>, function by function and in the order of
  the file. A function that raises returns \<open>Inl\<close> of the exception; the two top-level checks
  return \<open>Inr ()\<close> where the source returns without raising.

  Code outside the repository is the argument \<open>x :: ext\<close>: the signature check of the
  \<open>signedjson\<close> package (decoding of the key included), the IPv6 parser used by \<open>UserID.is_valid\<close>
  and the length of the canonical JSON encoding. \<open>store\<close> is the lookup by
  \<open>store.get_events(..., allow_rejected=True)\<close>.

  Where the source iterates over a set, the order of the list that builds the set is used; it
  decides which of several errors is reported, never whether the event is accepted.
\<close>

record ext =
  ext_valid_ipv6 :: "string \<Rightarrow> bool"
  ext_verify_signed :: "string \<Rightarrow> json \<Rightarrow> json \<Rightarrow> string \<Rightarrow> unit res"
  ext_canonical_len :: "event \<Rightarrow> nat"

abbreviation forbidden :: "'a res" where
  "forbidden \<equiv> Inl (AuthError 403 FORBIDDEN)"

section \<open>Power levels\<close>

definition get_power_level_event :: "auth_map \<Rightarrow> event option" where
  "get_power_level_event auth_events = auth_events POWER_KEY"

definition get_user_power_level :: "string \<Rightarrow> auth_map \<Rightarrow> int res" where
  "get_user_power_level user_id auth_events =
     (case auth_events CREATE_KEY of
        None \<Rightarrow> Inl PyAssertionError
      | Some create_event \<Rightarrow>
          rbind (if msc4289_creator_power_enabled (ev_room_version create_event)
                 then is_creator create_event user_id else Inr False) (\<lambda>creator.
          if creator then Inr CREATOR_POWER_LEVEL
          else (case get_power_level_event auth_events of
              Some power_level_event \<Rightarrow>
                rbind (dget_dict (ev_content power_level_event) ''users'') (\<lambda>users.
                let level = dget_none users user_id;
                    level = (if level = JNull
                             then dget_default (ev_content power_level_event) ''users_default'' (JInt 0)
                             else level)
                in if level = JNull then Inr 0 else py_int level)
            | None \<Rightarrow>
                rbind (if implicit_room_creator (ev_room_version create_event)
                       then Inr (JStr (ev_sender create_event))
                       else dindex (ev_content create_event) ROOM_CREATOR) (\<lambda>creator.
                Inr (if creator = JStr user_id then 100 else 0)))))"

definition get_named_level :: "auth_map \<Rightarrow> string \<Rightarrow> int \<Rightarrow> int res" where
  "get_named_level auth_events name dflt =
     (case get_power_level_event auth_events of
        None \<Rightarrow> Inr dflt
      | Some power_level_event \<Rightarrow>
          (let level = dget_none (ev_content power_level_event) name
           in if level \<noteq> JNull then py_int level else Inr dflt))"

definition get_send_level :: "string \<Rightarrow> string option \<Rightarrow> event option \<Rightarrow> int res" where
  "get_send_level etype state_key power_levels_event =
     (let power_levels_content = (case power_levels_event of Some e \<Rightarrow> ev_content e | None \<Rightarrow> [])
      in rbind (dget_dict power_levels_content ''events'') (\<lambda>events.
         let send_level = dget_none events etype
         in if send_level = JNull then
              (if state_key \<noteq> None
               then py_int (dget_default power_levels_content ''state_default'' (JInt 50))
               else py_int (dget_default power_levels_content ''events_default'' (JInt 0)))
            else py_int send_level))"

section \<open>Event format and size\<close>

definition check_size_limits :: "ext \<Rightarrow> event \<Rightarrow> unit res" where
  "check_size_limits x event =
     (let strict = strict_event_byte_limits (ev_room_version event) in
      if ext_canonical_len x event > MAX_PDU_SIZE then Inl (EventSizeError True)
      else if length (ev_sender event) > 255 then Inl (EventSizeError True)
      else if length (ev_room_id event) > 255 then Inl (EventSizeError True)
      else if (case ev_state_key event of Some k \<Rightarrow> length k > 255 | None \<Rightarrow> False) then Inl (EventSizeError True)
      else if length (ev_type event) > 255 then Inl (EventSizeError True)
      else if length (ev_event_id event) > 255 then Inl (EventSizeError True)
      else if utf8_len (ev_sender event) > 255 then Inl (EventSizeError strict)
      else if utf8_len (ev_room_id event) > 255 then Inl (EventSizeError strict)
      else if (case ev_state_key event of Some k \<Rightarrow> utf8_len k > 255 | None \<Rightarrow> False) then Inl (EventSizeError strict)
      else if utf8_len (ev_type event) > 255 then Inl (EventSizeError strict)
      else if utf8_len (ev_event_id event) > 255 then Inl (EventSizeError strict)
      else Inr ())"

text \<open>\<open>event.signatures.get(domain)\<close> is truthy.\<close>

definition signed_by :: "event \<Rightarrow> string \<Rightarrow> bool" where
  "signed_by event sdomain = py_truthy (dget_none (ev_signatures event) sdomain)"

text \<open>\<open>get_domain_from_id\<close> applied to a JSON value: only a string has the method \<open>find\<close>.\<close>

fun get_domain_from_json :: "json \<Rightarrow> string res" where
  "get_domain_from_json (JStr s) = get_domain_from_id s"
| "get_domain_from_json _ = Inl PyAttributeError"

text \<open>The test \<open>event.type == Member and event.membership == m and key in event.content\<close>.\<close>

definition member_with :: "event \<Rightarrow> string \<Rightarrow> string \<Rightarrow> bool res" where
  "member_with event m key =
     (if ev_type event \<noteq> EventTypes_Member then Inr False
      else rbind (membership_of event) (\<lambda>ms. Inr (ms = JStr m \<and> dhas (ev_content event) key)))"

definition validate_event_for_room_version :: "ext \<Rightarrow> event \<Rightarrow> unit res" where
  "validate_event_for_room_version x event =
     rbind (check_size_limits x event) (\<lambda>_.
     rbind (get_domain_from_id (ev_sender event)) (\<lambda>sender_domain.
     rbind (member_with event Membership_INVITE ''third_party_invite'') (\<lambda>is_invite_via_3pid.
     rbind (raise_if (\<not> signed_by event sender_domain \<and> \<not> is_invite_via_3pid)
              (AuthError 403 FORBIDDEN)) (\<lambda>_.
     rbind (if event_format (ev_room_version event) = ROOM_V1_V2 then
              rbind (get_domain_from_id (ev_event_id event)) (\<lambda>event_id_domain.
                raise_if (\<not> signed_by event event_id_domain) (AuthError 403 FORBIDDEN))
            else Inr ()) (\<lambda>_.
     rbind (if restricted_join_rule (ev_room_version event)
            then member_with event Membership_JOIN AUTHORISING_USER else Inr False)
       (\<lambda>is_invite_via_allow_rule.
       if is_invite_via_allow_rule then
         rbind (dindex (ev_content event) AUTHORISING_USER) (\<lambda>u.
         rbind (get_domain_from_json u) (\<lambda>authoriser_domain.
           raise_if (\<not> signed_by event authoriser_domain) (AuthError 403 FORBIDDEN)))
       else Inr ()))))))"

section \<open>Creation events\<close>

definition check_valid_additional_creators :: "ext \<Rightarrow> json \<Rightarrow> unit res" where
  "check_valid_additional_creators x v = (case v of
      JList entries \<Rightarrow> forM_res (\<lambda>entry. (case entry of
          JStr s \<Rightarrow>
            if \<not> is_valid (ext_valid_ipv6 x) USER_SIGIL s then Inl (AuthError 400 FORBIDDEN)
            else raise_if (length s > 255 \<or> utf8_len s > 255) (AuthError 400 FORBIDDEN)
        | _ \<Rightarrow> Inl (AuthError 400 FORBIDDEN))) entries
    | _ \<Rightarrow> Inl (AuthError 400 FORBIDDEN))"

definition check_create :: "ext \<Rightarrow> event \<Rightarrow> unit res" where
  "check_create x event = (let rv = ev_room_version event in
     if ev_type event \<noteq> EventTypes_Create then Inl PyAssertionError
     else if ev_prev_event_ids event \<noteq> [] then forbidden
     else rbind (if msc4291_room_ids_as_hashes rv
                 then raise_if (ev_has_room_id event) (AuthError 403 FORBIDDEN)
                 else rbind (get_domain_from_id (ev_sender event)) (\<lambda>sender_domain.
                      rbind (get_domain_from_id (ev_room_id event)) (\<lambda>room_id_domain.
                      raise_if (room_id_domain \<noteq> sender_domain) (AuthError 403 FORBIDDEN)))) (\<lambda>_.
     if \<not> is_known_room_version (dget_default (ev_content event) ''room_version'' (JStr ''1''))
     then forbidden
     else if \<not> implicit_room_creator rv \<and> \<not> dhas (ev_content event) ROOM_CREATOR
     then forbidden
     else if msc4289_creator_power_enabled rv \<and> dhas (ev_content event) ADDITIONAL_CREATORS
     then check_valid_additional_creators x
            (dget_none (ev_content event) ADDITIONAL_CREATORS)
     else Inr ()))"

definition can_federate :: "auth_map \<Rightarrow> bool" where
  "can_federate auth_events = (case auth_events CREATE_KEY of
      None \<Rightarrow> False
    | Some creation_event \<Rightarrow>
        dget_default (ev_content creation_event) FEDERATE (JBool True) = JBool True)"

section \<open>Third-party invites\<close>

definition get_public_keys :: "event \<Rightarrow> json list res" where
  "get_public_keys invite_event = (let c = ev_content invite_event;
       public_keys = (case dget c ''public_key'' of
           None \<Rightarrow> []
         | Some k \<Rightarrow> [JObj ((''public_key'', k) # (case dget c ''key_validity_url'' of
                              None \<Rightarrow> [] | Some u \<Rightarrow> [(''key_validity_url'', u)]))])
     in (case dget_default c ''public_keys'' (JList []) of
          JList ks \<Rightarrow> Inr (public_keys @ ks)
        | JObj d \<Rightarrow> Inr (public_keys @ map (JStr \<circ> fst) d)
        | JStr s \<Rightarrow> Inr (public_keys @ map (\<lambda>ch. JStr [ch]) s)
        | _ \<Rightarrow> Inl PyTypeError))"

text \<open>\<open>v["k"]\<close> on a JSON value.\<close>

fun jindex :: "json \<Rightarrow> string \<Rightarrow> json res" where
  "jindex (JObj d) k = dindex d k"
| "jindex _ k = Inl PyTypeError"

text \<open>The two inner loops over the signatures, left at the first key that verifies.\<close>

fun verify_key_names :: "ext \<Rightarrow> json \<Rightarrow> json \<Rightarrow> string \<Rightarrow> string list \<Rightarrow> bool res" where
  "verify_key_names x public_key signed server [] = Inr False"
| "verify_key_names x public_key signed server (key_name # ks) =
     (if \<not> py_startswith key_name ''ed25519:''
      then verify_key_names x public_key signed server ks
      else rbind (ext_verify_signed x key_name public_key signed server) (\<lambda>_. Inr True))"

fun verify_servers :: "ext \<Rightarrow> json \<Rightarrow> json \<Rightarrow> (string \<times> json) list \<Rightarrow> bool res" where
  "verify_servers x public_key signed [] = Inr False"
| "verify_servers x public_key signed ((server, signature_block) # rest) =
     (case signature_block of
        JObj b \<Rightarrow> rbind (verify_key_names x public_key signed server (map fst b)) (\<lambda>found.
                   if found then Inr True else verify_servers x public_key signed rest)
      | _ \<Rightarrow> Inl PyAttributeError)"

text \<open>The body of the \<open>try\<close>: \<open>signed["signatures"].items()\<close> needs a dictionary.\<close>

definition verify_signatures :: "ext \<Rightarrow> json \<Rightarrow> json \<Rightarrow> json \<Rightarrow> bool res" where
  "verify_signatures x public_key signed signatures = (case signatures of
      JObj sigs \<Rightarrow> verify_servers x public_key signed sigs
    | _ \<Rightarrow> Inl PyAttributeError)"

fun verify_public_keys :: "ext \<Rightarrow> json \<Rightarrow> json \<Rightarrow> json list \<Rightarrow> bool res" where
  "verify_public_keys x signed signatures [] = Inr False"
| "verify_public_keys x signed signatures (public_key_object # rest) =
     rbind (jindex public_key_object ''public_key'') (\<lambda>public_key.
     (case verify_signatures x public_key signed signatures of
        Inr True \<Rightarrow> Inr True
      | Inr False \<Rightarrow> verify_public_keys x signed signatures rest
      | Inl e \<Rightarrow> if e = PyKeyError \<or> e = SignatureVerifyException
                 then verify_public_keys x signed signatures rest
                 else Inl e))"

definition verify_third_party_invite :: "ext \<Rightarrow> event \<Rightarrow> auth_map \<Rightarrow> bool res" where
  "verify_third_party_invite x event auth_events =
     (case dget (ev_content event) ''third_party_invite'' of
        Some (JObj third_party_invite) \<Rightarrow>
          (case dget third_party_invite ''signed'' of
             Some (JObj signed) \<Rightarrow>
               (case (dget signed ''mxid'', dget signed ''token'', dget signed ''signatures'') of
                  (Some mxid, Some token, Some signatures) \<Rightarrow>
                    rbind (as_state_key token) (\<lambda>tok.
                    (case (case tok of None \<Rightarrow> None
                           | Some t \<Rightarrow> auth_events (EventTypes_ThirdPartyInvite, t)) of
                       None \<Rightarrow> Inr False
                     | Some invite_event \<Rightarrow>
                         if ev_sender invite_event \<noteq> ev_sender event then Inr False
                         else rbind (state_key_of event) (\<lambda>state_key.
                           if mxid \<noteq> JStr state_key then Inr False
                           else rbind (get_public_keys invite_event)
                             (verify_public_keys x (JObj signed) signatures))))
                | _ \<Rightarrow> Inr False)
           | _ \<Rightarrow> Inr False)
      | _ \<Rightarrow> Inr False)"

section \<open>Membership changes\<close>

definition check_joined_room :: "event option \<Rightarrow> unit res" where
  "check_joined_room member = (case member of
      None \<Rightarrow> forbidden
    | Some m \<Rightarrow> rbind (membership_of m) (\<lambda>ms.
        raise_if (ms \<noteq> JStr Membership_JOIN) (AuthError 403 FORBIDDEN)))"

definition check_event_sender_in_room :: "event \<Rightarrow> auth_map \<Rightarrow> unit res" where
  "check_event_sender_in_room event auth_events =
     check_joined_room (auth_events (EventTypes_Member, ev_sender event))"

text \<open>The first test: the room creator joining right after the creation event.\<close>

definition is_creator_join :: "room_version \<Rightarrow> event \<Rightarrow> auth_map \<Rightarrow> json \<Rightarrow> bool res" where
  "is_creator_join room_version event auth_events membership =
     (case (ev_prev_event_ids event, auth_events CREATE_KEY) of
        ([prev], Some create) \<Rightarrow>
          if membership = JStr Membership_JOIN \<and> prev = ev_event_id create then
            rbind (if implicit_room_creator room_version then Inr (JStr (ev_sender create))
                   else dindex (ev_content create) ROOM_CREATOR) (\<lambda>creator.
            rbind (state_key_of event) (\<lambda>state_key. Inr (creator = JStr state_key)))
          else Inr False
      | _ \<Rightarrow> Inr False)"

text \<open>The local variables of \<open>_is_membership_change_allowed\<close> the rules read.\<close>

record member_facts =
  caller_in_room :: bool
  caller_invited :: bool
  caller_knocked :: bool
  target_in_room :: bool
  target_banned :: bool
  join_rule :: json
  user_level :: int
  target_level :: int
  invite_level :: int
  ban_level :: int

text \<open>The membership of an optional member event, as \<open>e and e.membership\<close> reads it.\<close>

definition opt_membership :: "event option \<Rightarrow> json option res" where
  "opt_membership e = (case e of None \<Rightarrow> Inr None
     | Some ev \<Rightarrow> rbind (membership_of ev) (\<lambda>m. Inr (Some m)))"

definition get_member_facts ::
  "room_version \<Rightarrow> event \<Rightarrow> string \<Rightarrow> auth_map \<Rightarrow> member_facts res" where
  "get_member_facts room_version event target_user_id auth_events =
     rbind (opt_membership (auth_events (EventTypes_Member, ev_sender event))) (\<lambda>caller.
     rbind (opt_membership (auth_events (EventTypes_Member, target_user_id))) (\<lambda>target.
     let jr = (case auth_events JOIN_RULES_KEY of
                 Some e \<Rightarrow> dget_default (ev_content e) ''join_rule'' (JStr JoinRules_INVITE)
               | None \<Rightarrow> JStr JoinRules_INVITE) in
     rbind (get_user_power_level (ev_sender event) auth_events) (\<lambda>ul.
     rbind (get_user_power_level target_user_id auth_events) (\<lambda>tl.
     rbind (get_named_level auth_events ''invite'' 0) (\<lambda>il.
     rbind (get_named_level auth_events ''ban'' 50) (\<lambda>bl.
     Inr \<lparr>caller_in_room = (caller = Some (JStr Membership_JOIN)),
          caller_invited = (caller = Some (JStr Membership_INVITE)),
          caller_knocked = (knock_join_rule room_version \<and> caller = Some (JStr Membership_KNOCK)),
          target_in_room = (target = Some (JStr Membership_JOIN)),
          target_banned = (target = Some (JStr Membership_BAN)),
          join_rule = jr, user_level = ul, target_level = tl, invite_level = il,
          ban_level = bl\<rparr>))))))"

definition check_invite_rules :: "member_facts \<Rightarrow> unit res" where
  "check_invite_rules f =
     (if target_banned f then forbidden
      else if target_in_room f then Inl (UnstableSpecAuthError 403 ALREADY_JOINED)
      else raise_if (user_level f < invite_level f)
             (UnstableSpecAuthError 403 INSUFFICIENT_POWER))"

text \<open>A restricted join by a user who is neither joined nor invited.\<close>

definition check_restricted_join :: "event \<Rightarrow> auth_map \<Rightarrow> member_facts \<Rightarrow> unit res" where
  "check_restricted_join event auth_events f =
     (let authorising_user = dget_none (ev_content event) AUTHORISING_USER in
      if authorising_user = JNull then forbidden
      else rbind (as_state_key authorising_user) (\<lambda>au. (case au of
          None \<Rightarrow> forbidden
        | Some u \<Rightarrow>
            rbind (check_joined_room (auth_events (EventTypes_Member, u))) (\<lambda>_.
            rbind (get_user_power_level u auth_events) (\<lambda>authorising_user_level.
            raise_if (authorising_user_level < invite_level f) (AuthError 403 FORBIDDEN))))))"

definition check_join_rules ::
  "room_version \<Rightarrow> event \<Rightarrow> string \<Rightarrow> auth_map \<Rightarrow> member_facts \<Rightarrow> unit res" where
  "check_join_rules rv event target_user_id auth_events f =
     (if ev_sender event \<noteq> target_user_id then forbidden
      else if target_banned f then forbidden
      else if join_rule f = JStr JoinRules_PUBLIC then Inr ()
      else if (restricted_join_rule rv \<and> join_rule f = JStr JoinRules_RESTRICTED)
              \<or> (knock_restricted_join_rule rv \<and> join_rule f = JStr JoinRules_KNOCK_RESTRICTED)
      then (if \<not> caller_in_room f \<and> \<not> caller_invited f
            then check_restricted_join event auth_events f else Inr ())
      else if join_rule f = JStr JoinRules_INVITE
              \<or> (knock_join_rule rv \<and> join_rule f = JStr JoinRules_KNOCK)
              \<or> (knock_restricted_join_rule rv \<and> join_rule f = JStr JoinRules_KNOCK_RESTRICTED)
      then raise_if (\<not> (caller_in_room f \<or> caller_invited f)) (AuthError 403 FORBIDDEN)
      else forbidden)"

definition check_leave_rules ::
  "event \<Rightarrow> string \<Rightarrow> auth_map \<Rightarrow> member_facts \<Rightarrow> unit res" where
  "check_leave_rules event target_user_id auth_events f =
     (if target_banned f \<and> user_level f < ban_level f
      then Inl (UnstableSpecAuthError 403 INSUFFICIENT_POWER)
      else if target_user_id \<noteq> ev_sender event then
        rbind (get_named_level auth_events ''kick'' 50) (\<lambda>kick_level.
          raise_if (user_level f < kick_level \<or> user_level f \<le> target_level f)
            (UnstableSpecAuthError 403 INSUFFICIENT_POWER))
      else Inr ())"

definition check_ban_rules :: "member_facts \<Rightarrow> unit res" where
  "check_ban_rules f =
     (if user_level f < ban_level f then Inl (UnstableSpecAuthError 403 INSUFFICIENT_POWER)
      else raise_if (user_level f \<le> target_level f)
             (UnstableSpecAuthError 403 INSUFFICIENT_POWER))"

definition check_knock_rules ::
  "room_version \<Rightarrow> event \<Rightarrow> string \<Rightarrow> member_facts \<Rightarrow> unit res" where
  "check_knock_rules rv event target_user_id f =
     (if join_rule f \<noteq> JStr JoinRules_KNOCK
         \<and> (\<not> knock_restricted_join_rule rv \<or> join_rule f \<noteq> JStr JoinRules_KNOCK_RESTRICTED)
      then forbidden
      else if target_user_id \<noteq> ev_sender event then forbidden
      else if target_in_room f then Inl (UnstableSpecAuthError 403 ALREADY_JOINED)
      else if caller_invited f then forbidden
      else raise_if (target_banned f) (AuthError 403 FORBIDDEN))"

text \<open>The rules from the third-party invite on, once the facts are read.\<close>

definition check_membership_rules ::
  "ext \<Rightarrow> room_version \<Rightarrow> event \<Rightarrow> string \<Rightarrow> auth_map \<Rightarrow> json \<Rightarrow> member_facts \<Rightarrow> unit res" where
  "check_membership_rules x rv event target auth_events membership f =
     (if membership = JStr Membership_INVITE \<and> dhas (ev_content event) ''third_party_invite'' then
        rbind (verify_third_party_invite x event auth_events) (\<lambda>ok.
          if \<not> ok then forbidden else raise_if (target_banned f) (AuthError 403 FORBIDDEN))
      else if membership \<noteq> JStr Membership_JOIN \<and> membership \<noteq> JStr Membership_KNOCK
              \<and> (caller_invited f \<or> caller_knocked f) \<and> membership = JStr Membership_LEAVE
              \<and> target = ev_sender event
      then Inr ()
      else if membership \<noteq> JStr Membership_JOIN \<and> membership \<noteq> JStr Membership_KNOCK
              \<and> \<not> caller_in_room f
      then Inl (UnstableSpecAuthError 403 NOT_JOINED)
      else if membership = JStr Membership_INVITE then check_invite_rules f
      else if membership = JStr Membership_JOIN then check_join_rules rv event target auth_events f
      else if membership = JStr Membership_LEAVE then check_leave_rules event target auth_events f
      else if membership = JStr Membership_BAN then check_ban_rules f
      else if knock_join_rule rv \<and> membership = JStr Membership_KNOCK
      then check_knock_rules rv event target f
      else Inl (AuthError 500 FORBIDDEN))"

definition is_membership_change_allowed ::
  "ext \<Rightarrow> room_version \<Rightarrow> event \<Rightarrow> auth_map \<Rightarrow> unit res" where
  "is_membership_change_allowed x room_version event auth_events =
     rbind (dindex (ev_content event) ''membership'') (\<lambda>membership.
     rbind (is_creator_join room_version event auth_events membership) (\<lambda>creator_join.
     if creator_join then Inr () else
     rbind (state_key_of event) (\<lambda>target_user_id.
     (case auth_events CREATE_KEY of
        None \<Rightarrow> forbidden
      | Some create_event \<Rightarrow>
          rbind (get_domain_from_id (ev_sender create_event)) (\<lambda>creating_domain.
          rbind (get_domain_from_id target_user_id) (\<lambda>target_domain.
          if creating_domain \<noteq> target_domain \<and> \<not> can_federate auth_events then forbidden
          else rbind (get_member_facts room_version event target_user_id auth_events)
            (check_membership_rules x room_version event target_user_id auth_events membership)))))))"

section \<open>Sending events, redactions\<close>

text \<open>
  \<open>state_key.index(":", 1)\<close> and \<open>state_key.find("_", colon_idx + 1)\<close>: the owner of a state key
  is the key up to the first underscore after the first colon that is not the first character.
\<close>

definition state_key_user_id :: "string \<Rightarrow> string res" where
  "state_key_user_id state_key = (case state_key of
      [] \<Rightarrow> Inl PyValueError
    | c # rest \<Rightarrow> (case split1 (CHR '':'') rest of
          (_, None) \<Rightarrow> Inl PyValueError
        | (lp, Some tail) \<Rightarrow> Inr (c # lp @ '':'' @ fst (split1 (CHR ''_'') tail))))"

definition can_send_event :: "ext \<Rightarrow> event \<Rightarrow> auth_map \<Rightarrow> bool res" where
  "can_send_event x event auth_events =
     (let state_key = ev_state_key event in
      rbind (get_send_level (ev_type event) state_key (get_power_level_event auth_events))
        (\<lambda>send_level.
      rbind (get_user_power_level (ev_sender event) auth_events) (\<lambda>user_level.
      if user_level < send_level then Inl (UnstableSpecAuthError 403 INSUFFICIENT_POWER)
      else (case state_key of
          None \<Rightarrow> Inr True
        | Some sk \<Rightarrow>
            if py_startswith sk ''@'' \<and> sk \<noteq> ev_sender event then
              (if msc3757_enabled (ev_room_version event) then
                 (case state_key_user_id sk of
                    Inl _ \<Rightarrow> Inl (SynapseError 400 BAD_JSON)
                  | Inr owner \<Rightarrow>
                      if \<not> is_valid (ext_valid_ipv6 x) USER_SIGIL owner
                      then Inl (SynapseError 400 BAD_JSON)
                      else if owner = ev_sender event then Inr True
                      else rbind (get_user_power_level owner auth_events) (\<lambda>owner_level.
                        if user_level > owner_level then Inr True else forbidden))
               else forbidden)
            else Inr True))))"

text \<open>
  The result is the returned flag and whether \<open>internal_metadata.recheck_redaction\<close> is set.
\<close>

definition check_redaction :: "room_version \<Rightarrow> event \<Rightarrow> auth_map \<Rightarrow> (bool \<times> bool) res" where
  "check_redaction rv event auth_events =
     rbind (get_user_power_level (ev_sender event) auth_events) (\<lambda>user_level.
     rbind (get_named_level auth_events ''redact'' 50) (\<lambda>redact_level.
     if user_level \<ge> redact_level then Inr (False, False)
     else if event_format rv = ROOM_V1_V2 then
       rbind (get_domain_from_id (ev_event_id event)) (\<lambda>redacter_domain.
       (case redacts_of event of
          JStr redacts \<Rightarrow> rbind (get_domain_from_id redacts) (\<lambda>redactee_domain.
            if redacter_domain = redactee_domain then Inr (True, False) else forbidden)
        | _ \<Rightarrow> Inr (False, False)))
     else Inr (True, True)))"

section \<open>Power level events\<close>

definition check_users_entry :: "string \<times> json \<Rightarrow> unit res" where
  "check_users_entry kv = (case from_string USER_SIGIL (fst kv) of
      Inl _ \<Rightarrow> Inl (SynapseError 400 UNKNOWN)
    | Inr _ \<Rightarrow> (case py_int (snd kv) of
          Inl _ \<Rightarrow> Inl (SynapseError 400 UNKNOWN)
        | Inr _ \<Rightarrow> Inr ()))"

text \<open>Creators must not appear in \<open>content.users\<close> (MSC4289).\<close>

definition check_creators_not_in_users :: "auth_map \<Rightarrow> jdict \<Rightarrow> unit res" where
  "check_creators_not_in_users auth_events user_list = (case auth_events CREATE_KEY of
      None \<Rightarrow> Inl (SynapseError 400 UNKNOWN)
    | Some create_event \<Rightarrow>
        if dhas user_list (ev_sender create_event) then Inl (SynapseError 400 UNKNOWN)
        else (let additional_creators =
                    dget_default (ev_content create_event) ADDITIONAL_CREATORS (JList [])
              in if py_truthy additional_creators
                 then rbind (py_set additional_creators) (\<lambda>cs.
                   raise_if (\<exists>(u, _) \<in> set user_list. JStr u \<in> set cs) (SynapseError 400 UNKNOWN))
                 else Inr ()))"

definition top_level_keys :: "string list" where
  "top_level_keys = [''users_default'', ''events_default'', ''state_default'', ''ban'', ''redact'',
     ''kick'', ''invite'']"

definition check_int_levels :: "string \<times> json \<Rightarrow> unit res" where
  "check_int_levels kv = (case kv of (k, v) \<Rightarrow>
     if k \<in> set top_level_keys \<and> \<not> is_int_json v then Inl (SynapseError 400 UNKNOWN)
     else if k \<in> {''events'', ''notifications'', ''users''} then
       (case v of
          JObj d \<Rightarrow> raise_if (\<not> list_all (\<lambda>(_, w). is_int_json w) d) (SynapseError 400 UNKNOWN)
        | _ \<Rightarrow> Inl (SynapseError 400 UNKNOWN))
     else Inr ())"

text \<open>\<open>list(v)\<close> on a JSON value, then put in a set.\<close>

definition level_names :: "jdict \<Rightarrow> string \<Rightarrow> json list res" where
  "level_names content dir = py_set (dget_default content dir (JObj []))"

text \<open>Equality of JSON values in Python: numbers compare by value, bools are numbers.\<close>

fun json_num :: "json \<Rightarrow> rat option" where
  "json_num (JInt i) = Some (of_int i)"
| "json_num (JBool b) = Some (if b then 1 else 0)"
| "json_num (JFloat r) = Some r"
| "json_num _ = None"

definition json_eq :: "json \<Rightarrow> json \<Rightarrow> bool" where
  "json_eq a b = (case (json_num a, json_num b) of
      (Some r, Some s) \<Rightarrow> r = s
    | _ \<Rightarrow> a = b)"

text \<open>\<open>xs[i]\<close>: a negative index counts from the end.\<close>

definition py_list_index :: "json list \<Rightarrow> int \<Rightarrow> json res" where
  "py_list_index xs i =
     (if i < - int (length xs) \<or> int (length xs) \<le> i then Inl PyIndexError
      else Inr (xs ! nat (if 0 \<le> i then i else i + int (length xs))))"

definition is_substring :: "string \<Rightarrow> string \<Rightarrow> bool" where
  "is_substring t s = (\<exists>i \<in> set [0..<Suc (length s)]. py_startswith (drop i s) t)"

text \<open>
  \<open>loc[level] if level in loc else None\<close>. In an accepted room \<open>loc\<close> is a dictionary; a list or
  a string behaves as Python makes it behave.
\<close>

fun loc_lookup :: "json \<Rightarrow> json \<Rightarrow> json option res" where
  "loc_lookup (JObj d) (JStr s) = Inr (dget d s)"
| "loc_lookup (JObj d) _ = Inr None"
| "loc_lookup (JList xs) v =
     (if (\<exists>y \<in> set xs. json_eq v y) then
        (case v of
           JInt i \<Rightarrow> rbind (py_list_index xs i) (\<lambda>w. Inr (Some w))
         | JBool b \<Rightarrow> rbind (py_list_index xs (if b then 1 else 0)) (\<lambda>w. Inr (Some w))
         | _ \<Rightarrow> Inl PyTypeError)
      else Inr None)"
| "loc_lookup (JStr s) (JStr t) = (if is_substring t s then Inl PyTypeError else Inr None)"
| "loc_lookup _ _ = Inl PyTypeError"

definition level_in :: "json \<Rightarrow> json \<Rightarrow> int option res" where
  "level_in loc level = rbind (loc_lookup loc level) (\<lambda>v. (case v of
      None \<Rightarrow> Inr None
    | Some w \<Rightarrow> rbind (py_int w) (\<lambda>i. Inr (Some i))))"

text \<open>One iteration of the loop over \<open>levels_to_check\<close>.\<close>

definition check_level ::
  "event \<Rightarrow> int \<Rightarrow> jdict \<Rightarrow> jdict \<Rightarrow> json \<times> string option \<Rightarrow> unit res" where
  "check_level event ulvl old_state new_state ld = (case ld of (level_to_check, dir) \<Rightarrow>
     let old_loc = (case dir of None \<Rightarrow> JObj old_state
                    | Some d \<Rightarrow> dget_default old_state d (JObj []));
         new_loc = (case dir of None \<Rightarrow> JObj new_state
                    | Some d \<Rightarrow> dget_default new_state d (JObj []))
     in rbind (level_in old_loc level_to_check) (\<lambda>old_level.
        rbind (level_in new_loc level_to_check) (\<lambda>new_level.
        if new_level \<noteq> None \<and> old_level \<noteq> None \<and> new_level = old_level then Inr ()
        else if dir = Some ''users'' \<and> level_to_check \<noteq> JStr (ev_sender event)
                \<and> old_level = Some ulvl
        then forbidden
        else raise_if ((\<exists>l \<in> set_option old_level. l > ulvl)
                     \<or> (\<exists>l \<in> set_option new_level. l > ulvl)) (AuthError 403 FORBIDDEN))))"

definition levels_to_check :: "room_version \<Rightarrow> jdict \<Rightarrow> jdict \<Rightarrow> (json \<times> string option) list res" where
  "levels_to_check rv old_content new_content =
     rbind (level_names old_content ''users'') (\<lambda>ou.
     rbind (level_names new_content ''users'') (\<lambda>nu.
     rbind (level_names old_content ''events'') (\<lambda>oe.
     rbind (level_names new_content ''events'') (\<lambda>ne.
     rbind (if limit_notifications_power_levels rv then
              rbind (level_names old_content ''notifications'') (\<lambda>on.
              rbind (level_names new_content ''notifications'') (\<lambda>nn. Inr (on @ nn)))
            else Inr []) (\<lambda>notif.
     Inr (map (\<lambda>k. (JStr k, None)) top_level_keys
          @ map (\<lambda>u. (u, Some ''users'')) (remdups (ou @ nu))
          @ map (\<lambda>e. (e, Some ''events'')) (remdups (oe @ ne))
          @ map (\<lambda>n. (n, Some ''notifications'')) (remdups notif)))))))"

definition check_power_levels :: "room_version \<Rightarrow> event \<Rightarrow> auth_map \<Rightarrow> unit res" where
  "check_power_levels rv event auth_events =
     rbind (dget_dict (ev_content event) ''users'') (\<lambda>user_list.
     rbind (forM_res check_users_entry user_list) (\<lambda>_.
     rbind (if msc4289_creator_power_enabled rv
            then check_creators_not_in_users auth_events user_list else Inr ()) (\<lambda>_.
     rbind (if ev_type event = EventTypes_PowerLevels \<and> enforce_int_power_levels rv
            then forM_res check_int_levels (ev_content event) else Inr ()) (\<lambda>_.
     rbind (state_key_of event) (\<lambda>state_key.
     (case auth_events (ev_type event, state_key) of
        None \<Rightarrow> Inr ()
      | Some current_state \<Rightarrow>
          rbind (get_user_power_level (ev_sender event) auth_events) (\<lambda>user_level.
          rbind (levels_to_check rv (ev_content current_state) (ev_content event))
            (forM_res (check_level event user_level (ev_content current_state)
                         (ev_content event)))))))))) "

section \<open>Selection of auth events\<close>

definition auth_types_for_event :: "room_version \<Rightarrow> event \<Rightarrow> state_key list res" where
  "auth_types_for_event rv event =
     (if ev_type event = EventTypes_Create then Inr []
      else let base = [POWER_KEY, (EventTypes_Member, ev_sender event), CREATE_KEY] in
        if ev_type event \<noteq> EventTypes_Member then Inr base
        else rbind (dindex (ev_content event) ''membership'') (\<lambda>membership.
          rbind (state_key_of event) (\<lambda>state_key.
          rbind (if membership = JStr Membership_INVITE
                    \<and> dhas (ev_content event) ''third_party_invite'' then
                   rbind (dindex (ev_content event) ''third_party_invite'') (\<lambda>tpi.
                   rbind (jindex tpi ''signed'') (\<lambda>signed.
                   rbind (jindex signed ''token'') as_state_key))
                 else Inr None) (\<lambda>token.
          rbind (if restricted_join_rule rv \<and> membership = JStr Membership_JOIN then
                   (case dget (ev_content event) AUTHORISING_USER of
                      Some u \<Rightarrow> as_state_key u | None \<Rightarrow> Inr None)
                 else Inr None) (\<lambda>authoriser.
          Inr (base
               @ (if membership \<in> {JStr Membership_JOIN, JStr Membership_INVITE, JStr Membership_KNOCK}
                  then [JOIN_RULES_KEY] else [])
               @ [(EventTypes_Member, state_key)]
               @ (case token of Some t \<Rightarrow> [(EventTypes_ThirdPartyInvite, t)] | None \<Rightarrow> [])
               @ (case authoriser of Some u \<Rightarrow> [(EventTypes_Member, u)] | None \<Rightarrow> [])))))))"

section \<open>The two checks\<close>

text \<open>One iteration of the loop over the auth events of an event.\<close>

definition check_auth_event_entry ::
  "event \<Rightarrow> (string \<rightharpoonup> event) \<Rightarrow> state_key list \<Rightarrow> string \<Rightarrow> (state_key \<times> string) list
     \<Rightarrow> (state_key \<times> string) list res" where
  "check_auth_event_entry event lookup expected_auth_types auth_event_id auth_dict =
     (case lookup auth_event_id of
        None \<Rightarrow> Inl PyRuntimeError
      | Some auth_event \<Rightarrow>
          if ev_room_id auth_event \<noteq> ev_room_id event then forbidden
          else rbind (state_key_of auth_event) (\<lambda>sk.
            let k = (ev_type auth_event, sk) in
            if dhas auth_dict k then forbidden
            else if k \<notin> set expected_auth_types then forbidden
            else if (case ev_rejected_reason auth_event of Some r \<Rightarrow> r \<noteq> [] | None \<Rightarrow> False)
            then forbidden
            else Inr (dset auth_dict k auth_event_id)))"

definition check_state_independent_auth_rules ::
  "ext \<Rightarrow> (string \<rightharpoonup> event) \<Rightarrow> (string \<rightharpoonup> event) \<Rightarrow> event \<Rightarrow> unit res" where
  "check_state_independent_auth_rules x store batched_auth_events event =
     (if ev_type event = EventTypes_Create then check_create x event
      else
        rbind (auth_types_for_event (ev_room_version event) event) (\<lambda>expected_auth_types.
        rbind (foldM_res (check_auth_event_entry event (store ++ batched_auth_events)
                            expected_auth_types) (ev_auth_event_ids event) []) (\<lambda>auth_dict.
        (case dget auth_dict CREATE_KEY of
           None \<Rightarrow> forbidden
         | Some creation_event \<Rightarrow> raise_if (creation_event = []) (AuthError 403 FORBIDDEN)))))"

text \<open>\<open>{(e.type, e.state_key): e for e in auth_events}\<close>.\<close>

definition auth_dict_of :: "event list \<Rightarrow> auth_map res" where
  "auth_dict_of auth_events = foldM_res (\<lambda>e m.
      rbind (state_key_of e) (\<lambda>sk. Inr (m((ev_type e, sk) \<mapsto> e)))) auth_events Map.empty"

text \<open>The rules, once the dictionary of auth events is built.\<close>

definition check_auth_rules :: "ext \<Rightarrow> event \<Rightarrow> auth_map \<Rightarrow> unit res" where
  "check_auth_rules x event auth_dict =
     (case auth_dict CREATE_KEY of
        None \<Rightarrow> forbidden
      | Some create_event \<Rightarrow>
          rbind (get_domain_from_id (ev_sender create_event)) (\<lambda>creating_domain.
          rbind (get_domain_from_id (ev_sender event)) (\<lambda>originating_domain.
          if creating_domain \<noteq> originating_domain \<and> \<not> can_federate auth_dict then forbidden
          else if ev_type event = EventTypes_Aliases
                  \<and> special_case_aliases_auth (ev_room_version event) then
            (case ev_state_key event of
               None \<Rightarrow> forbidden
             | Some state_key \<Rightarrow> if state_key = [] then forbidden
                 else raise_if (state_key \<noteq> originating_domain) (AuthError 403 FORBIDDEN))
          else if ev_type event = EventTypes_Member
          then is_membership_change_allowed x (ev_room_version event) event auth_dict
          else rbind (check_event_sender_in_room event auth_dict) (\<lambda>_.
            if ev_type event = EventTypes_ThirdPartyInvite then
              rbind (get_user_power_level (ev_sender event) auth_dict) (\<lambda>user_level.
              rbind (get_named_level auth_dict ''invite'' 0) (\<lambda>invite_level.
              raise_if (user_level < invite_level)
                (UnstableSpecAuthError 403 INSUFFICIENT_POWER)))
            else rbind (can_send_event x event auth_dict) (\<lambda>_.
              rbind (if ev_type event = EventTypes_PowerLevels
                     then check_power_levels (ev_room_version event) event auth_dict
                     else Inr ()) (\<lambda>_.
              if ev_type event = EventTypes_Redaction
              then rbind (check_redaction (ev_room_version event) event auth_dict) (\<lambda>_. Inr ())
              else Inr ()))))))"

definition check_state_dependent_auth_rules :: "ext \<Rightarrow> event \<Rightarrow> event list \<Rightarrow> unit res" where
  "check_state_dependent_auth_rules x event auth_events =
     (if ev_type event = EventTypes_Create then Inr ()
      else rbind (auth_dict_of auth_events) (check_auth_rules x event))"

end
