(* ===== verification/Event_Auth_Props.thy ===== *)
theory Event_Auth_Props
  imports Event_Auth
begin

text \<open>
  Correctness of the authorisation rules: the decision reads only the state selected by
  \<open>auth_types_for_event\<close>; the membership conditionals are equivalent to a rule set with one rule
  per legal transition; power level events cannot raise anyone above their sender, nor touch the
  sender's peers; a banned user stays out; accepted auth event lists are well formed.
\<close>

section \<open>What the power level functions read\<close>

named_theorems auth_local \<open>congruences: which entries of the auth map a check reads\<close>

lemma get_user_power_level_local [auth_local]:
  "a CREATE_KEY = a' CREATE_KEY \<Longrightarrow> a POWER_KEY = a' POWER_KEY
   \<Longrightarrow> get_user_power_level u a = get_user_power_level u a'"
  by (simp only: get_user_power_level_def get_power_level_event_def)

lemma get_named_level_local [auth_local]:
  "a POWER_KEY = a' POWER_KEY \<Longrightarrow> get_named_level a n d = get_named_level a' n d"
  by (simp add: get_named_level_def get_power_level_event_def)

lemma can_federate_local [auth_local]:
  "a CREATE_KEY = a' CREATE_KEY \<Longrightarrow> can_federate a = can_federate a'"
  by (simp add: can_federate_def)

lemma is_creator_join_local:
  "a CREATE_KEY = a' CREATE_KEY \<Longrightarrow> is_creator_join rv ev a m = is_creator_join rv ev a' m"
  by (simp add: is_creator_join_def)

lemma can_send_event_local:
  assumes "a CREATE_KEY = a' CREATE_KEY" and "a POWER_KEY = a' POWER_KEY"
  shows "can_send_event x ev a = can_send_event x ev a'"
  using assms
  by (simp only: can_send_event_def get_power_level_event_def Let_def
      get_user_power_level_local [of a a', OF assms])

lemma check_redaction_local:
  assumes "a CREATE_KEY = a' CREATE_KEY" and "a POWER_KEY = a' POWER_KEY"
  shows "check_redaction rv ev a = check_redaction rv ev a'"
  by (simp only: check_redaction_def get_user_power_level_local [of a a', OF assms]
      get_named_level_local [of a a', OF assms(2)])

lemma check_power_levels_local:
  assumes "a CREATE_KEY = a' CREATE_KEY" and "a POWER_KEY = a' POWER_KEY"
    and "ev_type ev = EventTypes_PowerLevels" and "\<And>k. ev_state_key ev = Some k \<Longrightarrow> k = []"
  shows "check_power_levels rv ev a = check_power_levels rv ev a'"
proof -
  have "check_creators_not_in_users a = check_creators_not_in_users a'"
    using assms(1) by (simp add: check_creators_not_in_users_def fun_eq_iff)
  moreover have "state_key_of ev = Inr sk \<Longrightarrow> a (ev_type ev, sk) = a' (ev_type ev, sk)" for sk
    using assms(2-4) by (auto simp: state_key_of_def POWER_KEY_def split: option.splits)
  ultimately show ?thesis
    by (simp add: check_power_levels_def get_user_power_level_local [of a a', OF assms(1,2)] cong: branch_congs)
qed

section \<open>What the membership rules read\<close>

lemma get_member_facts_local:
  assumes "a CREATE_KEY = a' CREATE_KEY" and "a POWER_KEY = a' POWER_KEY"
    and "a (EventTypes_Member, ev_sender ev) = a' (EventTypes_Member, ev_sender ev)"
    and "a (EventTypes_Member, t) = a' (EventTypes_Member, t)"
  shows "\<exists>j. get_member_facts rv ev t a' =
          rbind (get_member_facts rv ev t a) (\<lambda>f. Inr (f\<lparr>join_rule := j f\<rparr>))
        \<and> (a JOIN_RULES_KEY = a' JOIN_RULES_KEY \<longrightarrow> j = join_rule)"
proof (cases "a JOIN_RULES_KEY = a' JOIN_RULES_KEY")
  case True
  then have "get_member_facts rv ev t a' = rbind (get_member_facts rv ev t a) (\<lambda>f. Inr (f\<lparr>join_rule := join_rule f\<rparr>))"
    using assms by (simp add: get_member_facts_def get_user_power_level_local [of a a', OF assms(1,2)]
        get_named_level_local [of a a', OF assms(2)] rbind_def Let_def split: sum.splits)
  then show ?thesis by (intro exI [of _ join_rule]) simp
next
  case False
  let ?j = "\<lambda>_. (case a' JOIN_RULES_KEY of
                 Some e \<Rightarrow> dget_default (ev_content e) ''join_rule'' (JStr JoinRules_INVITE)
               | None \<Rightarrow> JStr JoinRules_INVITE)"
  have "get_member_facts rv ev t a' = rbind (get_member_facts rv ev t a) (\<lambda>f. Inr (f\<lparr>join_rule := ?j f\<rparr>))"
    using assms by (simp add: get_member_facts_def get_user_power_level_local [of a a', OF assms(1,2)]
        get_named_level_local [of a a', OF assms(2)] rbind_def Let_def split: sum.splits)
  with False show ?thesis by (intro exI [of _ ?j]) simp
qed

lemma verify_third_party_invite_local:
  assumes "\<And>tpi signed token t. dindex (ev_content ev) ''third_party_invite'' = Inr tpi
      \<Longrightarrow> jindex tpi ''signed'' = Inr signed \<Longrightarrow> jindex signed ''token'' = Inr token
      \<Longrightarrow> as_state_key token = Inr (Some t)
      \<Longrightarrow> a (EventTypes_ThirdPartyInvite, t) = a' (EventTypes_ThirdPartyInvite, t)"
  shows "verify_third_party_invite x ev a = verify_third_party_invite x ev a'"
proof (cases "dget (ev_content ev) ''third_party_invite''")
  case (Some v)
  show ?thesis
  proof (cases v)
    case (JObj tpi)
    have tpi: "dindex (ev_content ev) ''third_party_invite'' = Inr (JObj tpi)"
      using Some JObj by (simp add: dindex_def dget_def)
    show ?thesis
    proof (cases "dget tpi ''signed''")
      case (Some w)
      note w = this
      show ?thesis
      proof (cases w)
        case (JObj signed)
        have sg: "jindex (JObj tpi) ''signed'' = Inr (JObj signed)"
          using w JObj by (simp add: dindex_def dget_def)
        have "a (EventTypes_ThirdPartyInvite, t) = a' (EventTypes_ThirdPartyInvite, t)"
          if "dget signed ''token'' = Some token" "as_state_key token = Inr (Some t)" for token t
          using assms [OF tpi sg] that by (simp add: dindex_def dget_def)
        then show ?thesis
          using Some \<open>v = JObj tpi\<close> \<open>dget (ev_content ev) ''third_party_invite'' = Some v\<close> JObj w
          by (auto simp: verify_third_party_invite_def split: option.splits intro!: rbind_cong)
      qed (use Some \<open>v = JObj tpi\<close> \<open>dget (ev_content ev) ''third_party_invite'' = Some v\<close> w in
          \<open>simp_all add: verify_third_party_invite_def\<close>)
    qed (use \<open>v = JObj tpi\<close> \<open>dget (ev_content ev) ''third_party_invite'' = Some v\<close> in
        \<open>simp add: verify_third_party_invite_def\<close>)
  qed (use Some in \<open>simp_all add: verify_third_party_invite_def\<close>)
qed (simp add: verify_third_party_invite_def)


text \<open>Rules for other memberships than join, invite and knock do not read the join rule.\<close>

lemma check_membership_rules_join_rule:
  assumes "m \<noteq> JStr Membership_JOIN" and "m \<noteq> JStr Membership_KNOCK"
  shows "check_membership_rules x rv ev t a m (f\<lparr>join_rule := j\<rparr>) = check_membership_rules x rv ev t a m f"
  using assms
  by (simp add: check_membership_rules_def check_invite_rules_def check_leave_rules_def
      check_ban_rules_def cong: branch_congs)

lemma check_membership_rules_local:
  assumes "a CREATE_KEY = a' CREATE_KEY" and "a POWER_KEY = a' POWER_KEY"
    and tpi: "m = JStr Membership_INVITE \<Longrightarrow> dhas (ev_content ev) ''third_party_invite''
      \<Longrightarrow> verify_third_party_invite x ev a = verify_third_party_invite x ev a'"
    and auth: "\<And>u. m = JStr Membership_JOIN \<Longrightarrow> restricted_join_rule rv
      \<Longrightarrow> dget (ev_content ev) AUTHORISING_USER = Some (JStr u)
      \<Longrightarrow> a (EventTypes_Member, u) = a' (EventTypes_Member, u)"
    and wf: "knock_restricted_join_rule rv \<Longrightarrow> restricted_join_rule rv"
  shows "check_membership_rules x rv ev t a m f = check_membership_rules x rv ev t a' m f"
proof -
  have restricted: "check_restricted_join ev a f = check_restricted_join ev a' f"
    if "m = JStr Membership_JOIN" "restricted_join_rule rv"
  proof -
    have "a (EventTypes_Member, u) = a' (EventTypes_Member, u)"
      if "as_state_key (dget_none (ev_content ev) AUTHORISING_USER) = Inr (Some u)" for u
    proof -
      from that have "dget_none (ev_content ev) AUTHORISING_USER = JStr u"
        by (cases "dget_none (ev_content ev) AUTHORISING_USER") auto
      then have "dget (ev_content ev) AUTHORISING_USER = Some (JStr u)"
        by (auto simp: dget_none_def dget_def split: option.splits)
      with auth \<open>m = _\<close> \<open>restricted_join_rule rv\<close> show ?thesis by blast
    qed
    then show ?thesis
      by (simp add: check_restricted_join_def get_user_power_level_local [of a a', OF assms(1,2)]
          Let_def cong: branch_congs)
  qed
  have "check_leave_rules ev t a f = check_leave_rules ev t a' f"
    by (simp only: check_leave_rules_def get_named_level_local [of a a', OF assms(2)])
  moreover have "check_join_rules rv ev t a f = check_join_rules rv ev t a' f"
    if "m = JStr Membership_JOIN"
    using restricted [OF that] wf by (simp add: check_join_rules_def)
  ultimately show ?thesis
    using tpi by (simp add: check_membership_rules_def)
qed

lemma auth_types_member:
  assumes "auth_types_for_event rv ev = Inr ks" and "ev_type ev = EventTypes_Member"
    and "dindex (ev_content ev) ''membership'' = Inr m"
  shows "\<exists>sk. state_key_of ev = Inr sk \<and> (EventTypes_Member, sk) \<in> set ks"
    and "m = JStr Membership_JOIN \<or> m = JStr Membership_KNOCK \<Longrightarrow> JOIN_RULES_KEY \<in> set ks"
    and "m = JStr Membership_INVITE \<Longrightarrow> dindex (ev_content ev) ''third_party_invite'' = Inr tpi
      \<Longrightarrow> jindex tpi ''signed'' = Inr signed \<Longrightarrow> jindex signed ''token'' = Inr token
      \<Longrightarrow> as_state_key token = Inr (Some t) \<Longrightarrow> (EventTypes_ThirdPartyInvite, t) \<in> set ks"
    and "m = JStr Membership_JOIN \<Longrightarrow> restricted_join_rule rv
      \<Longrightarrow> dget (ev_content ev) AUTHORISING_USER = Some (JStr u)
      \<Longrightarrow> (EventTypes_Member, u) \<in> set ks"
  using assms
  by (auto simp: auth_types_for_event_def res_simps Let_def dhas_def dindex_def dget_def
      split: option.splits if_splits)

lemma auth_types_base:
  assumes "auth_types_for_event rv ev = Inr ks" and "ev_type ev \<noteq> EventTypes_Create"
  shows "POWER_KEY \<in> set ks" and "CREATE_KEY \<in> set ks"
    and "(EventTypes_Member, ev_sender ev) \<in> set ks"
  using assms by (auto simp: auth_types_for_event_def res_simps Let_def split: if_splits)

lemma is_membership_change_allowed_local:
  assumes types: "auth_types_for_event rv ev = Inr ks" and ty: "ev_type ev = EventTypes_Member"
    and agree: "\<And>k. k \<in> set ks \<Longrightarrow> a k = a' k"
    and wf: "knock_restricted_join_rule rv \<Longrightarrow> restricted_join_rule rv"
  shows "is_membership_change_allowed x rv ev a = is_membership_change_allowed x rv ev a'"
proof -
  have c: "a CREATE_KEY = a' CREATE_KEY" and p: "a POWER_KEY = a' POWER_KEY"
    and snd: "a (EventTypes_Member, ev_sender ev) = a' (EventTypes_Member, ev_sender ev)"
    using auth_types_base [OF types] ty agree by auto
  have rules: "rbind (get_member_facts rv ev sk a) (check_membership_rules x rv ev sk a m)
      = rbind (get_member_facts rv ev sk a') (check_membership_rules x rv ev sk a' m)"
    if m: "dindex (ev_content ev) ''membership'' = Inr m" and sk: "state_key_of ev = Inr sk" for m sk
  proof -
    note at = auth_types_member [OF types ty m]
    have t: "a (EventTypes_Member, sk) = a' (EventTypes_Member, sk)" using at(1) sk agree by auto
    obtain j where j: "get_member_facts rv ev sk a' =
          rbind (get_member_facts rv ev sk a) (\<lambda>f. Inr (f\<lparr>join_rule := j f\<rparr>))"
      and jr: "a JOIN_RULES_KEY = a' JOIN_RULES_KEY \<longrightarrow> j = join_rule"
      using get_member_facts_local [of a a', OF c p snd t] by blast
    have same: "check_membership_rules x rv ev sk a' m f = check_membership_rules x rv ev sk a m f" for f
      by (rule check_membership_rules_local [symmetric, OF c p])
        (use at agree wf in \<open>auto intro!: verify_third_party_invite_local\<close>)
    have "check_membership_rules x rv ev sk a m (f\<lparr>join_rule := j f\<rparr>)
        = check_membership_rules x rv ev sk a m f" for f
    proof (cases "m = JStr Membership_JOIN \<or> m = JStr Membership_KNOCK")
      case True
      then have "j = join_rule" using at(2) agree jr by blast
      then show ?thesis by simp
    qed (simp add: check_membership_rules_join_rule)
    then show ?thesis by (cases "get_member_facts rv ev sk a") (simp_all add: j same)
  qed
  show ?thesis
    by (simp add: is_membership_change_allowed_def is_creator_join_local [of a a', OF c]
        can_federate_local [of a a', OF c] c rules cong: branch_congs)
qed

section \<open>The decision is local\<close>

text \<open>The code outside the repository, for concrete instances: no signature verifies.\<close>

definition sample_ext :: ext where
  "sample_ext = \<lparr>ext_valid_ipv6 = \<lambda>_. False, ext_verify_signed = \<lambda>_ _ _ _. Inl PyKeyError,
     ext_canonical_len = \<lambda>_. 100\<rparr>"

text \<open>
  C4: two states that agree on the entries \<open>auth_types_for_event\<close> selects lead to the same
  verdict, error included. It is what entitles the server to fetch only these entries. The room
  version must not have \<open>knock_restricted\<close> joins without \<open>restricted\<close> ones (no known version
  does), and a power level event must have the empty state key: \<open>_check_power_levels\<close> looks the
  previous event up under the state key of the new one, which the selection does not list.
\<close>

theorem auth_rules_local:
  assumes types: "auth_types_for_event (ev_room_version ev) ev = Inr ks"
    and agree: "\<forall>k \<in> set ks. a k = a' k"
    and wf: "knock_restricted_join_rule (ev_room_version ev) \<Longrightarrow> restricted_join_rule (ev_room_version ev)"
    and not_create: "ev_type ev \<noteq> EventTypes_Create"
    and pl_key: "ev_type ev = EventTypes_PowerLevels \<Longrightarrow> ev_state_key ev = Some []"
  shows "check_auth_rules x ev a = check_auth_rules x ev a'"
proof -
  note base = auth_types_base [OF types not_create]
  have c: "a CREATE_KEY = a' CREATE_KEY" and p: "a POWER_KEY = a' POWER_KEY"
    and s: "a (EventTypes_Member, ev_sender ev) = a' (EventTypes_Member, ev_sender ev)"
    using base agree by auto
  have mem: "is_membership_change_allowed x (ev_room_version ev) ev a
      = is_membership_change_allowed x (ev_room_version ev) ev a'"
    if "ev_type ev = EventTypes_Member"
    by (rule is_membership_change_allowed_local [OF types that]) (use agree wf in auto)
  have pl: "check_power_levels (ev_room_version ev) ev a = check_power_levels (ev_room_version ev) ev a'"
    if "ev_type ev = EventTypes_PowerLevels"
    by (rule check_power_levels_local [of a a', OF c p that]) (use pl_key that in auto)
  have "check_event_sender_in_room ev a = check_event_sender_in_room ev a'"
    using s by (simp add: check_event_sender_in_room_def)
  then show ?thesis
    using c mem pl
    by (simp add: check_auth_rules_def can_federate_local [of a a', OF c]
        get_user_power_level_local [of a a', OF c p] get_named_level_local [of a a', OF p]
        can_send_event_local [of a a', OF c p] check_redaction_local [of a a', OF c p]
        cong: branch_congs)
qed


theorem auth_rules_local_witness:
  "check_auth_rules sample_ext (sample_event ''$m'' ''m.room.message'' None ''@b:s'' [] []) sample_state
   = check_auth_rules sample_ext (sample_event ''$m'' ''m.room.message'' None ''@b:s'' [] [])
       (sample_state((''m.room.topic'', []) \<mapsto> sample_create))"
proof -
  let ?ev = "sample_event ''$m'' ''m.room.message'' None ''@b:s'' [] []"
  have ty: "auth_types_for_event (ev_room_version ?ev) ?ev
      = Inr [POWER_KEY, (EventTypes_Member, ''@b:s''), CREATE_KEY]"
    by (simp add: auth_types_for_event_def sample_defs event_type_defs)
  show ?thesis
    by (rule auth_rules_local [OF ty])
      (simp_all add: sample_event_def event_type_defs POWER_KEY_def CREATE_KEY_def
        ROOM_VERSION_V10_def room_version_defs)
qed

section \<open>The membership rules\<close>

text \<open>
  The rules of the Matrix specification, one per legal change of membership. \<open>tpi\<close> is the
  outcome of the third-party invite check, \<open>kick\<close> the kick level and \<open>authorised\<close> says that the
  user named by the event as authorising the join is joined and may invite.
\<close>

inductive member_change_ok ::
  "room_version \<Rightarrow> bool \<Rightarrow> bool option \<Rightarrow> int \<Rightarrow> bool \<Rightarrow> member_facts \<Rightarrow> string \<Rightarrow> bool"
  for rv self tpi kick authorised f where
  third_party_invite: "tpi = Some True \<Longrightarrow> \<not> target_banned f
     \<Longrightarrow> member_change_ok rv self tpi kick authorised f Membership_INVITE"
| invite: "tpi = None \<Longrightarrow> caller_in_room f \<Longrightarrow> \<not> target_banned f \<Longrightarrow> \<not> target_in_room f
     \<Longrightarrow> invite_level f \<le> user_level f
     \<Longrightarrow> member_change_ok rv self tpi kick authorised f Membership_INVITE"
| join_public: "self \<Longrightarrow> \<not> target_banned f \<Longrightarrow> join_rule f = JStr JoinRules_PUBLIC
     \<Longrightarrow> member_change_ok rv self tpi kick authorised f Membership_JOIN"
| join_invited: "self \<Longrightarrow> \<not> target_banned f \<Longrightarrow> caller_in_room f \<or> caller_invited f
     \<Longrightarrow> join_rule f = JStr JoinRules_INVITE
        \<or> knock_join_rule rv \<and> join_rule f = JStr JoinRules_KNOCK
        \<or> restricted_join_rule rv \<and> join_rule f = JStr JoinRules_RESTRICTED
        \<or> knock_restricted_join_rule rv \<and> join_rule f = JStr JoinRules_KNOCK_RESTRICTED
     \<Longrightarrow> member_change_ok rv self tpi kick authorised f Membership_JOIN"
| join_restricted: "self \<Longrightarrow> \<not> target_banned f \<Longrightarrow> authorised
     \<Longrightarrow> restricted_join_rule rv \<and> join_rule f = JStr JoinRules_RESTRICTED
        \<or> knock_restricted_join_rule rv \<and> join_rule f = JStr JoinRules_KNOCK_RESTRICTED
     \<Longrightarrow> member_change_ok rv self tpi kick authorised f Membership_JOIN"
| decline: "self \<Longrightarrow> caller_invited f \<or> caller_knocked f
     \<Longrightarrow> member_change_ok rv self tpi kick authorised f Membership_LEAVE"
| leave: "self \<Longrightarrow> caller_in_room f \<Longrightarrow> target_banned f \<longrightarrow> ban_level f \<le> user_level f
     \<Longrightarrow> member_change_ok rv self tpi kick authorised f Membership_LEAVE"
| kick: "\<not> self \<Longrightarrow> caller_in_room f \<Longrightarrow> target_banned f \<longrightarrow> ban_level f \<le> user_level f
     \<Longrightarrow> kick \<le> user_level f \<Longrightarrow> target_level f < user_level f
     \<Longrightarrow> member_change_ok rv self tpi kick authorised f Membership_LEAVE"
| ban: "caller_in_room f \<Longrightarrow> ban_level f \<le> user_level f \<Longrightarrow> target_level f < user_level f
     \<Longrightarrow> member_change_ok rv self tpi kick authorised f Membership_BAN"
| knock: "self \<Longrightarrow> knock_join_rule rv
     \<Longrightarrow> join_rule f = JStr JoinRules_KNOCK
        \<or> knock_restricted_join_rule rv \<and> join_rule f = JStr JoinRules_KNOCK_RESTRICTED
     \<Longrightarrow> \<not> target_in_room f \<Longrightarrow> \<not> caller_invited f \<Longrightarrow> \<not> target_banned f
     \<Longrightarrow> member_change_ok rv self tpi kick authorised f Membership_KNOCK"

text \<open>The arguments of the rules, read off the event and the state.\<close>

definition tpi_outcome :: "ext \<Rightarrow> event \<Rightarrow> auth_map \<Rightarrow> bool option" where
  "tpi_outcome x ev a = (if dhas (ev_content ev) ''third_party_invite''
     then Some (verify_third_party_invite x ev a = Inr True) else None)"

definition join_authorised :: "event \<Rightarrow> auth_map \<Rightarrow> member_facts \<Rightarrow> bool" where
  "join_authorised ev a f = (\<exists>u m l. dget (ev_content ev) AUTHORISING_USER = Some (JStr u)
     \<and> a (EventTypes_Member, u) = Some m \<and> membership_of m = Inr (JStr Membership_JOIN)
     \<and> get_user_power_level u a = Inr l \<and> invite_level f \<le> l)"

inductive_simps member_change_ok_iff: "member_change_ok rv self tpi kick authorised f m"

lemma check_joined_room_iff:
  "check_joined_room e = Inr u \<longleftrightarrow>
     (\<exists>m. e = Some m \<and> membership_of m = Inr (JStr Membership_JOIN))"
  by (auto simp: check_joined_room_def res_simps split: option.splits)

lemma check_restricted_join_iff: "check_restricted_join ev a f = Inr u \<longleftrightarrow> join_authorised ev a f"
proof (cases "dget (ev_content ev) AUTHORISING_USER")
  case None
  then show ?thesis
    by (simp add: check_restricted_join_def join_authorised_def dget_none_def dget_def)
next
  case (Some v)
  then show ?thesis
    by (cases v)
      (auto simp: check_restricted_join_def join_authorised_def dget_none_def dget_def res_simps
        check_joined_room_iff not_less)
qed

text \<open>
  C3: the nested conditionals of \<open>_is_membership_change_allowed\<close> accept a change of membership
  exactly when one of the rules of the specification allows it. The kick level must be readable,
  as it is for every other rule.
\<close>

theorem membership_rules_refine_spec:
  assumes "get_named_level a ''kick'' 50 = Inr kick"
  shows "check_membership_rules x rv ev target a (JStr m) f = Inr ()
    \<longleftrightarrow> member_change_ok rv (target = ev_sender ev) (tpi_outcome x ev a) kick
          (join_authorised ev a f) f m"
proof -
  consider (inv) "m = Membership_INVITE" | (join) "m = Membership_JOIN"
    | (leave) "m = Membership_LEAVE" | (ban) "m = Membership_BAN" | (knock) "m = Membership_KNOCK"
    | (other) "m \<notin> {Membership_INVITE, Membership_JOIN, Membership_LEAVE, Membership_BAN, Membership_KNOCK}"
    by blast
  then show ?thesis
  proof cases
    case inv
    then show ?thesis
      by (auto simp: check_membership_rules_def check_invite_rules_def member_change_ok_iff
          tpi_outcome_def res_simps not_less split: if_splits)
  next
    case join
    then show ?thesis
      by (auto simp: check_membership_rules_def check_join_rules_def member_change_ok_iff
          check_restricted_join_iff split: if_splits)
  next
    case leave
    then show ?thesis
      by (auto simp: check_membership_rules_def check_leave_rules_def member_change_ok_iff
          assms not_less not_le split: if_splits)
  next
    case ban
    then show ?thesis
      by (auto simp: check_membership_rules_def check_ban_rules_def member_change_ok_iff not_less)
  next
    case knock
    then show ?thesis
      by (auto simp: check_membership_rules_def check_knock_rules_def member_change_ok_iff)
  next
    case other
    then show ?thesis
      by (auto simp: check_membership_rules_def member_change_ok_iff)
  qed
qed


theorem membership_rules_refine_spec_witness:
  "member_change_ok ROOM_VERSION_V10 False None 50 False
     \<lparr>caller_in_room = True, caller_invited = False, caller_knocked = False,
      target_in_room = True, target_banned = False, join_rule = JStr JoinRules_INVITE,
      user_level = 100, target_level = 0, invite_level = 0, ban_level = 50\<rparr> Membership_BAN"
proof -
  let ?f = "\<lparr>caller_in_room = True, caller_invited = False, caller_knocked = False,
      target_in_room = True, target_banned = False, join_rule = JStr JoinRules_INVITE,
      user_level = 100, target_level = 0, invite_level = 0, ban_level = 50\<rparr>"
  let ?ev = "sample_member ''$k'' ''@a:s'' ''@b:s'' ''ban''"
  have k: "get_named_level sample_state ''kick'' 50 = Inr 50"
    by (simp add: get_named_level_def get_power_level_event_def sample_defs POWER_KEY_def
        dget_none_def EventTypes_PowerLevels_def CREATE_KEY_def event_type_defs)
  have "tpi_outcome x ?ev sample_state = None" and "join_authorised ?ev sample_state ?f = False"
    for x :: ext
    by (simp_all add: tpi_outcome_def join_authorised_def sample_defs dhas_def dget_def
        AUTHORISING_USER_def)
  then show ?thesis
    using membership_rules_refine_spec [OF k, of _ ROOM_VERSION_V10 ?ev "''@b:s''" Membership_BAN ?f]
    by (simp add: check_membership_rules_def check_ban_rules_def) (simp add: sample_defs)
qed

lemma get_member_facts_Inr:
  assumes "get_member_facts rv ev t a = Inr f"
  shows "caller_in_room f \<longleftrightarrow>
      (\<exists>e. a (EventTypes_Member, ev_sender ev) = Some e \<and> membership_of e = Inr (JStr Membership_JOIN))"
    and "caller_invited f \<longleftrightarrow>
      (\<exists>e. a (EventTypes_Member, ev_sender ev) = Some e \<and> membership_of e = Inr (JStr Membership_INVITE))"
    and "caller_knocked f \<longrightarrow>
      (\<exists>e. a (EventTypes_Member, ev_sender ev) = Some e \<and> membership_of e = Inr (JStr Membership_KNOCK))"
    and "target_banned f \<longleftrightarrow>
      (\<exists>e. a (EventTypes_Member, t) = Some e \<and> membership_of e = Inr (JStr Membership_BAN))"
    and "get_user_power_level (ev_sender ev) a = Inr (user_level f)"
    and "get_user_power_level t a = Inr (target_level f)"
    and "get_named_level a ''ban'' 50 = Inr (ban_level f)"
  using assms
  by (auto simp: get_member_facts_def opt_membership_def res_simps Let_def split: option.splits)

lemma is_membership_change_allowed_Inr:
  assumes "is_membership_change_allowed x rv ev a = Inr ()"
  obtains (creator) m where "dindex (ev_content ev) ''membership'' = Inr m"
      and "is_creator_join rv ev a m = Inr True"
    | (rules) m t f where "dindex (ev_content ev) ''membership'' = Inr m"
      and "state_key_of ev = Inr t" and "get_member_facts rv ev t a = Inr f"
      and "check_membership_rules x rv ev t a m f = Inr ()"
  using assms
  by (auto simp: is_membership_change_allowed_def res_simps split: if_splits option.splits)

lemma check_auth_rules_member:
  "check_auth_rules x ev a = Inr () \<Longrightarrow> ev_type ev = EventTypes_Member
   \<Longrightarrow> is_membership_change_allowed x (ev_room_version ev) ev a = Inr ()"
  by (auto simp: check_auth_rules_def res_simps split: option.splits if_splits)

text \<open>
  A banned user stays out. An accepted membership event about a banned user (other than the
  creator's very first join) unbans or re-bans them, and comes from another, joined user whose
  power level reaches the ban level and is above that of the banned user.
\<close>

theorem banned_user_stays_out:
  assumes ok: "check_auth_rules x ev a = Inr ()" and ty: "ev_type ev = EventTypes_Member"
    and sk: "ev_state_key ev = Some t"
    and banned: "a (EventTypes_Member, t) = Some tm" "membership_of tm = Inr (JStr Membership_BAN)"
    and not_first: "length (ev_prev_event_ids ev) \<noteq> 1"
  shows "dindex (ev_content ev) ''membership'' \<in> {Inr (JStr Membership_LEAVE), Inr (JStr Membership_BAN)}
    \<and> ev_sender ev \<noteq> t
    \<and> (\<exists>sm. a (EventTypes_Member, ev_sender ev) = Some sm \<and> membership_of sm = Inr (JStr Membership_JOIN))
    \<and> (\<exists>ul tl bl. get_user_power_level (ev_sender ev) a = Inr ul
         \<and> get_user_power_level t a = Inr tl \<and> get_named_level a ''ban'' 50 = Inr bl
         \<and> bl \<le> ul \<and> tl < ul)"
  using check_auth_rules_member [OF ok ty]
proof (cases rule: is_membership_change_allowed_Inr)
  case (creator m)
  then show ?thesis using not_first
    by (auto simp: is_creator_join_def split: list.splits option.splits if_splits)
next
  case (rules m t' f)
  from rules(2) sk have t': "t' = t" by (simp add: state_key_of_def)
  note facts = get_member_facts_Inr [OF rules(3), unfolded t']
  from facts(4) banned have tb: "target_banned f" by blast
  have diff: "caller_in_room f \<Longrightarrow> ev_sender ev \<noteq> t" "caller_invited f \<Longrightarrow> ev_sender ev \<noteq> t"
    "caller_knocked f \<Longrightarrow> ev_sender ev \<noteq> t"
    using facts(1-3) banned by auto
  have "(m = JStr Membership_LEAVE \<or> m = JStr Membership_BAN) \<and> caller_in_room f
      \<and> ban_level f \<le> user_level f \<and> target_level f < user_level f"
    using rules(4) tb diff t'
    by (auto simp: check_membership_rules_def check_invite_rules_def check_join_rules_def
        check_leave_rules_def check_ban_rules_def check_knock_rules_def res_simps split: if_splits)
  then show ?thesis using rules(1) facts diff by auto
qed

theorem banned_user_stays_out_witness:
  "let a = sample_state((EventTypes_Member, ''@b:s'') \<mapsto>
               sample_member ''$bb'' ''@a:s'' ''@b:s'' ''ban'')
   in \<exists>ul tl. get_user_power_level ''@a:s'' a = Inr ul \<and> get_user_power_level ''@b:s'' a = Inr tl
        \<and> tl < ul"
proof -
  let ?a = "sample_state((EventTypes_Member, ''@b:s'') \<mapsto>
               sample_member ''$bb'' ''@a:s'' ''@b:s'' ''ban'')"
  let ?ev = "sample_member ''$u'' ''@a:s'' ''@b:s'' ''leave''"
  let ?x = "\<lparr>ext_valid_ipv6 = \<lambda>_. False, ext_verify_signed = \<lambda>_ _ _ _. Inl PyKeyError,
             ext_canonical_len = \<lambda>_. 0\<rparr>"
  have "check_auth_rules ?x ?ev ?a = Inr ()"
    by code_simp
  then show ?thesis
    using banned_user_stays_out [of ?x ?ev ?a "''@b:s''" "sample_member ''$bb'' ''@a:s'' ''@b:s'' ''ban''"]
    by (auto simp: sample_defs membership_of_def dindex_def membership_defs Let_def)
qed


section \<open>Power level events\<close>


lemma level_in_JObj:
  "level_in (JObj d) (JStr s) = (case dget d s of None \<Rightarrow> Inr None
     | Some w \<Rightarrow> rbind (py_int w) (\<lambda>i. Inr (Some i)))"
  by (simp add: level_in_def)

lemma check_level_Inr:
  assumes "check_level ev ul old new (l, dir) = Inr ()"
    and "ol = (case dir of None \<Rightarrow> JObj old | Some d \<Rightarrow> dget_default old d (JObj []))"
    and "nl = (case dir of None \<Rightarrow> JObj new | Some d \<Rightarrow> dget_default new d (JObj []))"
  obtains i j where "level_in ol l = Inr i" and "level_in nl l = Inr j"
    and "i \<noteq> None \<and> i = j \<or> (\<forall>k \<in> set_option i. k \<le> ul) \<and> (\<forall>k \<in> set_option j. k \<le> ul)
          \<and> (dir = Some ''users'' \<and> l \<noteq> JStr (ev_sender ev) \<longrightarrow> i \<noteq> Some ul)"
  using assms
  by (auto simp: check_level_def Let_def res_simps not_less split: if_splits option.splits)

lemma levels_to_check_Inr:
  assumes "levels_to_check rv old new = Inr ls"
    and "dget_dict new ''users'' = Inr nu" and "dget_dict old ''users'' = Inr ou"
  shows "(JStr ''users_default'', None) \<in> set ls"
    and "u \<in> fst ` set nu \<union> fst ` set ou \<Longrightarrow> (JStr u, Some ''users'') \<in> set ls"
proof -
  have "level_names new ''users'' = Inr (map (JStr \<circ> fst) nu)"
    "level_names old ''users'' = Inr (map (JStr \<circ> fst) ou)"
    using assms(2,3)
    by (auto simp: level_names_def dget_dict_def dget_default_def split: option.splits json.splits)
  then obtain rest where
    ls: "ls = map (\<lambda>k. (JStr k, None)) top_level_keys
           @ map (\<lambda>u. (u, Some ''users'')) (remdups (map (JStr \<circ> fst) ou @ map (JStr \<circ> fst) nu)) @ rest"
    using assms(1) by (auto simp: levels_to_check_def res_simps)
  then show "(JStr ''users_default'', None) \<in> set ls" by (simp add: top_level_keys_def)
  show "(JStr u, Some ''users'') \<in> set ls" if "u \<in> fst ` set nu \<union> fst ` set ou"
  proof -
    from that have "JStr u \<in> set (remdups (map (JStr \<circ> fst) ou @ map (JStr \<circ> fst) nu))" by force
    then show ?thesis unfolding ls by simp
  qed
qed

lemma dget_dict_default:
  "dget_dict d k = Inr o' \<Longrightarrow> dget_default d k (JObj []) = JObj o'"
  by (auto simp: dget_dict_def dget_default_def split: option.splits json.splits)

text \<open>What an accepted power level event says about one user and about the default.\<close>

lemma check_power_levels_users:
  assumes ok: "check_power_levels rv ev a = Inr ()"
    and ty: "ev_type ev = EventTypes_PowerLevels" and sk: "ev_state_key ev = Some []"
    and old: "a POWER_KEY = Some old" and ul: "get_user_power_level (ev_sender ev) a = Inr ul"
    and nu: "dget_dict (ev_content ev) ''users'' = Inr nu"
    and ou: "dget_dict (ev_content old) ''users'' = Inr ou"
    and u: "u \<in> fst ` set nu \<union> fst ` set ou"
  obtains i j where "level_in (JObj ou) (JStr u) = Inr i" and "level_in (JObj nu) (JStr u) = Inr j"
    and "i \<noteq> None \<and> i = j \<or> (\<forall>k \<in> set_option i. k \<le> ul) \<and> (\<forall>k \<in> set_option j. k \<le> ul)
          \<and> (u \<noteq> ev_sender ev \<longrightarrow> i \<noteq> Some ul)"
proof -
  from ok ty sk old ul obtain ls where
    ls: "levels_to_check rv (ev_content old) (ev_content ev) = Inr ls"
    and chk: "\<forall>l \<in> set ls. check_level ev ul (ev_content old) (ev_content ev) l = Inr ()"
    by (auto simp: check_power_levels_def res_simps state_key_of_def POWER_KEY_def)
  from levels_to_check_Inr(2) [OF ls nu ou u] chk
  have "check_level ev ul (ev_content old) (ev_content ev) (JStr u, Some ''users'') = Inr ()"
    by blast
  then show ?thesis
    by (rule check_level_Inr [OF _ refl refl])
      (use that in \<open>auto simp: dget_dict_default [OF nu] dget_dict_default [OF ou]\<close>)
qed


lemma check_auth_rules_power_levels:
  "check_auth_rules x ev a = Inr () \<Longrightarrow> ev_type ev = EventTypes_PowerLevels
   \<Longrightarrow> check_power_levels (ev_room_version ev) ev a = Inr ()"
  by (auto simp: check_auth_rules_def res_simps split: option.splits if_splits)

text \<open>The level of a user under a power level event, for a user who is not a creator.\<close>

definition users_level :: "event \<Rightarrow> string \<Rightarrow> int res" where
  "users_level pl u = rbind (dget_dict (ev_content pl) ''users'') (\<lambda>users.
     let level = dget_none users u;
         level = (if level = JNull
                  then dget_default (ev_content pl) ''users_default'' (JInt 0) else level)
     in if level = JNull then Inr 0 else py_int level)"


lemma users_level_entry:
  assumes "dget_dict (ev_content pl) ''users'' = Inr us"
    and "level_in (JObj us) (JStr u) = Inr (Some i)"
  shows "users_level pl u = Inr i"
proof -
  from assms(2) obtain w where w: "map_of us u = Some w" "py_int w = Inr i"
    by (auto simp: level_in_JObj dget_def res_simps split: option.splits)
  then have "w \<noteq> JNull" by auto
  with w assms(1) show ?thesis by (simp add: users_level_def dget_none_def Let_def)
qed


text \<open>
  C6: the sender's peers are protected. If the power levels list another user at or above the
  level of the sender, an accepted event leaves the level of that user as it was.
\<close>

theorem power_level_peers_protected:
  assumes ok: "check_auth_rules x ev a = Inr ()"
    and ty: "ev_type ev = EventTypes_PowerLevels" and sk: "ev_state_key ev = Some []"
    and old: "a POWER_KEY = Some old"
    and sender: "get_user_power_level (ev_sender ev) a = Inr ul"
    and listed: "dget_dict (ev_content old) ''users'' = Inr ou" "dget ou u = Some w" "py_int w = Inr l"
    and peer: "ul \<le> l" and other: "u \<noteq> ev_sender ev"
  shows "users_level old u = Inr l \<and> users_level ev u = Inr l"
proof -
  note pl = check_auth_rules_power_levels [OF ok ty]
  from pl obtain nu where nu: "dget_dict (ev_content ev) ''users'' = Inr nu"
    by (auto simp: check_power_levels_def res_simps)
  have li: "level_in (JObj ou) (JStr u) = Inr (Some l)"
    using listed by (simp add: level_in_JObj)
  have "u \<in> fst ` set nu \<union> fst ` set ou"
    using listed(2) by (force simp: dget_def dest: map_of_SomeD)
  then obtain i j where i: "level_in (JObj ou) (JStr u) = Inr i"
    and j: "level_in (JObj nu) (JStr u) = Inr j"
    and ij: "i \<noteq> None \<and> i = j \<or> (\<forall>k \<in> set_option i. k \<le> ul) \<and> (\<forall>k \<in> set_option j. k \<le> ul)
        \<and> (u \<noteq> ev_sender ev \<longrightarrow> i \<noteq> Some ul)"
    by (rule check_power_levels_users [OF pl ty sk old sender nu listed(1)])
  from ij i li peer other have "j = Some l" by auto
  with j li users_level_entry [OF nu] users_level_entry [OF listed(1)] show ?thesis by simp
qed


text \<open>A promotion by the creator, and an attempt to change the level of a peer.\<close>

definition sample_promotion :: "event" where
  "sample_promotion = sample_event ''$pl2'' EventTypes_PowerLevels (Some []) ''@a:s''
     [(''users'', JObj [(''@a:s'', JInt 100), (''@b:s'', JInt 50)])] []"


theorem power_level_peers_protected_witness:
  "users_level (sample_promotion\<lparr>ev_sender := ''@c:s''\<rparr>) ''@a:s'' = Inr 100"
proof -
  let ?a = "sample_state((EventTypes_Member, ''@c:s'') \<mapsto> sample_member ''$jc'' ''@c:s'' ''@c:s'' ''join'',
      POWER_KEY \<mapsto> sample_power\<lparr>ev_content :=
        [(''users'', JObj [(''@a:s'', JInt 100), (''@c:s'', JInt 100)])]\<rparr>)"
  let ?ev = "sample_promotion\<lparr>ev_sender := ''@c:s'', ev_content :=
        [(''users'', JObj [(''@a:s'', JInt 100), (''@c:s'', JInt 100), (''@b:s'', JInt 50)])]\<rparr>"
  have "check_auth_rules sample_ext ?ev ?a = Inr ()" by code_simp
  moreover have "get_user_power_level (ev_sender ?ev) ?a = Inr 100" by code_simp
  ultimately have "users_level ?ev ''@a:s'' = Inr 100"
    using power_level_peers_protected [of sample_ext ?ev ?a "sample_power\<lparr>ev_content :=
        [(''users'', JObj [(''@a:s'', JInt 100), (''@c:s'', JInt 100)])]\<rparr>" 100
        "[(''@a:s'', JInt 100), (''@c:s'', JInt 100)]" "''@a:s''" "JInt 100" 100]
    by (simp add: sample_promotion_def sample_event_def dget_dict_def dget_def)
  then show ?thesis
    by (simp add: users_level_def sample_promotion_def sample_event_def dget_dict_def dget_none_def)
qed

section \<open>Senders and auth event lists\<close>

text \<open>
  An event that is neither a membership nor an alias nor a third-party invite event is
  accepted only from a joined sender whose level reaches the level its type requires, and, in
  rooms without owned state (MSC3757), never under the state key of another user.
\<close>

theorem accepted_sender_joined:
  assumes ok: "check_auth_rules x ev a = Inr ()"
    and ty: "ev_type ev \<notin> {EventTypes_Member, EventTypes_Aliases, EventTypes_ThirdPartyInvite}"
  shows "(\<exists>m. a (EventTypes_Member, ev_sender ev) = Some m
            \<and> membership_of m = Inr (JStr Membership_JOIN))
    \<and> (\<exists>ul sl. get_user_power_level (ev_sender ev) a = Inr ul
            \<and> get_send_level (ev_type ev) (ev_state_key ev) (a POWER_KEY) = Inr sl \<and> sl \<le> ul)
    \<and> (\<forall>k. ev_state_key ev = Some k \<longrightarrow> py_startswith k ''@''
            \<longrightarrow> \<not> msc3757_enabled (ev_room_version ev) \<longrightarrow> k = ev_sender ev)"
proof -
  from ok ty have s: "check_event_sender_in_room ev a = Inr ()"
    and c: "\<exists>r. can_send_event x ev a = Inr r"
    by (auto simp: check_auth_rules_def res_simps split: option.splits if_splits)
  from s have "\<exists>m. a (EventTypes_Member, ev_sender ev) = Some m
      \<and> membership_of m = Inr (JStr Membership_JOIN)"
    by (simp add: check_event_sender_in_room_def check_joined_room_iff)
  with c show ?thesis
    by (auto simp: can_send_event_def get_power_level_event_def Let_def res_simps not_less
        split: if_splits option.splits)
qed

theorem accepted_sender_joined_witness:
  "\<exists>ul sl. get_user_power_level ''@b:s'' sample_state = Inr ul
     \<and> get_send_level ''m.room.message'' None (sample_state POWER_KEY) = Inr sl \<and> sl \<le> ul"
proof -
  let ?ev = "sample_event ''$m'' ''m.room.message'' None ''@b:s'' [] []"
  have "check_auth_rules sample_ext ?ev sample_state = Inr ()" by code_simp
  then show ?thesis
    using accepted_sender_joined [of sample_ext ?ev sample_state]
    by (simp add: sample_event_def event_type_defs)
qed

text \<open>The key under which an acceptable auth event is filed.\<close>

definition auth_entry_key ::
  "event \<Rightarrow> (string \<rightharpoonup> event) \<Rightarrow> state_key list \<Rightarrow> string \<Rightarrow> state_key option" where
  "auth_entry_key ev lookup expected i = (case lookup i of
      None \<Rightarrow> None
    | Some e \<Rightarrow> (case ev_state_key e of
        None \<Rightarrow> None
      | Some sk \<Rightarrow> if ev_room_id e = ev_room_id ev \<and> (ev_type e, sk) \<in> set expected
                      \<and> ev_rejected_reason e \<in> {None, Some []}
                   then Some (ev_type e, sk) else None))"

lemma check_auth_event_entry_iff:
  "check_auth_event_entry ev lookup expected i d = Inr d' \<longleftrightarrow>
     (\<exists>k. auth_entry_key ev lookup expected i = Some k \<and> k \<notin> fst ` set d \<and> d' = d @ [(k, i)])"
  by (auto simp: check_auth_event_entry_def auth_entry_key_def state_key_of_def Let_def dhas_iff
      dset_fresh split: option.splits if_splits)

lemma check_auth_event_entries_iff:
  "foldM_res (check_auth_event_entry ev lookup expected) ids d = Inr d' \<longleftrightarrow>
     (\<exists>ks. map (auth_entry_key ev lookup expected) ids = map Some ks \<and> distinct ks
        \<and> set ks \<inter> fst ` set d = {} \<and> d' = d @ zip ks ids)"
proof (induction ids arbitrary: d)
  case (Cons i ids)
  show ?case (is "?L = ?R")
  proof
    assume ?L
    then obtain k ks where "auth_entry_key ev lookup expected i = Some k" "k \<notin> fst ` set d"
      and "map (auth_entry_key ev lookup expected) ids = map Some ks" "distinct ks"
        "set ks \<inter> fst ` set (d @ [(k, i)]) = {}" "d' = (d @ [(k, i)]) @ zip ks ids"
      by (auto simp: rbind_Inr_iff check_auth_event_entry_iff Cons.IH)
    then show ?R by (intro exI [of _ "k # ks"]) auto
  next
    assume ?R
    then obtain k ks where "auth_entry_key ev lookup expected i = Some k"
      and "map (auth_entry_key ev lookup expected) ids = map Some ks" "distinct (k # ks)"
        "set (k # ks) \<inter> fst ` set d = {}" "d' = d @ zip (k # ks) (i # ids)"
      by (auto simp: Cons_eq_map_conv)
    then have "check_auth_event_entry ev lookup expected i d = Inr (d @ [(k, i)])"
      and "foldM_res (check_auth_event_entry ev lookup expected) ids (d @ [(k, i)]) = Inr d'"
      unfolding Cons.IH by (auto simp: check_auth_event_entry_iff)
    then show ?L by simp
  qed
qed auto

text \<open>
  The state-independent check accepts an event (other than a creation event) exactly when its
  auth events are all known, in the same room, not rejected, of selected types, with no type and
  state key listed twice, and the creation event is among them.
\<close>

theorem state_independent_auth_iff:
  assumes "ev_type ev \<noteq> EventTypes_Create"
    and "auth_types_for_event (ev_room_version ev) ev = Inr expected"
  shows "check_state_independent_auth_rules x store batched ev = Inr () \<longleftrightarrow>
     (\<exists>ks. map (auth_entry_key ev (store ++ batched) expected) (ev_auth_event_ids ev) = map Some ks
        \<and> distinct ks \<and> (\<exists>i. i \<noteq> [] \<and> (CREATE_KEY, i) \<in> set (zip ks (ev_auth_event_ids ev))))"
proof -
  let ?ids = "ev_auth_event_ids ev" and ?key = "auth_entry_key ev (store ++ batched) expected"
  let ?create = "\<lambda>d. (case dget d CREATE_KEY of None \<Rightarrow> forbidden
      | Some c \<Rightarrow> raise_if (c = []) (AuthError 403 FORBIDDEN)) = (Inr () :: unit res)"
  have create: "?create (zip ks ?ids) \<longleftrightarrow> (\<exists>i. i \<noteq> [] \<and> (CREATE_KEY, i) \<in> set (zip ks ?ids))"
    if "distinct ks" for ks
  proof -
    have "dget (zip ks ?ids) CREATE_KEY = Some i \<longleftrightarrow> (CREATE_KEY, i) \<in> set (zip ks ?ids)" for i
      using that unfolding dget_def by (intro map_of_eq_Some_iff) (simp add: map_fst_zip_take)
    moreover have "?create (zip ks ?ids) \<longleftrightarrow> (\<exists>i. dget (zip ks ?ids) CREATE_KEY = Some i \<and> i \<noteq> [])"
      by (cases "dget (zip ks ?ids) CREATE_KEY") auto
    ultimately show ?thesis by blast
  qed
  have "check_state_independent_auth_rules x store batched ev = Inr () \<longleftrightarrow>
      (\<exists>d. foldM_res (check_auth_event_entry ev (store ++ batched) expected) ?ids [] = Inr d \<and> ?create d)"
    using assms by (simp add: check_state_independent_auth_rules_def rbind_Inr_iff)
  also have "\<dots> \<longleftrightarrow> (\<exists>ks. map ?key ?ids = map Some ks \<and> distinct ks \<and> ?create (zip ks ?ids))"
    by (auto simp: check_auth_event_entries_iff)
  finally show ?thesis using create by blast
qed

theorem state_independent_auth_iff_witness:
  "check_state_independent_auth_rules sample_ext
     [''$c'' \<mapsto> sample_create, ''$pl'' \<mapsto> sample_power,
      ''$jb'' \<mapsto> sample_member ''$jb'' ''@b:s'' ''@b:s'' ''join''] Map.empty
     (sample_event ''$m'' ''m.room.message'' None ''@b:s'' [] [''$pl'', ''$jb'', ''$c'']) = Inr ()"
proof -
  let ?ev = "sample_event ''$m'' ''m.room.message'' None ''@b:s'' [] [''$pl'', ''$jb'', ''$c'']"
  have ty: "auth_types_for_event (ev_room_version ?ev) ?ev
      = Inr [POWER_KEY, (EventTypes_Member, ''@b:s''), CREATE_KEY]" by code_simp
  let ?store = "[''$c'' \<mapsto> sample_create, ''$pl'' \<mapsto> sample_power,
      ''$jb'' \<mapsto> sample_member ''$jb'' ''@b:s'' ''@b:s'' ''join'']"
  let ?ks = "[POWER_KEY, (EventTypes_Member, ''@b:s''), CREATE_KEY]"
  have "ev_type ?ev \<noteq> EventTypes_Create" by code_simp
  note iff = state_independent_auth_iff [OF this ty, of sample_ext ?store Map.empty]
  have "map (auth_entry_key ?ev (?store ++ Map.empty) ?ks) (ev_auth_event_ids ?ev) = map Some ?ks"
    by code_simp
  moreover have "distinct ?ks" by code_simp
  moreover have "''$c'' \<noteq> [] \<and> (CREATE_KEY, ''$c'') \<in> set (zip ?ks (ev_auth_event_ids ?ev))"
    by code_simp
  ultimately show ?thesis using iff by blast
qed

text \<open>
  The restriction to power level events with an empty state key in the locality theorem is
  needed. For a power level event under another state key the verdict depends on an entry that
  \<open>auth_types_for_event\<close> does not select: the two states below agree on every selected entry, and
  the event is accepted in the first and refused in the second.
\<close>

definition keyed_power_event :: event where
  "keyed_power_event = sample_event ''$k'' EventTypes_PowerLevels (Some ''x'') ''@a:s'' [] []"

theorem keyed_power_levels_read_unselected_state:
  "let a = sample_state;
       a' = sample_state((EventTypes_PowerLevels, ''x'') \<mapsto> sample_power\<lparr>ev_content :=
              [(''users'', JObj [(''@z:s'', JInt 200)])]\<rparr>)
   in auth_types_for_event (ev_room_version keyed_power_event) keyed_power_event
        = Inr [POWER_KEY, (EventTypes_Member, ''@a:s''), CREATE_KEY]
    \<and> list_all (\<lambda>k. a k = a' k) [POWER_KEY, (EventTypes_Member, ''@a:s''), CREATE_KEY]
    \<and> check_auth_rules sample_ext keyed_power_event a = Inr ()
    \<and> check_auth_rules sample_ext keyed_power_event a' = Inl (AuthError 403 FORBIDDEN)"
  unfolding Let_def
proof (intro conjI)
  show "list_all (\<lambda>k. sample_state k = (sample_state((EventTypes_PowerLevels, ''x'') \<mapsto>
      sample_power\<lparr>ev_content := [(''users'', JObj [(''@z:s'', JInt 200)])]\<rparr>)) k)
      [POWER_KEY, (EventTypes_Member, ''@a:s''), CREATE_KEY]"
    by (simp add: POWER_KEY_def CREATE_KEY_def)
qed code_simp+

end
