(* ===== verification/Topo_Sort.thy ===== *)
theory Topo_Sort
  imports Py_Base
begin

text \<open>
  \<open>lexicographical_topological_sort\<close> of \<open>synapse/state/v2.py\<close>: Kahn's algorithm on a graph of
  outgoing edges, with the available nodes in a heap ordered by a key.

  A graph is a dictionary from nodes to the list of their edges. The heap of the standard
  library is used only through \<open>heapify\<close>, \<open>heappush\<close> and \<open>heappop\<close>, whose contract is the locale
  \<open>min_queue\<close>; \<open>heapq\<close> is modelled by sorted lists, on which the locale is interpreted.

  The loop takes fuel, one unit per node it yields; \<open>topo_sort_total\<close> shows that the number of
  nodes is enough. The result is the one list that satisfies \<open>lex_topo\<close> (\<open>lex_topo_unique\<close>): it
  takes the available node with the least key at every step. On an acyclic graph it is a
  permutation of the nodes in which every node comes after its edges.
\<close>

type_synonym 'n graph = "('n \<times> 'n list) list"

section \<open>Definitions\<close>

definition heapify :: "'a::linorder list \<Rightarrow> 'a list" where
  "heapify xs = sort xs"

definition heappush :: "'a::linorder \<Rightarrow> 'a list \<Rightarrow> 'a list" where
  "heappush x q = insort x q"

definition heappop :: "'a::linorder list \<Rightarrow> ('a \<times> 'a list) option" where
  "heappop q = (case q of [] \<Rightarrow> None | x # q' \<Rightarrow> Some (x, q'))"

text \<open>\<open>reverse_graph[node]\<close>: the nodes with an edge to \<open>node\<close>.\<close>

definition reverse_graph :: "'n graph \<Rightarrow> 'n \<Rightarrow> 'n list" where
  "reverse_graph g node = map fst (filter (\<lambda>(_, edges). node \<in> set edges) g)"

definition edges_of :: "'n graph \<Rightarrow> 'n \<Rightarrow> 'n list" where
  "edges_of g node = (case map_of g node of None \<Rightarrow> [] | Some es \<Rightarrow> es)"

text \<open>The body of the inner loop: \<open>out.discard(node)\<close>, then a push when nothing is left.\<close>

definition discard_edge ::
  "('n \<Rightarrow> 'k::linorder) \<Rightarrow> 'n::linorder \<Rightarrow> 'n \<Rightarrow> ('n \<Rightarrow> 'n list) \<times> ('k \<times> 'n) list
     \<Rightarrow> ('n \<Rightarrow> 'n list) \<times> ('k \<times> 'n) list" where
  "discard_edge key node parent st = (case st of (outdegree_map, zero_outdegree) \<Rightarrow>
     let out = removeAll node (outdegree_map parent) in
     (outdegree_map(parent := out),
      if out = [] then heappush (key parent, parent) zero_outdegree else zero_outdegree))"

fun topo_loop ::
  "nat \<Rightarrow> ('n \<Rightarrow> 'k::linorder) \<Rightarrow> 'n::linorder graph
     \<Rightarrow> ('n \<Rightarrow> 'n list) \<times> ('k \<times> 'n) list \<Rightarrow> 'n list option" where
  "topo_loop fuel key g (om, q) = (case heappop q of
      None \<Rightarrow> Some []
    | Some ((_, node), q') \<Rightarrow> (case fuel of
        0 \<Rightarrow> None
      | Suc fuel' \<Rightarrow> map_option ((#) node)
          (topo_loop fuel' key g (fold (discard_edge key node) (reverse_graph g node) (om, q')))))"

definition lexicographical_topological_sort ::
  "'n::linorder graph \<Rightarrow> ('n \<Rightarrow> 'k::linorder) \<Rightarrow> 'n list option" where
  "lexicographical_topological_sort g key =
     (let zero_outdegree = map (\<lambda>(node, _). (key node, node)) (filter (\<lambda>(_, es). es = []) g)
      in topo_loop (length g) key g (edges_of g, heapify zero_outdegree))"

section \<open>Specification\<close>

text \<open>The nodes that can be yielded once the nodes of \<open>D\<close> have been.\<close>

definition available :: "('n \<Rightarrow> 'n set) \<Rightarrow> 'n set \<Rightarrow> 'n set \<Rightarrow> 'n set" where
  "available E N D = {n \<in> N - D. E n \<subseteq> D}"

text \<open>
  The lexicographic topological order of the nodes \<open>N\<close> under the edges \<open>E\<close>, from the set \<open>D\<close> of
  nodes already yielded: every element is the available node that is least by key, and the list
  ends when no node is available.
\<close>

fun lex_topo :: "('n \<Rightarrow> 'k::linorder) \<Rightarrow> ('n::linorder \<Rightarrow> 'n set) \<Rightarrow> 'n set \<Rightarrow> 'n set \<Rightarrow> 'n list \<Rightarrow> bool"
where
  "lex_topo key E N D [] = (available E N D = {})"
| "lex_topo key E N D (n # xs) = (n \<in> available E N D
     \<and> (\<forall>m \<in> available E N D. (key n, n) \<le> (key m, m)) \<and> lex_topo key E N (insert n D) xs)"

section \<open>The heap\<close>

locale min_queue =
  fixes heap_of :: "'a::linorder list \<Rightarrow> 'q"
    and push :: "'a \<Rightarrow> 'q \<Rightarrow> 'q"
    and pop :: "'q \<Rightarrow> ('a \<times> 'q) option"
    and items :: "'q \<Rightarrow> 'a multiset"
    and wf :: "'q \<Rightarrow> bool"
  assumes items_heap_of: "items (heap_of xs) = mset xs"
    and wf_heap_of: "wf (heap_of xs)"
    and items_push: "wf q \<Longrightarrow> items (push x q) = add_mset x (items q)"
    and wf_push: "wf q \<Longrightarrow> wf (push x q)"
    and pop_None: "wf q \<Longrightarrow> pop q = None \<longleftrightarrow> items q = {#}"
    and pop_Some: "wf q \<Longrightarrow> pop q = Some (x, q') \<Longrightarrow> items q = add_mset x (items q') \<and> wf q'"
    and pop_least: "wf q \<Longrightarrow> pop q = Some (x, q') \<Longrightarrow> y \<in># items q \<Longrightarrow> x \<le> y"
begin

lemma pop_mem: "wf q \<Longrightarrow> pop q = Some (x, q') \<Longrightarrow> x \<in># items q"
  by (auto dest: pop_Some)

text \<open>A run of pushes adds what was pushed, in any order.\<close>

lemma fold_push: "wf q \<Longrightarrow> wf (fold push xs q) \<and> items (fold push xs q) = mset xs + items q"
  by (induction xs arbitrary: q) (auto simp: wf_push items_push)

end

interpretation heapq: min_queue heapify heappush heappop mset sorted
  by unfold_locales
    (auto simp: heapify_def heappush_def heappop_def sorted_insort split: list.splits)

section \<open>The order is unique\<close>

lemma lex_topo_unique: "lex_topo key E N D xs \<Longrightarrow> lex_topo key E N D ys \<Longrightarrow> xs = ys"
proof (induction xs arbitrary: D ys)
  case Nil
  then show ?case by (cases ys) auto
next
  case (Cons n xs)
  then obtain m ys' where ys: "ys = m # ys'" by (cases ys) auto
  from Cons.prems ys have "(key n, n) = (key m, m)" by (intro antisym) auto
  with Cons.IH [of "insert n D" ys'] Cons.prems ys show ?case by simp
qed

lemma lex_topo_distinct: "lex_topo key E N D xs \<Longrightarrow> distinct xs \<and> set xs \<subseteq> N - D"
proof (induction xs arbitrary: D)
  case (Cons n xs)
  from Cons.IH [of "insert n D"] Cons.prems show ?case by (auto simp: available_def)
qed simp

lemma lex_topo_ordered:
  "lex_topo key E N D (as @ n # bs) \<Longrightarrow> E n \<subseteq> D \<union> set as"
proof (induction as arbitrary: D)
  case (Cons a as)
  from Cons.IH [of "insert a D"] Cons.prems show ?case by auto
qed (auto simp: available_def)

text \<open>On an acyclic graph whose edges are nodes, the list stops only when every node is in it.\<close>

lemma lex_topo_complete:
  assumes "lex_topo key E N D xs" and "finite N" and "wf {(m, n). n \<in> N \<and> m \<in> E n}"
    and "\<And>n. n \<in> N \<Longrightarrow> E n \<subseteq> N"
  shows "N \<subseteq> D \<union> set xs"
  using assms
proof (induction xs arbitrary: D)
  case Nil
  show ?case
  proof (rule ccontr)
    assume "\<not> N \<subseteq> D \<union> set []"
    then obtain n where "n \<in> N - D" by auto
    with Nil.prems(3) obtain z where z: "z \<in> N - D"
      and min: "\<And>y. (y, z) \<in> {(m, n). n \<in> N \<and> m \<in> E n} \<Longrightarrow> y \<notin> N - D"
      by (rule wfE_min) blast
    from z min Nil.prems(4) have "E z \<subseteq> D" by auto
    with z Nil.prems(1) show False by (auto simp: available_def)
  qed
next
  case (Cons n xs)
  from Cons.IH [of "insert n D"] Cons.prems show ?case by auto
qed

section \<open>The loop computes it\<close>

lemma fold_discard_edge:
  "distinct ps \<Longrightarrow> fold (discard_edge key n) ps (om, q) =
     ((\<lambda>p. if p \<in> set ps then removeAll n (om p) else om p),
      fold heappush (map (\<lambda>p. (key p, p)) (filter (\<lambda>p. removeAll n (om p) = []) ps)) q)"
proof (induction ps arbitrary: om q)
  case (Cons p ps)
  then have "p \<notin> set ps" "distinct ps" by auto
  let ?om = "om(p := removeAll n (om p))"
  have "filter (\<lambda>r. removeAll n (?om r) = []) ps = filter (\<lambda>r. removeAll n (om r) = []) ps"
    using \<open>p \<notin> set ps\<close> by (intro filter_cong) auto
  moreover have "discard_edge key n p (om, q) = (?om,
      if removeAll n (om p) = [] then heappush (key p, p) q else q)"
    by (simp add: discard_edge_def Let_def)
  moreover have "(\<lambda>r. if r \<in> set ps then removeAll n (?om r) else ?om r)
      = (\<lambda>r. if r \<in> set (p # ps) then removeAll n (om r) else om r)"
    using \<open>p \<notin> set ps\<close> by (auto simp: fun_eq_iff)
  ultimately show ?case
    using Cons.IH [OF \<open>distinct ps\<close>, of ?om] by (simp del: fun_upd_apply)
qed auto

text \<open>What the loop maintains, when the nodes of \<open>D\<close> have been yielded.\<close>

definition loop_inv ::
  "('n \<Rightarrow> 'k::linorder) \<Rightarrow> 'n::linorder graph \<Rightarrow> 'n set \<Rightarrow> ('n \<Rightarrow> 'n list) \<Rightarrow> ('k \<times> 'n) list \<Rightarrow> bool" where
  "loop_inv key g D om q \<longleftrightarrow>
     (let N = fst ` set g; E = (\<lambda>n. set (edges_of g n)) in
      D \<subseteq> N \<and> (\<forall>p \<in> D. E p \<subseteq> D) \<and> (\<forall>p \<in> N. set (om p) = E p - D)
      \<and> sorted q \<and> mset q = mset_set ((\<lambda>n. (key n, n)) ` available E N D))"

lemma edges_of_in: "distinct (map fst g) \<Longrightarrow> (p, es) \<in> set g \<Longrightarrow> edges_of g p = es"
  by (simp add: edges_of_def)

lemma set_reverse_graph:
  assumes "distinct (map fst g)"
  shows "set (reverse_graph g n) = {p \<in> fst ` set g. n \<in> set (edges_of g p)}"
  using assms by (force simp: reverse_graph_def edges_of_in)

lemma distinct_reverse_graph: "distinct (map fst g) \<Longrightarrow> distinct (reverse_graph g n)"
  unfolding reverse_graph_def by (rule distinct_map_filter)

lemma available_insert:
  assumes "n \<in> available E N D" and "\<And>p. p \<in> D \<Longrightarrow> E p \<subseteq> D"
  shows "available E N (insert n D) = (available E N D - {n}) \<union> {p \<in> N. n \<in> E p \<and> E p \<subseteq> insert n D}"
    and "(available E N D - {n}) \<inter> {p \<in> N. n \<in> E p \<and> E p \<subseteq> insert n D} = {}"
  using assms by (auto simp: available_def)

lemma loop_inv_step:
  assumes inv: "loop_inv key g D om q" and dist: "distinct (map fst g)"
    and pop: "heappop q = Some ((k, n), q')"
    and fold: "fold (discard_edge key n) (reverse_graph g n) (om, q') = (om2, q2)"
  shows "n \<in> available (\<lambda>n. set (edges_of g n)) (fst ` set g) D"
    and "\<forall>m \<in> available (\<lambda>n. set (edges_of g n)) (fst ` set g) D. (key n, n) \<le> (key m, m)"
    and "loop_inv key g (insert n D) om2 q2"
proof -
  let ?N = "fst ` set g" and ?E = "\<lambda>n. set (edges_of g n)" and ?pair = "\<lambda>n. (key n, n)"
  let ?A = "available ?E ?N D" and ?P = "{p \<in> ?N. n \<in> ?E p \<and> ?E p \<subseteq> insert n D}"
  from inv have D: "D \<subseteq> ?N" "\<And>p. p \<in> D \<Longrightarrow> ?E p \<subseteq> D" and om: "\<And>p. p \<in> ?N \<Longrightarrow> set (om p) = ?E p - D"
    and q: "sorted q" "mset q = mset_set (?pair ` ?A)"
    by (auto simp: loop_inv_def Let_def)
  have fin: "finite ?A" by (auto simp: available_def)
  have mem: "x \<in># mset q \<longleftrightarrow> x \<in> ?pair ` ?A" for x using q fin by simp
  have kn: "(k, n) \<in> ?pair ` ?A" using heapq.pop_mem [OF q(1) pop] mem by blast
  then have k: "k = key n" and n: "n \<in> ?A" by auto
  show "n \<in> ?A" by (rule n)
  show "\<forall>m \<in> ?A. (key n, n) \<le> (key m, m)"
  proof
    fix m assume "m \<in> ?A"
    then have "(key m, m) \<in># mset q" unfolding mem by (rule imageI)
    with heapq.pop_least [OF q(1) pop] k show "(key n, n) \<le> (key m, m)" by blast
  qed
  from n have nN: "n \<in> ?N" "n \<notin> D" "?E n \<subseteq> D" by (auto simp: available_def)
  have q': "mset q' = mset_set (?pair ` (?A - {n}))" "sorted q'"
  proof -
    have "mset q = add_mset (k, n) (mset q')" "sorted q'" using heapq.pop_Some [OF q(1) pop] by auto
    moreover have "?pair ` ?A = insert (k, n) (?pair ` (?A - {n}))" using n k by auto
    moreover have "(k, n) \<notin> ?pair ` (?A - {n})" using k by auto
    ultimately show "mset q' = mset_set (?pair ` (?A - {n}))" "sorted q'"
      using q(2) fin by (simp_all add: mset_set.insert_remove)
  qed
  let ?ps = "filter (\<lambda>p. removeAll n (om p) = []) (reverse_graph g n)"
  from fold [unfolded fold_discard_edge [OF distinct_reverse_graph [OF dist]]]
  have om2: "om2 = (\<lambda>p. if p \<in> set (reverse_graph g n) then removeAll n (om p) else om p)"
    and q2: "q2 = fold heappush (map ?pair ?ps) q'" by auto
  have "removeAll n (om p) = [] \<longleftrightarrow> ?E p \<subseteq> insert n D" if "p \<in> ?N" for p
    using om [OF that] by (auto simp flip: set_empty)
  then have "set ?ps = ?P"
    by (auto simp: set_reverse_graph [OF dist])
  then have ps: "mset (map ?pair ?ps) = mset_set (?pair ` ?P)"
    using mset_set_set [of "map ?pair ?ps"] distinct_reverse_graph [OF dist, of n]
    by (simp add: distinct_map inj_on_def)
  have "?pair ` available ?E ?N (insert n D) = ?pair ` (?A - {n}) \<union> ?pair ` ?P"
    "?pair ` (?A - {n}) \<inter> ?pair ` ?P = {}"
    using available_insert [OF n D(2)] by auto
  then have "mset q2 = mset_set (?pair ` available ?E ?N (insert n D))" "sorted q2"
    using heapq.fold_push [OF q'(2), of "map ?pair ?ps"] q'(1) ps fin q2
    by (simp_all add: mset_set_Union add.commute)
  moreover have "set (om2 p) = ?E p - insert n D" if "p \<in> ?N" for p
    using om [OF that] that by (auto simp: om2 set_reverse_graph [OF dist])
  moreover have "\<forall>p \<in> insert n D. ?E p \<subseteq> insert n D" using D(2) nN(3) by blast
  ultimately show "loop_inv key g (insert n D) om2 q2"
    using D(1) nN(1) by (simp add: loop_inv_def Let_def)
qed

lemma loop_inv_init:
  assumes "distinct (map fst g)"
  shows "loop_inv key g {} (edges_of g)
    (heapify (map (\<lambda>(node, _). (key node, node)) (filter (\<lambda>(_, es). es = []) g)))"
proof -
  let ?E = "\<lambda>n. set (edges_of g n)" and ?pair = "\<lambda>n. (key n, n)"
  let ?ns = "map fst (filter (\<lambda>(_, es). es = []) g)"
  have ns: "set ?ns = available ?E (fst ` set g) {}"
    using assms by (force simp: available_def edges_of_in)
  have "distinct ?ns" using assms by (rule distinct_map_filter)
  then have "distinct (map ?pair ?ns)" by (subst distinct_map) (auto simp: inj_on_def)
  then have "mset (map ?pair ?ns) = mset_set (set (map ?pair ?ns))" by (rule mset_set_set [symmetric])
  also have "set (map ?pair ?ns) = ?pair ` available ?E (fst ` set g) {}"
    by (simp only: set_map [of ?pair] ns)
  finally have "mset (map ?pair ?ns) = mset_set (?pair ` available ?E (fst ` set g) {})" .
  then have items: "mset (heapify (map ?pair ?ns)) = mset_set (?pair ` available ?E (fst ` set g) {})"
    by (simp only: heapq.items_heap_of)
  have "map (\<lambda>(node, _). ?pair node) (filter (\<lambda>(_, es). es = []) g) = map ?pair ?ns"
    by auto
  then have eq: "map (\<lambda>(node, _). (key node, node)) (filter (\<lambda>(_, es). es = []) g) = map ?pair ?ns" .
  show ?thesis
    unfolding eq loop_inv_def Let_def items using heapq.wf_heap_of [of "map ?pair ?ns"] by blast
qed

lemma topo_loop_lex:
  assumes "loop_inv key g D om q" and "distinct (map fst g)" and "card (fst ` set g - D) \<le> fuel"
  shows "\<exists>xs. topo_loop fuel key g (om, q) = Some xs
    \<and> lex_topo key (\<lambda>n. set (edges_of g n)) (fst ` set g) D xs"
  using assms
proof (induction fuel arbitrary: D om q)
  case (0 D om q)
  let ?A = "available (\<lambda>n. set (edges_of g n)) (fst ` set g) D"
  from 0 have "?A = {}" by (auto simp: available_def)
  with 0 have "heappop q = None"
    by (auto simp: loop_inv_def Let_def heapq.pop_None)
  with \<open>?A = {}\<close> show ?case by simp
next
  case (Suc fuel D om q)
  show ?case
  proof (cases "heappop q")
    case None
    with Suc.prems(1) have "(\<lambda>n. (key n, n)) ` available (\<lambda>n. set (edges_of g n)) (fst ` set g) D = {}"
      using heapq.pop_None [of q] by (auto simp: loop_inv_def Let_def available_def mset_set_empty_iff)
    with None show ?thesis by simp
  next
    case (Some r)
    then obtain k n q' where pop: "heappop q = Some ((k, n), q')" by (metis prod.exhaust)
    obtain om2 q2 where fold: "fold (discard_edge key n) (reverse_graph g n) (om, q') = (om2, q2)"
      by fastforce
    note step = loop_inv_step [OF Suc.prems(1,2) pop fold]
    from step(1) have "n \<in> fst ` set g - D" by (auto simp: available_def)
    then have "card (fst ` set g - insert n D) < card (fst ` set g - D)"
      by (intro psubset_card_mono) auto
    with Suc.prems(3) have "card (fst ` set g - insert n D) \<le> fuel" by simp
    from Suc.IH [OF step(3) Suc.prems(2) this] pop fold step(1,2) show ?thesis by auto
  qed
qed

text \<open>The graph decides the order through its nodes, edges and keys only.\<close>

lemma topo_sort_total:
  assumes "distinct (map fst g)"
  shows "\<exists>xs. lexicographical_topological_sort g key = Some xs
    \<and> lex_topo key (\<lambda>n. set (edges_of g n)) (fst ` set g) {} xs"
proof -
  have "card (fst ` set g - {}) \<le> length g"
    by (metis Diff_empty card_length length_map set_map)
  from topo_loop_lex [OF loop_inv_init [OF assms] assms this] show ?thesis
    by (simp add: lexicographical_topological_sort_def Let_def)
qed

text \<open>The sort evaluates the key at nodes of the graph only.\<close>

lemma topo_loop_key_cong:
  assumes "\<And>n. n \<in> fst ` set g \<Longrightarrow> key n = key' n"
  shows "topo_loop fuel key g st = topo_loop fuel key' g st"
proof -
  have "fold (discard_edge key node) (reverse_graph g node) st
      = fold (discard_edge key' node) (reverse_graph g node) st" for node st
  proof (intro fold_cong refl)
    fix p assume "p \<in> set (reverse_graph g node)"
    then have "p \<in> fst ` set g" by (auto simp: reverse_graph_def)
    then have "key p = key' p" by (rule assms)
    then show "discard_edge key node p = discard_edge key' node p"
      by (simp add: discard_edge_def fun_eq_iff Let_def)
  qed
  note step = this
  show ?thesis
  proof (induction fuel arbitrary: st)
    case 0
    show ?case by (cases st) (simp split: option.splits prod.splits)
  next
    case (Suc fuel)
    show ?case by (cases st) (simp only: topo_loop.simps [of "Suc fuel"] nat.case step Suc)
  qed
qed

lemma topo_sort_key_cong:
  assumes "\<And>n. n \<in> fst ` set g \<Longrightarrow> key n = key' n"
  shows "lexicographical_topological_sort g key = lexicographical_topological_sort g key'"
proof -
  have "map (\<lambda>(node, _). (key node, node)) (filter (\<lambda>(_, es). es = []) g)
      = map (\<lambda>(node, _). (key' node, node)) (filter (\<lambda>(_, es). es = []) g)"
  proof (intro map_cong refl)
    fix ne assume "ne \<in> set (filter (\<lambda>(_, es). es = []) g)"
    then have "fst ne \<in> fst ` set g" by auto
    from assms [OF this] show "(case ne of (node, _) \<Rightarrow> (key node, node)) = (case ne of (node, _) \<Rightarrow> (key' node, node))"
      by (cases ne) simp
  qed
  note zero = this
  show ?thesis
    unfolding lexicographical_topological_sort_def Let_def zero
    by (rule topo_loop_key_cong) (rule assms)
qed

text \<open>
  C9: the sort returns, and on an acyclic graph whose edges are nodes of the graph it returns a
  permutation of the nodes in which every node comes after all its edges.
\<close>

theorem topo_sort_correct:
  assumes "distinct (map fst g)" and "\<forall>(n, es) \<in> set g. set es \<subseteq> fst ` set g"
    and "wf {(m, n). m \<in> set (edges_of g n)}"
  shows "\<exists>xs. lexicographical_topological_sort g key = Some xs
    \<and> mset xs = mset (map fst g)
    \<and> (\<forall>as n bs. xs = as @ n # bs \<longrightarrow> set (edges_of g n) \<subseteq> set as)"
proof -
  let ?E = "\<lambda>n. set (edges_of g n)" and ?N = "fst ` set g"
  obtain xs where xs: "lexicographical_topological_sort g key = Some xs" "lex_topo key ?E ?N {} xs"
    using topo_sort_total [OF assms(1)] by blast
  have E: "?E n \<subseteq> ?N" for n
    using assms(2) by (fastforce simp: edges_of_def split: option.splits dest: map_of_SomeD)
  have "wf {(m, n). n \<in> ?N \<and> m \<in> ?E n}" by (rule wf_subset [OF assms(3)]) auto
  from lex_topo_complete [OF xs(2) _ this E] lex_topo_distinct [OF xs(2)]
  have "distinct xs" "set xs = ?N" by auto
  with assms(1) have "mset xs = mset (map fst g)"
    using set_eq_iff_mset_eq_distinct [of xs "map fst g"] by simp
  with xs lex_topo_ordered [of key ?E ?N "{}"] show ?thesis by fastforce
qed

theorem topo_sort_correct_witness:
  "lexicographical_topological_sort [(3::nat, [1, 2]), (1, []), (2, [1]), (4, [])] (\<lambda>n. - int n)
     = Some [4, 1, 2, 3]
   \<and> mset [4, 1, 2, 3] = mset (map fst [(3::nat, [1, 2]), (1, []), (2, [1 :: nat]), (4, [])])
   \<and> set (edges_of [(3::nat, [1, 2]), (1, []), (2, [1]), (4, [])] 3) \<subseteq> set [4, 1, 2]"
proof -
  let ?g = "[(3::nat, [1, 2::nat]), (1, []), (2, [1]), (4, [])]"
  have s: "lexicographical_topological_sort ?g (\<lambda>n. - int n) = Some [4, 1, 2, 3]" by code_simp
  have "{(m, n). m \<in> set (edges_of ?g n)} \<subseteq> measure id"
    by (auto simp: edges_of_def split: if_splits)
  then have w: "wf {(m, n). m \<in> set (edges_of ?g n)}" by (rule wf_subset [OF wf_measure])
  have r: "mset [4, 1, 2, 3] = mset (map fst ?g)"
    "\<forall>as n bs. [4, 1, 2, 3] = as @ n # bs \<longrightarrow> set (edges_of ?g n) \<subseteq> set as"
    using topo_sort_correct [OF _ _ w, of "\<lambda>n. - int n"] s by auto
  from r(2) [rule_format, of "[4, 1, 2]" 3 "[]"] have "set (edges_of ?g 3) \<subseteq> set [4, 1, 2]" by simp
  with r(1) s show ?thesis by blast
qed

text \<open>
  The sort is deterministic. Two dictionaries with the same nodes, the same sets of edges
  and the same keys give the same list, whatever the order of their entries: at every step it is
  the available node with the least key.
\<close>

theorem topo_sort_deterministic:
  assumes "distinct (map fst g)" and "distinct (map fst g')"
    and "fst ` set g = fst ` set g'"
    and "\<And>n. set (edges_of g n) = set (edges_of g' n)"
  shows "lexicographical_topological_sort g key = lexicographical_topological_sort g' key"
  using topo_sort_total [OF assms(1), of key] topo_sort_total [OF assms(2), of key] assms(3,4)
  by (auto dest: lex_topo_unique)

theorem topo_sort_deterministic_witness:
  "lexicographical_topological_sort [(3::nat, [1, 2]), (1, []), (2, [1])] (\<lambda>n. - int n)
   = lexicographical_topological_sort [(2::nat, [1]), (3, [2, 1, 2]), (1, [])] (\<lambda>n. - int n)"
  by (rule topo_sort_deterministic) (auto simp: edges_of_def)

end
