(* ===== verification/State_V2.thy ===== *)
theory State_V2
  imports Event_Auth Topo_Sort
begin

text \<open>
  State resolution, algorithm v2 (and v2.1), of \<open>synapse/state/v2.py\<close>.

  The functions of the file share \<open>event_map\<close>, a dictionary from event ids to events that they
  use as a cache of the store and extend as they go, and they raise. A function is therefore a
  value of type \<open>'a sr\<close>: it takes the event map and returns \<open>None\<close> when a loop does not end, an
  exception, or the result with the extended event map. The loops that follow auth events are
  \<open>partial_function\<close>s, so that a cycle of auth events shows as \<open>None\<close>.

  The protocol \<open>StateResolutionStore\<close> is the record \<open>sr_store\<close>. Iteration over a Python set has no
  specified order: the arguments \<open>it\<close>, for sets of event ids, and \<open>itk\<close>, for sets of state keys,
  choose one. \<open>clock.sleep\<close> and the logger are left out.
\<close>

section \<open>The event map as a state\<close>

type_synonym emap = "(string \<times> event) list"
type_synonym 'a sr = "emap \<Rightarrow> ('a \<times> emap) res option"

definition sret :: "'a \<Rightarrow> 'a sr" where
  "sret a em = Some (Inr (a, em))"

definition sraise :: "exn \<Rightarrow> 'a sr" where
  "sraise e em = Some (Inl e)"

definition sbind :: "'a sr \<Rightarrow> ('a \<Rightarrow> 'b sr) \<Rightarrow> 'b sr" where
  "sbind m f em = (case m em of
      None \<Rightarrow> None
    | Some (Inl e) \<Rightarrow> Some (Inl e)
    | Some (Inr (a, em')) \<Rightarrow> f a em')"

definition sres :: "'a res \<Rightarrow> 'a sr" where
  "sres r = (case r of Inl e \<Rightarrow> sraise e | Inr a \<Rightarrow> sret a)"

fun smapM :: "('a \<Rightarrow> 'b sr) \<Rightarrow> 'a list \<Rightarrow> 'b list sr" where
  "smapM f [] = sret []"
| "smapM f (x # xs) = sbind (f x) (\<lambda>y. sbind (smapM f xs) (\<lambda>ys. sret (y # ys)))"

fun sfoldM :: "('a \<Rightarrow> 's \<Rightarrow> 's sr) \<Rightarrow> 'a list \<Rightarrow> 's \<Rightarrow> 's sr" where
  "sfoldM f [] s = sret s"
| "sfoldM f (x # xs) s = sbind (f x s) (sfoldM f xs)"

lemma sbind_mono [partial_function_mono]:
  assumes "\<And>a em. mono_option (\<lambda>f. g f a em)"
  shows "mono_option (\<lambda>f. sbind m (g f) em)"
  using assms
  by (auto simp: sbind_def flat_ord_def monotone_def split: option.splits sum.splits)

section \<open>The store\<close>

record sr_store =
  st_get_events :: "string \<rightharpoonup> event"
  st_auth_chain_difference ::
    "string \<Rightarrow> string set list \<Rightarrow> string set option \<Rightarrow> string set
       \<Rightarrow> (string set \<times> string set option) res"

text \<open>\<open>_get_event\<close>, with \<open>allow_none=True\<close> and with the default.\<close>

definition get_event_opt :: "string \<Rightarrow> sr_store \<Rightarrow> string \<Rightarrow> event option sr" where
  "get_event_opt room_id store event_id em =
     (let em = (if dhas em event_id then em
                else (case st_get_events store event_id of
                        None \<Rightarrow> em | Some e \<Rightarrow> dset em event_id e))
      in (case dget em event_id of
            None \<Rightarrow> sret None em
          | Some event \<Rightarrow>
              if ev_room_id event \<noteq> room_id then sraise PyException em
              else sret (Some event) em))"

definition get_event :: "string \<Rightarrow> sr_store \<Rightarrow> string \<Rightarrow> event sr" where
  "get_event room_id store event_id =
     sbind (get_event_opt room_id store event_id)
       (\<lambda>e. case e of None \<Rightarrow> sraise PyException | Some event \<Rightarrow> sret event)"

text \<open>\<open>event_map[event_id]\<close>.\<close>

definition event_map_index :: "string \<Rightarrow> event sr" where
  "event_map_index event_id em = sres (dindex em event_id) em"

text \<open>\<open>(ev.type, ev.state_key)\<close>.\<close>

definition key_of :: "event \<Rightarrow> state_key res" where
  "key_of e = rbind (state_key_of e) (\<lambda>k. Inr (ev_type e, k))"

section \<open>Conflicted and unconflicted state\<close>

type_synonym state_set = "(state_key \<times> string) list"

definition state_keys :: "state_set list \<Rightarrow> state_key set" where
  "state_keys state_sets = set (concat (map (map fst) state_sets))"

definition event_ids_at :: "state_set list \<Rightarrow> state_key \<Rightarrow> string option list" where
  "event_ids_at state_sets key = remdups (map (\<lambda>state_set. dget state_set key) state_sets)"

text \<open>
  The keys are iterated over in the order \<open>itk\<close> in which the interpreter happens to visit a set of
  state keys.
\<close>

definition seperate ::
  "(state_key set \<Rightarrow> state_key list) \<Rightarrow> state_set list \<Rightarrow> state_set \<times> (state_key \<times> string set) list" where
  "seperate itk state_sets =
     (List.map_filter (\<lambda>key. case event_ids_at state_sets key of
          [Some e] \<Rightarrow> Some (key, e) | _ \<Rightarrow> None) (itk (state_keys state_sets)),
      List.map_filter (\<lambda>key. if length (event_ids_at state_sets key) = 1 then None
          else Some (key, set (List.map_filter id (event_ids_at state_sets key)))) (itk (state_keys state_sets)))"

section \<open>The auth chain difference\<close>

text \<open>
  The search from one unpersisted event: \<open>to_search\<close> is a stack, \<open>chain\<close> the events found and
  \<open>nxt\<close> the forward links \<open>event_to_next_event\<close>.
\<close>

partial_function (option) chain_loop ::
  "emap \<Rightarrow> event list \<Rightarrow> string set \<Rightarrow> (string \<times> string) set
     \<Rightarrow> (string set \<times> (string \<times> string) set) option" where
  "chain_loop unpersisted_events to_search chain nxt = (case to_search of
      [] \<Rightarrow> Some (chain, nxt)
    | next_event # rest \<Rightarrow>
        chain_loop unpersisted_events
          (rev (List.map_filter (dget unpersisted_events) (ev_auth_event_ids next_event)) @ rest)
          (chain \<union> set (ev_auth_event_ids next_event))
          (nxt \<union> set (map (\<lambda>auth_id. (auth_id, ev_event_id next_event)) (ev_auth_event_ids next_event))))"

declare chain_loop.simps [code]

fun chains_loop ::
  "emap \<Rightarrow> event list \<Rightarrow> (string \<times> string set) list \<Rightarrow> (string \<times> string) set
     \<Rightarrow> ((string \<times> string set) list \<times> (string \<times> string) set) option" where
  "chains_loop unpersisted_events [] auth_chains nxt = Some (auth_chains, nxt)"
| "chains_loop unpersisted_events (event # events) auth_chains nxt =
     (case chain_loop unpersisted_events [event] {ev_event_id event} nxt of
        None \<Rightarrow> None
      | Some (chain, nxt') \<Rightarrow>
          chains_loop unpersisted_events events (dset auth_chains (ev_event_id event) chain) nxt')"

text \<open>The ids of a state set: persisted ones to ask the store for, and unpersisted ones.\<close>

definition persisted_ids :: "emap \<Rightarrow> (string \<times> string set) list \<Rightarrow> state_set \<Rightarrow> string set" where
  "persisted_ids unpersisted_events auth_chains state_set = (\<Union>(_, event_id) \<in> set state_set.
     case dget auth_chains event_id of
       Some chain \<Rightarrow> Set.filter (\<lambda>e. \<not> dhas unpersisted_events e) chain
     | None \<Rightarrow> {event_id})"

definition unpersisted_ids :: "emap \<Rightarrow> (string \<times> string set) list \<Rightarrow> state_set \<Rightarrow> string set" where
  "unpersisted_ids unpersisted_events auth_chains state_set = (\<Union>(_, event_id) \<in> set state_set.
     case dget auth_chains event_id of
       Some chain \<Rightarrow> Set.filter (dhas unpersisted_events) chain
     | None \<Rightarrow> {})"

text \<open>\<open>unpersisted_set_ids[0].union(*rest) - unpersisted_set_ids[0].intersection(*rest)\<close>.\<close>

fun union_minus_intersection :: "string set list \<Rightarrow> string set res" where
  "union_minus_intersection [] = Inl PyIndexError"
| "union_minus_intersection (s # ss) = Inr (foldl (\<union>) s ss - foldl (\<inter>) s ss)"

text \<open>The search from the frontier along the forward links; \<open>search_queue\<close> is a set.\<close>

partial_function (option) forwards_loop ::
  "(string set \<Rightarrow> string list) \<Rightarrow> (string \<times> string) set \<Rightarrow> string set \<Rightarrow> string set
     \<Rightarrow> string set option" where
  "forwards_loop it nxt search_queue forwards_conflicted_set =
     (case it search_queue of
        [] \<Rightarrow> Some forwards_conflicted_set
      | frontier_event # _ \<Rightarrow>
          forwards_loop it nxt (search_queue - {frontier_event} \<union> nxt `` {frontier_event})
            (insert frontier_event forwards_conflicted_set))"

declare forwards_loop.simps [code]

definition extend_subgraph ::
  "(string set \<Rightarrow> string list) \<Rightarrow> (string \<times> string set) list \<Rightarrow> (string \<times> string) set
     \<Rightarrow> string set option \<Rightarrow> string set \<Rightarrow> string set \<Rightarrow> string set \<Rightarrow> string set option" where
  "extend_subgraph it auth_chains nxt conflicted_state unpersisted_conflicted additional subgraph =
     (let subgraph = subgraph \<union> (case conflicted_state of Some c \<Rightarrow> c | None \<Rightarrow> {});
          subgraph_frontier = subgraph \<inter> additional
      in (case forwards_loop it nxt (subgraph_frontier \<union> unpersisted_conflicted) {} of
            None \<Rightarrow> None
          | Some forwards \<Rightarrow>
              (let backwards = (\<Union>uce \<in> unpersisted_conflicted. case dget auth_chains uce of
                                  Some chain \<Rightarrow> chain | None \<Rightarrow> {})
               in Some (subgraph \<union> (backwards \<inter> forwards)))))"

text \<open>The conflicted events that are in the event map, and the persisted ids their chains reach.\<close>

definition unpersisted_conflicted_of :: "(string \<times> string set) list \<Rightarrow> string set option \<Rightarrow> string set" where
  "unpersisted_conflicted_of auth_chains conflicted_state =
     (case conflicted_state of Some c \<Rightarrow> Set.filter (dhas auth_chains) c | None \<Rightarrow> {})"

definition additional_of :: "emap \<Rightarrow> (string \<times> string set) list \<Rightarrow> string set \<Rightarrow> string set" where
  "additional_of unpersisted_events auth_chains unpersisted_conflicted =
     (\<Union>c \<in> unpersisted_conflicted. case dget auth_chains c of
        Some chain \<Rightarrow> Set.filter (\<lambda>e. \<not> dhas unpersisted_events e) chain
      | None \<Rightarrow> {})"

text \<open>The question to the store, with the unpersisted part of the difference added to its answer.\<close>

definition store_difference ::
  "string \<Rightarrow> state_set list \<Rightarrow> emap \<Rightarrow> sr_store \<Rightarrow> (string \<times> string set) list \<Rightarrow> string set option \<Rightarrow> string set
     \<Rightarrow> (string set \<times> string set option) res" where
  "store_difference room_id state_sets unpersisted_events store auth_chains conflicted_state additional =
     rbind (if unpersisted_events = [] then Inr {}
            else union_minus_intersection (map (unpersisted_ids unpersisted_events auth_chains) state_sets))
       (\<lambda>unpersisted_part.
     rbind (st_auth_chain_difference store room_id
              (if unpersisted_events = [] then map (\<lambda>state_set. set (map snd state_set)) state_sets
               else map (persisted_ids unpersisted_events auth_chains) state_sets)
              conflicted_state additional)
       (\<lambda>(diff, subgraph). Inr (diff \<union> unpersisted_part, subgraph)))"

definition get_auth_chain_difference ::
  "(string set \<Rightarrow> string list) \<Rightarrow> string \<Rightarrow> state_set list \<Rightarrow> emap \<Rightarrow> sr_store \<Rightarrow> string set option
     \<Rightarrow> string set res option" where
  "get_auth_chain_difference it room_id state_sets unpersisted_events store conflicted_state =
     (case chains_loop unpersisted_events (map snd unpersisted_events) [] {} of
        None \<Rightarrow> None
      | Some (auth_chains, nxt) \<Rightarrow>
        let unpersisted_conflicted = unpersisted_conflicted_of auth_chains conflicted_state;
            additional = additional_of unpersisted_events auth_chains unpersisted_conflicted;
            conflicted_state = map_option (\<lambda>c. c - unpersisted_conflicted) conflicted_state
        in (case store_difference room_id state_sets unpersisted_events store auth_chains
                   conflicted_state additional of
              Inl e \<Rightarrow> Some (Inl e)
            | Inr (diff, None) \<Rightarrow> Some (Inr diff)
            | Inr (diff, Some subgraph) \<Rightarrow>
                (if conflicted_state \<noteq> None \<and> unpersisted_events \<noteq> [] then
                   map_option (\<lambda>subgraph'. Inr (diff \<union> subgraph'))
                     (extend_subgraph it auth_chains nxt conflicted_state unpersisted_conflicted additional subgraph)
                 else Some (Inr (diff \<union> subgraph)))))"

section \<open>Power events and their order\<close>

definition is_power_event :: "event \<Rightarrow> bool res" where
  "is_power_event event = rbind (key_of event) (\<lambda>k.
     if k \<in> {POWER_KEY, JOIN_RULES_KEY, CREATE_KEY} then Inr True
     else if ev_type event = EventTypes_Member then
       rbind (membership_of event) (\<lambda>m.
         if m = JStr ''leave'' \<or> m = JStr ''ban''
         then rbind (state_key_of event) (\<lambda>sk. Inr (ev_sender event \<noteq> sk))
         else Inr False)
     else Inr False)"

text \<open>The last power levels event and the last creation event among the auth events.\<close>

definition note_pl_and_create ::
  "string \<Rightarrow> sr_store \<Rightarrow> string \<Rightarrow> event option \<times> event option \<Rightarrow> (event option \<times> event option) sr"
where
  "note_pl_and_create room_id store aid found =
     sbind (get_event_opt room_id store aid) (\<lambda>aev. case aev of
         None \<Rightarrow> sret found
       | Some e \<Rightarrow> sbind (sres (key_of e)) (\<lambda>k.
           sret (if k = POWER_KEY then Some e else fst found,
                 if k = CREATE_KEY then Some e else snd found)))"

fun creator_level :: "string \<Rightarrow> sr_store \<Rightarrow> event \<Rightarrow> string list \<Rightarrow> int sr" where
  "creator_level room_id store event [] = sret 0"
| "creator_level room_id store event (aid # aids) =
     sbind (get_event_opt room_id store aid) (\<lambda>aev. case aev of
         None \<Rightarrow> creator_level room_id store event aids
       | Some e \<Rightarrow> sbind (sres (key_of e)) (\<lambda>k.
           if k = CREATE_KEY then
             (let creator = (if implicit_room_creator (ev_room_version event)
                             then JStr (ev_sender e) else dget_none (ev_content e) ''creator'')
              in sret (if creator = JStr (ev_sender event) then 100 else 0))
           else creator_level room_id store event aids))"

definition sender_level :: "event \<Rightarrow> string \<Rightarrow> int res" where
  "sender_level pl sender =
     rbind (dget_dict (ev_content pl) ''users'') (\<lambda>users.
     let level = dget_none users sender;
         level = (if level = JNull then dget_default (ev_content pl) ''users_default'' (JInt 0)
                  else level)
     in if level = JNull then Inr 0 else py_int level)"

definition get_power_level_for_sender :: "string \<Rightarrow> sr_store \<Rightarrow> string \<Rightarrow> int sr" where
  "get_power_level_for_sender room_id store event_id =
     sbind (get_event room_id store event_id) (\<lambda>event.
     sbind (sfoldM (note_pl_and_create room_id store) (ev_auth_event_ids event) (None, None))
       (\<lambda>(pl, create).
     if ev_type event \<noteq> EventTypes_Create \<and> create = None then sraise PyAssertionError
     else sbind (case create of
           Some c \<Rightarrow> if msc4289_creator_power_enabled (ev_room_version c)
                      then sres (is_creator c (ev_sender event)) else sret False
         | None \<Rightarrow> sret False) (\<lambda>creator.
       if creator then sret CREATOR_POWER_LEVEL
       else (case pl of
           None \<Rightarrow> creator_level room_id store event (ev_auth_event_ids event)
         | Some p \<Rightarrow> sres (sender_level p (ev_sender event))))))"

text \<open>One auth event of \<open>eid\<close>: onto the stack when it is new, and an edge of the graph.\<close>

definition add_edge :: "string set \<Rightarrow> string \<Rightarrow> string \<Rightarrow> string list \<times> string graph \<Rightarrow> string list \<times> string graph"
where
  "add_edge full_conflicted_set eid aid st = (case st of (state, graph) \<Rightarrow>
     if aid \<in> full_conflicted_set then
       (if dhas graph aid then state else aid # state,
        dset graph eid (List.insert aid (edges_of graph eid)))
     else (state, graph))"

definition add_edges :: "string set \<Rightarrow> string \<Rightarrow> event \<Rightarrow> string list \<Rightarrow> string graph \<Rightarrow> string list \<times> string graph"
where
  "add_edges full_conflicted_set eid event state graph =
     fold (add_edge full_conflicted_set eid) (ev_auth_event_ids event)
       (state, if dhas graph eid then graph else dset graph eid [])"

partial_function (option) add_event_and_auth_chain_to_graph ::
  "string \<Rightarrow> sr_store \<Rightarrow> string set \<Rightarrow> string list \<Rightarrow> string graph \<Rightarrow> emap
     \<Rightarrow> (string graph \<times> emap) res option" where
  "add_event_and_auth_chain_to_graph room_id store full_conflicted_set state graph em =
     (case state of
        [] \<Rightarrow> sret graph em
      | eid # rest \<Rightarrow>
          sbind (get_event room_id store eid) (\<lambda>event.
            add_event_and_auth_chain_to_graph room_id store full_conflicted_set
              (fst (add_edges full_conflicted_set eid event rest graph))
              (snd (add_edges full_conflicted_set eid event rest graph))) em)"

declare add_event_and_auth_chain_to_graph.simps [code]

text \<open>\<open>_get_power_order\<close>. Every node of the graph is in both dictionaries.\<close>

definition get_power_order :: "emap \<Rightarrow> (string \<times> int) list \<Rightarrow> string \<Rightarrow> int \<times> int \<times> string" where
  "get_power_order em event_to_pl event_id = (case (dget em event_id, dget event_to_pl event_id) of
      (Some ev, Some pl) \<Rightarrow> (- pl, ev_origin_server_ts ev, event_id)
    | _ \<Rightarrow> (0, 0, event_id))"

definition reverse_topological_power_sort ::
  "string \<Rightarrow> sr_store \<Rightarrow> string set \<Rightarrow> string list \<Rightarrow> string list sr" where
  "reverse_topological_power_sort room_id store full_conflicted_set event_ids =
     sbind (sfoldM (\<lambda>event_id graph.
              add_event_and_auth_chain_to_graph room_id store full_conflicted_set [event_id] graph)
              event_ids []) (\<lambda>graph.
     sbind (smapM (get_power_level_for_sender room_id store) (map fst graph)) (\<lambda>pls em.
       map_option (\<lambda>sorted_events. Inr (sorted_events, em))
         (lexicographical_topological_sort graph
            (get_power_order em (zip (map fst graph) pls)))))"

section \<open>Iterative auth checks\<close>

definition load_auth_event ::
  "string \<Rightarrow> sr_store \<Rightarrow> string \<Rightarrow> (state_key \<times> event) list \<Rightarrow> (state_key \<times> event) list sr" where
  "load_auth_event room_id store aid auth_events =
     sbind (get_event_opt room_id store aid) (\<lambda>ev. case ev of
         None \<Rightarrow> sret auth_events
       | Some e \<Rightarrow> if ev_rejected_reason e = None
                   then sbind (sres (key_of e)) (\<lambda>k. sret (dset auth_events k e))
                   else sret auth_events)"

definition load_resolved_event ::
  "string \<Rightarrow> sr_store \<Rightarrow> (state_key \<rightharpoonup> string) \<Rightarrow> state_key \<Rightarrow> (state_key \<times> event) list
     \<Rightarrow> (state_key \<times> event) list sr" where
  "load_resolved_event room_id store resolved_state key auth_events =
     (case resolved_state key of
        None \<Rightarrow> sret auth_events
      | Some ev_id \<Rightarrow> sbind (get_event room_id store ev_id) (\<lambda>ev.
          if ev_rejected_reason ev = None
          then sbind (event_map_index ev_id) (\<lambda>e. sret (dset auth_events key e))
          else sret auth_events))"

definition auth_check_step ::
  "ext \<Rightarrow> (state_key set \<Rightarrow> state_key list) \<Rightarrow> string \<Rightarrow> room_version \<Rightarrow> sr_store \<Rightarrow> string \<Rightarrow> (state_key \<rightharpoonup> string)
     \<Rightarrow> (state_key \<rightharpoonup> string) sr" where
  "auth_check_step x itk room_id rv store event_id resolved_state =
     sbind (event_map_index event_id) (\<lambda>event.
     sbind (sfoldM (load_auth_event room_id store) (ev_auth_event_ids event) []) (\<lambda>auth_events.
     sbind (sres (auth_types_for_event rv event)) (\<lambda>keys.
     sbind (sfoldM (load_resolved_event room_id store resolved_state) (itk (set keys)) auth_events) (\<lambda>auth_events.
     if ev_rejected_reason event \<noteq> None then sret resolved_state
     else (case check_state_dependent_auth_rules x event (map snd auth_events) of
         Inr _ \<Rightarrow> sbind (sres (key_of event)) (\<lambda>k. sret (resolved_state(k \<mapsto> event_id)))
       | Inl e \<Rightarrow> if is_auth_error e then sret resolved_state else sraise e)))))"

definition iterative_auth_checks ::
  "ext \<Rightarrow> (state_key set \<Rightarrow> state_key list) \<Rightarrow> string \<Rightarrow> room_version \<Rightarrow> sr_store \<Rightarrow> string list \<Rightarrow> (state_key \<rightharpoonup> string)
     \<Rightarrow> (state_key \<rightharpoonup> string) sr" where
  "iterative_auth_checks x itk room_id rv store event_ids base_state =
     sfoldM (auth_check_step x itk room_id rv store) event_ids base_state"

section \<open>The mainline\<close>

text \<open>The first auth event that is the power levels event of the room.\<close>

fun find_power_auth :: "string \<Rightarrow> sr_store \<Rightarrow> string list \<Rightarrow> (string \<times> event) option sr" where
  "find_power_auth room_id store [] = sret None"
| "find_power_auth room_id store (aid # aids) =
     sbind (get_event_opt room_id store aid) (\<lambda>ev. case ev of
         None \<Rightarrow> find_power_auth room_id store aids
       | Some e \<Rightarrow> sbind (sres (key_of e)) (\<lambda>k.
           if k = POWER_KEY then sret (Some (aid, e)) else find_power_auth room_id store aids))"

partial_function (option) mainline_loop ::
  "string \<Rightarrow> sr_store \<Rightarrow> string option \<Rightarrow> string list \<Rightarrow> emap \<Rightarrow> (string list \<times> emap) res option" where
  "mainline_loop room_id store pl mainline em =
     (case pl of
        None \<Rightarrow> sret mainline em
      | Some p \<Rightarrow>
          if p = [] then sret mainline em
          else sbind (get_event room_id store p) (\<lambda>pl_ev.
               sbind (find_power_auth room_id store (ev_auth_event_ids pl_ev)) (\<lambda>found.
                 mainline_loop room_id store (map_option fst found) (mainline @ [p]))) em)"

declare mainline_loop.simps [code]

partial_function (option) mainline_depth_loop ::
  "string \<Rightarrow> sr_store \<Rightarrow> (string \<rightharpoonup> int) \<Rightarrow> event option \<Rightarrow> emap \<Rightarrow> (int \<times> emap) res option" where
  "mainline_depth_loop room_id store mainline_map tmp_event em =
     (case tmp_event of
        None \<Rightarrow> sret 0 em
      | Some e \<Rightarrow> (case mainline_map (ev_event_id e) of
            Some depth \<Rightarrow> sret depth em
          | None \<Rightarrow> sbind (find_power_auth room_id store (ev_auth_event_ids e)) (\<lambda>found.
                mainline_depth_loop room_id store mainline_map (map_option snd found)) em))"

declare mainline_depth_loop.simps [code]

definition get_mainline_depth_for_event :: "sr_store \<Rightarrow> (string \<rightharpoonup> int) \<Rightarrow> event \<Rightarrow> int sr" where
  "get_mainline_depth_for_event store mainline_map event =
     mainline_depth_loop (ev_room_id event) store mainline_map (Some event)"

text \<open>\<open>{ev_id: i + 1 for i, ev_id in enumerate(reversed(mainline))}\<close>.\<close>

definition mainline_map_of :: "string list \<Rightarrow> (string \<rightharpoonup> int)" where
  "mainline_map_of mainline = map_of (rev (zip (rev mainline) (map int [1..<Suc (length mainline)])))"

definition mainline_order :: "sr_store \<Rightarrow> (string \<rightharpoonup> int) \<Rightarrow> string \<Rightarrow> (int \<times> int \<times> string) sr" where
  "mainline_order store mainline_map ev_id =
     sbind (event_map_index ev_id) (\<lambda>event.
     sbind (get_mainline_depth_for_event store mainline_map event) (\<lambda>depth.
     sret (depth, ev_origin_server_ts event, ev_id)))"

text \<open>Every id of the list has its entry in \<open>order_map\<close>.\<close>

definition mainline_sort :: "string \<Rightarrow> sr_store \<Rightarrow> string list \<Rightarrow> string option \<Rightarrow> string list sr" where
  "mainline_sort room_id store event_ids resolved_power_event_id =
     (if event_ids = [] then sret []
      else sbind (mainline_loop room_id store resolved_power_event_id []) (\<lambda>mainline.
           sbind (smapM (mainline_order store (mainline_map_of mainline)) event_ids) (\<lambda>orders.
           let order_map = zip event_ids orders
           in sret (sort_key (\<lambda>ev_id. case dget order_map ev_id of
                                Some k \<Rightarrow> k | None \<Rightarrow> (0, 0, ev_id)) event_ids))))"

section \<open>Resolution\<close>

text \<open>\<open>event_map.update(state_res_store.get_events([...]))\<close>.\<close>

definition load_events :: "sr_store \<Rightarrow> string list \<Rightarrow> unit sr" where
  "load_events store event_ids em = sret () (fold (\<lambda>eid em. case st_get_events store eid of
       None \<Rightarrow> em | Some e \<Rightarrow> dset em eid e) (filter (\<lambda>eid. \<not> dhas em eid) event_ids) em)"

definition check_rooms :: "string \<Rightarrow> unit sr" where
  "check_rooms room_id em =
     (if list_all (\<lambda>(_, event). ev_room_id event = room_id) em then sret () em else sraise PyException em)"

definition in_event_map :: "string set \<Rightarrow> string set sr" where
  "in_event_map eids em = sret (Set.filter (dhas em) eids) em"

fun power_events_of :: "string list \<Rightarrow> string list sr" where
  "power_events_of [] = sret []"
| "power_events_of (eid # eids) =
     sbind (event_map_index eid) (\<lambda>event.
     sbind (sres (is_power_event event)) (\<lambda>p.
     sbind (power_events_of eids) (\<lambda>rest. sret (if p then eid # rest else rest))))"

text \<open>What is done with the full conflicted set, once its events are in the event map.\<close>

definition resolve_conflicts ::
  "ext \<Rightarrow> (string set \<Rightarrow> string list) \<Rightarrow> (state_key set \<Rightarrow> state_key list) \<Rightarrow> string \<Rightarrow> room_version \<Rightarrow> sr_store \<Rightarrow> state_set \<Rightarrow> string set
     \<Rightarrow> (state_key \<rightharpoonup> string) sr" where
  "resolve_conflicts x it itk room_id rv store unconflicted_state full_conflicted_set =
     sbind (power_events_of (it full_conflicted_set)) (\<lambda>power_events.
     sbind (reverse_topological_power_sort room_id store full_conflicted_set power_events)
       (\<lambda>sorted_power_events.
     sbind (iterative_auth_checks x itk room_id rv store sorted_power_events
              (if state_res rv = SR_V2_1 then Map.empty else map_of unconflicted_state))
       (\<lambda>resolved_state.
     sbind (mainline_sort room_id store
              (filter (\<lambda>ev_id. ev_id \<notin> set sorted_power_events) (it full_conflicted_set))
              (resolved_state POWER_KEY)) (\<lambda>leftover_events.
     sbind (iterative_auth_checks x itk room_id rv store leftover_events resolved_state)
       (\<lambda>resolved_state. sret (resolved_state ++ map_of unconflicted_state))))))"

definition resolve_events_with_store ::
  "ext \<Rightarrow> (string set \<Rightarrow> string list) \<Rightarrow> (state_key set \<Rightarrow> state_key list) \<Rightarrow> string \<Rightarrow> room_version \<Rightarrow> state_set list \<Rightarrow> sr_store
     \<Rightarrow> (state_key \<rightharpoonup> string) sr" where
  "resolve_events_with_store x it itk room_id rv state_sets store em =
     (let (unconflicted_state, conflicted_state) = seperate itk state_sets;
          conflicted_set = (\<Union>(_, ids) \<in> set conflicted_state. ids)
      in if conflicted_state = [] then sret (map_of unconflicted_state) em
         else (case get_auth_chain_difference it room_id state_sets em store
                      (if state_res rv = SR_V2_1 then Some conflicted_set else None) of
             None \<Rightarrow> None
           | Some auth_diff \<Rightarrow>
               sbind (sres auth_diff) (\<lambda>auth_diff.
               sbind (load_events store (it (conflicted_set \<union> auth_diff))) (\<lambda>_.
               sbind (check_rooms room_id) (\<lambda>_.
               sbind (in_event_map (conflicted_set \<union> auth_diff))
                 (resolve_conflicts x it itk room_id rv store unconflicted_state)))) em))"

end
