(* ===== verification/State_V2_Cache.thy ===== *)
theory State_V2_Cache
  imports State_V2 Event_Auth_Props
begin

text \<open>
  The event map is only a cache. The events a function can see, \<open>view store em\<close>, are those of the
  store overridden by those of the map, and no function changes them. \<open>transfers\<close> says that a
  function gives the same outcome on any two event maps with the same view, as long as both hold
  the events that the function reads with \<open>event_map[...]\<close> directly; it is a compositional
  property, proved once for every function of the file.
\<close>

section \<open>Views\<close>

definition view :: "sr_store \<Rightarrow> emap \<Rightarrow> (string \<rightharpoonup> event)" where
  "view store em = st_get_events store ++ map_of em"

text \<open>The map shows the events \<open>L\<close> and holds those of \<open>S\<close>.\<close>

definition shows_events :: "sr_store \<Rightarrow> (string \<rightharpoonup> event) \<Rightarrow> string set \<Rightarrow> emap \<Rightarrow> bool" where
  "shows_events store L S em \<longleftrightarrow> view store em = L \<and> S \<subseteq> fst ` set em \<and> distinct (map fst em)"

lemma shows_events_weaken: "shows_events store L S em \<Longrightarrow> S' \<subseteq> S \<Longrightarrow> shows_events store L S' em"
  by (auto simp: shows_events_def)

lemma shows_events_dget:
  assumes "shows_events store L S em" and "k \<in> S"
  shows "dget em k = L k" and "L k \<noteq> None"
proof -
  from assms have "k \<in> dom (map_of em)" by (auto simp: shows_events_def dom_map_of_conv_image_fst)
  with assms(1) show "dget em k = L k" "L k \<noteq> None"
    by (auto simp: shows_events_def view_def dget_def map_add_def split: option.splits)
qed

text \<open>Two outcomes are the same but for the event maps, which still show \<open>L\<close> and hold \<open>T a\<close>.\<close>

definition same_outcome ::
  "sr_store \<Rightarrow> (string \<rightharpoonup> event) \<Rightarrow> ('a \<Rightarrow> string set) \<Rightarrow> ('a \<times> emap) res \<Rightarrow> ('a \<times> emap) res \<Rightarrow> bool" where
  "same_outcome store L T y y' \<longleftrightarrow> (case (y, y') of
      (Inl e, Inl e') \<Rightarrow> e = e'
    | (Inr (a, em), Inr (a', em')) \<Rightarrow>
        a = a' \<and> shows_events store L (T a) em \<and> shows_events store L (T a) em'
    | _ \<Rightarrow> False)"

lemma same_outcome_Inl [simp]: "same_outcome store L T (Inl e) y \<longleftrightarrow> y = Inl e"
  by (auto simp: same_outcome_def split: sum.splits prod.splits)

lemma same_outcome_Inr [simp]:
  "same_outcome store L T (Inr (a, em)) y \<longleftrightarrow>
     shows_events store L (T a) em \<and> (\<exists>em'. y = Inr (a, em') \<and> shows_events store L (T a) em')"
  by (auto simp: same_outcome_def split: sum.splits prod.splits)

text \<open>
  Whenever \<open>m\<close> ends on one event map, \<open>m'\<close> ends on any other in the same way; \<open>transfers\<close> is the
  case of one function.
\<close>

definition simulated ::
  "sr_store \<Rightarrow> (string \<rightharpoonup> event) \<Rightarrow> string set \<Rightarrow> 'a sr \<Rightarrow> 'a sr \<Rightarrow> ('a \<Rightarrow> string set) \<Rightarrow> bool" where
  "simulated store L S m m' T \<longleftrightarrow> (\<forall>em em' y. shows_events store L S em \<longrightarrow> shows_events store L S em'
     \<longrightarrow> m em = Some y \<longrightarrow> (\<exists>y'. m' em' = Some y' \<and> same_outcome store L T y y'))"

abbreviation transfers ::
  "sr_store \<Rightarrow> (string \<rightharpoonup> event) \<Rightarrow> string set \<Rightarrow> 'a sr \<Rightarrow> ('a \<Rightarrow> string set) \<Rightarrow> bool" where
  "transfers store L S m T \<equiv> simulated store L S m m T"

lemma simulatedD:
  "simulated store L S m m' T \<Longrightarrow> shows_events store L S em \<Longrightarrow> shows_events store L S em'
   \<Longrightarrow> m em = Some y \<Longrightarrow> \<exists>y'. m' em' = Some y' \<and> same_outcome store L T y y'"
  unfolding simulated_def by blast

named_theorems transfer_rules \<open>functions that see the event map only through its view\<close>

lemma transfers_sret [transfer_rules]: "transfers store L S (sret a) (\<lambda>_. S)"
  by (auto simp: simulated_def sret_def)

lemma transfers_sraise [transfer_rules]: "transfers store L S (sraise e) T"
  by (auto simp: simulated_def sraise_def)

lemma transfers_sres [transfer_rules]: "transfers store L S (sres r) (\<lambda>_. S)"
  by (cases r) (auto simp: sres_def intro: transfer_rules)

lemma simulated_sbind:
  assumes "simulated store L S m m' T" and "\<And>a. simulated store L (T a) (f a) (f' a) U"
  shows "simulated store L S (sbind m f) (sbind m' f') U"
  unfolding simulated_def
proof (intro allI impI)
  fix em em' y
  assume em: "shows_events store L S em" "shows_events store L S em'" and y: "sbind m f em = Some y"
  then obtain z where z: "m em = Some z" by (auto simp: sbind_def split: option.splits)
  with simulatedD [OF assms(1) em] obtain z' where z': "m' em' = Some z'" "same_outcome store L T z z'"
    by blast
  show "\<exists>y'. sbind m' f' em' = Some y' \<and> same_outcome store L U y y'"
  proof (cases z)
    case (Inl e)
    with z z' y show ?thesis by (auto simp: sbind_def)
  next
    case (Inr a)
    with z z' y simulatedD [OF assms(2)] show ?thesis by (cases a) (fastforce simp: sbind_def)
  qed
qed

lemma simulated_weaken:
  assumes "simulated store L S m m' T" and "S \<subseteq> S'" and "\<And>a. T' a \<subseteq> T a"
  shows "simulated store L S' m m' T'"
  unfolding simulated_def
proof (intro allI impI)
  fix em em' y
  assume em: "shows_events store L S' em" "shows_events store L S' em'" and y: "m em = Some y"
  from simulatedD [OF assms(1) em [THEN shows_events_weaken, OF assms(2)] y]
  obtain y' where "m' em' = Some y'" "same_outcome store L T y y'" by blast
  moreover from this(2) have "same_outcome store L T' y y'"
    using shows_events_weaken [OF _ assms(3)]
    by (auto simp: same_outcome_def split: sum.splits prod.splits)
  ultimately show "\<exists>y'. m' em' = Some y' \<and> same_outcome store L T' y y'" by blast
qed

text \<open>Steps that keep the events held.\<close>

lemmas simulated_seq = simulated_sbind [where T = "\<lambda>_. S" and S = S for S]

lemma transfers_smapM:
  assumes "\<And>x. x \<in> set xs \<Longrightarrow> transfers store L S (f x) (\<lambda>_. S)"
  shows "transfers store L S (smapM f xs) (\<lambda>_. S)"
  using assms by (induction xs) (auto intro!: simulated_seq transfer_rules)

lemma transfers_sfoldM:
  assumes "\<And>x s. x \<in> set xs \<Longrightarrow> transfers store L S (f x s) (\<lambda>_. S)"
  shows "transfers store L S (sfoldM f xs s) (\<lambda>_. S)"
  using assms by (induction xs arbitrary: s) (auto intro!: simulated_seq transfer_rules)

section \<open>The functions of the file\<close>

lemma get_event_opt_shows:
  assumes "shows_events store L S em"
  shows "(case L eid of
      None \<Rightarrow> get_event_opt room_id store eid em = Some (Inr (None, em))
    | Some e \<Rightarrow> if ev_room_id e = room_id
        then (\<exists>em'. get_event_opt room_id store eid em = Some (Inr (Some e, em'))
                \<and> shows_events store L (insert eid S) em')
        else get_event_opt room_id store eid em = Some (Inl PyException))"
proof (cases "dhas em eid")
  case True
  then have "eid \<in> fst ` set em" by (simp add: dhas_iff)
  with assms have s: "shows_events store L (insert eid S) em" by (auto simp: shows_events_def)
  then have "dget em eid = L eid" "L eid \<noteq> None" by (blast dest: shows_events_dget)+
  with True s show ?thesis by (auto simp: get_event_opt_def sret_def sraise_def)
next
  case False
  then have L: "L eid = st_get_events store eid"
    using assms by (auto simp: shows_events_def view_def dhas_def map_add_def)
  have "view store (dset em eid e) = L" if "L eid = Some e" for e
    using assms that L by (auto simp: shows_events_def view_def fun_eq_iff map_add_def)
  with False L assms show ?thesis
    by (auto simp: get_event_opt_def sret_def sraise_def dget_def shows_events_def keys_dset dhas_def
        split: option.splits)
qed

lemma transfers_get_event_opt [transfer_rules]:
  "transfers store L S (get_event_opt room_id store eid) (\<lambda>_. S)"
proof -
  have "same_outcome store L (\<lambda>_. S) y y'" if "shows_events store L S em" "shows_events store L S em'"
    "get_event_opt room_id store eid em = Some y" "get_event_opt room_id store eid em' = Some y'"
    for em em' y y'
    using that get_event_opt_shows [OF that(1), of room_id eid] get_event_opt_shows [OF that(2), of room_id eid]
    by (auto split: option.splits if_splits intro: shows_events_weaken)
  moreover have "get_event_opt room_id store eid em' \<noteq> None" for em'
    by (auto simp: get_event_opt_def sret_def sraise_def Let_def split: option.splits)
  ultimately show ?thesis unfolding simulated_def by blast
qed

lemma get_event_shows:
  assumes "shows_events store L S em"
  shows "(case L eid of
      None \<Rightarrow> get_event room_id store eid em = Some (Inl PyException)
    | Some e \<Rightarrow> if ev_room_id e = room_id
        then (\<exists>em'. get_event room_id store eid em = Some (Inr (e, em'))
                \<and> shows_events store L (insert eid S) em')
        else get_event room_id store eid em = Some (Inl PyException))"
  using get_event_opt_shows [OF assms, of room_id eid]
  by (auto simp: get_event_def sbind_def sret_def sraise_def split: option.splits if_splits)

lemma transfers_get_event:
  "transfers store L S (get_event room_id store eid) (\<lambda>_. insert eid S)"
  unfolding simulated_def
proof (intro allI impI)
  fix em em' y
  assume "shows_events store L S em" "shows_events store L S em'" "get_event room_id store eid em = Some y"
  with get_event_shows [of store L S em room_id eid] get_event_shows [of store L S em' room_id eid]
  show "\<exists>y'. get_event room_id store eid em' = Some y' \<and> same_outcome store L (\<lambda>_. insert eid S) y y'"
    by (auto split: option.splits if_splits)
qed

lemma transfers_get_event_keep [transfer_rules]:
  "transfers store L S (get_event room_id store eid) (\<lambda>_. S)"
  by (rule simulated_weaken [OF transfers_get_event]) auto

lemma event_map_index_shows:
  assumes "shows_events store L S em" and "eid \<in> S"
  shows "\<exists>e. L eid = Some e \<and> event_map_index eid em = Some (Inr (e, em))"
  using shows_events_dget [OF assms]
  by (auto simp: event_map_index_def dindex_def sres_def sret_def dget_def)

lemma transfers_event_map_index [transfer_rules]:
  "eid \<in> S \<Longrightarrow> transfers store L S (event_map_index eid) (\<lambda>_. S)"
  unfolding simulated_def
proof (intro allI impI)
  fix em em' y
  assume eid: "eid \<in> S" and em: "shows_events store L S em" "shows_events store L S em'"
    and y: "event_map_index eid em = Some y"
  from event_map_index_shows [OF em(1) eid] event_map_index_shows [OF em(2) eid] y em
  show "\<exists>y'. event_map_index eid em' = Some y' \<and> same_outcome store L (\<lambda>_. S) y y'" by auto
qed

lemma transfers_note_pl_and_create [transfer_rules]:
  "transfers store L S (note_pl_and_create room_id store aid found) (\<lambda>_. S)"
  unfolding note_pl_and_create_def
  by (auto intro!: simulated_seq transfer_rules split: option.splits)

lemma transfers_creator_level [transfer_rules]:
  "transfers store L S (creator_level room_id store event aids) (\<lambda>_. S)"
  by (induction aids)
    (auto intro!: simulated_seq transfer_rules split: option.splits simp: Let_def)

lemma transfers_get_power_level_for_sender [transfer_rules]:
  "transfers store L S (get_power_level_for_sender room_id store eid) (\<lambda>_. S)"
  unfolding get_power_level_for_sender_def
  by (auto intro!: simulated_seq transfer_rules transfers_sfoldM split: option.splits)

lemma transfers_find_power_auth [transfer_rules]:
  "transfers store L S (find_power_auth room_id store aids) (\<lambda>_. S)"
  by (induction aids) (auto intro!: simulated_seq transfer_rules split: option.splits)

lemma transfers_load_auth_event [transfer_rules]:
  "transfers store L S (load_auth_event room_id store aid auth_events) (\<lambda>_. S)"
  unfolding load_auth_event_def
  by (auto intro!: simulated_seq transfer_rules split: option.splits)

lemma transfers_load_resolved_event [transfer_rules]:
  "transfers store L S (load_resolved_event room_id store resolved key auth_events) (\<lambda>_. S)"
proof (cases "resolved key")
  case (Some ev_id)
  let ?k = "\<lambda>ev. if ev_rejected_reason ev = None
      then sbind (event_map_index ev_id) (\<lambda>e. sret (dset auth_events key e)) else sret auth_events"
  have "transfers store L (insert ev_id S) (?k ev) (\<lambda>_. insert ev_id S)" for ev
    by (auto intro!: simulated_seq transfer_rules)
  then have "transfers store L (insert ev_id S) (?k ev) (\<lambda>_. S)" for ev
    by (rule simulated_weaken) auto
  from simulated_sbind [OF transfers_get_event this] show ?thesis
    by (simp add: load_resolved_event_def Some)
qed (auto simp: load_resolved_event_def intro: transfer_rules)

lemma transfers_auth_check_step [transfer_rules]:
  "eid \<in> S \<Longrightarrow> transfers store L S (auth_check_step x itk room_id rv store eid resolved) (\<lambda>_. S)"
  unfolding auth_check_step_def
  by (auto intro!: simulated_seq transfer_rules transfers_sfoldM split: sum.splits)

lemma transfers_iterative_auth_checks [transfer_rules]:
  "set eids \<subseteq> S \<Longrightarrow> transfers store L S (iterative_auth_checks x itk room_id rv store eids base) (\<lambda>_. S)"
  unfolding iterative_auth_checks_def by (auto intro!: transfer_rules transfers_sfoldM)

lemma transfers_mainline_loop [transfer_rules]:
  "transfers store L S (mainline_loop room_id store pl mainline) (\<lambda>_. S)"
proof -
  have "mainline_loop room_id store pl mainline em = Some y \<Longrightarrow> shows_events store L S em
    \<Longrightarrow> \<forall>em'. shows_events store L S em' \<longrightarrow>
      (\<exists>y'. mainline_loop room_id store pl mainline em' = Some y' \<and> same_outcome store L (\<lambda>_. S) y y')" for em y
  proof (induction room_id store pl mainline em y rule: mainline_loop.raw_induct [rotated, consumes 1])
    case (1 f room_id store pl mainline em y)
    let ?next = "\<lambda>g p. sbind (get_event room_id store p) (\<lambda>pl_ev.
       sbind (find_power_auth room_id store (ev_auth_event_ids pl_ev)) (\<lambda>found.
         g room_id store (map_option fst found) (mainline @ [p])))"
    have "simulated store L S (f room_id store q l) (mainline_loop room_id store q l) (\<lambda>_. S)" for q l
      unfolding simulated_def using 1(1) by blast
    then have next_sim: "simulated store L S (?next f p) (?next mainline_loop p) (\<lambda>_. S)" for p
      by (auto intro!: simulated_seq transfer_rules)
    show ?case
      using 1(2,3) simulatedD [OF next_sim]
      by (subst mainline_loop.simps) (auto simp: sret_def split: option.splits if_splits)
  qed
  then show ?thesis unfolding simulated_def by blast
qed

lemma transfers_mainline_depth_loop [transfer_rules]:
  "transfers store L S (mainline_depth_loop room_id store mm tmp) (\<lambda>_. S)"
proof -
  have "mainline_depth_loop room_id store mm tmp em = Some y \<Longrightarrow> shows_events store L S em
    \<Longrightarrow> \<forall>em'. shows_events store L S em' \<longrightarrow>
      (\<exists>y'. mainline_depth_loop room_id store mm tmp em' = Some y' \<and> same_outcome store L (\<lambda>_. S) y y')" for em y
  proof (induction room_id store mm tmp em y rule: mainline_depth_loop.raw_induct [rotated, consumes 1])
    case (1 f room_id store mm tmp em y)
    let ?next = "\<lambda>g e. sbind (find_power_auth room_id store (ev_auth_event_ids e)) (\<lambda>found.
         g room_id store mm (map_option snd found))"
    have "simulated store L S (f room_id store mm q) (mainline_depth_loop room_id store mm q) (\<lambda>_. S)" for q
      unfolding simulated_def using 1(1) by blast
    then have next_sim: "simulated store L S (?next f e) (?next mainline_depth_loop e) (\<lambda>_. S)" for e
      by (auto intro!: simulated_seq transfer_rules)
    show ?case
      using 1(2,3) simulatedD [OF next_sim]
      by (subst mainline_depth_loop.simps) (auto simp: sret_def split: option.splits if_splits)
  qed
  then show ?thesis unfolding simulated_def by blast
qed

lemma transfers_mainline_order [transfer_rules]:
  "eid \<in> S \<Longrightarrow> transfers store L S (mainline_order store mm eid) (\<lambda>_. S)"
  unfolding mainline_order_def get_mainline_depth_for_event_def
  by (auto intro!: simulated_seq transfer_rules)

lemma transfers_power_events_of [transfer_rules]:
  "set eids \<subseteq> S \<Longrightarrow> transfers store L S (power_events_of eids) (\<lambda>_. S)"
  by (induction eids) (auto intro!: simulated_seq transfer_rules)

text \<open>
  The graph: one step puts the new auth events on the stack, makes \<open>eid\<close> a node and gives it the
  edges to its auth events in the full conflicted set.
\<close>

lemma edges_of_dset [simp]: "edges_of (dset g eid es) n = (if n = eid then es else edges_of g n)"
  by (simp add: edges_of_def)

lemma fold_add_edge:
  assumes "dhas g eid"
  shows "fst (fold (add_edge F eid) aids (st, g)) = rev (filter (\<lambda>a. a \<in> F \<and> \<not> dhas g a) aids) @ st"
    and "map fst (snd (fold (add_edge F eid) aids (st, g))) = map fst g"
    and "set (edges_of (snd (fold (add_edge F eid) aids (st, g))) n)
       = set (edges_of g n) \<union> (if n = eid then set aids \<inter> F else {})"
proof -
  have keys: "map fst (dset g eid es) = map fst g" if "dhas g eid" for g :: "string graph" and es
    using that by (induction g) (auto simp: dset_def dhas_def split: if_splits)
  then have has: "dhas (dset g eid es) = dhas g" if "dhas g eid" for g :: "string graph" and es
    using that by (auto simp: dhas_def fun_eq_iff)
  have "fst (fold (add_edge F eid) aids (st, g)) = rev (filter (\<lambda>a. a \<in> F \<and> \<not> dhas g a) aids) @ st
    \<and> map fst (snd (fold (add_edge F eid) aids (st, g))) = map fst g
    \<and> set (edges_of (snd (fold (add_edge F eid) aids (st, g))) n)
       = set (edges_of g n) \<union> (if n = eid then set aids \<inter> F else {})"
    using assms
  proof (induction aids arbitrary: st g)
    case (Cons a aids)
    let ?g = "dset g eid (List.insert a (edges_of g eid))"
    have "dhas ?g eid" using Cons.prems has by simp
    moreover have "add_edge F eid a (st, g) =
        (if a \<in> F then (if dhas g a then st else a # st, ?g) else (st, g))"
      by (simp add: add_edge_def)
    ultimately show ?case
      using Cons.IH [of ?g] Cons.IH [OF Cons.prems] Cons.prems by (auto simp: has keys)
  qed simp
  then show "fst (fold (add_edge F eid) aids (st, g)) = rev (filter (\<lambda>a. a \<in> F \<and> \<not> dhas g a) aids) @ st"
    and "map fst (snd (fold (add_edge F eid) aids (st, g))) = map fst g"
    and "set (edges_of (snd (fold (add_edge F eid) aids (st, g))) n)
       = set (edges_of g n) \<union> (if n = eid then set aids \<inter> F else {})"
    by blast+
qed

lemma add_edges_step:
  shows "fst (add_edges F eid ev st g)
       = rev (filter (\<lambda>a. a \<in> F \<and> a \<noteq> eid \<and> \<not> dhas g a) (ev_auth_event_ids ev)) @ st"
    and "fst ` set (snd (add_edges F eid ev st g)) = insert eid (fst ` set g)"
    and "distinct (map fst g) \<Longrightarrow> distinct (map fst (snd (add_edges F eid ev st g)))"
    and "set (edges_of (snd (add_edges F eid ev st g)) n)
       = set (edges_of g n) \<union> (if n = eid then set (ev_auth_event_ids ev) \<inter> F else {})"
proof -
  let ?g = "if dhas g eid then g else dset g eid []"
  have g: "dhas ?g eid" by (simp add: dhas_def)
  have has: "dhas ?g a \<longleftrightarrow> a = eid \<or> dhas g a" for a by (auto simp: dhas_def)
  note step = fold_add_edge [OF g, of F "ev_auth_event_ids ev" st, folded add_edges_def]
  show "fst (add_edges F eid ev st g)
       = rev (filter (\<lambda>a. a \<in> F \<and> a \<noteq> eid \<and> \<not> dhas g a) (ev_auth_event_ids ev)) @ st"
    unfolding step by (simp add: has conj_ac)
  have "fst ` set (snd (add_edges F eid ev st g)) = fst ` set ?g"
    using step(2) by (metis list.set_map)
  then show "fst ` set (snd (add_edges F eid ev st g)) = insert eid (fst ` set g)"
    by (auto simp: keys_dset dhas_iff)
  show "distinct (map fst g) \<Longrightarrow> distinct (map fst (snd (add_edges F eid ev st g)))"
    unfolding step by simp
  show "set (edges_of (snd (add_edges F eid ev st g)) n)
       = set (edges_of g n) \<union> (if n = eid then set (ev_auth_event_ids ev) \<inter> F else {})"
    unfolding step by (auto simp: edges_of_def dhas_def)
qed

section \<open>The graph of power events\<close>

text \<open>Auth events form no cycle: every event has a higher rank than its auth events.\<close>

definition auth_ranked :: "(string \<rightharpoonup> event) \<Rightarrow> (string \<Rightarrow> nat) \<Rightarrow> bool" where
  "auth_ranked L rank \<longleftrightarrow> (\<forall>k e. L k = Some e \<longrightarrow> (\<forall>a \<in> set (ev_auth_event_ids e). rank a < rank k))"

definition auth_edges :: "(string \<rightharpoonup> event) \<Rightarrow> string set \<Rightarrow> string \<Rightarrow> string set" where
  "auth_edges L F n = (case L n of None \<Rightarrow> {} | Some e \<Rightarrow> set (ev_auth_event_ids e) \<inter> F)"

definition auth_closure :: "(string \<rightharpoonup> event) \<Rightarrow> string set \<Rightarrow> string set \<Rightarrow> string set" where
  "auth_closure L F A = {(n, a). a \<in> auth_edges L F n}\<^sup>* `` A"

lemma auth_closure_step: "n \<in> auth_closure L F A \<Longrightarrow> auth_edges L F n \<subseteq> auth_closure L F A"
  unfolding auth_closure_def by (auto intro: rtrancl_into_rtrancl)

lemma auth_closure_base: "A \<subseteq> auth_closure L F A"
  unfolding auth_closure_def by auto

lemma auth_closure_least:
  assumes "A \<subseteq> N" and "\<And>n. n \<in> N \<Longrightarrow> auth_edges L F n \<subseteq> N"
  shows "auth_closure L F A \<subseteq> N"
proof -
  have "m \<in> N" if "(n, m) \<in> {(n, a). a \<in> auth_edges L F n}\<^sup>*" "n \<in> N" for n m
    using that by (induction rule: rtrancl_induct) (use assms(2) in auto)
  then show ?thesis using assms(1) unfolding auth_closure_def by blast
qed

text \<open>What holds of the graph while the stack \<open>state\<close> is worked off, all within \<open>R\<close>.\<close>

definition graph_inv ::
  "(string \<rightharpoonup> event) \<Rightarrow> string set \<Rightarrow> string set \<Rightarrow> string list \<Rightarrow> string graph \<Rightarrow> bool" where
  "graph_inv L F R state g \<longleftrightarrow> distinct (map fst g) \<and> fst ` set g \<union> set state \<subseteq> R
     \<and> (\<forall>n. set (edges_of g n) = (if n \<in> fst ` set g then auth_edges L F n else {}))
     \<and> (\<forall>n \<in> fst ` set g. auth_edges L F n \<subseteq> fst ` set g \<union> set state)"

lemma graph_inv_add_edges:
  assumes inv: "graph_inv L F R (eid # rest) g" and L: "L eid = Some e"
    and R: "\<And>n. n \<in> R \<Longrightarrow> auth_edges L F n \<subseteq> R"
  shows "graph_inv L F R (fst (add_edges F eid e rest g)) (snd (add_edges F eid e rest g))"
proof -
  let ?a = "auth_edges L F" and ?N = "fst ` set g"
  have ed: "set (ev_auth_event_ids e) \<inter> F = ?a eid" by (simp add: auth_edges_def L)
  have st: "set (fst (add_edges F eid e rest g)) = (?a eid - insert eid ?N) \<union> set rest"
    unfolding add_edges_step using ed by (auto simp: dhas_iff)
  have eR: "eid \<in> R" "?N \<subseteq> R" "set rest \<subseteq> R" using inv by (auto simp: graph_inv_def)
  have "\<forall>n \<in> ?N. ?a n \<subseteq> ?N \<union> insert eid (set rest)" using inv by (simp add: graph_inv_def)
  then have "\<forall>n \<in> insert eid ?N. ?a n \<subseteq> insert eid ?N \<union> ((?a eid - insert eid ?N) \<union> set rest)" by blast
  moreover have "set (edges_of (snd (add_edges F eid e rest g)) n)
      = (if n \<in> insert eid ?N then ?a n else {})" for n
    unfolding add_edges_step(4) ed using inv by (simp add: graph_inv_def)
  ultimately show ?thesis
    unfolding graph_inv_def add_edges_step(2) st
  proof (intro conjI)
    show "distinct (map fst (snd (add_edges F eid e rest g)))"
      by (rule add_edges_step(3)) (use inv in \<open>simp add: graph_inv_def\<close>)
    show "insert eid ?N \<union> (?a eid - insert eid ?N \<union> set rest) \<subseteq> R"
      using R [OF eR(1)] eR by blast
  qed blast+
qed

lemma add_event_total:
  assumes rank: "auth_ranked L rank" and R: "\<And>n. n \<in> R \<Longrightarrow> auth_edges L F n \<subseteq> R"
    and room: "\<And>n. n \<in> R \<Longrightarrow> \<exists>e. L n = Some e \<and> ev_room_id e = room_id"
  shows "graph_inv L F R state g \<Longrightarrow> shows_events store L (S \<union> fst ` set g) em
    \<Longrightarrow> \<exists>g' em'. add_event_and_auth_chain_to_graph room_id store F state g em = Some (Inr (g', em'))
      \<and> graph_inv L F R [] g' \<and> shows_events store L (S \<union> fst ` set g') em'
      \<and> fst ` set g \<union> set state \<subseteq> fst ` set g'"
proof (induction "mset (map rank state)" arbitrary: state g em
    rule: wf_induct_rule [OF wf_mult [OF wf_less_than]])
  case (1 state g em)
  show ?case
  proof (cases state)
    case Nil
    with 1(2,3) show ?thesis
      by (subst add_event_and_auth_chain_to_graph.simps) (auto simp: sret_def)
  next
    case (Cons eid rest)
    with 1(2) have "eid \<in> R" by (auto simp: graph_inv_def)
    then obtain e where e: "L eid = Some e" "ev_room_id e = room_id" using room by blast
    with get_event_shows [OF 1(3), of room_id eid] obtain em1
      where em1: "get_event room_id store eid em = Some (Inr (e, em1))"
        "shows_events store L (insert eid (S \<union> fst ` set g)) em1" by auto
    let ?st = "fst (add_edges F eid e rest g)" and ?g = "snd (add_edges F eid e rest g)"
    have inv: "graph_inv L F R ?st ?g"
      using 1(2) Cons graph_inv_add_edges [OF _ e(1) R] by simp
    have sh: "shows_events store L (S \<union> fst ` set ?g) em1"
      using em1(2) by (rule shows_events_weaken) (auto simp: add_edges_step(2))
    have "(mset (map rank rest) + mset (map rank (rev (filter (\<lambda>a. a \<in> F \<and> a \<noteq> eid \<and> \<not> dhas g a)
        (ev_auth_event_ids e)))), mset (map rank rest) + {#rank eid#}) \<in> mult less_than"
      using rank e(1) by (intro one_step_implies_mult) (auto simp: auth_ranked_def)
    then have "(mset (map rank ?st), mset (map rank state)) \<in> mult less_than"
      unfolding add_edges_step(1) Cons by (simp add: ac_simps)
    from 1(1) [OF this inv sh] show ?thesis
      using em1(1) by (subst add_event_and_auth_chain_to_graph.simps)
        (auto simp: Cons sbind_def add_edges_step(1,2))
  qed
qed

end
