(* ===== verification/State_V2_Order.thy ===== *)
theory State_V2_Order
  imports State_V2_Cache
begin

text \<open>
  State resolution does not depend on the order in which Python iterates over its sets. \<open>agree\<close>
  relates two runs that may visit the same events in different orders: when the first succeeds,
  so does the second, with related results.
\<close>

section \<open>Agreement of successful runs\<close>

definition agree ::
  "sr_store \<Rightarrow> (string \<rightharpoonup> event) \<Rightarrow> string set \<Rightarrow> ('a \<Rightarrow> 'a \<Rightarrow> bool) \<Rightarrow> 'a sr \<Rightarrow> 'a sr \<Rightarrow> bool" where
  "agree store L S Q m m' \<longleftrightarrow> (\<forall>em em' a em1. shows_events store L S em \<longrightarrow> shows_events store L S em'
     \<longrightarrow> m em = Some (Inr (a, em1)) \<longrightarrow> shows_events store L S em1
       \<and> (\<exists>a' em1'. m' em' = Some (Inr (a', em1')) \<and> Q a a' \<and> shows_events store L S em1'))"

definition returns :: "sr_store \<Rightarrow> (string \<rightharpoonup> event) \<Rightarrow> string set \<Rightarrow> 'a sr \<Rightarrow> 'a \<Rightarrow> bool" where
  "returns store L S m a \<longleftrightarrow> (\<forall>em. shows_events store L S em \<longrightarrow>
     (\<exists>em1. m em = Some (Inr (a, em1)) \<and> shows_events store L S em1))"

lemma agreeD:
  assumes "agree store L S Q m m'" and "shows_events store L S em" and "shows_events store L S em'"
    and "m em = Some (Inr (a, em1))"
  shows "shows_events store L S em1"
    and "\<exists>a' em1'. m' em' = Some (Inr (a', em1')) \<and> Q a a' \<and> shows_events store L S em1'"
  using assms unfolding agree_def by blast+

lemma agree_sbind:
  assumes "agree store L S Q m m'" and "\<And>a a'. Q a a' \<Longrightarrow> agree store L S Q' (f a) (f' a')"
  shows "agree store L S Q' (sbind m f) (sbind m' f')"
  unfolding agree_def
proof (intro allI impI)
  fix em em' b em2
  assume em: "shows_events store L S em" "shows_events store L S em'"
    and "sbind m f em = Some (Inr (b, em2))"
  then obtain a em1 where a: "m em = Some (Inr (a, em1))" "f a em1 = Some (Inr (b, em2))"
    by (auto simp: sbind_def split: option.splits sum.splits)
  note em1 = agreeD(1) [OF assms(1) em a(1)]
  from agreeD(2) [OF assms(1) em a(1)] obtain a' em1'
    where a': "m' em' = Some (Inr (a', em1'))" "Q a a'" "shows_events store L S em1'" by blast
  from agreeD [OF assms(2) [OF a'(2)] em1 a'(3) a(2)] a'(1)
  show "shows_events store L S em2 \<and>
    (\<exists>b' em2'. sbind m' f' em' = Some (Inr (b', em2')) \<and> Q' b b' \<and> shows_events store L S em2')"
    by (simp add: sbind_def)
qed

lemma agree_transfers: "transfers store L S m (\<lambda>_. S) \<Longrightarrow> agree store L S (=) m m"
  unfolding agree_def by (fastforce dest: simulatedD)

lemma agree_sret: "Q a a' \<Longrightarrow> agree store L S Q (sret a) (sret a')"
  by (auto simp: agree_def sret_def)

lemma transfers_returns:
  assumes "transfers store L S m (\<lambda>_. S)" and "shows_events store L S em"
    and "m em = Some (Inr (a, em1))"
  shows "returns store L S m a" and "shows_events store L S em1"
  using simulatedD [OF assms(1,2) _ assms(3)] assms(2) unfolding returns_def by fastforce+

lemma smapM_success:
  assumes "\<And>x. x \<in> set xs \<Longrightarrow> transfers store L S (f x) (\<lambda>_. S)" and "shows_events store L S em"
    and "smapM f xs em = Some (Inr (bs, em1))"
  shows "shows_events store L S em1 \<and> list_all2 (\<lambda>x b. returns store L S (f x) b) xs bs"
  using assms
proof (induction xs arbitrary: em bs)
  case (Cons x xs)
  from Cons.prems(3) obtain b em2 bs' where
    b: "f x em = Some (Inr (b, em2))" and bs: "smapM f xs em2 = Some (Inr (bs', em1))" "bs = b # bs'"
    by (auto simp: sbind_def sret_def split: option.splits sum.splits)
  from transfers_returns [OF Cons.prems(1) Cons.prems(2) b] Cons.IH [OF Cons.prems(1) _ bs(1)] bs(2)
  show ?case by simp
qed (simp add: sret_def)

lemma smapM_returns:
  assumes "\<And>y. y \<in> set ys \<Longrightarrow> returns store L S (f y) (v y)" and "shows_events store L S em"
  shows "\<exists>em1. smapM f ys em = Some (Inr (map v ys, em1)) \<and> shows_events store L S em1"
  using assms
proof (induction ys arbitrary: em)
  case (Cons y ys)
  from Cons.prems obtain em2 where "f y em = Some (Inr (v y, em2))" "shows_events store L S em2"
    unfolding returns_def by (meson list.set_intros(1))
  with Cons.IH [of em2] Cons.prems(1) show ?case by (auto simp: sbind_def sret_def)
qed (simp add: sret_def)

lemma returns_unique:
  "returns store L S m a \<Longrightarrow> returns store L S m b \<Longrightarrow> shows_events store L S em \<Longrightarrow> a = b"
  unfolding returns_def by fastforce

text \<open>A map over the same elements in another order gives the same value at each element.\<close>

lemma smapM_agree:
  assumes "\<And>x. x \<in> set xs \<Longrightarrow> transfers store L S (f x) (\<lambda>_. S)" and "set ys \<subseteq> set xs"
  shows "agree store L S
    (\<lambda>bs bs'. \<exists>v. bs = map v xs \<and> bs' = map v ys \<and> (\<forall>x \<in> set xs. returns store L S (f x) (v x)))
    (smapM f xs) (smapM f ys)"
  unfolding agree_def
proof (intro allI impI conjI)
  fix em em' bs em1
  assume em: "shows_events store L S em" "shows_events store L S em'"
    and bs: "smapM f xs em = Some (Inr (bs, em1))"
  from smapM_success [OF assms(1) em(1) bs]
  have em1: "shows_events store L S em1" and all: "list_all2 (\<lambda>x b. returns store L S (f x) b) xs bs" by auto
  show "shows_events store L S em1" by (rule em1)
  have "\<forall>x \<in> set xs. \<exists>b. returns store L S (f x) b"
    using all by (metis in_set_conv_nth list_all2_conv_all_nth)
  then obtain v where v: "\<forall>x \<in> set xs. returns store L S (f x) (v x)" by metis
  have "bs = map v xs"
  proof (rule nth_equalityI)
    show "length bs = length (map v xs)" using all by (simp add: list_all2_lengthD)
    fix i assume "i < length bs"
    with all v have "returns store L S (f (xs ! i)) (bs ! i)" "returns store L S (f (xs ! i)) (v (xs ! i))"
      by (simp_all add: list_all2_conv_all_nth)
    from returns_unique [OF this em(1)] show "bs ! i = map v xs ! i"
      using \<open>i < length bs\<close> all by (simp add: list_all2_lengthD)
  qed
  moreover from smapM_returns [of ys store L S f v em'] v assms(2) em(2)
  obtain em1' where "smapM f ys em' = Some (Inr (map v ys, em1'))" "shows_events store L S em1'" by blast
  ultimately show "\<exists>bs' em1'. smapM f ys em' = Some (Inr (bs', em1'))
      \<and> (\<exists>v. bs = map v xs \<and> bs' = map v ys \<and> (\<forall>x \<in> set xs. returns store L S (f x) (v x)))
      \<and> shows_events store L S em1'"
    using v by blast
qed

section \<open>The parts of the algorithm\<close>

lemma power_events_of_total:
  assumes "shows_events store L S em" and "set eids \<subseteq> S"
    and "\<forall>eid \<in> set eids. \<exists>b. is_power_event (the (L eid)) = Inr b"
  shows "power_events_of eids em = Some (Inr (filter (\<lambda>eid. is_power_event (the (L eid)) = Inr True) eids, em))"
  using assms(2,3)
proof (induction eids)
  case (Cons eid eids)
  then obtain e where "L eid = Some e" "event_map_index eid em = Some (Inr (e, em))"
    using event_map_index_shows [OF assms(1), of eid] by auto
  with Cons show ?case by (auto simp: sbind_def sres_def sret_def)
qed (simp add: sret_def)

lemma power_events_of_success:
  assumes "shows_events store L S em" and "set eids \<subseteq> S" and "power_events_of eids em = Some (Inr (ps, em1))"
  shows "\<forall>eid \<in> set eids. \<exists>b. is_power_event (the (L eid)) = Inr b"
  using assms(2,3)
proof (induction eids arbitrary: ps)
  case (Cons eid eids)
  then obtain e where "L eid = Some e" "event_map_index eid em = Some (Inr (e, em))"
    using event_map_index_shows [OF assms(1), of eid] by auto
  with Cons.prems have "\<exists>b. is_power_event (the (L eid)) = Inr b"
    and "\<exists>ps'. power_events_of eids em = Some (Inr (ps', em1))"
    by (auto simp: sbind_def sres_def sret_def sraise_def split: option.splits sum.splits)
  with Cons.IH Cons.prems(1) show ?case by auto
qed simp

lemma power_events_agree:
  assumes "set xs = set ys" and "set xs \<subseteq> S"
  shows "agree store L S (\<lambda>ps ps'. set ps = set ps' \<and> set ps \<subseteq> set xs) (power_events_of xs) (power_events_of ys)"
  unfolding agree_def
proof (intro allI impI)
  fix em em' ps em1
  assume em: "shows_events store L S em" "shows_events store L S em'"
    and ps: "power_events_of xs em = Some (Inr (ps, em1))"
  note ok = power_events_of_success [OF em(1) assms(2) ps]
  from power_events_of_total [OF em(1) assms(2) ok] power_events_of_total [OF em(2), of ys] ok assms ps em
  show "shows_events store L S em1 \<and> (\<exists>ps' em1'. power_events_of ys em' = Some (Inr (ps', em1'))
      \<and> (set ps = set ps' \<and> set ps \<subseteq> set xs) \<and> shows_events store L S em1')"
    by auto
qed

lemma filter_eq_count: "filter (\<lambda>x. k = x) zs = replicate (count (mset zs) k) k"
  by (induction zs) auto

lemma sort_key_cong:
  assumes "\<And>x. x \<in> set xs \<Longrightarrow> f x = g x"
  shows "sort_key f xs = sort_key g xs"
proof -
  have insort: "insort_key f x ys = insort_key g x ys" if "f x = g x" "\<forall>y \<in> set ys. f y = g y" for x ys
    using that by (induction ys) auto
  show ?thesis using assms by (induction xs) (auto intro: insort)
qed

lemma sort_key_same:
  assumes "mset xs = mset ys" and "inj_on f (set xs)"
  shows "sort_key f xs = sort_key f ys"
proof (rule properties_for_sort_key)
  show "mset (sort_key f ys) = mset xs" using assms(1) by simp
  fix k assume "k \<in> set (sort_key f ys)"
  then have k: "k \<in> set xs" using assms(1) mset_eq_setD by fastforce
  have "filter (\<lambda>x. f k = f x) zs = replicate (count (mset zs) k) k" if "set zs = set xs" for zs
  proof -
    have "filter (\<lambda>x. f k = f x) zs = filter (\<lambda>x. k = x) zs"
      using k that assms(2) by (intro filter_cong) (auto dest: inj_onD)
    then show ?thesis by (simp only: filter_eq_count)
  qed
  from this [of xs] this [of "sort_key f ys"] assms(1) show "filter (\<lambda>x. f k = f x) (sort_key f ys) = filter (\<lambda>x. f k = f x) xs"
    using mset_eq_setD [OF assms(1)] by simp
qed simp


lemma build_graph_total:
  assumes rank: "auth_ranked L rank" and R: "\<And>n. n \<in> R \<Longrightarrow> auth_edges L F n \<subseteq> R"
    and room: "\<And>n. n \<in> R \<Longrightarrow> \<exists>e. L n = Some e \<and> ev_room_id e = room_id"
    and "set eids \<subseteq> R" and "shows_events store L (S \<union> fst ` set g) em" and "graph_inv L F R [] g"
  shows "\<exists>g' em'. sfoldM (\<lambda>eid. add_event_and_auth_chain_to_graph room_id store F [eid]) eids g em
      = Some (Inr (g', em'))
    \<and> graph_inv L F R [] g' \<and> shows_events store L (S \<union> fst ` set g') em'
    \<and> fst ` set g \<union> set eids \<subseteq> fst ` set g'"
  using assms(4-6)
proof (induction eids arbitrary: g em)
  case (Cons eid eids)
  have "graph_inv L F R [eid] g" using Cons.prems by (auto simp: graph_inv_def)
  from add_event_total [OF rank R room this Cons.prems(2)] obtain g1 em1
    where g1: "add_event_and_auth_chain_to_graph room_id store F [eid] g em = Some (Inr (g1, em1))"
      "graph_inv L F R [] g1" "shows_events store L (S \<union> fst ` set g1) em1"
      "fst ` set g \<union> {eid} \<subseteq> fst ` set g1"
    by auto
  have "set eids \<subseteq> R" using Cons.prems(1) by simp
  from Cons.IH [OF this g1(3,2)] obtain g2 em2
    where g2: "sfoldM (\<lambda>eid. add_event_and_auth_chain_to_graph room_id store F [eid]) eids g1 em1
        = Some (Inr (g2, em2))"
      "graph_inv L F R [] g2" "shows_events store L (S \<union> fst ` set g2) em2"
      "fst ` set g1 \<union> set eids \<subseteq> fst ` set g2"
    by blast
  then have "sfoldM (\<lambda>eid. add_event_and_auth_chain_to_graph room_id store F [eid]) (eid # eids) g em
      = Some (Inr (g2, em2))" using g1(1) by (simp add: sbind_def)
  moreover have "fst ` set g \<union> set (eid # eids) \<subseteq> fst ` set g2" using g1(4) g2(4) by auto
  ultimately show ?case using g2(2,3) by blast
qed (auto simp: sret_def)

text \<open>
  The graph built from a list of conflicted events has as nodes the events reached from them by
  auth events within the conflicted set, and as edges exactly these auth events.
\<close>

definition power_graph :: "(string \<rightharpoonup> event) \<Rightarrow> string set \<Rightarrow> string set \<Rightarrow> string graph \<Rightarrow> bool" where
  "power_graph L F A g \<longleftrightarrow> distinct (map fst g) \<and> fst ` set g = auth_closure L F A
     \<and> (\<forall>n. set (edges_of g n) = (if n \<in> auth_closure L F A then auth_edges L F n else {}))"

lemma auth_closure_subset:
  assumes "A \<subseteq> F" shows "auth_closure L F A \<subseteq> F"
  by (rule auth_closure_least [OF assms]) (auto simp: auth_edges_def split: option.splits)

lemma build_graph_correct:
  assumes "auth_ranked L rank" and "\<And>n. n \<in> F \<Longrightarrow> \<exists>e. L n = Some e \<and> ev_room_id e = room_id"
    and "set eids \<subseteq> F" and "shows_events store L F em"
  shows "\<exists>g em'. sfoldM (\<lambda>eid. add_event_and_auth_chain_to_graph room_id store F [eid]) eids [] em
      = Some (Inr (g, em')) \<and> power_graph L F (set eids) g \<and> shows_events store L F em'"
proof -
  let ?R = "auth_closure L F (set eids)"
  have inv: "graph_inv L F ?R [] []" by (auto simp: graph_inv_def edges_of_def)
  have room: "\<exists>e. L n = Some e \<and> ev_room_id e = room_id" if "n \<in> ?R" for n
    using assms(2) auth_closure_subset [OF assms(3)] that by blast
  have em: "shows_events store L (F \<union> fst ` set ([] :: string graph)) em" using assms(4) by simp
  from build_graph_total [OF assms(1) auth_closure_step room auth_closure_base em inv]
  obtain g em' where
    g: "sfoldM (\<lambda>eid. add_event_and_auth_chain_to_graph room_id store F [eid]) eids [] em = Some (Inr (g, em'))"
      "graph_inv L F ?R [] g" "shows_events store L (F \<union> fst ` set g) em'" "set eids \<subseteq> fst ` set g"
    by auto
  from g(2,4) have "?R \<subseteq> fst ` set g" by (intro auth_closure_least) (auto simp: graph_inv_def)
  with g(2) have "fst ` set g = ?R" by (auto simp: graph_inv_def)
  with g(2) have "power_graph L F (set eids) g" by (simp add: power_graph_def graph_inv_def)
  with g(1) shows_events_weaken [OF g(3)] show ?thesis by blast
qed

lemma power_graph_sort:
  assumes "power_graph L F A g" and "power_graph L F A g'"
    and "\<And>n. n \<in> auth_closure L F A \<Longrightarrow> key n = key' n"
  shows "lexicographical_topological_sort g key = lexicographical_topological_sort g' key'"
proof -
  have g: "distinct (map fst g)" "distinct (map fst g')" "fst ` set g = fst ` set g'"
    "(\<lambda>n. set (edges_of g n)) = (\<lambda>n. set (edges_of g' n))"
    using assms(1,2) by (auto simp: power_graph_def)
  have "lexicographical_topological_sort g key = lexicographical_topological_sort g key'"
    using assms(1,3) by (intro topo_sort_key_cong) (auto simp: power_graph_def)
  with topo_sort_total [OF g(1), of key'] topo_sort_total [OF g(2), of key'] g(3,4) show ?thesis
    by (auto dest: lex_topo_unique)
qed

lemma power_order_eq:
  assumes "shows_events store L F em" and "n \<in> F" and "n \<in> set ns"
  shows "get_power_order em (zip ns (map v ns)) n = (- v n, ev_origin_server_ts (the (L n)), n)"
  using shows_events_dget [OF assms(1,2)] assms(3)
  by (auto simp: get_power_order_def dget_def map_of_zip_map split: option.splits)

lemma power_sort_agree:
  assumes rank: "auth_ranked L rank"
    and room: "\<And>n. n \<in> F \<Longrightarrow> \<exists>e. L n = Some e \<and> ev_room_id e = room_id"
    and xs: "set xs = set ys" "set xs \<subseteq> F"
  shows "agree store L F (=) (reverse_topological_power_sort room_id store F xs)
     (reverse_topological_power_sort room_id store F ys)"
  unfolding reverse_topological_power_sort_def
proof (rule agree_sbind [where Q = "\<lambda>g g'. power_graph L F (set xs) g \<and> power_graph L F (set xs) g'"])
  show "agree store L F (\<lambda>g g'. power_graph L F (set xs) g \<and> power_graph L F (set xs) g')
      (sfoldM (\<lambda>eid. add_event_and_auth_chain_to_graph room_id store F [eid]) xs [])
      (sfoldM (\<lambda>eid. add_event_and_auth_chain_to_graph room_id store F [eid]) ys [])"
    unfolding agree_def
  proof (intro allI impI)
    fix em em' g em1
    assume em: "shows_events store L F em" "shows_events store L F em'"
      and "sfoldM (\<lambda>eid. add_event_and_auth_chain_to_graph room_id store F [eid]) xs [] em = Some (Inr (g, em1))"
    with build_graph_correct [OF rank room xs(2) em(1)]
      build_graph_correct [OF rank room xs(2) [unfolded xs(1)] em(2)] xs(1)
    show "shows_events store L F em1 \<and> (\<exists>g' em1'.
        sfoldM (\<lambda>eid. add_event_and_auth_chain_to_graph room_id store F [eid]) ys [] em' = Some (Inr (g', em1'))
        \<and> (power_graph L F (set xs) g \<and> power_graph L F (set xs) g') \<and> shows_events store L F em1')"
      by auto
  qed
next
  fix g g' assume gg: "power_graph L F (set xs) g \<and> power_graph L F (set xs) g'"
  then have nodes: "set (map fst g') = set (map fst g)" and
    nF: "\<And>n. n \<in> auth_closure L F (set xs) \<Longrightarrow> n \<in> F \<and> n \<in> set (map fst g) \<and> n \<in> set (map fst g')"
    using auth_closure_subset [OF xs(2)] by (auto simp: power_graph_def)
  let ?last = "\<lambda>g pls em. map_option (\<lambda>sorted_events. Inr (sorted_events, em))
      (lexicographical_topological_sort g (get_power_order em (zip (map fst g) pls)))"
  show "agree store L F (=) (sbind (smapM (get_power_level_for_sender room_id store) (map fst g)) (?last g))
      (sbind (smapM (get_power_level_for_sender room_id store) (map fst g')) (?last g'))"
  proof (rule agree_sbind [OF smapM_agree])
    show "transfers store L F (get_power_level_for_sender room_id store n) (\<lambda>_. F)" for n
      by (rule transfer_rules)
    show "set (map fst g') \<subseteq> set (map fst g)" using nodes by simp
    fix pls pls'
    assume "\<exists>v. pls = map v (map fst g) \<and> pls' = map v (map fst g')
      \<and> (\<forall>n \<in> set (map fst g). returns store L F (get_power_level_for_sender room_id store n) (v n))"
    then obtain v where v: "pls = map v (map fst g)" "pls' = map v (map fst g')" by blast
    have "lexicographical_topological_sort g (get_power_order em (zip (map fst g) pls))
        = lexicographical_topological_sort g' (get_power_order em' (zip (map fst g') pls'))"
      if "shows_events store L F em" "shows_events store L F em'" for em em'
    proof (rule power_graph_sort)
      fix n assume "n \<in> auth_closure L F (set xs)"
      with nF have "n \<in> F" "n \<in> set (map fst g)" "n \<in> set (map fst g')" by blast+
      then show "get_power_order em (zip (map fst g) pls) n = get_power_order em' (zip (map fst g') pls') n"
        unfolding v by (simp only: power_order_eq [OF that(1)] power_order_eq [OF that(2)])
    qed (use gg in auto)
    then show "agree store L F (=) (?last g pls) (?last g' pls')"
      unfolding agree_def by auto
  qed
qed

lemma mainline_order_id:
  assumes "returns store L S (mainline_order store mm eid) k" and "shows_events store L S em"
  shows "snd (snd k) = eid"
  using assms unfolding returns_def mainline_order_def
  by (fastforce simp: sbind_def sret_def split: option.splits sum.splits)

lemma mainline_sort_agree:
  assumes "mset xs = mset ys" and "set xs \<subseteq> S"
  shows "agree store L S (=) (mainline_sort room_id store xs pl) (mainline_sort room_id store ys pl)"
proof (cases "xs = []")
  case True
  with assms show ?thesis by (auto simp: mainline_sort_def intro: agree_sret)
next
  case False
  with assms have ne: "xs \<noteq> []" "ys \<noteq> []" by auto
  let ?last = "\<lambda>xs orders. sret (sort_key (\<lambda>eid. case dget (zip xs orders) eid of
       Some k \<Rightarrow> k | None \<Rightarrow> (0, 0, eid)) xs) :: string list sr"
  let ?rest = "\<lambda>xs mm. sbind (smapM (mainline_order store mm) xs) (?last xs)"
  have "agree store L S (=) (?rest xs mm) (?rest ys mm)" for mm
  proof (rule agree_sbind [OF smapM_agree])
    show "eid \<in> set xs \<Longrightarrow> transfers store L S (mainline_order store mm eid) (\<lambda>_. S)" for eid
      using assms(2) by (auto intro: transfer_rules)
    show "set ys \<subseteq> set xs" using mset_eq_setD [OF assms(1)] by simp
    fix os os'
    assume "\<exists>v. os = map v xs \<and> os' = map v ys \<and> (\<forall>x \<in> set xs. returns store L S (mainline_order store mm x) (v x))"
    then obtain v where v: "os = map v xs" "os' = map v ys"
      "\<forall>x \<in> set xs. returns store L S (mainline_order store mm x) (v x)" by blast
    have key: "sort_key (\<lambda>eid. case dget (zip zs (map v zs)) eid of Some k \<Rightarrow> k | None \<Rightarrow> (0, 0, eid)) zs
        = sort_key v zs" for zs :: "string list"
      by (rule sort_key_cong) (auto simp: dget_def map_of_zip_map)
    have "sort_key v xs = sort_key v ys" if "shows_events store L S em" for em
      using v(3) mainline_order_id [OF _ that] assms(1) by (intro sort_key_same inj_onI) metis+
    then show "agree store L S (=) (?last xs os) (?last ys os')"
      unfolding agree_def v key by (auto simp: sret_def)
  qed
  then show ?thesis
    unfolding mainline_sort_def if_not_P [OF ne(1)] if_not_P [OF ne(2)] Let_def
    by (intro agree_sbind [OF agree_transfers [OF transfers_mainline_loop]]) auto
qed

section \<open>The whole resolution\<close>

text \<open>An iteration order of Python's sets: every element once.\<close>

definition set_order :: "('a set \<Rightarrow> 'a list) \<Rightarrow> bool" where
  "set_order it \<longleftrightarrow> (\<forall>A. finite A \<longrightarrow> set (it A) = A \<and> distinct (it A))"

lemma set_orderD:
  assumes "set_order it" and "finite A" shows "set (it A) = A" and "distinct (it A)"
  using assms by (auto simp: set_order_def)

lemma agree_conj:
  assumes "agree store L S Q m m'"
    and "\<And>em a em1. shows_events store L S em \<Longrightarrow> m em = Some (Inr (a, em1)) \<Longrightarrow> P a"
  shows "agree store L S (\<lambda>a a'. Q a a' \<and> P a) m m'"
  using assms unfolding agree_def by blast

lemma auth_closure_wf:
  assumes "auth_ranked L rank" shows "wf {(a, n). n \<in> N \<and> a \<in> auth_edges L F n}"
  by (rule wf_subset [OF wf_measure [of rank]])
    (use assms in \<open>auto simp: auth_ranked_def auth_edges_def split: option.splits\<close>)

text \<open>
  The power sort returns the power events and their auth events within the conflicted set, each
  once and after its own auth events.
\<close>

lemma power_sort_success:
  assumes rank: "auth_ranked L rank" and fin: "finite F"
    and room: "\<And>n. n \<in> F \<Longrightarrow> \<exists>e. L n = Some e \<and> ev_room_id e = room_id"
    and eids: "set eids \<subseteq> F" and em: "shows_events store L F em"
    and sort: "reverse_topological_power_sort room_id store F eids em = Some (Inr (xs, em1))"
  shows "distinct xs \<and> set xs = auth_closure L F (set eids)
    \<and> (\<forall>as n bs. xs = as @ n # bs \<longrightarrow> auth_edges L F n \<subseteq> set as)"
proof -
  from build_graph_correct [OF rank room eids em] sort obtain g em2 pls em3
    where g: "power_graph L F (set eids) g"
      and xs: "lexicographical_topological_sort g (get_power_order em3 (zip (map fst g) pls)) = Some xs"
    by (fastforce simp: reverse_topological_power_sort_def sbind_def split: option.splits sum.splits)
  let ?C = "auth_closure L F (set eids)" and ?E = "\<lambda>n. set (edges_of g n)"
  have nodes: "fst ` set g = ?C" and E: "\<And>n. n \<in> ?C \<Longrightarrow> ?E n = auth_edges L F n"
    using g by (auto simp: power_graph_def)
  have "distinct (map fst g)" using g by (simp add: power_graph_def)
  from topo_sort_total [OF this, of "get_power_order em3 (zip (map fst g) pls)"] xs
  have lex: "lex_topo (get_power_order em3 (zip (map fst g) pls)) ?E ?C {} xs"
    unfolding nodes by auto
  have "{(m, n). n \<in> ?C \<and> m \<in> ?E n} = {(m, n). n \<in> ?C \<and> m \<in> auth_edges L F n}" using E by auto
  with auth_closure_wf [OF rank] have "wf {(m, n). n \<in> ?C \<and> m \<in> ?E n}" by simp
  moreover have "finite ?C" using finite_subset [OF auth_closure_subset [OF eids] fin] .
  moreover have "\<And>n. n \<in> ?C \<Longrightarrow> ?E n \<subseteq> ?C" using auth_closure_step E by simp
  ultimately have "?C \<subseteq> set xs" using lex_topo_complete [OF lex] by simp
  with lex_topo_distinct [OF lex] have xs': "distinct xs" "set xs = ?C" by auto
  have "auth_edges L F n \<subseteq> set as" if "xs = as @ n # bs" for as n bs
  proof -
    have "n \<in> ?C" using that xs'(2) by auto
    with lex_topo_ordered [of _ ?E ?C "{}" as n bs] lex that E show ?thesis by simp
  qed
  with xs' show ?thesis by blast
qed

lemma set_mainline_sort:
  "mainline_sort room_id store eids pl em = Some (Inr (xs, em1)) \<Longrightarrow> set xs = set eids"
  by (auto simp: mainline_sort_def sbind_def sret_def Let_def split: if_splits option.splits sum.splits)

end
