(* ===== verification/State_V2_Diff.thy ===== *)
theory State_V2_Diff
  imports State_V2_Order
begin

text \<open>
  The auth chain difference: the searches end when auth events form no cycle, in whatever order
  sets are iterated over, and the result is the set of ids that are in the auth chains of some
  state sets but not of all.
\<close>

section \<open>The auth chain difference\<close>

text \<open>The forward search ends, with everything reachable, in whatever order the queue is popped.\<close>

lemma forwards_loop_total:
  assumes it: "set_order it" and fin: "finite nxt"
    and rank: "\<And>a n. (a, n) \<in> nxt \<Longrightarrow> rank a < rank n \<and> rank n \<le> (N :: nat)"
  shows "finite Q \<Longrightarrow> \<forall>x \<in> fwd. nxt `` {x} \<subseteq> fwd \<union> Q
    \<Longrightarrow> forwards_loop it nxt Q fwd = Some (fwd \<union> nxt\<^sup>* `` Q)"
proof (induction "image_mset (\<lambda>x. N - rank x) (mset_set Q)" arbitrary: Q fwd
    rule: wf_induct_rule [OF wf_mult [OF wf_less_than]])
  case (1 Q fwd)
  note Q = 1(2) and closed = 1(3)
  show ?case
  proof (cases "it Q")
    case Nil
    with set_orderD [OF it Q] show ?thesis by (subst forwards_loop.simps) simp
  next
    case (Cons f rest)
    with set_orderD [OF it Q] have f: "f \<in> Q" by auto
    let ?new = "nxt `` {f}" and ?m = "\<lambda>x. N - rank x"
    let ?Q = "Q - {f} \<union> ?new"
    have fin_new: "finite ?new" using fin by (rule finite_Image)
    have "mset_set ?Q = mset_set (Q - {f}) + mset_set (?new - (Q - {f}))"
      using Q fin_new by (subst mset_set_Union [symmetric]) (auto intro!: arg_cong [where f = mset_set])
    moreover have "mset_set Q = mset_set (Q - {f}) + {#f#}"
      using mset_set.remove [OF Q f] by simp
    moreover have "?m x < ?m f" if "x \<in> ?new" for x using rank that by fastforce
    moreover have "(image_mset ?m (mset_set (Q - {f})) + image_mset ?m (mset_set (?new - (Q - {f}))),
        image_mset ?m (mset_set (Q - {f})) + {#?m f#}) \<in> mult less_than"
      using fin_new calculation(3) by (intro one_step_implies_mult) auto
    ultimately have "(image_mset ?m (mset_set ?Q), image_mset ?m (mset_set Q)) \<in> mult less_than"
      by simp
    moreover have "finite ?Q" using Q fin_new by simp
    moreover have "\<forall>x \<in> insert f fwd. nxt `` {x} \<subseteq> insert f fwd \<union> ?Q" using closed by blast
    ultimately have "forwards_loop it nxt ?Q (insert f fwd) = Some (insert f fwd \<union> nxt\<^sup>* `` ?Q)"
      by (rule 1(1))
    moreover have "insert f fwd \<union> nxt\<^sup>* `` ?Q = fwd \<union> nxt\<^sup>* `` Q"
      using f by (auto intro: converse_rtrancl_into_rtrancl elim: converse_rtranclE)
    ultimately show ?thesis using Cons by (subst forwards_loop.simps) simp
  qed
qed

text \<open>The search along auth events finds finitely many ids, and links only along auth events.\<close>

definition auth_links :: "event set \<Rightarrow> (string \<times> string) set" where
  "auth_links E = (\<Union>e \<in> E. (\<lambda>a. (a, ev_event_id e)) ` set (ev_auth_event_ids e))"

lemma auth_links_mono: "E \<subseteq> E' \<Longrightarrow> auth_links E \<subseteq> auth_links E'"
  unfolding auth_links_def by (rule UN_mono) auto

lemma chain_loop_facts:
  "chain_loop U ts chain nxt = Some (chain', nxt') \<Longrightarrow> finite chain
   \<Longrightarrow> finite chain' \<and> nxt' \<subseteq> nxt \<union> auth_links (set ts \<union> snd ` set U)"
proof (induction U ts chain nxt "(chain', nxt')" rule: chain_loop.raw_induct [rotated, consumes 1])
  case (1 f U ts chain nxt)
  show ?case
  proof (cases ts)
    case (Cons e rest)
    let ?next = "rev (List.map_filter (dget U) (ev_auth_event_ids e)) @ rest"
    have "set (List.map_filter (dget U) (ev_auth_event_ids e)) \<subseteq> snd ` set U"
      by (auto simp: map_filter_def dget_def) (metis image_eqI map_of_SomeD snd_conv option.sel)
    then have "auth_links (set ?next \<union> snd ` set U) \<subseteq> auth_links (set ts \<union> snd ` set U)"
      by (intro auth_links_mono) (auto simp: Cons)
    moreover have "set (map (\<lambda>a. (a, ev_event_id e)) (ev_auth_event_ids e)) \<subseteq> auth_links (set ts \<union> snd ` set U)"
      by (auto simp: auth_links_def Cons)
    ultimately show ?thesis using 1(1) [of U ?next] 1(2,3) Cons by simp blast
  qed (use 1 in simp)
qed

lemma chains_loop_facts:
  "chains_loop U es cs nxt = Some (cs', nxt') \<Longrightarrow> set es \<subseteq> snd ` set U \<Longrightarrow> \<forall>c \<in> ran (map_of cs). finite c
   \<Longrightarrow> (\<forall>c \<in> ran (map_of cs'). finite c) \<and> nxt' \<subseteq> nxt \<union> auth_links (snd ` set U)"
proof (induction es arbitrary: cs nxt)
  case (Cons e es)
  then obtain chain nxt1 where c: "chain_loop U [e] {ev_event_id e} nxt = Some (chain, nxt1)"
    "chains_loop U es (dset cs (ev_event_id e) chain) nxt1 = Some (cs', nxt')"
    by (auto split: option.splits)
  from chain_loop_facts [OF c(1)] Cons.prems(2)
  have "finite chain" "nxt1 \<subseteq> nxt \<union> auth_links (snd ` set U)"
    by (auto simp: insert_absorb)
  moreover from this(1) Cons.prems(3) have "\<forall>c \<in> ran (map_of (dset cs (ev_event_id e) chain)). finite c"
    by (auto simp: ran_def)
  ultimately show ?case using Cons.IH [OF c(2)] Cons.prems(2) by (simp del: map_of_dset) blast
qed simp

text \<open>Auth events of the events that \<open>L\<close> knows, and the auth chain of a state set.\<close>

definition auth_rel :: "(string \<rightharpoonup> event) \<Rightarrow> (string \<times> string) set" where
  "auth_rel L = {(n, a). \<exists>e. L n = Some e \<and> a \<in> set (ev_auth_event_ids e)}"

definition auth_chain :: "(string \<rightharpoonup> event) \<Rightarrow> string set \<Rightarrow> string set" where
  "auth_chain L A = (auth_rel L)\<^sup>* `` A"

definition ids_match :: "(string \<rightharpoonup> event) \<Rightarrow> bool" where
  "ids_match L \<longleftrightarrow> (\<forall>k e. L k = Some e \<longrightarrow> ev_event_id e = k)"

lemma auth_chain_closed: "n \<in> auth_chain L A \<Longrightarrow> (n, a) \<in> auth_rel L \<Longrightarrow> a \<in> auth_chain L A"
  unfolding auth_chain_def by (auto intro: rtrancl_into_rtrancl)

lemma auth_chain_base: "A \<subseteq> auth_chain L A"
  unfolding auth_chain_def by auto

lemma auth_chain_least:
  assumes "A \<subseteq> N" and "\<And>n a. n \<in> N \<Longrightarrow> (n, a) \<in> auth_rel L \<Longrightarrow> a \<in> N"
  shows "auth_chain L A \<subseteq> N"
proof -
  have "m \<in> N" if "(n, m) \<in> (auth_rel L)\<^sup>*" "n \<in> N" for n m
    using that by (induction rule: rtrancl_induct) (use assms(2) in auto)
  then show ?thesis using assms(1) unfolding auth_chain_def by blast
qed

lemma chain_loop_total:
  assumes rank: "auth_ranked (map_of U) rank" and ids: "ids_match (map_of U)"
  shows "\<forall>e \<in> set ts. map_of U (ev_event_id e) = Some e
    \<Longrightarrow> \<forall>n \<in> chain. \<forall>e. map_of U n = Some e \<longrightarrow> e \<in> set ts \<or> set (ev_auth_event_ids e) \<subseteq> chain
    \<Longrightarrow> ev_event_id ` set ts \<subseteq> chain
    \<Longrightarrow> \<exists>nxt'. chain_loop U ts chain nxt = Some (auth_chain (map_of U) chain, nxt')"
proof (induction "mset (map (rank \<circ> ev_event_id) ts)" arbitrary: ts chain nxt
    rule: wf_induct_rule [OF wf_mult [OF wf_less_than]])
  case (1 ts chain nxt)
  show ?case
  proof (cases ts)
    case Nil
    with 1(3) have "auth_chain (map_of U) chain \<subseteq> chain"
      by (intro auth_chain_least) (auto simp: auth_rel_def)
    then have "auth_chain (map_of U) chain = chain" using auth_chain_base by blast
    with Nil show ?thesis by (subst chain_loop.simps) simp
  next
    case (Cons e rest)
    let ?new = "List.map_filter (dget U) (ev_auth_event_ids e)"
    let ?ts = "rev ?new @ rest" and ?chain = "chain \<union> set (ev_auth_event_ids e)"
    have e: "map_of U (ev_event_id e) = Some e" "ev_event_id e \<in> chain" using 1(2,4) Cons by auto
    have new: "x \<in> set ?new \<longleftrightarrow> (\<exists>a \<in> set (ev_auth_event_ids e). map_of U a = Some x)" for x
      by (force simp: map_filter_def dget_def)
    have new_id: "map_of U (ev_event_id x) = Some x \<and> ev_event_id x \<in> set (ev_auth_event_ids e)"
      if "x \<in> set ?new" for x
      using that ids unfolding new ids_match_def by auto
    have "(mset (map (rank \<circ> ev_event_id) rest) + mset (map (rank \<circ> ev_event_id) (rev ?new)),
        mset (map (rank \<circ> ev_event_id) rest) + {#rank (ev_event_id e)#}) \<in> mult less_than"
      using new_id rank e(1) by (intro one_step_implies_mult) (auto simp: auth_ranked_def)
    then have "(mset (map (rank \<circ> ev_event_id) ?ts), mset (map (rank \<circ> ev_event_id) ts)) \<in> mult less_than"
      by (simp add: Cons ac_simps)
    moreover have "\<forall>x \<in> set ?ts. map_of U (ev_event_id x) = Some x" using 1(2) Cons new_id by auto
    moreover have "\<forall>n \<in> ?chain. \<forall>x. map_of U n = Some x \<longrightarrow> x \<in> set ?ts \<or> set (ev_auth_event_ids x) \<subseteq> ?chain"
      using 1(3) Cons by (auto simp: new)
    moreover have "ev_event_id ` set ?ts \<subseteq> ?chain" using 1(4) Cons new_id by auto
    ultimately obtain nxt' where
      "chain_loop U ?ts ?chain (nxt \<union> set (map (\<lambda>a. (a, ev_event_id e)) (ev_auth_event_ids e)))
         = Some (auth_chain (map_of U) ?chain, nxt')"
      using 1(1) by blast
    moreover have "auth_chain (map_of U) ?chain = auth_chain (map_of U) chain"
    proof
      have "ev_event_id e \<in> auth_chain (map_of U) chain" using auth_chain_base e(2) by blast
      from auth_chain_closed [OF this] e(1)
      have "set (ev_auth_event_ids e) \<subseteq> auth_chain (map_of U) chain" by (auto simp: auth_rel_def)
      then show "auth_chain (map_of U) ?chain \<subseteq> auth_chain (map_of U) chain"
        using auth_chain_closed auth_chain_base by (intro auth_chain_least) blast+
      show "auth_chain (map_of U) chain \<subseteq> auth_chain (map_of U) ?chain"
        using auth_chain_closed auth_chain_base by (intro auth_chain_least) blast+
    qed
    ultimately show ?thesis by (subst chain_loop.simps) (simp add: Cons)
  qed
qed

lemma chains_loop_total:
  assumes rank: "auth_ranked (map_of U) rank" and ids: "ids_match (map_of U)"
  shows "\<forall>e \<in> set es. map_of U (ev_event_id e) = Some e
    \<Longrightarrow> \<exists>cs' nxt'. chains_loop U es cs nxt = Some (cs', nxt')
      \<and> (\<forall>k. map_of cs' k = (if k \<in> ev_event_id ` set es then Some (auth_chain (map_of U) {k}) else map_of cs k))"
proof (induction es arbitrary: cs nxt)
  case (Cons e es)
  have "\<exists>nxt'. chain_loop U [e] {ev_event_id e} nxt = Some (auth_chain (map_of U) {ev_event_id e}, nxt')"
    using Cons.prems by (intro chain_loop_total [OF rank ids]) auto
  then obtain nxt1 where 1: "chain_loop U [e] {ev_event_id e} nxt = Some (auth_chain (map_of U) {ev_event_id e}, nxt1)"
    by blast
  have "\<forall>e \<in> set es. map_of U (ev_event_id e) = Some e" using Cons.prems by simp
  from Cons.IH [OF this, of "dset cs (ev_event_id e) (auth_chain (map_of U) {ev_event_id e})" nxt1] 1
  show ?case by (auto simp: image_iff)
qed simp

text \<open>What the auth chain difference is meant to be: the ids in some but not all auth chains.\<close>

definition auth_difference :: "(string \<rightharpoonup> event) \<Rightarrow> string set list \<Rightarrow> string set" where
  "auth_difference L As = (\<Union>A \<in> set As. auth_chain L A) - (\<Inter>A \<in> set As. auth_chain L A)"

text \<open>The contract of the store, for events persisted together with their auth chains.\<close>

definition store_computes_difference :: "sr_store \<Rightarrow> bool" where
  "store_computes_difference store \<longleftrightarrow> (\<forall>room_id As additional.
     st_auth_chain_difference store room_id As None additional
       = Inr (auth_difference (st_get_events store) As, None))"

text \<open>Events outside the event map do not refer to events inside it.\<close>

definition persisted_closed :: "sr_store \<Rightarrow> emap \<Rightarrow> bool" where
  "persisted_closed store em \<longleftrightarrow> (\<forall>n e. n \<notin> fst ` set em \<longrightarrow> st_get_events store n = Some e
     \<longrightarrow> set (ev_auth_event_ids e) \<inter> fst ` set em = {})"

lemma union_minus_intersection_eq:
  "As \<noteq> [] \<Longrightarrow> union_minus_intersection As = Inr (\<Union>(set As) - \<Inter>(set As))"
proof (induction As rule: union_minus_intersection.induct)
  case (2 s ss)
  have "foldl (\<union>) t ss = t \<union> \<Union>(set ss)" "foldl (\<inter>) t ss = t \<inter> \<Inter>(set ss)" for t
    by (induction ss arbitrary: t) auto
  then show ?case by simp
qed simp

lemma persisted_chain_outside:
  assumes "persisted_closed store em" and "A \<inter> fst ` set em = {}"
  shows "auth_chain (st_get_events store) A \<inter> fst ` set em = {}"
proof -
  have "auth_chain (st_get_events store) A \<subseteq> - fst ` set em"
    using assms by (intro auth_chain_least) (auto simp: persisted_closed_def auth_rel_def)
  then show ?thesis by blast
qed

text \<open>
  The auth chain of a state set splits into its part within the event map, and the persisted
  auth chain of the ids where it leaves the map.
\<close>

lemma auth_chain_split:
  assumes closed: "persisted_closed store em"
  defines "K \<equiv> fst ` set em" and "C \<equiv> auth_chain (map_of em)"
  shows "auth_chain (view store em) A = (C A \<inter> K) \<union> auth_chain (st_get_events store) (C A - K)"
proof
  let ?P = "auth_chain (st_get_events store) (C A - K)"
  have K: "map_of em n = None \<longleftrightarrow> n \<notin> K" for n unfolding K_def by (simp add: map_of_eq_None_iff)
  have rel: "(n, a) \<in> auth_rel (view store em) \<longleftrightarrow>
      (if n \<in> K then (n, a) \<in> auth_rel (map_of em) else (n, a) \<in> auth_rel (st_get_events store))" for n a
    using K [of n] by (auto simp: auth_rel_def view_def map_add_def split: option.splits)
  have out: "?P \<inter> K = {}" unfolding K_def by (rule persisted_chain_outside [OF closed]) auto
  show "auth_chain (view store em) A \<subseteq> (C A \<inter> K) \<union> ?P"
  proof (rule auth_chain_least)
    show "A \<subseteq> (C A \<inter> K) \<union> ?P"
      using auth_chain_base [of A "map_of em"] auth_chain_base [of "C A - K" "st_get_events store"]
      unfolding C_def by blast
    fix n a assume n: "n \<in> (C A \<inter> K) \<union> ?P" and na: "(n, a) \<in> auth_rel (view store em)"
    show "a \<in> (C A \<inter> K) \<union> ?P"
    proof (cases "n \<in> K")
      case True
      with n out have "n \<in> C A" by blast
      moreover have "(n, a) \<in> auth_rel (map_of em)" using na True rel by simp
      ultimately have "a \<in> C A" unfolding C_def by (rule auth_chain_closed)
      then show ?thesis using auth_chain_base [of "C A - K" "st_get_events store"] by blast
    next
      case False
      with n na rel show ?thesis by (auto intro: auth_chain_closed)
    qed
  qed
  have CA: "C A \<subseteq> auth_chain (view store em) A"
    unfolding C_def
  proof (rule auth_chain_least [OF auth_chain_base])
    fix n a assume n: "n \<in> auth_chain (view store em) A" and na: "(n, a) \<in> auth_rel (map_of em)"
    from na K [of n] have "n \<in> K" by (auto simp: auth_rel_def)
    with na rel have "(n, a) \<in> auth_rel (view store em)" by simp
    with n show "a \<in> auth_chain (view store em) A" by (rule auth_chain_closed)
  qed
  have "?P \<subseteq> auth_chain (view store em) A \<inter> - K"
  proof (rule auth_chain_least)
    show "C A - K \<subseteq> auth_chain (view store em) A \<inter> - K" using CA by blast
    fix n a assume n: "n \<in> auth_chain (view store em) A \<inter> - K" and na: "(n, a) \<in> auth_rel (st_get_events store)"
    then have "(n, a) \<in> auth_rel (view store em)" using rel by simp
    with n auth_chain_closed have "a \<in> auth_chain (view store em) A" by blast
    moreover have "a \<notin> K" using closed n na by (auto simp: persisted_closed_def auth_rel_def K_def)
    ultimately show "a \<in> auth_chain (view store em) A \<inter> - K" by blast
  qed
  with CA show "(C A \<inter> K) \<union> ?P \<subseteq> auth_chain (view store em) A" by blast
qed

definition wf_event_map :: "emap \<Rightarrow> bool" where
  "wf_event_map em \<longleftrightarrow> distinct (map fst em) \<and> ids_match (map_of em)"

lemma wf_event_map_values:
  assumes "wf_event_map em"
  shows "\<forall>e \<in> set (map snd em). map_of em (ev_event_id e) = Some e"
    and "ev_event_id ` set (map snd em) = fst ` set em"
proof -
  have m: "map_of em k = Some e" and i: "ev_event_id e = k" if "(k, e) \<in> set em" for k e
    using assms that by (auto simp: wf_event_map_def ids_match_def)
  then show "\<forall>e \<in> set (map snd em). map_of em (ev_event_id e) = Some e" by auto
  show "ev_event_id ` set (map snd em) = fst ` set em" using i by (force simp: image_iff)
qed

lemma auth_chain_UN: "auth_chain L A = (\<Union>k \<in> A. auth_chain L {k})"
  unfolding auth_chain_def by auto

lemma auth_chain_outside: "k \<notin> fst ` set em \<Longrightarrow> auth_chain (map_of em) {k} = {k}"
proof -
  assume "k \<notin> fst ` set em"
  then have "map_of em k = None" by (simp add: map_of_eq_None_iff)
  then have "auth_chain (map_of em) {k} \<subseteq> {k}" by (intro auth_chain_least) (auto simp: auth_rel_def)
  then show ?thesis using auth_chain_base by blast
qed

lemma chains_ids:
  assumes "\<And>k. map_of cs k = (if k \<in> fst ` set em then Some (auth_chain (map_of em) {k}) else None)"
  shows "unpersisted_ids em cs s = auth_chain (map_of em) (set (map snd s)) \<inter> fst ` set em"
    and "persisted_ids em cs s = auth_chain (map_of em) (set (map snd s)) - fst ` set em"
proof -
  have split: "auth_chain (map_of em) (set (map snd s)) = (\<Union>(_, k) \<in> set s. auth_chain (map_of em) {k})"
    by (subst auth_chain_UN) auto
  have "(case dget cs k of Some chain \<Rightarrow> Set.filter (dhas em) chain | None \<Rightarrow> {})
      = auth_chain (map_of em) {k} \<inter> fst ` set em"
    and "(case dget cs k of Some chain \<Rightarrow> Set.filter (\<lambda>e. \<not> dhas em e) chain | None \<Rightarrow> {k})
      = auth_chain (map_of em) {k} - fst ` set em" for k
    using auth_chain_outside [of k em] by (auto simp: dget_def assms dhas_iff)
  then show "unpersisted_ids em cs s = auth_chain (map_of em) (set (map snd s)) \<inter> fst ` set em"
    and "persisted_ids em cs s = auth_chain (map_of em) (set (map snd s)) - fst ` set em"
    unfolding unpersisted_ids_def persisted_ids_def split by (auto split: prod.splits)
qed

lemma auth_difference_split:
  assumes "persisted_closed store em" and "As \<noteq> []"
  defines "K \<equiv> fst ` set em" and "C \<equiv> auth_chain (map_of em)"
  shows "auth_difference (view store em) As =
    auth_difference (st_get_events store) (map (\<lambda>A. C A - K) As)
    \<union> (\<Union>(set (map (\<lambda>A. C A \<inter> K) As)) - \<Inter>(set (map (\<lambda>A. C A \<inter> K) As)))"
proof -
  have "auth_chain (st_get_events store) (C A - K) \<inter> K = {}" for A
    unfolding K_def by (rule persisted_chain_outside [OF assms(1)]) auto
  then show ?thesis
    unfolding auth_difference_def auth_chain_split [OF assms(1), folded K_def C_def]
    using assms(2) by (cases As) (simp, auto)
qed

text \<open>
  C8: the auth chain difference. When the store computes the difference of persisted auth chains,
  the function returns exactly the ids that are in the auth chains of some of the state sets but
  not of all of them, auth chains being taken over the events of the map and of the store together;
  the search through the events of the map ends because auth events form no cycle.
\<close>

theorem auth_chain_difference_correct:
  assumes "wf_event_map em" and "auth_ranked (map_of em) rank" and "store_computes_difference store"
    and "persisted_closed store em" and "state_sets \<noteq> []"
  shows "get_auth_chain_difference it room_id state_sets em store None
    = Some (Inr (auth_difference (view store em) (map (\<lambda>s. set (map snd s)) state_sets)))"
proof -
  let ?ids = "map (\<lambda>s. set (map snd s)) state_sets" and ?K = "fst ` set em" and ?C = "auth_chain (map_of em)"
  have ids: "ids_match (map_of em)" using assms(1) by (simp add: wf_event_map_def)
  from chains_loop_total [OF assms(2) ids wf_event_map_values(1) [OF assms(1)], of "[]" "{}"]
  obtain cs nxt where cs: "chains_loop em (map snd em) [] {} = Some (cs, nxt)"
    "\<And>k. map_of cs k = (if k \<in> ?K then Some (?C {k}) else None)"
    by (auto simp: wf_event_map_values(2) [OF assms(1), simplified])
  note split = auth_difference_split [OF assms(4), of ?ids]
  show ?thesis
  proof (cases "em = []")
    case True
    then have "view store em = st_get_events store" by (simp add: view_def)
    then show ?thesis
      using True assms(3) by (simp add: get_auth_chain_difference_def store_computes_difference_def store_difference_def)
  next
    case False
    have "persisted_ids em cs = (\<lambda>s. ?C (set (map snd s)) - ?K)"
      and "unpersisted_ids em cs = (\<lambda>s. ?C (set (map snd s)) \<inter> ?K)"
      using chains_ids [OF cs(2)] by blast+
    then show ?thesis
      using cs(1) assms(3,5) split False
      by (simp add: get_auth_chain_difference_def store_computes_difference_def store_difference_def
          union_minus_intersection_eq o_def)
  qed
qed

section \<open>Independence from the iteration order of sets\<close>

definition finite_store :: "sr_store \<Rightarrow> bool" where
  "finite_store store \<longleftrightarrow> (\<forall>room_id As c additional d sg.
     st_auth_chain_difference store room_id As c additional = Inr (d, sg)
     \<longrightarrow> finite d \<and> (\<forall>s \<in> set_option sg. finite s))"

lemma forwards_loop_order:
  assumes "wf_event_map em" and "auth_ranked (map_of em) rank"
    and "set_order it" and "set_order it'" and "nxt \<subseteq> auth_links (snd ` set em)" and "finite Q"
  shows "forwards_loop it nxt Q {} = forwards_loop it' nxt Q {}"
    and "\<exists>R. forwards_loop it nxt Q {} = Some R"
proof -
  let ?N = "Max (rank ` fst ` set em)"
  have "finite (auth_links (snd ` set em))" by (auto simp: auth_links_def)
  then have fin: "finite nxt" using assms(5) finite_subset by blast
  have "rank a < rank n \<and> rank n \<le> ?N" if "(a, n) \<in> nxt" for a n
  proof -
    from that assms(5) have "(a, n) \<in> auth_links (snd ` set em)" by blast
    then obtain e where e: "e \<in> set (map snd em)" "a \<in> set (ev_auth_event_ids e)" "n = ev_event_id e"
      by (auto simp: auth_links_def)
    with wf_event_map_values(1) [OF assms(1)] have "map_of em n = Some e" by blast
    moreover from this have "n \<in> fst ` set em" by (metis domI dom_map_of_conv_image_fst)
    ultimately show ?thesis using assms(2) e(2) by (auto simp: auth_ranked_def)
  qed
  with forwards_loop_total [OF assms(3) fin _ assms(6), of rank ?N "{}"]
    forwards_loop_total [OF assms(4) fin _ assms(6), of rank ?N "{}"]
  show "forwards_loop it nxt Q {} = forwards_loop it' nxt Q {}" "\<exists>R. forwards_loop it nxt Q {} = Some R"
    by simp_all
qed

lemma finite_chain:
  assumes "\<forall>c \<in> ran (map_of cs). finite c"
  shows "finite (case dget cs k of Some chain \<Rightarrow> Set.filter P chain | None \<Rightarrow> {})"
  using assms by (auto simp: dget_def ran_def split: option.splits)

text \<open>The auth chain difference always ends, and does not depend on the iteration order.\<close>

lemma difference_order:
  assumes wf: "wf_event_map em" and rank: "auth_ranked (map_of em) rank"
    and it: "set_order it" "set_order it'"
  shows "get_auth_chain_difference it room_id ss em store c = get_auth_chain_difference it' room_id ss em store c"
    and "\<exists>r. get_auth_chain_difference it room_id ss em store c = Some r"
proof -
  have ids: "ids_match (map_of em)" using wf by (simp add: wf_event_map_def)
  from chains_loop_total [OF rank ids wf_event_map_values(1) [OF wf], of "[]" "{}"]
  obtain cs nxt where cs: "chains_loop em (map snd em) [] {} = Some (cs, nxt)" by blast
  from chains_loop_facts [OF this] have fin: "\<forall>c \<in> ran (map_of cs). finite c"
    and nxt: "nxt \<subseteq> auth_links (snd ` set em)" by auto
  have fin_unp: "finite (unpersisted_conflicted_of cs c)" for c
    by (rule finite_subset [of _ "fst ` set cs"])
      (auto simp: dhas_iff unpersisted_conflicted_of_def split: option.splits)
  have q: "finite (B \<inter> additional_of em cs C \<union> unpersisted_conflicted_of cs c)" if "finite C" for B C c
    using that fin_unp finite_chain [OF fin] by (auto simp: additional_of_def)
  note q = q [OF fin_unp]
  have ext: "\<exists>r. extend_subgraph it cs nxt c' (unpersisted_conflicted_of cs c)
      (additional_of em cs (unpersisted_conflicted_of cs c)) sg = Some r" for c' c sg
    using forwards_loop_order(2) [OF wf rank it nxt q]
    by (auto simp: extend_subgraph_def Let_def split: option.splits)
  show "get_auth_chain_difference it room_id ss em store c = get_auth_chain_difference it' room_id ss em store c"
    unfolding get_auth_chain_difference_def cs option.case prod.case Let_def extend_subgraph_def
      forwards_loop_order(1) [OF wf rank it nxt q] ..
  show "\<exists>r. get_auth_chain_difference it room_id ss em store c = Some r"
    unfolding get_auth_chain_difference_def cs option.case prod.case Let_def
    using ext by (auto split: sum.splits option.splits)
qed

lemma store_difference_finite:
  assumes "finite_store store" and "\<forall>c \<in> ran (map_of cs). finite c" and "ss \<noteq> []"
    and "store_difference room_id ss em store cs c add = Inr (diff, sg)"
  shows "finite diff \<and> (\<forall>s \<in> set_option sg. finite s)"
proof -
  have "finite (unpersisted_ids em cs s)" for s
    using finite_chain [OF assms(2)] by (auto simp only: unpersisted_ids_def intro!: finite_UN_I)
  then have "finite (\<Union>(set (map (unpersisted_ids em cs) ss)) - X)" for X by auto
  with assms(1,3,4) show ?thesis
    by (auto simp: store_difference_def finite_store_def union_minus_intersection_eq res_simps
        split: if_splits)
qed

lemma extend_subgraph_finite:
  assumes "extend_subgraph it cs nxt c unp add sg = Some r" and "\<forall>c \<in> ran (map_of cs). finite c"
    and "finite sg" and "\<forall>A \<in> set_option c. finite A" and "finite unp"
  shows "finite r"
proof -
  have "finite (case dget cs k of Some chain \<Rightarrow> chain | None \<Rightarrow> {})" for k
    using assms(2) by (auto simp: dget_def ran_def split: option.splits)
  then have "finite ((\<Union>k \<in> unp. case dget cs k of Some chain \<Rightarrow> chain | None \<Rightarrow> {}) \<inter> X)" for X
    using assms(5) by auto
  then show ?thesis
    using assms(1,3,4) by (auto simp: extend_subgraph_def Let_def split: option.splits)
qed

lemma difference_finite:
  assumes wf: "wf_event_map em" and rank: "auth_ranked (map_of em) rank" and st: "finite_store store"
    and c: "\<forall>A \<in> set_option c. finite A" and ss: "ss \<noteq> []"
    and d: "get_auth_chain_difference it room_id ss em store c = Some (Inr d)"
  shows "finite d"
proof -
  have ids: "ids_match (map_of em)" using wf by (simp add: wf_event_map_def)
  from chains_loop_total [OF rank ids wf_event_map_values(1) [OF wf], of "[]" "{}"]
  obtain cs nxt where cs: "chains_loop em (map snd em) [] {} = Some (cs, nxt)" by blast
  from chains_loop_facts [OF this] have fin: "\<forall>c \<in> ran (map_of cs). finite c" by auto
  let ?unp = "unpersisted_conflicted_of cs c" and ?c = "map_option (\<lambda>A. A - unpersisted_conflicted_of cs c) c"
  let ?sd = "store_difference room_id ss em store cs ?c (additional_of em cs ?unp)"
  have unp: "finite ?unp" using c by (auto simp: unpersisted_conflicted_of_def split: option.splits)
  have c': "\<forall>A \<in> set_option ?c. finite A" using c by (auto simp: option.set_map)
  show ?thesis
  proof (cases ?sd)
    case (Inl e)
    then show ?thesis using d by (simp add: get_auth_chain_difference_def cs Let_def)
  next
    case (Inr p)
    then obtain diff sg where sd: "?sd = Inr (diff, sg)" by (cases p) simp
    from store_difference_finite [OF st fin ss sd] have "finite diff" "\<forall>s \<in> set_option sg. finite s" by auto
    with sd d extend_subgraph_finite [OF _ fin _ c' unp] show ?thesis
      by (auto simp: get_auth_chain_difference_def cs Let_def split: option.splits if_splits)
  qed
qed

end
