(* ===== verification/State_V2_Keyed.thy ===== *)
theory State_V2_Keyed
  imports State_V2_Order
begin

text \<open>
  The iteration order of a set of state keys does not show in state resolution either: the split of
  the state is the same for every order, and so is the outcome of an auth check, because the events
  it loads for the keys of an event belong to these keys.
\<close>

section \<open>Conflicted and unconflicted state\<close>

lemma remdups_single: "remdups xs = [y] \<longleftrightarrow> set xs = {y}"
proof
  assume s: "set xs = {y}"
  then have "length (remdups xs) = 1" by (simp add: length_remdups_card_conv)
  then obtain z where z: "remdups xs = [z]" by (auto simp: length_Suc_conv)
  then have "set xs = {z}" by (metis empty_set list.simps(15) set_remdups)
  with s z show "remdups xs = [y]" by simp
qed (metis empty_set list.simps(15) set_remdups)

lemma map_of_map_filter:
  assumes "\<And>k p. f k = Some p \<Longrightarrow> fst p = k"
  shows "map_of (List.map_filter f ks) k = (if k \<in> set ks then map_option snd (f k) else None)"
  using assms by (induction ks) (auto simp: map_filter_simps split: option.splits)

lemma state_keys_iff: "k \<in> state_keys ss \<longleftrightarrow> (\<exists>s \<in> set ss. dget s k \<noteq> None)"
  by (force simp: state_keys_def dget_def map_of_eq_None_iff image_iff)

lemma state_keys_finite: "finite (state_keys ss)"
  by (simp add: state_keys_def)

lemma event_ids_at_set: "set (event_ids_at ss k) = (\<lambda>s. dget s k) ` set ss"
  by (simp add: event_ids_at_def)

lemma map_of_unconflicted:
  assumes "set_order itk"
  shows "map_of (fst (seperate itk ss)) k = Some e \<longleftrightarrow> (\<lambda>s. dget s k) ` set ss = {Some e}"
proof -
  note itk = set_orderD(1) [OF assms state_keys_finite, of ss]
  have "map_of (fst (seperate itk ss)) k = (if k \<in> state_keys ss then
      map_option snd (case event_ids_at ss k of [Some e] \<Rightarrow> Some (k, e) | _ \<Rightarrow> None) else None)"
    unfolding seperate_def fst_conv by (subst map_of_map_filter) (auto simp: itk split: list.splits option.splits)
  also have "\<dots> = Some e \<longleftrightarrow> k \<in> state_keys ss \<and> event_ids_at ss k = [Some e]"
    by (auto split: list.splits option.splits)
  also have "event_ids_at ss k = [Some e] \<longleftrightarrow> (\<lambda>s. dget s k) ` set ss = {Some e}"
    by (simp add: event_ids_at_def remdups_single)
  finally show ?thesis by (force simp: state_keys_iff)
qed

lemma map_of_conflicted:
  assumes "set_order itk"
  shows "map_of (snd (seperate itk ss)) k = Some ids \<longleftrightarrow>
     (\<exists>s \<in> set ss. \<exists>s' \<in> set ss. dget s k \<noteq> dget s' k) \<and> ids = {e. \<exists>s \<in> set ss. dget s k = Some e}"
proof -
  note itk = set_orderD(1) [OF assms state_keys_finite, of ss]
  have len: "length (event_ids_at ss k) = 1 \<longleftrightarrow> (\<exists>y. (\<lambda>s. dget s k) ` set ss = {y})"
    using remdups_single [of "map (\<lambda>s. dget s k) ss"]
    by (auto simp: event_ids_at_def length_Suc_conv)
  have ids: "set (List.map_filter id (event_ids_at ss k)) = {e. \<exists>s \<in> set ss. dget s k = Some e}"
    by (force simp: map_filter_def event_ids_at_set)
  have "map_of (snd (seperate itk ss)) k = (if k \<in> state_keys ss then
      map_option snd (if length (event_ids_at ss k) = 1 then None
        else Some (k, set (List.map_filter id (event_ids_at ss k)))) else None)"
    unfolding seperate_def snd_conv by (subst map_of_map_filter) (auto simp: itk split: if_splits)
  also have "\<dots> = Some ids \<longleftrightarrow> (k \<in> state_keys ss \<and> length (event_ids_at ss k) \<noteq> 1)
      \<and> ids = {e. \<exists>s \<in> set ss. dget s k = Some e}"
    unfolding ids by auto
  also have "k \<in> state_keys ss \<and> length (event_ids_at ss k) \<noteq> 1
      \<longleftrightarrow> (\<exists>s \<in> set ss. \<exists>s' \<in> set ss. dget s k \<noteq> dget s' k)"
    unfolding len state_keys_iff
  proof
    assume k: "(\<exists>s \<in> set ss. dget s k \<noteq> None) \<and> (\<nexists>y. (\<lambda>s. dget s k) ` set ss = {y})"
    then obtain s where "s \<in> set ss" by blast
    with k have "(\<lambda>s. dget s k) ` set ss \<noteq> {dget s k}" by blast
    with \<open>s \<in> set ss\<close> show "\<exists>s \<in> set ss. \<exists>s' \<in> set ss. dget s k \<noteq> dget s' k" by blast
  next
    assume "\<exists>s \<in> set ss. \<exists>s' \<in> set ss. dget s k \<noteq> dget s' k"
    then obtain s s' where "s \<in> set ss" "s' \<in> set ss" "dget s k \<noteq> dget s' k" by blast
    then show "(\<exists>s \<in> set ss. dget s k \<noteq> None) \<and> (\<nexists>y. (\<lambda>s. dget s k) ` set ss = {y})"
      by (metis (mono_tags, lifting) image_eqI singletonD)
  qed
  finally show ?thesis by blast
qed

text \<open>The split is the same for every order of the keys, as a map and as a set of events.\<close>

lemma map_option_ext: "(\<And>v. m = Some v \<longleftrightarrow> m' = Some v) \<Longrightarrow> m = m'"
  by (cases m; cases m') auto

lemma seperate_same:
  assumes "set_order itk" and "set_order itk'"
  shows "map_of (fst (seperate itk ss)) = map_of (fst (seperate itk' ss))"
    and "set (snd (seperate itk ss)) = set (snd (seperate itk' ss))"
proof -
  show "map_of (fst (seperate itk ss)) = map_of (fst (seperate itk' ss))"
    by (rule ext, rule map_option_ext) (simp only: map_of_unconflicted [OF assms(1)] map_of_unconflicted [OF assms(2)])
  show "set (snd (seperate itk ss)) = set (snd (seperate itk' ss))"
    using set_orderD(1) [OF assms(1) state_keys_finite, of ss] set_orderD(1) [OF assms(2) state_keys_finite, of ss]
    by (auto simp: seperate_def map_filter_def)
qed

section \<open>Auth events under their keys\<close>

lemma map_of_rev: "distinct (map fst e) \<Longrightarrow> map_of (rev e) = map_of e"
  by (rule map_of_eqI) (auto simp: rev_map [symmetric] intro: map_of_is_SomeI dest: map_of_SomeD)

text \<open>An auth dictionary whose entries are stored under their own keys.\<close>

definition keyed :: "(state_key \<times> event) list \<Rightarrow> bool" where
  "keyed a \<longleftrightarrow> distinct (map fst a) \<and> (\<forall>(k, e) \<in> set a. key_of e = Inr k)"

lemma auth_dict_of_keyed:
  assumes "keyed a"
  shows "auth_dict_of (map snd a) = Inr (map_of a)"
proof -
  have "foldM_res (\<lambda>e m. rbind (state_key_of e) (\<lambda>sk. Inr (m((ev_type e, sk) \<mapsto> e)))) (map snd a) m
      = Inr (m ++ map_of (rev a))" for m
    using assms
  proof (induction a arbitrary: m)
    case (Cons ke a)
    obtain k e where ke: "ke = (k, e)" by fastforce
    from Cons.prems obtain sk where "state_key_of e = Inr sk" "k = (ev_type e, sk)"
      by (auto simp: ke keyed_def key_of_def rbind_Inr_iff)
    moreover have "keyed a" using Cons.prems by (auto simp: keyed_def)
    ultimately show ?case using Cons.IH [of "m(k \<mapsto> e)"] by (simp add: ke) (simp add: fun_upd_def)
  qed simp
  moreover have "map_of (rev a) = map_of a" using assms by (intro map_of_rev) (simp add: keyed_def)
  ultimately show ?thesis by (simp add: auth_dict_of_def)
qed

lemma check_keyed:
  assumes "keyed a" and "keyed a'" and "map_of a = map_of a'"
  shows "check_state_dependent_auth_rules x e (map snd a) = check_state_dependent_auth_rules x e (map snd a')"
  using assms by (simp add: check_state_dependent_auth_rules_def auth_dict_of_keyed)

lemma keyed_iff: "keyed a \<longleftrightarrow> distinct (map fst a) \<and> (\<forall>k e. map_of a k = Some e \<longrightarrow> key_of e = Inr k)"
  by (auto simp: keyed_def)

lemma keyed_Nil: "keyed []"
  by (simp add: keyed_def)

lemma keyed_dset: "keyed a \<Longrightarrow> key_of e = Inr k \<Longrightarrow> keyed (dset a k e)"
  by (simp add: keyed_iff)

text \<open>A state whose events belong to their keys.\<close>

definition keyed_state :: "(string \<rightharpoonup> event) \<Rightarrow> (state_key \<rightharpoonup> string) \<Rightarrow> bool" where
  "keyed_state L rs \<longleftrightarrow> (\<forall>k eid e. rs k = Some eid \<longrightarrow> L eid = Some e \<longrightarrow> key_of e = Inr k)"

text \<open>What a key adds to the auth events: the unrejected event that the state has for it.\<close>

definition key_event :: "(string \<rightharpoonup> event) \<Rightarrow> (state_key \<rightharpoonup> string) \<Rightarrow> state_key \<Rightarrow> event option" where
  "key_event L rs k = (case rs k of None \<Rightarrow> None | Some eid \<Rightarrow>
     if ev_rejected_reason (the (L eid)) = None then Some (the (L eid)) else None)"

definition key_loads :: "string \<Rightarrow> (string \<rightharpoonup> event) \<Rightarrow> (state_key \<rightharpoonup> string) \<Rightarrow> state_key \<Rightarrow> bool" where
  "key_loads room_id L rs k \<longleftrightarrow> (\<forall>eid. rs k = Some eid \<longrightarrow> (\<exists>e. L eid = Some e \<and> ev_room_id e = room_id))"

definition add_key_event ::
  "(string \<rightharpoonup> event) \<Rightarrow> (state_key \<rightharpoonup> string) \<Rightarrow> state_key \<Rightarrow> (state_key \<times> event) list \<Rightarrow> (state_key \<times> event) list" where
  "add_key_event L rs k d = (case key_event L rs k of None \<Rightarrow> d | Some e \<Rightarrow> dset d k e)"

lemma load_resolved_event_shows:
  assumes em: "shows_events store L S em"
  shows "if key_loads room_id L rs k
    then \<exists>em'. load_resolved_event room_id store rs k d em = Some (Inr (add_key_event L rs k d, em'))
           \<and> shows_events store L S em'
    else \<exists>e. load_resolved_event room_id store rs k d em = Some (Inl e)"
proof (cases "rs k")
  case None
  then show ?thesis using em
    by (simp add: load_resolved_event_def key_loads_def add_key_event_def key_event_def sret_def)
next
  case (Some eid)
  note get = get_event_shows [OF em, of room_id eid]
  show ?thesis
  proof (cases "key_loads room_id L rs k")
    case True
    then obtain e where e: "L eid = Some e" "ev_room_id e = room_id" using Some by (auto simp: key_loads_def)
    with get obtain em' where em': "get_event room_id store eid em = Some (Inr (e, em'))"
      "shows_events store L (insert eid S) em'" by auto
    have "event_map_index eid em' = Some (Inr (e, em'))" using event_map_index_shows [OF em'(2), of eid] e by auto
    then show ?thesis using True Some em'(1) e shows_events_weaken [OF em'(2), of S]
      by (auto simp: load_resolved_event_def add_key_event_def key_event_def sbind_def sret_def)
  next
    case False
    then have "\<exists>err. get_event room_id store eid em = Some (Inl err)"
      using Some get by (auto simp: key_loads_def split: option.splits if_splits)
    then show ?thesis using False Some by (auto simp: load_resolved_event_def sbind_def)
  qed
qed

lemma load_resolved_events_shows:
  assumes "shows_events store L S em"
  shows "if \<forall>k \<in> set ks. key_loads room_id L rs k
    then \<exists>em'. sfoldM (load_resolved_event room_id store rs) ks d em
           = Some (Inr (fold (add_key_event L rs) ks d, em')) \<and> shows_events store L S em'
    else \<exists>e. sfoldM (load_resolved_event room_id store rs) ks d em = Some (Inl e)"
  using assms
proof (induction ks arbitrary: d em)
  case (Cons k ks)
  note step = load_resolved_event_shows [OF Cons.prems, of room_id rs k d]
  show ?case
  proof (cases "key_loads room_id L rs k")
    case True
    then obtain em1 where em1: "load_resolved_event room_id store rs k d em = Some (Inr (add_key_event L rs k d, em1))"
      "shows_events store L S em1" using step by auto
    show ?thesis using Cons.IH [OF em1(2), of "add_key_event L rs k d"] True em1(1) by (simp add: sbind_def)
  next
    case False
    then show ?thesis using step by (auto simp: sbind_def)
  qed
qed (simp add: sret_def)

lemma map_of_add_key_events:
  "map_of (fold (add_key_event L rs) ks d) k
     = (if k \<in> set ks \<and> key_event L rs k \<noteq> None then key_event L rs k else map_of d k)"
  by (induction ks arbitrary: d) (auto simp: add_key_event_def split: option.splits)

lemma keyed_add_key_events:
  assumes "keyed d" and "keyed_state L rs" and "\<forall>k \<in> set ks. key_loads room_id L rs k"
  shows "keyed (fold (add_key_event L rs) ks d)"
  using assms(1,3)
proof (induction ks arbitrary: d)
  case (Cons k ks)
  have "keyed (add_key_event L rs k d)"
  proof (cases "key_event L rs k")
    case (Some e)
    then obtain eid where eid: "rs k = Some eid" "e = the (L eid)"
      by (auto simp: key_event_def split: option.splits if_splits)
    moreover have "key_loads room_id L rs k" using Cons.prems(2) by simp
    ultimately have "L eid = Some e" unfolding key_loads_def by fastforce
    then have "key_of e = Inr k" using assms(2) eid(1) unfolding keyed_state_def by blast
    then show ?thesis using keyed_dset [OF Cons.prems(1)] by (simp add: add_key_event_def Some)
  qed (simp add: add_key_event_def Cons.prems(1))
  then show ?case using Cons by simp
qed simp

lemma load_resolved_agree:
  assumes "keyed d" and "keyed_state L rs" and "set ks = set ks'"
  shows "agree store L S (\<lambda>d d'. keyed d \<and> keyed d' \<and> map_of d = map_of d')
    (sfoldM (load_resolved_event room_id store rs) ks d) (sfoldM (load_resolved_event room_id store rs) ks' d)"
proof -
  have "shows_events store L S em1 \<and>
      (\<exists>b em1'. sfoldM (load_resolved_event room_id store rs) ks' d em' = Some (Inr (b, em1'))
        \<and> (keyed a \<and> keyed b \<and> map_of a = map_of b) \<and> shows_events store L S em1')"
    if em: "shows_events store L S em" "shows_events store L S em'"
      and a: "sfoldM (load_resolved_event room_id store rs) ks d em = Some (Inr (a, em1))" for em em' a em1
  proof -
    have loads: "\<forall>k \<in> set ks. key_loads room_id L rs k"
      using load_resolved_events_shows [OF em(1), of ks room_id rs d] a by (auto split: if_splits)
    then have loads': "\<forall>k \<in> set ks'. key_loads room_id L rs k" by (simp add: assms(3))
    have "a = fold (add_key_event L rs) ks d" "shows_events store L S em1"
      using load_resolved_events_shows [OF em(1), of ks room_id rs d] a loads by auto
    moreover obtain em1' where
      "sfoldM (load_resolved_event room_id store rs) ks' d em' = Some (Inr (fold (add_key_event L rs) ks' d, em1'))"
      "shows_events store L S em1'"
      using load_resolved_events_shows [OF em(2), of ks' room_id rs d] loads' by auto
    moreover have "map_of (fold (add_key_event L rs) ks d) = map_of (fold (add_key_event L rs) ks' d)"
      by (rule ext) (simp only: map_of_add_key_events assms(3))
    ultimately show ?thesis
      using keyed_add_key_events [OF assms(1,2) loads] keyed_add_key_events [OF assms(1,2) loads'] by simp
  qed
  then show ?thesis unfolding agree_def by blast
qed

section \<open>The auth checks\<close>

lemma agree_sfoldM:
  assumes "\<And>y s s'. y \<in> set xs \<Longrightarrow> Q s s' \<Longrightarrow> agree store L S Q (f y s) (g y s')" and "Q s s'"
  shows "agree store L S Q (sfoldM f xs s) (sfoldM g xs s')"
  using assms
proof (induction xs arbitrary: s s')
  case (Cons y ys)
  have "agree store L S Q (f y s) (g y s')" using Cons.prems by simp
  moreover have "agree store L S Q (sfoldM f ys t) (sfoldM g ys t')" if "Q t t'" for t t'
    by (rule Cons.IH [OF _ that]) (use Cons.prems(1) in simp)
  ultimately show ?case by (simp add: agree_sbind)
qed (simp add: agree_sret)

lemma load_auth_event_keyed:
  assumes "load_auth_event room_id store aid d em = Some (Inr (d', em'))" and "keyed d"
  shows "keyed d'"
  using assms by (auto simp: load_auth_event_def sbind_def sres_def sret_def sraise_def keyed_dset
      split: option.splits sum.splits if_splits)

lemma load_auth_events_keyed:
  assumes "sfoldM (load_auth_event room_id store) aids d em = Some (Inr (d', em'))" and "keyed d"
  shows "keyed d'"
  using assms
proof (induction aids arbitrary: d em)
  case (Cons aid aids)
  then obtain d1 em1 where "load_auth_event room_id store aid d em = Some (Inr (d1, em1))"
    "sfoldM (load_auth_event room_id store) aids d1 em1 = Some (Inr (d', em'))"
    by (auto simp: sbind_def split: option.splits sum.splits)
  with Cons.IH load_auth_event_keyed Cons.prems(2) show ?case by blast
qed (simp add: sret_def)

text \<open>The last step of an auth check, on auth events in any order.\<close>

lemma admit_agree:
  assumes "keyed d" and "keyed d'" and "map_of d = map_of d'" and "keyed_state L rs" and "L eid = Some e"
  shows "agree store L S (\<lambda>a a'. a = a' \<and> keyed_state L a)
    (if ev_rejected_reason e \<noteq> None then sret rs
     else (case check_state_dependent_auth_rules x e (map snd d) of
         Inr _ \<Rightarrow> sbind (sres (key_of e)) (\<lambda>k. sret (rs(k \<mapsto> eid)))
       | Inl err \<Rightarrow> if is_auth_error err then sret rs else sraise err))
    (if ev_rejected_reason e \<noteq> None then sret rs
     else (case check_state_dependent_auth_rules x e (map snd d') of
         Inr _ \<Rightarrow> sbind (sres (key_of e)) (\<lambda>k. sret (rs(k \<mapsto> eid)))
       | Inl err \<Rightarrow> if is_auth_error err then sret rs else sraise err))"
proof -
  have "keyed_state L (rs(k \<mapsto> eid))" if "key_of e = Inr k" for k
    using assms(4,5) that by (auto simp: keyed_state_def)
  then show ?thesis
    unfolding check_keyed [OF assms(1-3)] using assms(4)
    by (auto simp: agree_def sbind_def sres_def sret_def sraise_def split: sum.splits)
qed

lemma auth_check_step_agree:
  assumes itk: "set_order itk" "set_order itk'" and eid: "eid \<in> S" and rs: "keyed_state L rs"
  shows "agree store L S (\<lambda>a a'. a = a' \<and> keyed_state L a)
    (auth_check_step x itk room_id rv store eid rs) (auth_check_step x itk' room_id rv store eid rs)"
proof -
  have ev: "agree store L S (\<lambda>e e'. e = e' \<and> L eid = Some e) (event_map_index eid) (event_map_index eid)"
    by (rule agree_conj [OF agree_transfers [OF transfers_event_map_index [OF eid]]])
      (use event_map_index_shows [OF _ eid] in fastforce)
  have auth: "agree store L S (\<lambda>d d'. d = d' \<and> keyed d) (sfoldM (load_auth_event room_id store) aids [])
      (sfoldM (load_auth_event room_id store) aids [])" for aids
    by (rule agree_conj [OF agree_transfers [OF transfers_sfoldM]])
      (auto intro: transfer_rules load_auth_events_keyed [OF _ keyed_Nil])
  have keys: "agree store L S (=) (sres (auth_types_for_event rv e)) (sres (auth_types_for_event rv e))" for e
    by (rule agree_transfers) (rule transfer_rules)
  have order: "set (itk (set ks)) = set (itk' (set ks))" for ks using set_orderD(1) [OF itk(1)] set_orderD(1) [OF itk(2)] by simp
  show ?thesis
    unfolding auth_check_step_def
    apply (rule agree_sbind [OF ev], elim conjE, hypsubst)
    apply (rule agree_sbind [OF auth], elim conjE, hypsubst)
    apply (rule agree_sbind [OF keys], hypsubst)
    apply (rule agree_sbind [OF load_resolved_agree [OF _ rs order]], assumption)
    apply (elim conjE)
    apply (rule admit_agree [OF _ _ _ rs], assumption+)
    done
qed

lemma iterative_auth_checks_agree:
  assumes "set_order itk" and "set_order itk'" and "set eids \<subseteq> S" and "keyed_state L rs"
  shows "agree store L S (\<lambda>a a'. a = a' \<and> keyed_state L a)
    (iterative_auth_checks x itk room_id rv store eids rs) (iterative_auth_checks x itk' room_id rv store eids rs)"
  unfolding iterative_auth_checks_def
proof (rule agree_sfoldM)
  fix y s s' assume "y \<in> set eids" and "s = s' \<and> keyed_state L s"
  then show "agree store L S (\<lambda>a a'. a = a' \<and> keyed_state L a)
      (auth_check_step x itk room_id rv store y s) (auth_check_step x itk' room_id rv store y s')"
    using auth_check_step_agree [OF assms(1,2)] assms(3) by blast
qed (use assms(4) in simp)

section \<open>The whole resolution\<close>

lemma resolve_conflicts_agree:
  assumes it: "set_order it" "set_order it'" and itk: "set_order itk" "set_order itk'"
    and fin: "finite F" and rank: "auth_ranked L rank"
    and room: "\<And>n. n \<in> F \<Longrightarrow> \<exists>e. L n = Some e \<and> ev_room_id e = room_id"
    and unc: "map_of unc = map_of unc'" "keyed_state L (map_of unc)"
  shows "agree store L F (=) (resolve_conflicts x it itk room_id rv store unc F)
     (resolve_conflicts x it' itk' room_id rv store unc' F)"
  unfolding resolve_conflicts_def unc(1) [symmetric]
proof (rule agree_sbind [OF power_events_agree])
  note it_F = set_orderD [OF it(1) fin] set_orderD [OF it(2) fin]
  show "set (it F) = set (it' F)" "set (it F) \<subseteq> F" using it_F by auto
  let ?left = "\<lambda>it sp. filter (\<lambda>eid. eid \<notin> set sp) (it F)"
  let ?iter = "\<lambda>itk. iterative_auth_checks x itk room_id rv store"
  let ?base = "if state_res rv = SR_V2_1 then Map.empty else map_of unc"
  fix ps ps' assume ps: "set ps = set ps' \<and> set ps \<subseteq> set (it F)"
  then have psF: "set ps \<subseteq> F" using it_F by blast
  have left: "mset (?left it sp) = mset (?left it' sp)" for sp
    using it_F by (intro set_eq_iff_mset_eq_distinct [THEN iffD1]) auto
  have base: "keyed_state L ?base" using unc(2) by (simp add: keyed_state_def)
  note iter = iterative_auth_checks_agree [OF itk]
  have sort: "agree store L F (\<lambda>sp sp'. sp = sp' \<and> set sp \<subseteq> F) (reverse_topological_power_sort room_id store F ps)
     (reverse_topological_power_sort room_id store F ps')"
    using power_sort_success [OF rank fin room psF] auth_closure_subset [OF psF] ps psF
    by (intro agree_conj power_sort_agree [OF rank room]) auto
  have ml: "agree store L F (\<lambda>ml ml'. ml = ml' \<and> set ml \<subseteq> F) (mainline_sort room_id store (?left it sp) pl)
      (mainline_sort room_id store (?left it' sp) pl)" for sp pl
    using left it_F by (intro agree_conj mainline_sort_agree) (auto dest: set_mainline_sort)
  show "agree store L F (=)
      (sbind (reverse_topological_power_sort room_id store F ps) (\<lambda>sp. sbind (?iter itk sp ?base) (\<lambda>rs.
        sbind (mainline_sort room_id store (?left it sp) (rs POWER_KEY)) (\<lambda>ml.
        sbind (?iter itk ml rs) (\<lambda>rs. sret (rs ++ map_of unc))))))
      (sbind (reverse_topological_power_sort room_id store F ps') (\<lambda>sp. sbind (?iter itk' sp ?base) (\<lambda>rs.
        sbind (mainline_sort room_id store (?left it' sp) (rs POWER_KEY)) (\<lambda>ml.
        sbind (?iter itk' ml rs) (\<lambda>rs. sret (rs ++ map_of unc))))))"
    apply (rule agree_sbind [OF sort], elim conjE, hypsubst)
    apply (rule agree_sbind [OF iter [OF _ base]], assumption, elim conjE, hypsubst)
    apply (rule agree_sbind [OF ml], elim conjE, hypsubst)
    apply (rule agree_sbind [OF iter], assumption+, elim conjE, hypsubst)
    apply (rule agree_sret, rule refl)
    done
qed

end
