(* ===== verification/State_V2_Props.thy ===== *)
theory State_V2_Props
  imports State_V2_Diff State_V2_Keyed
begin

text \<open>
  Correctness of state resolution v2 as a whole: what \<open>_seperate\<close> computes, which events can enter
  the resolved state, that the mainline sort is a permutation in the specified order, and that the
  result does not depend on the iteration order of Python's sets.
\<close>

section \<open>Independence from the iteration order of sets\<close>

lemma load_events_shows:
  assumes "shows_events store L S em"
  shows "\<exists>em'. load_events store eids em = Some (Inr ((), em')) \<and> shows_events store L S em'
    \<and> fst ` set em' = fst ` set em \<union> {eid \<in> set eids. L eid \<noteq> None}"
proof -
  let ?add = "\<lambda>eid em. case st_get_events store eid of None \<Rightarrow> em | Some e \<Rightarrow> dset em eid e"
  have "shows_events store L S (fold ?add xs em')
      \<and> fst ` set (fold ?add xs em') = fst ` set em' \<union> {eid \<in> set xs. st_get_events store eid \<noteq> None}"
    if "shows_events store L S em'" "\<forall>eid \<in> set xs. st_get_events store eid = L eid" for xs em'
    using that
  proof (induction xs arbitrary: em')
    case (Cons eid xs)
    have "view store (dset em' eid e) = L" if "st_get_events store eid = Some e" for e
      using Cons.prems that by (auto simp: shows_events_def view_def fun_eq_iff map_add_def split: option.splits)
    then have "shows_events store L S (?add eid em')"
      using Cons.prems(1) by (auto simp: shows_events_def keys_dset split: option.splits)
    from Cons.IH [OF this] Cons.prems(2) show ?case by (auto simp: keys_dset split: option.splits)
  qed simp
  moreover have out: "st_get_events store eid = L eid" if "\<not> dhas em eid" for eid
  proof -
    have "map_of em eid = None" using that by (simp add: dhas_def)
    then show ?thesis using assms unfolding shows_events_def view_def by (metis map_add_def option.case(1))
  qed
  moreover have has: "L eid \<noteq> None" if "dhas em eid" for eid
    using assms that by (auto simp: shows_events_def view_def dhas_def map_add_def split: option.splits)
  ultimately show ?thesis
    using assms by (auto simp: load_events_def sret_def dhas_iff)
qed

lemma check_rooms_shows:
  assumes "shows_events store L S em"
  shows "check_rooms room_id em = (if \<forall>k \<in> fst ` set em. ev_room_id (the (L k)) = room_id
    then sret () em else sraise PyException em)"
proof -
  have "L k = Some e" if "(k, e) \<in> set em" for k e
    using assms that by (auto simp: shows_events_def view_def map_add_def)
  then show ?thesis by (fastforce simp: check_rooms_def list_all_iff)
qed

lemma state_sets_not_empty:
  assumes "set_order itk" and "snd (seperate itk state_sets) \<noteq> []"
  shows "state_sets \<noteq> []"
  using assms(2) set_orderD(1) [OF assms(1), of "{}"] by (auto simp: seperate_def state_keys_def map_filter_def)

lemma conflicted_finite: "finite (\<Union>(_, ids) \<in> set (snd (seperate itk state_sets)). ids)"
  by (auto simp: seperate_def map_filter_def)

lemma unconflicted_keyed:
  assumes "set_order itk"
    and "\<forall>s \<in> set state_sets. \<forall>k eid e. dget s k = Some eid \<longrightarrow> L eid = Some e \<longrightarrow> key_of e = Inr k"
  shows "keyed_state L (map_of (fst (seperate itk state_sets)))"
  unfolding keyed_state_def map_of_unconflicted [OF assms(1)]
proof (intro allI impI)
  fix k eid e assume "(\<lambda>s. dget s k) ` set state_sets = {Some eid}" and e: "L eid = Some e"
  then obtain s where "s \<in> set state_sets" "dget s k = Some eid" by blast
  with assms(2) e show "key_of e = Inr k" by blast
qed

text \<open>
  What happens between the auth chain difference and the sorts: the events of the full conflicted
  set are loaded, and those that exist are kept.
\<close>

lemma load_and_filter:
  assumes em: "shows_events store L {} em" and fin: "finite A" and it: "set_order it"
  defines "F \<equiv> {k \<in> A. L k \<noteq> None}"
  shows "sbind (load_events store (it A)) (\<lambda>_. sbind (check_rooms room_id) (\<lambda>_. sbind (in_event_map A) f)) em
    = Some (Inr (r, em1)) \<longleftrightarrow>
    (\<exists>em'. load_events store (it A) em = Some (Inr ((), em')) \<and> shows_events store L F em'
       \<and> (\<forall>k \<in> fst ` set em \<union> F. \<exists>e. L k = Some e \<and> ev_room_id e = room_id)
       \<and> f F em' = Some (Inr (r, em1)))"
proof -
  from load_events_shows [OF em, of "it A"] set_orderD(1) [OF it fin] obtain em' where
    em': "load_events store (it A) em = Some (Inr ((), em'))" "shows_events store L {} em'"
      "fst ` set em' = fst ` set em \<union> F" by (auto simp: F_def)
  then have F: "shows_events store L F em'" by (auto simp: shows_events_def)
  then have all: "L k \<noteq> None" if "k \<in> fst ` set em'" for k
    using that by (auto simp: shows_events_def view_def map_add_def split: option.splits dest: map_of_SomeD)
  have "Set.filter (dhas em') A = F" using all em'(3) by (auto simp: dhas_iff F_def)
  then have filt: "in_event_map A em' = sret F em'" by (simp only: in_event_map_def)
  have "ev_room_id (the (L k)) = room_id \<longleftrightarrow> (\<exists>e. L k = Some e \<and> ev_room_id e = room_id)"
    if "k \<in> fst ` set em'" for k using all [OF that] by auto
  then have "(\<forall>k \<in> fst ` set em'. ev_room_id (the (L k)) = room_id)
      \<longleftrightarrow> (\<forall>k \<in> fst ` set em \<union> F. \<exists>e. L k = Some e \<and> ev_room_id e = room_id)"
    unfolding em'(3) by blast
  then show ?thesis
    using em'(1) F check_rooms_shows [OF em'(2), of room_id]
    by (auto simp: sbind_def filt sret_def sraise_def)
qed

lemma auth_ranked_map_of: "auth_ranked (view store em) rank \<Longrightarrow> auth_ranked (map_of em) rank"
  by (auto simp: auth_ranked_def view_def map_add_def split: option.splits)

lemma resolve_success:
  assumes wf: "wf_event_map em" and rank: "auth_ranked (view store em) rank"
    and st: "finite_store store" and it: "set_order it" and itk: "set_order itk"
    and r: "resolve_events_with_store x it itk room_id rv state_sets store em = Some (Inr (r, em1))"
    and sep: "seperate itk state_sets = (unc, con)" and con: "con \<noteq> []"
  defines "c \<equiv> \<Union>(_, ids) \<in> set con. ids"
  shows "\<exists>d em2. get_auth_chain_difference it room_id state_sets em store
        (if state_res rv = SR_V2_1 then Some c else None) = Some (Inr d)
    \<and> finite (c \<union> d) \<and> shows_events store (view store em) {k \<in> c \<union> d. view store em k \<noteq> None} em2
    \<and> (\<forall>k \<in> fst ` set em \<union> {k \<in> c \<union> d. view store em k \<noteq> None}.
         \<exists>e. view store em k = Some e \<and> ev_room_id e = room_id)
    \<and> resolve_conflicts x it itk room_id rv store unc {k \<in> c \<union> d. view store em k \<noteq> None} em2 = Some (Inr (r, em1))"
proof -
  let ?opt = "if state_res rv = SR_V2_1 then Some c else None"
  have em: "shows_events store (view store em) {} em" using wf by (simp add: shows_events_def wf_event_map_def)
  have fin_c: "finite c" using conflicted_finite [of itk state_sets] sep by (simp add: c_def)
  have ne: "state_sets \<noteq> []" using con state_sets_not_empty [OF itk, of state_sets] sep by simp
  have "\<exists>d. get_auth_chain_difference it room_id state_sets em store ?opt = Some (Inr d)"
    unfolding c_def using r con sep
    by (auto simp: resolve_events_with_store_def Let_def sbind_def sres_def sraise_def
        split: option.splits sum.splits)
  then obtain d where d: "get_auth_chain_difference it room_id state_sets em store ?opt = Some (Inr d)"
    by blast
  have "finite d"
    by (rule difference_finite [OF wf auth_ranked_map_of [OF rank] st _ ne d]) (use fin_c in auto)
  then have fin: "finite (c \<union> d)" using fin_c by blast
  have "sbind (load_events store (it (c \<union> d))) (\<lambda>_. sbind (check_rooms room_id)
      (\<lambda>_. sbind (in_event_map (c \<union> d)) (resolve_conflicts x it itk room_id rv store unc))) em = Some (Inr (r, em1))"
    unfolding c_def using r con sep d [unfolded c_def]
    by (simp add: resolve_events_with_store_def Let_def sbind_def sres_def sret_def)
  with d fin show ?thesis unfolding load_and_filter [OF em fin it] by blast
qed

text \<open>
  C1: state resolution is deterministic. The resolved state does not depend on the order in
  which the interpreter iterates over sets, of event ids or of state keys: if resolution succeeds
  for one iteration order it succeeds for every other, with the same state. The hypotheses say that
  the event map is a dictionary by event id, that auth events form no cycle, that the store answers
  with finite sets and that every event in a state set is stored under its own type and state key.
\<close>

theorem resolution_deterministic:
  assumes wf: "wf_event_map em" and rank: "auth_ranked (view store em) rank"
    and st: "finite_store store" and it: "set_order it" "set_order it'"
    and itk: "set_order itk" "set_order itk'"
    and keys: "\<forall>s \<in> set state_sets. \<forall>k eid e. dget s k = Some eid \<longrightarrow> view store em eid = Some e
      \<longrightarrow> key_of e = Inr k"
    and r: "resolve_events_with_store x it itk room_id rv state_sets store em = Some (Inr (r, em1))"
  shows "\<exists>em1'. resolve_events_with_store x it' itk' room_id rv state_sets store em = Some (Inr (r, em1'))"
proof -
  let ?L = "view store em"
  obtain unc con where sep: "seperate itk state_sets = (unc, con)" by fastforce
  obtain unc' con' where sep': "seperate itk' state_sets = (unc', con')" by fastforce
  from seperate_same [OF itk, of state_sets] sep sep'
  have unc: "map_of unc = map_of unc'" and con: "set con = set con'" by simp_all
  let ?c = "\<Union>(_, ids) \<in> set con. ids" and ?opt = "\<lambda>A. if state_res rv = SR_V2_1 then Some A else None"
  have em: "shows_events store ?L {} em" using wf by (simp add: shows_events_def wf_event_map_def)
  show ?thesis
  proof (cases "con = []")
    case True
    moreover from this con have "con' = []" by simp
    ultimately show ?thesis using r sep sep' unc by (simp add: resolve_events_with_store_def)
  next
    case False
    with con have con': "con' \<noteq> []" by auto
    from resolve_success [OF wf rank st it(1) itk(1) r sep False] obtain d em2
      where d: "get_auth_chain_difference it room_id state_sets em store (?opt ?c) = Some (Inr d)"
        and fin: "finite (?c \<union> d)"
        and em2: "shows_events store ?L {k \<in> ?c \<union> d. ?L k \<noteq> None} em2"
          "\<forall>k \<in> fst ` set em \<union> {k \<in> ?c \<union> d. ?L k \<noteq> None}. \<exists>e. ?L k = Some e \<and> ev_room_id e = room_id"
          "resolve_conflicts x it itk room_id rv store unc {k \<in> ?c \<union> d. ?L k \<noteq> None} em2 = Some (Inr (r, em1))"
      by blast
    let ?F = "{k \<in> ?c \<union> d. ?L k \<noteq> None}"
    have d': "get_auth_chain_difference it' room_id state_sets em store (?opt ?c) = Some (Inr d)"
      using d difference_order(1) [OF wf auth_ranked_map_of [OF rank] it] by simp
    from load_events_shows [OF em, of "it' (?c \<union> d)"] set_orderD(1) [OF it(2) fin] obtain em2' where
      em2': "load_events store (it' (?c \<union> d)) em = Some (Inr ((), em2'))" "shows_events store ?L ?F em2'"
      by (auto simp: shows_events_def)
    have "keyed_state ?L (map_of unc)"
      using unconflicted_keyed [OF itk(1), of state_sets ?L] keys sep by simp
    then have "agree store ?L ?F (=) (resolve_conflicts x it itk room_id rv store unc ?F)
        (resolve_conflicts x it' itk' room_id rv store unc' ?F)"
      using em2(2) fin by (intro resolve_conflicts_agree [OF it itk _ rank _ unc]) auto
    from agreeD(2) [OF this em2(1) em2'(2) em2(3)] obtain em1' where
      "resolve_conflicts x it' itk' room_id rv store unc' ?F em2' = Some (Inr (r, em1'))" by blast
    with em2' em2(2) have "sbind (load_events store (it' (?c \<union> d))) (\<lambda>_. sbind (check_rooms room_id)
        (\<lambda>_. sbind (in_event_map (?c \<union> d)) (resolve_conflicts x it' itk' room_id rv store unc'))) em
        = Some (Inr (r, em1'))"
      unfolding load_and_filter [OF em fin it(2)] by blast
    then show ?thesis
      using con' sep' d' unfolding con
      by (simp add: resolve_events_with_store_def Let_def sbind_def sres_def sret_def)
  qed
qed

end
