(* ===== verification/State_V2_Term.thy ===== *)
theory State_V2_Term
  imports State_V2_Props
begin

text \<open>
  State resolution v2 ends: when auth events form no cycle, every loop of the algorithm reaches its
  end, with a result or with an exception.
\<close>

section \<open>Termination\<close>

definition ends :: "sr_store \<Rightarrow> (string \<rightharpoonup> event) \<Rightarrow> string set \<Rightarrow> 'a sr \<Rightarrow> bool" where
  "ends store L S m \<longleftrightarrow> (\<forall>em. shows_events store L S em \<longrightarrow>
     (\<exists>e. m em = Some (Inl e)) \<or> (\<exists>a em'. m em = Some (Inr (a, em')) \<and> shows_events store L S em'))"

lemma endsE:
  assumes "ends store L S m" and "shows_events store L S em"
  obtains e where "m em = Some (Inl e)"
    | a em' where "m em = Some (Inr (a, em'))" "shows_events store L S em'"
  using assms unfolding ends_def by blast

named_theorems ends_rules \<open>functions of state resolution that always end\<close>

lemma ends_sret [ends_rules]: "ends store L S (sret a)"
  by (simp add: ends_def sret_def)

lemma ends_sraise [ends_rules]: "ends store L S (sraise e)"
  by (simp add: ends_def sraise_def)

lemma ends_sres [ends_rules]: "ends store L S (sres r)"
  by (cases r) (auto simp: sres_def intro: ends_rules)

lemma ends_sbind [ends_rules]:
  assumes "ends store L S m" and "\<And>a. ends store L S (f a)"
  shows "ends store L S (sbind m f)"
proof -
  have "(\<exists>e. sbind m f em = Some (Inl e))
      \<or> (\<exists>b em'. sbind m f em = Some (Inr (b, em')) \<and> shows_events store L S em')"
    if em: "shows_events store L S em" for em
    using assms(1) em
  proof (cases rule: endsE)
    case (2 a em1)
    from assms(2) [of a] 2(2) show ?thesis by (cases rule: endsE) (use 2 in \<open>auto simp: sbind_def\<close>)
  qed (simp add: sbind_def)
  then show ?thesis unfolding ends_def by blast
qed

lemma ends_smapM [ends_rules]: "(\<And>x. ends store L S (f x)) \<Longrightarrow> ends store L S (smapM f xs)"
  by (induction xs) (auto intro!: ends_rules)

lemma ends_sfoldM [ends_rules]: "(\<And>x s. ends store L S (f x s)) \<Longrightarrow> ends store L S (sfoldM f xs s)"
  by (induction xs arbitrary: s) (auto intro!: ends_rules)

lemma ends_get_event_opt [ends_rules]: "ends store L S (get_event_opt room_id store eid)"
  unfolding ends_def
proof (intro allI impI)
  fix em assume "shows_events store L S em"
  from get_event_opt_shows [OF this, of room_id eid] this
  show "(\<exists>e. get_event_opt room_id store eid em = Some (Inl e))
    \<or> (\<exists>a em'. get_event_opt room_id store eid em = Some (Inr (a, em')) \<and> shows_events store L S em')"
    by (auto split: option.splits if_splits intro: shows_events_weaken)
qed

lemma ends_get_event [ends_rules]: "ends store L S (get_event room_id store eid)"
  unfolding get_event_def by (auto intro!: ends_rules split: option.splits)

lemma ends_event_map_index [ends_rules]: "ends store L S (event_map_index eid)"
  by (auto simp: ends_def event_map_index_def sres_def sret_def sraise_def split: sum.splits)

lemma ends_find_power_auth [ends_rules]: "ends store L S (find_power_auth room_id store aids)"
  by (induction aids) (auto intro!: ends_rules split: option.splits)

lemma ends_creator_level [ends_rules]: "ends store L S (creator_level room_id store event aids)"
  by (induction aids) (auto intro!: ends_rules split: option.splits simp: Let_def)

lemma ends_get_power_level_for_sender [ends_rules]:
  "ends store L S (get_power_level_for_sender room_id store eid)"
  unfolding get_power_level_for_sender_def note_pl_and_create_def
  by (auto intro!: ends_rules split: option.splits)

lemma ends_iterative_auth_checks [ends_rules]:
  "ends store L S (iterative_auth_checks x itk room_id rv store eids base)"
  unfolding iterative_auth_checks_def auth_check_step_def load_auth_event_def load_resolved_event_def
  by (auto intro!: ends_rules split: option.splits sum.splits)

lemma ends_power_events_of [ends_rules]: "ends store L S (power_events_of eids)"
  by (induction eids) (auto intro!: ends_rules)

text \<open>A power levels event found among auth events is one of them, and known.\<close>

lemma find_power_auth_found:
  assumes "find_power_auth room_id store aids em = Some (Inr (Some (aid, e), em'))"
    and "shows_events store L S em"
  shows "aid \<in> set aids \<and> L aid = Some e \<and> ev_room_id e = room_id \<and> key_of e = Inr POWER_KEY
    \<and> shows_events store L S em'"
  using assms
proof (induction aids arbitrary: em)
  case (Cons a aids)
  note g = get_event_opt_shows [OF Cons.prems(2), of room_id a]
  show ?case
  proof (cases "L a")
    case None
    with g Cons show ?thesis by (auto simp: sbind_def)
  next
    case (Some ev)
    show ?thesis
    proof (cases "ev_room_id ev = room_id")
      case True
      with g Some obtain em1 where em1: "get_event_opt room_id store a em = Some (Inr (Some ev, em1))"
        "shows_events store L S em1" by (auto intro: shows_events_weaken)
      with Cons Some True show ?thesis
        by (cases "key_of ev") (auto simp: sbind_def sres_def sret_def sraise_def split: if_splits)
    qed (use g Some Cons.prems(1) in \<open>auto simp: sbind_def\<close>)
  qed
qed (simp add: sret_def)

lemma mainline_loop_ends:
  assumes rank: "auth_ranked L rank"
  shows "shows_events store L S em
    \<Longrightarrow> \<exists>y. mainline_loop room_id store pl ml em = Some y"
proof (induction "case pl of None \<Rightarrow> 0 | Some p \<Rightarrow> Suc (rank p)" arbitrary: pl ml em rule: less_induct)
  case less
  show ?case
  proof (cases "pl = None \<or> pl = Some []")
    case True
    then show ?thesis by (subst mainline_loop.simps) (auto simp: sret_def)
  next
    case False
    then obtain p where p: "pl = Some p" "p \<noteq> []" by auto
    note g = get_event_shows [OF less.prems, of room_id p]
    show ?thesis
    proof (cases "\<exists>e. L p = Some e \<and> ev_room_id e = room_id")
      case False
      with g p show ?thesis by (subst mainline_loop.simps) (auto simp: sbind_def split: option.splits if_splits)
    next
      case True
      then obtain e where e: "L p = Some e" "ev_room_id e = room_id" by blast
      with g obtain em1 where em1: "get_event room_id store p em = Some (Inr (e, em1))"
        "shows_events store L S em1" by (auto intro: shows_events_weaken)
      let ?find = "find_power_auth room_id store (ev_auth_event_ids e)"
      from ends_find_power_auth em1(2) show ?thesis
      proof (cases rule: endsE [where m = ?find])
        case (1 err)
        then show ?thesis using em1(1) p by (subst mainline_loop.simps) (auto simp: sbind_def)
      next
        case (2 f em2)
        have "(case map_option fst f of None \<Rightarrow> 0 | Some p \<Rightarrow> Suc (rank p)) < Suc (rank p)"
          using find_power_auth_found [OF _ em1(2)] 2 e(1) rank by (cases f) (auto simp: auth_ranked_def)
        from less.hyps [of "map_option fst f", unfolded p option.case, OF this 2(2)] 2(1) em1(1) p
        show ?thesis by (subst mainline_loop.simps) (auto simp: sbind_def)
      qed
    qed
  qed
qed

lemma transfers_keeps:
  assumes "transfers store L S m (\<lambda>_. S)" and "shows_events store L S em" and "m em = Some y"
  shows "(\<exists>e. y = Inl e) \<or> (\<exists>a em'. y = Inr (a, em') \<and> shows_events store L S em')"
  using simulatedD [OF assms(1,2,2,3)] by (cases y) auto

lemma ends_mainline_loop [ends_rules]:
  assumes "auth_ranked L rank" shows "ends store L S (mainline_loop room_id store pl ml)"
  unfolding ends_def
  using mainline_loop_ends [OF assms] transfers_keeps [OF transfers_mainline_loop] by (metis (lifting))

lemma mainline_depth_loop_ends:
  assumes rank: "auth_ranked L rank"
  shows "shows_events store L S em \<Longrightarrow> L k = Some e
    \<Longrightarrow> \<exists>y. mainline_depth_loop room_id store mm (Some e) em = Some y"
proof (induction "rank k" arbitrary: k e em rule: less_induct)
  case less
  let ?find = "find_power_auth room_id store (ev_auth_event_ids e)"
  show ?case
  proof (cases "mm (ev_event_id e)")
    case (Some d)
    then show ?thesis by (subst mainline_depth_loop.simps) (simp add: sret_def)
  next
    case None
    from ends_find_power_auth less.prems(1) show ?thesis
    proof (cases rule: endsE [where m = ?find])
      case (1 err)
      then show ?thesis using None by (subst mainline_depth_loop.simps) (simp add: sbind_def)
    next
      case (2 f em1)
      show ?thesis
      proof (cases f)
        case None
        with 2 \<open>mm (ev_event_id e) = None\<close> show ?thesis
          by (subst mainline_depth_loop.simps)
            (simp add: sbind_def mainline_depth_loop.simps [of _ _ _ None] sret_def)
      next
        case (Some ae)
        obtain aid e' where ae: "ae = (aid, e')" by fastforce
        from find_power_auth_found [OF _ less.prems(1)] 2(1) Some ae
        have found: "aid \<in> set (ev_auth_event_ids e)" "L aid = Some e'" by blast+
        then have "rank aid < rank k" using rank less.prems(2) by (auto simp: auth_ranked_def)
        from less.hyps [OF this 2(2) found(2)] 2(1) Some ae \<open>mm (ev_event_id e) = None\<close> show ?thesis
          by (subst mainline_depth_loop.simps) (simp add: sbind_def)
      qed
    qed
  qed
qed

lemma ends_mainline_order:
  assumes "auth_ranked L rank" and "eid \<in> S" shows "ends store L S (mainline_order store mm eid)"
proof -
  have "\<exists>y. mainline_order store mm eid em = Some y" if em: "shows_events store L S em" for em
  proof -
    from event_map_index_shows [OF em assms(2)] obtain e
      where e: "L eid = Some e" "event_map_index eid em = Some (Inr (e, em))" by blast
    with mainline_depth_loop_ends [OF assms(1) em e(1), of "ev_room_id e" mm] show ?thesis
      by (auto simp: mainline_order_def get_mainline_depth_for_event_def sbind_def sret_def
          split: sum.splits option.splits)
  qed
  with transfers_keeps [OF transfers_mainline_order [OF assms(2)]] show ?thesis
    unfolding ends_def by (metis (lifting))
qed

lemma ends_smapM_on: "(\<And>x. x \<in> set xs \<Longrightarrow> ends store L S (f x)) \<Longrightarrow> ends store L S (smapM f xs)"
  by (induction xs) (auto intro!: ends_rules)

lemma ends_mainline_sort:
  assumes "auth_ranked L rank" and "set eids \<subseteq> S"
  shows "ends store L S (mainline_sort room_id store eids pl)"
  unfolding mainline_sort_def Let_def
  using assms(2) by (auto intro!: ends_rules ends_mainline_loop [OF assms(1)] ends_smapM_on
      ends_mainline_order [OF assms(1)])

lemma ends_power_sort:
  assumes rank: "auth_ranked L rank"
    and room: "\<And>n. n \<in> F \<Longrightarrow> \<exists>e. L n = Some e \<and> ev_room_id e = room_id" and "set eids \<subseteq> F"
  shows "ends store L F (reverse_topological_power_sort room_id store F eids)"
proof -
  let ?build = "sfoldM (\<lambda>eid. add_event_and_auth_chain_to_graph room_id store F [eid]) eids []"
  let ?sort = "\<lambda>graph. sbind (smapM (get_power_level_for_sender room_id store) (map fst graph)) (\<lambda>pls em.
       map_option (\<lambda>sorted_events. Inr (sorted_events, em))
         (lexicographical_topological_sort graph (get_power_order em (zip (map fst graph) pls))))"
  have last: "ends store L F (?sort g)" if "power_graph L F (set eids) g" for g
  proof (rule ends_sbind)
    show "ends store L F (smapM (get_power_level_for_sender room_id store) (map fst g))" by (intro ends_rules)
    have "distinct (map fst g)" using that by (simp add: power_graph_def)
    from topo_sort_total [OF this] show "ends store L F (\<lambda>em. map_option (\<lambda>sorted_events. Inr (sorted_events, em))
         (lexicographical_topological_sort g (get_power_order em (zip (map fst g) pls))))" for pls
      unfolding ends_def by (metis (no_types, lifting) option.map(2))
  qed
  have "(\<exists>e. sbind ?build ?sort em = Some (Inl e))
      \<or> (\<exists>a em'. sbind ?build ?sort em = Some (Inr (a, em')) \<and> shows_events store L F em')"
    if em: "shows_events store L F em" for em
  proof -
    from build_graph_correct [OF rank room assms(3) em] obtain g em1
      where g: "?build em = Some (Inr (g, em1))" "power_graph L F (set eids) g" "shows_events store L F em1" by blast
    have "sbind ?build ?sort em = ?sort g em1" using g(1) by (simp add: sbind_def)
    with last [OF g(2)] g(3) show ?thesis unfolding ends_def by presburger
  qed
  then show ?thesis unfolding ends_def reverse_topological_power_sort_def by blast
qed

lemma ends_sbind_post:
  assumes "ends store L S m"
    and "\<And>em a em'. shows_events store L S em \<Longrightarrow> m em = Some (Inr (a, em')) \<Longrightarrow> ends store L S (f a)"
  shows "ends store L S (sbind m f)"
proof -
  have "(\<exists>e. sbind m f em = Some (Inl e))
      \<or> (\<exists>b em'. sbind m f em = Some (Inr (b, em')) \<and> shows_events store L S em')"
    if em: "shows_events store L S em" for em
    using assms(1) em
  proof (cases rule: endsE)
    case (2 a em1)
    from assms(2) [OF em 2(1)] 2(2) show ?thesis by (cases rule: endsE) (use 2 in \<open>auto simp: sbind_def\<close>)
  qed (simp add: sbind_def)
  then show ?thesis unfolding ends_def by blast
qed

lemma resolve_conflicts_ends:
  assumes it: "set_order it" and fin: "finite F" and rank: "auth_ranked L rank"
    and room: "\<And>n. n \<in> F \<Longrightarrow> \<exists>e. L n = Some e \<and> ev_room_id e = room_id"
  shows "ends store L F (resolve_conflicts x it itk room_id rv store unc F)"
  unfolding resolve_conflicts_def
proof (rule ends_sbind_post [OF ends_power_events_of])
  note itF = set_orderD [OF it fin]
  fix em ps em' assume "shows_events store L F em" and "power_events_of (it F) em = Some (Inr (ps, em'))"
  with power_events_of_success [of store L F em "it F"] power_events_of_total [of store L F em "it F"] itF
  have "set ps \<subseteq> F" by auto
  from ends_power_sort [OF rank room this]
  show "ends store L F (sbind (reverse_topological_power_sort room_id store F ps) (\<lambda>sp.
      sbind (iterative_auth_checks x itk room_id rv store sp
        (if state_res rv = SR_V2_1 then Map.empty else map_of unc)) (\<lambda>rs.
      sbind (mainline_sort room_id store (filter (\<lambda>ev_id. ev_id \<notin> set sp) (it F)) (rs POWER_KEY)) (\<lambda>ml.
      sbind (iterative_auth_checks x itk room_id rv store ml rs) (\<lambda>rs. sret (rs ++ map_of unc))))))"
    using itF by (intro ends_rules ends_mainline_sort [OF rank]) auto
qed

text \<open>
  C7: state resolution ends. When auth events form no cycle, resolution returns a state or raises
  an exception for any input; none of its loops runs forever.
\<close>

theorem resolution_terminates:
  assumes wf: "wf_event_map em" and rank: "auth_ranked (view store em) rank"
    and st: "finite_store store" and it: "set_order it" and itk: "set_order itk"
  shows "\<exists>y. resolve_events_with_store x it itk room_id rv state_sets store em = Some y"
proof -
  let ?L = "view store em"
  obtain unc con where sep: "seperate itk state_sets = (unc, con)" by fastforce
  let ?c = "\<Union>(_, ids) \<in> set con. ids" and ?opt = "\<lambda>A. if state_res rv = SR_V2_1 then Some A else None"
  have rank': "auth_ranked (map_of em) rank" by (rule auth_ranked_map_of [OF rank])
  have em: "shows_events store ?L {} em" using wf by (simp add: shows_events_def wf_event_map_def)
  have fin_c: "finite ?c" using conflicted_finite [of itk state_sets] sep by simp
  show ?thesis
  proof (cases "con = []")
    case True
    with sep show ?thesis by (simp add: resolve_events_with_store_def sret_def)
  next
    case False
    then have ne: "state_sets \<noteq> []" using state_sets_not_empty [OF itk, of state_sets] sep by simp
    from difference_order(2) [OF wf rank' it it] obtain d
      where d: "get_auth_chain_difference it room_id state_sets em store (?opt ?c) = Some d" by blast
    show ?thesis
    proof (cases d)
      case (Inl e)
      with d False sep show ?thesis
        by (simp add: resolve_events_with_store_def Let_def sbind_def sres_def sraise_def)
    next
      case (Inr D)
      have "finite D"
        by (rule difference_finite [OF wf rank' st _ ne d [unfolded Inr]]) (use fin_c in auto)
      then have fin: "finite (?c \<union> D)" using fin_c by blast
      let ?F = "{k \<in> ?c \<union> D. ?L k \<noteq> None}"
      from load_events_shows [OF em, of "it (?c \<union> D)"] set_orderD(1) [OF it fin] obtain em2 where
        em2: "load_events store (it (?c \<union> D)) em = Some (Inr ((), em2))" "shows_events store ?L ?F em2"
          "fst ` set em2 = fst ` set em \<union> ?F"
        by (auto simp: shows_events_def)
      have filt: "in_event_map (?c \<union> D) em2 = sret ?F em2"
        using shows_events_dget(2) [of store ?L "fst ` set em2" em2] em2(2,3)
        by (auto simp: in_event_map_def dhas_iff shows_events_def intro!: arg_cong2 [where f = sret])
      show ?thesis
      proof (cases "\<forall>k \<in> fst ` set em2. ev_room_id (the (?L k)) = room_id")
        case True
        have "\<exists>e. ?L n = Some e \<and> ev_room_id e = room_id" if "n \<in> ?F" for n
        proof -
          have "n \<in> fst ` set em2" using that unfolding em2(3) by blast
          with True have "ev_room_id (the (?L n)) = room_id" by blast
          with that show ?thesis by auto
        qed
        moreover have "finite ?F" using fin by simp
        ultimately have "ends store ?L ?F (resolve_conflicts x it itk room_id rv store unc ?F)"
          by (intro resolve_conflicts_ends [OF it _ rank]) auto
        from endsE [OF this em2(2)] obtain y where "resolve_conflicts x it itk room_id rv store unc ?F em2 = Some y"
          by metis
        with d Inr False sep em2(1) True filt check_rooms_shows [OF em2(2), of room_id] show ?thesis
          by (simp add: resolve_events_with_store_def Let_def sbind_def sres_def sret_def)
      next
        case rooms: False
        have "check_rooms room_id em2 = sraise PyException em2"
          unfolding check_rooms_shows [OF em2(2)] if_not_P [OF rooms] ..
        with d Inr False sep em2(1) show ?thesis
          by (simp add: resolve_events_with_store_def Let_def sbind_def sres_def sret_def sraise_def)
      qed
    qed
  qed
qed

end
