(* ===== verification/State_V2_Sound.thy ===== *)
theory State_V2_Sound
  imports State_V2_Term
begin

text \<open>
  What state resolution v2 returns: the split into conflicted and unconflicted state, which events
  can enter the resolved state, the order of the mainline sort and of the power sort; and a sample
  conflict on which the theorems on state resolution are instantiated.
\<close>

section \<open>A sample conflict\<close>

text \<open>
  In one branch the second member gets level 50 and sets a topic; in the other branch the creator
  bans that member and sets another topic.
\<close>

definition sample_pl2 :: event where
  "sample_pl2 = sample_event ''$pl2'' EventTypes_PowerLevels (Some []) ''@a:s''
     [(''users'', JObj [(''@a:s'', JInt 100), (''@b:s'', JInt 50)])] [''$c'', ''$ja'', ''$pl'']"

definition sample_ja :: event where
  "sample_ja = sample_member ''$ja'' ''@a:s'' ''@a:s'' ''join''"

definition sample_jb :: event where
  "sample_jb = sample_event ''$jb'' EventTypes_Member (Some ''@b:s'') ''@b:s''
     [(''membership'', JStr ''join'')] [''$c'', ''$pl'']"

definition sample_ban :: event where
  "sample_ban = sample_event ''$kb'' EventTypes_Member (Some ''@b:s'') ''@a:s''
     [(''membership'', JStr ''ban'')] [''$c'', ''$pl'', ''$ja'', ''$jb'']"

definition sample_t1 :: event where
  "sample_t1 = sample_event ''$t1'' ''m.room.topic'' (Some []) ''@a:s'' [] [''$c'', ''$pl2'', ''$ja'']"

definition sample_t2 :: event where
  "sample_t2 = sample_event ''$t2'' ''m.room.topic'' (Some []) ''@b:s'' [] [''$c'', ''$pl2'', ''$jb'']"

definition sample_events :: "event list" where
  "sample_events = [sample_create, sample_power, sample_pl2, sample_ja, sample_jb, sample_ban,
     sample_t1, sample_t2]"

definition sample_store :: sr_store where
  "sample_store = \<lparr>st_get_events = map_of (map (\<lambda>e. (ev_event_id e, e)) sample_events),
     st_auth_chain_difference = (\<lambda>_ _ _ _. Inr ({''$pl2'', ''$kb'', ''$t1'', ''$t2''}, None))\<rparr>"

definition sample_state_sets :: "state_set list" where
  "sample_state_sets =
     [[(CREATE_KEY, ''$c''), (POWER_KEY, ''$pl2''), ((EventTypes_Member, ''@a:s''), ''$ja''),
       ((EventTypes_Member, ''@b:s''), ''$jb''), ((''m.room.topic'', ''''), ''$t2'')],
      [(CREATE_KEY, ''$c''), (POWER_KEY, ''$pl''), ((EventTypes_Member, ''@a:s''), ''$ja''),
       ((EventTypes_Member, ''@b:s''), ''$kb''), ((''m.room.topic'', ''''), ''$t1'')]]"

text \<open>The number of auth events below an event, as a rank.\<close>

definition sample_rank :: "string \<Rightarrow> nat" where
  "sample_rank k = (if k \<in> {''$t1'', ''$t2''} then 5 else if k = ''$kb'' then 4
     else if k \<in> {''$pl2'', ''$jb''} then 3 else if k = ''$pl'' then 2 else if k = ''$ja'' then 1 else 0)"

lemma sample_store_ranked: "auth_ranked (view sample_store []) sample_rank"
proof -
  have "\<forall>e \<in> set sample_events. \<forall>a \<in> set (ev_auth_event_ids e). sample_rank a < sample_rank (ev_event_id e)"
    by code_simp
  then show ?thesis
    by (auto simp: auth_ranked_def view_def sample_store_def dest!: map_of_SomeD)
qed

lemma sample_store_finite: "finite_store sample_store"
  by (simp add: finite_store_def sample_store_def)

lemma set_order_sorted: "set_order (sorted_list_of_set :: 'a::linorder set \<Rightarrow> 'a list)"
  by (simp add: set_order_def)

lemma set_order_rev: "set_order (rev \<circ> (sorted_list_of_set :: 'a::linorder set \<Rightarrow> 'a list))"
  by (simp add: set_order_def)

lemma sample_result:
  "(case resolve_events_with_store sample_ext sorted_list_of_set sorted_list_of_set ''!r:s'' ROOM_VERSION_V10
          sample_state_sets sample_store [] of
      Some (Inr (r, em)) \<Rightarrow> map r [CREATE_KEY, POWER_KEY, (EventTypes_Member, ''@a:s''), (EventTypes_Member, ''@b:s''),
            (''m.room.topic'', '''')] = map Some [''$c'', ''$pl2'', ''$ja'', ''$kb'', ''$t1'']
    | _ \<Rightarrow> False)"
  by code_simp

section \<open>Conflicted and unconflicted state\<close>

text \<open>
  The split of the state. A key is unconflicted with an event exactly when there is a state
  set and all of them have that event at the key; it is conflicted exactly when two state sets
  differ at it, one of them possibly lacking it, and then with the set of all events they have.
\<close>

theorem seperate_correct:
  assumes "set_order itk"
  shows "(map_of (fst (seperate itk state_sets)) k = Some e \<longleftrightarrow>
      state_sets \<noteq> [] \<and> (\<forall>s \<in> set state_sets. dget s k = Some e))
   \<and> (map_of (snd (seperate itk state_sets)) k = Some ids \<longleftrightarrow>
      (\<exists>s \<in> set state_sets. \<exists>s' \<in> set state_sets. dget s k \<noteq> dget s' k)
      \<and> ids = {e. \<exists>s \<in> set state_sets. dget s k = Some e})"
proof
  show "map_of (fst (seperate itk state_sets)) k = Some e \<longleftrightarrow>
      state_sets \<noteq> [] \<and> (\<forall>s \<in> set state_sets. dget s k = Some e)"
    unfolding map_of_unconflicted [OF assms] by (cases state_sets) auto
qed (rule map_of_conflicted [OF assms])

theorem seperate_correct_witness:
  "map_of (fst (seperate sorted_list_of_set sample_state_sets)) CREATE_KEY = Some ''$c''
   \<and> map_of (snd (seperate sorted_list_of_set sample_state_sets)) (''m.room.topic'', '''')
       = Some {e. \<exists>s \<in> set sample_state_sets. dget s (''m.room.topic'', '''') = Some e}"
proof -
  have "sample_state_sets \<noteq> [] \<and> (\<forall>s \<in> set sample_state_sets. dget s CREATE_KEY = Some ''$c'')"
    by code_simp
  moreover have "\<exists>s \<in> set sample_state_sets. \<exists>s' \<in> set sample_state_sets.
      dget s (''m.room.topic'', '''') \<noteq> dget s' (''m.room.topic'', '''')" by code_simp
  ultimately show ?thesis using seperate_correct [OF set_order_sorted] by blast
qed

section \<open>What enters the resolved state\<close>

text \<open>
  An event that may be admitted at a key: it exists in the room, belongs to the key, has not been
  rejected, and the auth rules accept it against events none of which has been rejected.
\<close>

definition admissible :: "ext \<Rightarrow> (string \<rightharpoonup> event) \<Rightarrow> state_key \<Rightarrow> string \<Rightarrow> bool" where
  "admissible x L k eid \<longleftrightarrow> (\<exists>e auth_events. L eid = Some e \<and> key_of e = Inr k
     \<and> ev_rejected_reason e = None
     \<and> check_state_dependent_auth_rules x e auth_events = Inr ()
     \<and> (\<forall>a \<in> set auth_events. ev_rejected_reason a = None \<and> (\<exists>n. L n = Some a)))"

lemma sbind_Inr:
  "sbind m f em = Some (Inr (b, em'')) \<longleftrightarrow> (\<exists>a em'. m em = Some (Inr (a, em')) \<and> f a em' = Some (Inr (b, em'')))"
  by (auto simp: sbind_def split: option.splits sum.splits)

lemma sret_Inr: "sret a em = Some (Inr (b, em')) \<longleftrightarrow> b = a \<and> em' = em"
  by (auto simp: sret_def)

lemma sres_Inr: "sres r em = Some (Inr (b, em')) \<longleftrightarrow> r = Inr b \<and> em' = em"
  by (cases r) (auto simp: sres_def sret_def sraise_def)

lemma sraise_Inr: "sraise e em \<noteq> Some (Inr (b, em'))"
  by (simp add: sraise_def)

lemmas sr_Inr = sbind_Inr sret_Inr sres_Inr sraise_Inr

lemma ends_keeps:
  "ends store L S m \<Longrightarrow> shows_events store L S em \<Longrightarrow> m em = Some (Inr (a, em')) \<Longrightarrow> shows_events store L S em'"
  unfolding ends_def by fastforce

lemma sfoldM_invariant:
  assumes "sfoldM f xs s em = Some (Inr (t, em'))" and "P s" and "shows_events store L S em"
    and "\<And>x s em s' em'. x \<in> set xs \<Longrightarrow> P s \<Longrightarrow> shows_events store L S em
      \<Longrightarrow> f x s em = Some (Inr (s', em')) \<Longrightarrow> P s' \<and> shows_events store L S em'"
  shows "P t \<and> shows_events store L S em'"
  using assms
proof (induction xs arbitrary: s em)
  case (Cons x xs)
  from Cons.prems(1) obtain s1 em1 where 1: "f x s em = Some (Inr (s1, em1))"
    "sfoldM f xs s1 em1 = Some (Inr (t, em'))" by (auto simp: sr_Inr)
  from Cons.prems(4) [OF _ Cons.prems(2,3) 1(1)] have "P s1" "shows_events store L S em1" by auto
  from 1(2) this show ?case by (rule Cons.IH) (rule Cons.prems(4), auto)
qed (simp add: sret_def)

lemma get_event_opt_Inr:
  assumes "get_event_opt room_id store eid em = Some (Inr (r, em'))" and "shows_events store L S em"
  shows "r = L eid \<and> shows_events store L S em' \<and> (\<forall>e. L eid = Some e \<longrightarrow> ev_room_id e = room_id)"
  using assms(1) get_event_opt_shows [OF assms(2), of room_id eid] assms(2)
  by (auto split: option.splits if_splits intro: shows_events_weaken)

lemma get_event_Inr:
  assumes "get_event room_id store eid em = Some (Inr (e, em'))" and "shows_events store L S em"
  shows "L eid = Some e \<and> shows_events store L S em'"
  using assms(1) get_event_shows [OF assms(2), of room_id eid]
  by (auto split: option.splits if_splits intro: shows_events_weaken)

lemma event_map_index_Inr:
  assumes "event_map_index eid em = Some (Inr (e, em'))" and "shows_events store L S em"
  shows "L eid = Some e \<and> em' = em"
  using assms by (auto simp: event_map_index_def sr_Inr dindex_def shows_events_def view_def map_add_def
      split: option.splits)

lemma set_dset: "set (dset d k v) \<subseteq> insert (k, v) (set d)"
  unfolding dset_def by (induction d) auto

definition loaded_events :: "(string \<rightharpoonup> event) \<Rightarrow> (state_key \<times> event) list \<Rightarrow> bool" where
  "loaded_events L d \<longleftrightarrow> (\<forall>(_, a) \<in> set d. ev_rejected_reason a = None \<and> (\<exists>n. L n = Some a))"

lemma loaded_events_dset:
  "loaded_events L d \<Longrightarrow> ev_rejected_reason e = None \<Longrightarrow> L n = Some e \<Longrightarrow> loaded_events L (dset d k e)"
  using set_dset [of d k e] unfolding loaded_events_def by fastforce

lemma load_auth_event_loaded:
  assumes "load_auth_event room_id store aid d em = Some (Inr (d', em'))"
    and "loaded_events L d" and "shows_events store L S em"
  shows "loaded_events L d' \<and> shows_events store L S em'"
proof -
  from assms(1) obtain ev em1 where ev: "get_event_opt room_id store aid em = Some (Inr (ev, em1))"
    and rest: "(case ev of None \<Rightarrow> sret d | Some e \<Rightarrow> if ev_rejected_reason e = None
       then sbind (sres (key_of e)) (\<lambda>k. sret (dset d k e)) else sret d) em1 = Some (Inr (d', em'))"
    unfolding load_auth_event_def sbind_Inr by blast
  from get_event_opt_Inr [OF ev assms(3)] rest assms(2) show ?thesis
    by (auto simp: sr_Inr split: option.splits if_splits intro: loaded_events_dset)
qed

lemma load_resolved_event_loaded:
  assumes "load_resolved_event room_id store rs key d em = Some (Inr (d', em'))"
    and "loaded_events L d" and "shows_events store L S em"
  shows "loaded_events L d' \<and> shows_events store L S em'"
proof (cases "rs key")
  case None
  with assms show ?thesis by (auto simp: load_resolved_event_def sr_Inr)
next
  case (Some eid)
  with assms(1) obtain ev em1 where ev: "get_event room_id store eid em = Some (Inr (ev, em1))"
    and rest: "(if ev_rejected_reason ev = None then sbind (event_map_index eid) (\<lambda>e. sret (dset d key e))
       else sret d) em1 = Some (Inr (d', em'))"
    by (auto simp: load_resolved_event_def sbind_Inr)
  from get_event_Inr [OF ev assms(3)] rest assms(2) show ?thesis
    by (auto simp: sr_Inr split: if_splits dest!: event_map_index_Inr intro!: loaded_events_dset)
qed

lemma auth_check_step_sound:
  assumes "auth_check_step x itk room_id rv store eid rs em = Some (Inr (rs', em'))"
    and em: "shows_events store L S em"
  shows "(rs' = rs \<or> (\<exists>k. rs' = rs(k \<mapsto> eid) \<and> admissible x L k eid)) \<and> shows_events store L S em'"
proof -
  from assms(1) obtain e em1 d1 em2 keys em3 d2 em4 where
    e: "event_map_index eid em = Some (Inr (e, em1))" and
    d1: "sfoldM (load_auth_event room_id store) (ev_auth_event_ids e) [] em1 = Some (Inr (d1, em2))" and
    keys: "sres (auth_types_for_event rv e) em2 = Some (Inr (keys, em3))" and
    d2: "sfoldM (load_resolved_event room_id store rs) (itk (set keys)) d1 em3 = Some (Inr (d2, em4))" and
    last: "(if ev_rejected_reason e \<noteq> None then sret rs
      else (case check_state_dependent_auth_rules x e (map snd d2) of
         Inr _ \<Rightarrow> sbind (sres (key_of e)) (\<lambda>k. sret (rs(k \<mapsto> eid)))
       | Inl err \<Rightarrow> if is_auth_error err then sret rs else sraise err)) em4 = Some (Inr (rs', em'))"
    unfolding auth_check_step_def sbind_Inr by blast
  from event_map_index_Inr [OF e em] have L: "L eid = Some e" "shows_events store L S em1" using em by auto
  have "loaded_events L d1 \<and> shows_events store L S em2"
    using load_auth_event_loaded by (intro sfoldM_invariant [OF d1 _ L(2)]) (simp add: loaded_events_def, blast)
  moreover have "em3 = em2" using keys by (simp add: sres_Inr)
  ultimately have "loaded_events L d2 \<and> shows_events store L S em4"
    using load_resolved_event_loaded by (intro sfoldM_invariant [OF d2]) blast+
  with last L(1) show ?thesis
    by (auto simp: sr_Inr admissible_def loaded_events_def split: if_splits sum.splits) fastforce
qed

lemma iterative_auth_checks_sound:
  assumes "iterative_auth_checks x itk room_id rv store eids base em = Some (Inr (rs, em'))"
    and "shows_events store L S em"
  shows "(\<forall>k eid. rs k = Some eid \<longrightarrow> base k = Some eid \<or> eid \<in> set eids \<and> admissible x L k eid)
    \<and> shows_events store L S em'"
proof (rule sfoldM_invariant [OF assms(1) [unfolded iterative_auth_checks_def] _ assms(2)])
  fix eid rs1 em1 rs2 em2
  assume eid: "eid \<in> set eids"
    and inv: "\<forall>k e. rs1 k = Some e \<longrightarrow> base k = Some e \<or> e \<in> set eids \<and> admissible x L k e"
    and em1: "shows_events store L S em1"
    and step: "auth_check_step x itk room_id rv store eid rs1 em1 = Some (Inr (rs2, em2))"
  from auth_check_step_sound [OF step em1] inv eid
  show "(\<forall>k e. rs2 k = Some e \<longrightarrow> base k = Some e \<or> e \<in> set eids \<and> admissible x L k e)
      \<and> shows_events store L S em2"
    by (metis (no_types, lifting) fun_upd_apply option.inject)
qed simp

lemma resolve_conflicts_sound:
  assumes it: "set_order it" and fin: "finite F" and rank: "auth_ranked L rank"
    and room: "\<And>n. n \<in> F \<Longrightarrow> \<exists>e. L n = Some e \<and> ev_room_id e = room_id"
    and em: "shows_events store L F em"
    and r: "resolve_conflicts x it itk room_id rv store unc F em = Some (Inr (r, em1))"
  shows "r k = Some eid \<Longrightarrow> map_of unc k = Some eid \<or> map_of unc k = None \<and> eid \<in> F \<and> admissible x L k eid"
    and "map_of unc k = Some eid \<Longrightarrow> r k = Some eid"
proof -
  note itF = set_orderD [OF it fin]
  let ?base = "if state_res rv = SR_V2_1 then Map.empty else map_of unc"
  from r obtain ps ema sp emb rs1 emc ml emd rs2 where
    ps: "power_events_of (it F) em = Some (Inr (ps, ema))" and
    sp: "reverse_topological_power_sort room_id store F ps ema = Some (Inr (sp, emb))" and
    rs1: "iterative_auth_checks x itk room_id rv store sp ?base emb = Some (Inr (rs1, emc))" and
    ml: "mainline_sort room_id store (filter (\<lambda>eid. eid \<notin> set sp) (it F)) (rs1 POWER_KEY) emc = Some (Inr (ml, emd))" and
    rs2: "iterative_auth_checks x itk room_id rv store ml rs1 emd = Some (Inr (rs2, em1))" and
    r': "r = rs2 ++ map_of unc"
    unfolding resolve_conflicts_def sr_Inr by blast
  have "set (it F) \<subseteq> F" using itF by simp
  from power_events_of_total [OF em this power_events_of_success [OF em this ps]] ps em
  have psF: "set ps \<subseteq> F" and ema: "shows_events store L F ema" using itF by auto
  have emb: "shows_events store L F emb" by (rule ends_keeps [OF ends_power_sort [OF rank room psF] ema sp])
  from power_sort_success [OF rank fin room psF ema sp] auth_closure_subset [OF psF]
  have spF: "set sp \<subseteq> F" by blast
  from iterative_auth_checks_sound [OF rs1 emb]
  have rs1': "\<And>k e. rs1 k = Some e \<Longrightarrow> ?base k = Some e \<or> e \<in> F \<and> admissible x L k e"
    and emc: "shows_events store L F emc" using spF by blast+
  have emd: "shows_events store L F emd"
    by (rule ends_keeps [OF ends_mainline_sort [OF rank] emc ml]) (use itF in auto)
  have mlF: "set ml \<subseteq> F" using set_mainline_sort [OF ml] itF by auto
  from iterative_auth_checks_sound [OF rs2 emd]
  have "\<And>k e. rs2 k = Some e \<Longrightarrow> rs1 k = Some e \<or> e \<in> F \<and> admissible x L k e" using mlF by blast
  moreover have "\<And>k e. ?base k = Some e \<Longrightarrow> map_of unc k = Some e" by (auto split: if_splits)
  ultimately have rs2': "\<And>k e. rs2 k = Some e \<Longrightarrow> map_of unc k = Some e \<or> e \<in> F \<and> admissible x L k e"
    using rs1' by blast
  show "r k = Some eid \<Longrightarrow> map_of unc k = Some eid \<or> map_of unc k = None \<and> eid \<in> F \<and> admissible x L k eid"
    using rs2' [of k eid] unfolding r' map_add_Some_iff by auto
  show "map_of unc k = Some eid \<Longrightarrow> r k = Some eid" by (simp add: r')
qed

text \<open>
  C2: soundness of the resolved state. Every unconflicted entry is kept; every other entry of the
  result is an event of the full conflicted set (the conflicted events and the auth chain
  difference) that belongs to its key, has not been rejected and was accepted by the auth rules
  against events that have not been rejected either.
\<close>

theorem resolved_state_sound:
  assumes wf: "wf_event_map em" and rank: "auth_ranked (view store em) rank"
    and st: "finite_store store" and it: "set_order it" and itk: "set_order itk"
    and r: "resolve_events_with_store x it itk room_id rv state_sets store em = Some (Inr (r, em1))"
    and sep: "seperate itk state_sets = (unconflicted, conflicted)" and k: "r k = Some eid"
  shows "map_of unconflicted k = Some eid
    \<or> map_of unconflicted k = None \<and> admissible x (view store em) k eid
      \<and> (\<exists>d. get_auth_chain_difference it room_id state_sets em store
              (if state_res rv = SR_V2_1 then Some (\<Union>(_, ids) \<in> set conflicted. ids) else None) = Some (Inr d)
           \<and> eid \<in> (\<Union>(_, ids) \<in> set conflicted. ids) \<union> d)"
proof (cases "conflicted = []")
  case True
  with r sep k show ?thesis by (simp add: resolve_events_with_store_def sret_def)
next
  case False
  from resolve_success [OF wf rank st it itk r sep False] show ?thesis
  proof (elim exE conjE, goal_cases)
    case (1 d em2)
    let ?F = "{k \<in> (\<Union>(_, ids) \<in> set conflicted. ids) \<union> d. view store em k \<noteq> None}"
    have "map_of unconflicted k = Some eid \<or> map_of unconflicted k = None \<and> eid \<in> ?F
        \<and> admissible x (view store em) k eid"
      using 1 by (intro resolve_conflicts_sound(1) [OF it _ rank _ 1(3) 1(5) k]) auto
    with 1(1) show ?case by blast
  qed
qed

text \<open>
  Unconflicted state always applies: whatever the conflicts resolve to, the result of a
  resolution has every entry on which the state sets agree.
\<close>

theorem unconflicted_state_kept:
  assumes "resolve_events_with_store x it itk room_id rv state_sets store em = Some (Inr (r, em1))"
    and "state_sets \<noteq> []" and "\<forall>s \<in> set state_sets. dget s k = Some eid" and "set_order itk"
  shows "r k = Some eid"
proof -
  obtain unc con where sep: "seperate itk state_sets = (unc, con)" by fastforce
  have "(\<lambda>s. dget s k) ` set state_sets = {Some eid}" using assms(2,3) by (cases state_sets) auto
  then have k: "map_of unc k = Some eid" using map_of_unconflicted [OF assms(4), of state_sets k eid] sep by simp
  show ?thesis
  proof (cases "con = []")
    case True
    with assms(1) sep k show ?thesis by (simp add: resolve_events_with_store_def sret_def)
  next
    case False
    with assms(1) sep obtain F em2 where "resolve_conflicts x it itk room_id rv store unc F em2 = Some (Inr (r, em1))"
      by (auto simp: resolve_events_with_store_def Let_def sr_Inr split: option.splits)
    then show ?thesis using k by (auto simp: resolve_conflicts_def sr_Inr)
  qed
qed

section \<open>The mainline\<close>

text \<open>The power levels event that comes first among the auth events of an event.\<close>

definition next_power :: "(string \<rightharpoonup> event) \<Rightarrow> string list \<Rightarrow> string option" where
  "next_power L aids = List.find (\<lambda>a. \<exists>e. L a = Some e \<and> key_of e = Inr POWER_KEY) aids"

text \<open>
  The mainline from a power levels event, by following power levels events from auth event to
  auth event, and the depth of an event: the place in the mainline of the first event of its own
  chain that is part of it, 0 if there is none.
\<close>

inductive is_mainline :: "(string \<rightharpoonup> event) \<Rightarrow> string option \<Rightarrow> string list \<Rightarrow> bool" for L where
  end_none: "is_mainline L None []"
| end_empty: "is_mainline L (Some []) []"
| step: "p \<noteq> [] \<Longrightarrow> L p = Some e \<Longrightarrow> is_mainline L (next_power L (ev_auth_event_ids e)) ml
    \<Longrightarrow> is_mainline L (Some p) (p # ml)"

inductive has_depth :: "(string \<rightharpoonup> event) \<Rightarrow> (string \<rightharpoonup> int) \<Rightarrow> event \<Rightarrow> int \<Rightarrow> bool" for L mm where
  on_mainline: "mm (ev_event_id e) = Some d \<Longrightarrow> has_depth L mm e d"
| no_power: "mm (ev_event_id e) = None \<Longrightarrow> next_power L (ev_auth_event_ids e) = None \<Longrightarrow> has_depth L mm e 0"
| up: "mm (ev_event_id e) = None \<Longrightarrow> next_power L (ev_auth_event_ids e) = Some p \<Longrightarrow> L p = Some e'
    \<Longrightarrow> has_depth L mm e' d \<Longrightarrow> has_depth L mm e d"

lemma next_power_Some: "next_power L aids = Some p \<Longrightarrow> \<exists>e. L p = Some e"
  by (auto simp: next_power_def find_Some_iff)

lemma find_power_auth_Inr:
  assumes "find_power_auth room_id store aids em = Some (Inr (f, em'))" and "shows_events store L S em"
  shows "f = map_option (\<lambda>p. (p, the (L p))) (next_power L aids) \<and> shows_events store L S em'"
  using assms
proof (induction aids arbitrary: em)
  case (Cons a aids)
  from Cons.prems(1) obtain ev em1 where ev: "get_event_opt room_id store a em = Some (Inr (ev, em1))"
    and rest: "(case ev of None \<Rightarrow> find_power_auth room_id store aids
       | Some e \<Rightarrow> sbind (sres (key_of e)) (\<lambda>k. if k = POWER_KEY then sret (Some (a, e))
                     else find_power_auth room_id store aids)) em1 = Some (Inr (f, em'))"
    by (auto simp: sbind_Inr)
  from get_event_opt_Inr [OF ev Cons.prems(2)] rest Cons.IH show ?case
    by (auto simp: next_power_def sr_Inr split: option.splits if_splits)
qed (simp add: sret_def next_power_def)

lemma mainline_loop_Inr:
  assumes "mainline_loop room_id store pl acc em = Some (Inr (ml, em'))" and "shows_events store L S em"
  shows "\<exists>ml'. ml = acc @ ml' \<and> is_mainline L pl ml'"
  using assms
proof (induction room_id store pl acc em "Inr (ml, em') :: (string list \<times> emap) res"
    rule: mainline_loop.raw_induct [rotated, consumes 1])
  case (1 f room_id store pl acc em)
  show ?case
  proof (cases "pl = None \<or> pl = Some []")
    case True
    with 1(2) have "ml = acc" by (auto simp: sret_Inr)
    with True show ?thesis by (auto intro: is_mainline.intros)
  next
    case False
    then obtain p where p: "pl = Some p" "p \<noteq> []" by auto
    with 1(2) obtain e em1 g em2 where
      e: "get_event room_id store p em = Some (Inr (e, em1))" and
      g: "find_power_auth room_id store (ev_auth_event_ids e) em1 = Some (Inr (g, em2))" and
      f: "f room_id store (map_option fst g) (acc @ [p]) em2 = Some (Inr (ml, em'))"
      by (auto simp: sr_Inr)
    from get_event_Inr [OF e 1(3)] have L: "L p = Some e" and em1: "shows_events store L S em1" by auto
    from find_power_auth_Inr [OF g em1] have g': "map_option fst g = next_power L (ev_auth_event_ids e)"
      and em2: "shows_events store L S em2" by (auto simp: option.map_comp o_def option.map_ident)
    from 1(1) [OF f em2] g' obtain ml' where "ml = acc @ p # ml'"
      "is_mainline L (next_power L (ev_auth_event_ids e)) ml'" by auto
    with p L show ?thesis by (auto intro: is_mainline.step)
  qed
qed

lemma mainline_depth_loop_Inr:
  assumes "mainline_depth_loop room_id store mm tmp em = Some (Inr (d, em'))" and "shows_events store L S em"
  shows "case tmp of None \<Rightarrow> d = 0 | Some e \<Rightarrow> has_depth L mm e d"
  using assms
proof (induction room_id store mm tmp em "Inr (d, em') :: (int \<times> emap) res"
    rule: mainline_depth_loop.raw_induct [rotated, consumes 1])
  case (1 f room_id store mm tmp em)
  show ?case
  proof (cases tmp)
    case (Some e)
    show ?thesis
    proof (cases "mm (ev_event_id e)")
      case None
      with 1(2) Some obtain g em1 where
        g: "find_power_auth room_id store (ev_auth_event_ids e) em = Some (Inr (g, em1))" and
        f: "f room_id store mm (map_option snd g) em1 = Some (Inr (d, em'))" by (auto simp: sr_Inr)
      from find_power_auth_Inr [OF g 1(3)]
      have g': "map_option snd g = map_option (the \<circ> L) (next_power L (ev_auth_event_ids e))"
        and em1: "shows_events store L S em1" by (auto simp: option.map_comp o_def)
      show ?thesis
      proof (cases "next_power L (ev_auth_event_ids e)")
        case (Some p)
        then obtain e' where "L p = Some e'" using next_power_Some by blast
        with 1(1) [OF f em1] g' None Some \<open>tmp = Some e\<close> show ?thesis
          by (auto intro: has_depth.up)
      qed (use 1(1) [OF f em1] g' None Some in \<open>auto intro: has_depth.no_power\<close>)
    qed (use 1(2) Some in \<open>auto simp: sret_Inr intro: has_depth.on_mainline\<close>)
  qed (use 1(2) in \<open>simp add: sret_Inr\<close>)
qed

lemma mainline_order_Inr:
  assumes "returns store L S (mainline_order store mm eid) k" and "shows_events store L S em"
  shows "\<exists>d. has_depth L mm (the (L eid)) d \<and> k = (d, ev_origin_server_ts (the (L eid)), eid)"
proof -
  from assms obtain em1 where "mainline_order store mm eid em = Some (Inr (k, em1))"
    unfolding returns_def by blast
  then obtain e em2 d em3 where e: "event_map_index eid em = Some (Inr (e, em2))"
    and d: "mainline_depth_loop (ev_room_id e) store mm (Some e) em2 = Some (Inr (d, em3))"
    and k: "k = (d, ev_origin_server_ts e, eid)"
    by (auto simp: mainline_order_def get_mainline_depth_for_event_def sr_Inr)
  from event_map_index_Inr [OF e assms(2)] mainline_depth_loop_Inr [OF d, of L S] k assms(2) show ?thesis
    by auto
qed

text \<open>
  C10: the mainline sort. When it returns, the result is a permutation of its input, sorted by
  the depth of the events in the mainline of the given power levels event, then by timestamp, then
  by event id.
\<close>

theorem mainline_sort_correct:
  assumes em: "shows_events store L (set eids) em" and ne: "eids \<noteq> []"
    and xs: "mainline_sort room_id store eids pl em = Some (Inr (xs, em'))"
  shows "\<exists>ml depth. is_mainline L pl ml
    \<and> (\<forall>eid \<in> set eids. has_depth L (mainline_map_of ml) (the (L eid)) (depth eid))
    \<and> mset xs = mset eids
    \<and> sorted (map (\<lambda>eid. (depth eid, ev_origin_server_ts (the (L eid)), eid)) xs)"
proof -
  let ?S = "set eids"
  from xs ne obtain ml em1 os em2 where
    ml: "mainline_loop room_id store pl [] em = Some (Inr (ml, em1))" and
    os: "smapM (mainline_order store (mainline_map_of ml)) eids em1 = Some (Inr (os, em2))" and
    xs': "xs = sort_key (\<lambda>eid. case dget (zip eids os) eid of Some k \<Rightarrow> k | None \<Rightarrow> (0, 0, eid)) eids"
    by (auto simp: mainline_sort_def sr_Inr Let_def)
  have em1: "shows_events store L ?S em1"
    using transfers_keeps [OF transfers_mainline_loop em ml] by auto
  have "transfers store L ?S (mainline_order store (mainline_map_of ml) eid) (\<lambda>_. ?S)" if "eid \<in> ?S" for eid
    using that by (rule transfers_mainline_order)
  from agreeD(2) [OF smapM_agree [OF this subset_refl] em1 em1 os] obtain v where
    v: "os = map v eids" "\<forall>eid \<in> ?S. returns store L ?S (mainline_order store (mainline_map_of ml) eid) (v eid)"
    by blast
  have "xs = sort_key v eids"
    unfolding xs' v(1) by (rule sort_key_cong) (auto simp: dget_def map_of_zip_map)
  then have sorted: "sorted (map v xs)" "mset xs = mset eids" by auto
  have "\<forall>eid \<in> ?S. \<exists>d. has_depth L (mainline_map_of ml) (the (L eid)) d
      \<and> v eid = (d, ev_origin_server_ts (the (L eid)), eid)"
    using mainline_order_Inr [OF _ em] v(2) by blast
  then obtain depth where depth: "\<forall>eid \<in> ?S. has_depth L (mainline_map_of ml) (the (L eid)) (depth eid)
      \<and> v eid = (depth eid, ev_origin_server_ts (the (L eid)), eid)" by metis
  have "map v xs = map (\<lambda>eid. (depth eid, ev_origin_server_ts (the (L eid)), eid)) xs"
    using depth mset_eq_setD [OF sorted(2)] by auto
  with sorted depth mainline_loop_Inr [OF ml em] show ?thesis by auto
qed

section \<open>The sample conflict resolved\<close>

lemma sample_resolved:
  obtains r em where "resolve_events_with_store sample_ext sorted_list_of_set sorted_list_of_set ''!r:s''
      ROOM_VERSION_V10 sample_state_sets sample_store [] = Some (Inr (r, em))"
    and "r (EventTypes_Member, ''@b:s'') = Some ''$kb''" and "r (''m.room.topic'', '''') = Some ''$t1''"
  using sample_result that by (auto split: option.splits sum.splits)

text \<open>Every event of the sample belongs to the key it is stored under.\<close>

lemma sample_state_keyed:
  "\<forall>s \<in> set sample_state_sets. \<forall>k eid e. dget s k = Some eid \<longrightarrow> view sample_store [] eid = Some e \<longrightarrow> key_of e = Inr k"
proof -
  have "list_all (\<lambda>s. list_all (\<lambda>(k, eid). case st_get_events sample_store eid of None \<Rightarrow> True
      | Some e \<Rightarrow> key_of e = Inr k) s) sample_state_sets" by code_simp
  then show ?thesis
    by (fastforce simp: list_all_iff dget_def view_def dest!: map_of_SomeD split: option.splits)
qed

lemma wf_event_map_Nil: "wf_event_map []"
  by (simp add: wf_event_map_def ids_match_def)

theorem resolution_deterministic_witness:
  "\<exists>r em em'. resolve_events_with_store sample_ext sorted_list_of_set sorted_list_of_set ''!r:s'' ROOM_VERSION_V10
        sample_state_sets sample_store [] = Some (Inr (r, em))
    \<and> resolve_events_with_store sample_ext (rev \<circ> sorted_list_of_set) (rev \<circ> sorted_list_of_set) ''!r:s'' ROOM_VERSION_V10
        sample_state_sets sample_store [] = Some (Inr (r, em'))
    \<and> r (EventTypes_Member, ''@b:s'') = Some ''$kb''"
proof -
  obtain r em where r: "resolve_events_with_store sample_ext sorted_list_of_set sorted_list_of_set ''!r:s''
      ROOM_VERSION_V10 sample_state_sets sample_store [] = Some (Inr (r, em))"
    "r (EventTypes_Member, ''@b:s'') = Some ''$kb''"
    using sample_resolved by metis
  from resolution_deterministic [OF wf_event_map_Nil sample_store_ranked sample_store_finite set_order_sorted
      set_order_rev set_order_sorted set_order_rev sample_state_keyed r(1)] r show ?thesis by blast
qed

theorem resolution_terminates_witness:
  "\<exists>y. resolve_events_with_store sample_ext (rev \<circ> sorted_list_of_set) (rev \<circ> sorted_list_of_set) ''!r:s'' ROOM_VERSION_V12
     sample_state_sets sample_store [] = Some y"
  by (rule resolution_terminates [OF wf_event_map_Nil sample_store_ranked sample_store_finite set_order_rev
      set_order_rev])

theorem resolved_state_sound_witness:
  "\<exists>r em. resolve_events_with_store sample_ext sorted_list_of_set sorted_list_of_set ''!r:s'' ROOM_VERSION_V10
        sample_state_sets sample_store [] = Some (Inr (r, em))
    \<and> r (EventTypes_Member, ''@b:s'') = Some ''$kb''
    \<and> admissible sample_ext (view sample_store []) (EventTypes_Member, ''@b:s'') ''$kb''"
proof -
  obtain r em where r: "resolve_events_with_store sample_ext sorted_list_of_set sorted_list_of_set ''!r:s'' ROOM_VERSION_V10
      sample_state_sets sample_store [] = Some (Inr (r, em))" "r (EventTypes_Member, ''@b:s'') = Some ''$kb''"
    using sample_resolved by metis
  obtain unc con where sep: "seperate sorted_list_of_set sample_state_sets = (unc, con)" by fastforce
  have "map_of (fst (seperate sorted_list_of_set sample_state_sets)) (EventTypes_Member, ''@b:s'') = None" by code_simp
  with resolved_state_sound [OF wf_event_map_Nil sample_store_ranked sample_store_finite set_order_sorted
      set_order_sorted r(1) sep r(2)] sep r show ?thesis by auto
qed

theorem unconflicted_state_kept_witness:
  "\<exists>r em. resolve_events_with_store sample_ext sorted_list_of_set sorted_list_of_set ''!r:s'' ROOM_VERSION_V10
        sample_state_sets sample_store [] = Some (Inr (r, em)) \<and> r CREATE_KEY = Some ''$c''"
proof -
  have "sample_state_sets \<noteq> []" "\<forall>s \<in> set sample_state_sets. dget s CREATE_KEY = Some ''$c''" by code_simp+
  then show ?thesis using unconflicted_state_kept [OF _ _ _ set_order_sorted] sample_resolved by metis
qed

theorem mainline_sort_correct_witness:
  "\<exists>xs em'. mainline_sort ''!r:s'' sample_store [''$t2'', ''$t1''] (Some ''$pl2'')
        [(''$t1'', sample_t1), (''$t2'', sample_t2)] = Some (Inr (xs, em'))
    \<and> mset xs = {#''$t1'', ''$t2''#}"
proof -
  let ?em = "[(''$t1'', sample_t1), (''$t2'', sample_t2)]"
  let ?run = "mainline_sort ''!r:s'' sample_store [''$t2'', ''$t1''] (Some ''$pl2'') ?em"
  have "case ?run of Some (Inr _) \<Rightarrow> True | _ \<Rightarrow> False" by code_simp
  then obtain xs em' where xs: "?run = Some (Inr (xs, em'))" by (auto split: option.splits sum.splits)
  have "shows_events sample_store (view sample_store ?em) (set [''$t2'', ''$t1'']) ?em"
    by (simp add: shows_events_def)
  from mainline_sort_correct [OF this _ xs] xs show ?thesis by auto
qed

text \<open>A store for the auth chain difference, and the topic events as unpersisted.\<close>

definition sample_diff_store :: sr_store where
  "sample_diff_store = \<lparr>st_get_events = map_of (map (\<lambda>e. (ev_event_id e, e)) (take 6 sample_events)),
     st_auth_chain_difference = (\<lambda>_ As _ _. Inr (auth_difference
        (map_of (map (\<lambda>e. (ev_event_id e, e)) (take 6 sample_events))) As, None))\<rparr>"

theorem auth_chain_difference_correct_witness:
  "get_auth_chain_difference sorted_list_of_set ''!r:s'' sample_state_sets
     [(''$t1'', sample_t1), (''$t2'', sample_t2)] sample_diff_store None
   = Some (Inr (auth_difference (view sample_diff_store [(''$t1'', sample_t1), (''$t2'', sample_t2)])
       (map (\<lambda>s. set (map snd s)) sample_state_sets)))"
proof (rule auth_chain_difference_correct)
  let ?em = "[(''$t1'', sample_t1), (''$t2'', sample_t2)]"
  have ids: "ev_event_id sample_t1 = ''$t1''" "ev_event_id sample_t2 = ''$t2''" by code_simp+
  then show "wf_event_map ?em" by (auto simp: wf_event_map_def ids_match_def split: if_splits)
  have "\<forall>e \<in> set sample_events. \<forall>a \<in> set (ev_auth_event_ids e). sample_rank a < sample_rank (ev_event_id e)"
    by code_simp
  then show "auth_ranked (map_of ?em) sample_rank"
    using ids by (auto simp: auth_ranked_def sample_events_def split: if_splits)
  show "store_computes_difference sample_diff_store"
    by (simp add: store_computes_difference_def sample_diff_store_def)
  have "\<forall>e \<in> set (take 6 sample_events). set (ev_auth_event_ids e) \<inter> {''$t1'', ''$t2''} = {}" by code_simp
  then show "persisted_closed sample_diff_store ?em"
    by (auto simp: persisted_closed_def sample_diff_store_def dest!: map_of_SomeD)
  show "sample_state_sets \<noteq> []" by (simp add: sample_state_sets_def)
qed

end
