(* ===== verification/Sha1.thy ===== *)
theory Sha1
  imports Py_Base "HOL-Library.Word"
begin

text \<open>
  \<open>hashlib.sha1(s.encode("utf-8")).hexdigest()\<close>, which \<open>synapse/state/v1.py\<close> uses to break ties
  between events of equal depth: the UTF-8 encoding of a string and the hash of FIPS 180-4 on
  32-bit words. A digest has forty hexadecimal digits (\<open>length_sha1_hexdigest\<close>), and padding gives
  whole blocks, so that no byte of the message is dropped (\<open>sha1_pad_chunks\<close>).
\<close>

unbundle bit_operations_syntax

section \<open>Bytes\<close>

definition utf8_encode :: "string \<Rightarrow> nat list" where
  "utf8_encode s = concat (map (\<lambda>c. let n = of_char c in
      if n < 128 then [n] else [192 + n div 64, 128 + n mod 64]) s)"

text \<open>Big-endian bytes of a number.\<close>

fun be_bytes :: "nat \<Rightarrow> nat \<Rightarrow> nat list" where
  "be_bytes 0 n = []"
| "be_bytes (Suc k) n = be_bytes k (n div 256) @ [n mod 256]"

definition be_word :: "nat list \<Rightarrow> 32 word" where
  "be_word bs = word_of_int (foldl (\<lambda>n b. 256 * n + int b) 0 bs)"

fun chunks_of :: "nat \<Rightarrow> nat \<Rightarrow> 'a list \<Rightarrow> 'a list list" where
  "chunks_of k 0 xs = []"
| "chunks_of k (Suc n) xs = take k xs # chunks_of k n (drop k xs)"

section \<open>The hash\<close>

definition sha1_pad :: "nat list \<Rightarrow> nat list" where
  "sha1_pad bs = bs @ [128] @ replicate ((119 - length bs mod 64) mod 64) 0
                    @ be_bytes 8 (8 * length bs)"

definition rotl :: "nat \<Rightarrow> 32 word \<Rightarrow> 32 word" where
  "rotl n w = push_bit n w OR drop_bit (32 - n) w"

text \<open>The message schedule, latest word first.\<close>

definition sha1_schedule :: "32 word list \<Rightarrow> 32 word list" where
  "sha1_schedule ws =
     fold (\<lambda>t ws. rotl 1 (ws ! 2 XOR ws ! 7 XOR ws ! 13 XOR ws ! 15) # ws) [16..<80] ws"

definition sha1_f :: "nat \<Rightarrow> 32 word \<Rightarrow> 32 word \<Rightarrow> 32 word \<Rightarrow> 32 word" where
  "sha1_f t b c d =
     (if t < 20 then (b AND c) OR (NOT b AND d)
      else if t < 40 then b XOR c XOR d
      else if t < 60 then (b AND c) OR (b AND d) OR (c AND d)
      else b XOR c XOR d)"

definition sha1_k :: "nat \<Rightarrow> 32 word" where
  "sha1_k t = (if t < 20 then 0x5A827999 else if t < 40 then 0x6ED9EBA1
               else if t < 60 then 0x8F1BBCDC else 0xCA62C1D6)"

type_synonym sha1_state = "32 word \<times> 32 word \<times> 32 word \<times> 32 word \<times> 32 word"

fun sha1_rounds :: "nat \<Rightarrow> 32 word list \<Rightarrow> sha1_state \<Rightarrow> sha1_state" where
  "sha1_rounds t [] s = s"
| "sha1_rounds t (w # ws) (a, b, c, d, e) =
     sha1_rounds (Suc t) ws
       (rotl 5 a + sha1_f t b c d + e + sha1_k t + w, a, rotl 30 b, c, d)"

definition sha1_block :: "nat list \<Rightarrow> sha1_state \<Rightarrow> sha1_state" where
  "sha1_block bs h =
     (let ws = rev (sha1_schedule (rev (map be_word (chunks_of 4 16 bs))));
          (a, b, c, d, e) = sha1_rounds 0 ws h;
          (h0, h1, h2, h3, h4) = h
      in (h0 + a, h1 + b, h2 + c, h3 + d, h4 + e))"

definition sha1_init :: sha1_state where
  "sha1_init = (0x67452301, 0xEFCDAB89, 0x98BADCFE, 0x10325476, 0xC3D2E1F0)"

definition sha1 :: "nat list \<Rightarrow> sha1_state" where
  "sha1 bs = (let m = sha1_pad bs in fold sha1_block (chunks_of 64 (length m div 64) m) sha1_init)"

definition hex_digit :: "nat \<Rightarrow> char" where
  "hex_digit n = ''0123456789abcdef'' ! n"

definition hex_word :: "32 word \<Rightarrow> string" where
  "hex_word w = map (\<lambda>i. hex_digit (nat (uint w div 16 ^ (7 - i) mod 16))) [0..<8]"

definition sha1_hexdigest :: "string \<Rightarrow> string" where
  "sha1_hexdigest s = (case sha1 (utf8_encode s) of
      (a, b, c, d, e) \<Rightarrow> concat (map hex_word [a, b, c, d, e]))"

section \<open>Facts\<close>

lemma length_sha1_hexdigest: "length (sha1_hexdigest s) = 40"
  by (simp add: sha1_hexdigest_def hex_word_def split: prod.split)

lemma length_be_bytes [simp]: "length (be_bytes k n) = k"
  by (induction k arbitrary: n) simp_all

text \<open>A padded message is a whole number of blocks, so no byte of it is dropped.\<close>

lemma sha1_pad_blocks: "64 dvd length (sha1_pad bs)"
proof -
  let ?r = "length bs mod 64"
  have "?r < 64" by simp
  then have "(?r + (9 + ((119 - ?r) mod 64))) mod 64 = 0"
    by (cases "?r \<le> 55") (simp_all add: le_mod_geq)
  then have "(length bs + (9 + ((119 - ?r) mod 64))) mod 64 = 0"
    by (simp add: mod_add_left_eq)
  moreover have "length (sha1_pad bs) = length bs + (9 + ((119 - ?r) mod 64))"
    by (simp add: sha1_pad_def)
  ultimately show ?thesis by (metis mod_0_imp_dvd)
qed

lemma concat_chunks_of: "length xs = n * k \<Longrightarrow> concat (chunks_of k n xs) = xs"
  by (induction n arbitrary: xs) simp_all

lemma sha1_pad_chunks:
  "concat (chunks_of 64 (length (sha1_pad bs) div 64) (sha1_pad bs)) = sha1_pad bs"
  by (rule concat_chunks_of) (simp add: dvd_div_mult_self [OF sha1_pad_blocks])

end
