(* ===== verification/State_V1.thy ===== *)
theory State_V1
  imports State_V2 Sha1
begin

text \<open>
  State resolution, algorithm v1, of \<open>synapse/state/v1.py\<close> (rooms of version 1).

  Dictionaries are association lists in insertion order. Python iterates over a set in an
  unspecified order: \<open>it\<close> is the order of a set of event ids and \<open>itk\<close> of a set of state keys.
  \<open>state_map_factory\<close> is an argument, as in the source. A \<open>StopIteration\<close> that leaves the
  coroutine is turned into a \<open>RuntimeError\<close> by the interpreter. The names carry the suffix \<open>v1\<close>
  where \<open>state/v2.py\<close> has a function of the same name.
\<close>

type_synonym conflicts = "(state_key \<times> string set) list"
type_synonym state_events = "(state_key \<times> event) list"

text \<open>\<open>d.update(e)\<close>.\<close>

definition dupdate :: "('k \<times> 'v) list \<Rightarrow> ('k \<times> 'v) list \<Rightarrow> ('k \<times> 'v) list" where
  "dupdate d e = fold (\<lambda>(k, v) d. dset d k v) e d"

section \<open>Conflicted and unconflicted state\<close>

fun seperate_entry :: "state_key \<times> string \<Rightarrow> state_set \<times> conflicts \<Rightarrow> state_set \<times> conflicts" where
  "seperate_entry (key, val) (unconflicted_state, conflicted_state) =
     (case dget unconflicted_state key of
        None \<Rightarrow> (case dget conflicted_state key of
            None \<Rightarrow> (dset unconflicted_state key val, conflicted_state)
          | Some ls \<Rightarrow> (unconflicted_state, dset conflicted_state key (insert val ls)))
      | Some unconflicted_value \<Rightarrow>
          if unconflicted_value \<noteq> val
          then (AList.delete key unconflicted_state, dset conflicted_state key {val, unconflicted_value})
          else (unconflicted_state, conflicted_state))"

fun seperate_v1 :: "state_set list \<Rightarrow> (state_set \<times> conflicts) res" where
  "seperate_v1 [] = Inl PyStopIteration"
| "seperate_v1 (first # state_sets) = Inr (fold seperate_entry (concat state_sets) (first, []))"

section \<open>The order of conflicting events\<close>

definition key_func :: "event \<Rightarrow> int \<times> string" where
  "key_func e = (- ev_depth e, sha1_hexdigest (ev_event_id e))"

definition ordered_events :: "event list \<Rightarrow> event list" where
  "ordered_events events = sort_key key_func events"

section \<open>Choosing one of the conflicting events\<close>

text \<open>
  The loop of \<open>_resolve_auth_events\<close>: the events from the least depth up, each authorised against
  the state that its predecessor has entered.
\<close>

fun resolve_auth_loop :: "ext \<Rightarrow> state_events \<Rightarrow> event \<Rightarrow> event list \<Rightarrow> event res" where
  "resolve_auth_loop x auth_events prev_event [] = Inr prev_event"
| "resolve_auth_loop x auth_events prev_event (event # events) =
     rbind (state_key_of prev_event) (\<lambda>sk.
       let auth_events = dset auth_events (ev_type prev_event, sk) prev_event
       in (case check_state_dependent_auth_rules x event (map snd auth_events) of
             Inr _ \<Rightarrow> resolve_auth_loop x auth_events event events
           | Inl e \<Rightarrow> if is_auth_error e then Inr prev_event else Inl e))"

text \<open>After a loop over no events the variable \<open>event\<close> is unbound.\<close>

definition resolve_auth_events ::
  "ext \<Rightarrow> (state_key set \<Rightarrow> state_key list) \<Rightarrow> room_version \<Rightarrow> event list \<Rightarrow> state_events \<Rightarrow> event res" where
  "resolve_auth_events x itk room_version events auth_events =
     rbind (mapM_res (auth_types_for_event room_version) events) (\<lambda>keys.
       let auth_keys = itk (set (concat keys));
           new_auth_events = List.map_filter
             (\<lambda>key. map_option (Pair key) (dget auth_events key)) auth_keys
       in (case rev (ordered_events events) of
             [] \<Rightarrow> Inl PyIndexError
           | [prev_event] \<Rightarrow> Inl PyNameError
           | prev_event # rest \<Rightarrow> resolve_auth_loop x new_auth_events prev_event rest))"

fun resolve_normal_loop :: "ext \<Rightarrow> state_events \<Rightarrow> event list \<Rightarrow> event res" where
  "resolve_normal_loop x auth_events [] = Inl PyNameError"
| "resolve_normal_loop x auth_events (event # events) =
     (case check_state_dependent_auth_rules x event (map snd auth_events) of
        Inr _ \<Rightarrow> Inr event
      | Inl e \<Rightarrow> if \<not> is_auth_error e then Inl e
                 else if events = [] then Inr event
                 else resolve_normal_loop x auth_events events)"

definition resolve_normal_events :: "ext \<Rightarrow> event list \<Rightarrow> state_events \<Rightarrow> event res" where
  "resolve_normal_events x events auth_events =
     resolve_normal_loop x auth_events (ordered_events events)"

section \<open>The four passes\<close>

text \<open>One of the loops over \<open>conflicted_state\<close>: the entries that \<open>want\<close> selects are resolved.\<close>

definition resolve_pass ::
  "(state_events \<Rightarrow> state_key \<Rightarrow> bool) \<Rightarrow> (event list \<Rightarrow> event res)
     \<Rightarrow> (state_key \<times> event list) list \<Rightarrow> state_events \<Rightarrow> state_events res" where
  "resolve_pass want resolve conflicted_state = foldM_res (\<lambda>(key, events) resolved_state.
     if want resolved_state key
     then rbind (resolve events) (\<lambda>e. Inr (dset resolved_state key e))
     else Inr resolved_state) conflicted_state"

definition resolve_state_events ::
  "ext \<Rightarrow> (state_key set \<Rightarrow> state_key list) \<Rightarrow> room_version \<Rightarrow> (state_key \<times> event list) list
     \<Rightarrow> state_events \<Rightarrow> state_events res" where
  "resolve_state_events x itk room_version conflicted_state auth_events =
     rbind (case dget conflicted_state POWER_KEY of
              None \<Rightarrow> Inr []
            | Some events \<Rightarrow> rbind (resolve_auth_events x itk room_version events auth_events)
                (\<lambda>e. Inr [(POWER_KEY, e)])) (\<lambda>resolved_state.
     let auth_events = dupdate auth_events resolved_state in
     rbind (resolve_pass (\<lambda>_ key. fst key = EventTypes_JoinRules)
              (\<lambda>events. resolve_auth_events x itk room_version events auth_events)
              conflicted_state resolved_state) (\<lambda>resolved_state.
     let auth_events = dupdate auth_events resolved_state in
     rbind (resolve_pass (\<lambda>_ key. fst key = EventTypes_Member)
              (\<lambda>events. resolve_auth_events x itk room_version events auth_events)
              conflicted_state resolved_state) (\<lambda>resolved_state.
     let auth_events = dupdate auth_events resolved_state in
     resolve_pass (\<lambda>resolved_state key. \<not> dhas resolved_state key)
       (\<lambda>events. resolve_normal_events x events auth_events)
       conflicted_state resolved_state)))"

section \<open>The whole resolution\<close>

text \<open>The auth events of the conflicted events, picked from the unconflicted state.\<close>

definition create_auth_events_from_maps ::
  "(string set \<Rightarrow> string list) \<Rightarrow> room_version \<Rightarrow> state_set \<Rightarrow> conflicts \<Rightarrow> emap \<Rightarrow> state_set res" where
  "create_auth_events_from_maps it room_version unconflicted_state conflicted_state state_map =
     foldM_res (\<lambda>event_id auth_events. case dget state_map event_id of
         None \<Rightarrow> Inr auth_events
       | Some event \<Rightarrow> rbind (auth_types_for_event room_version event) (\<lambda>keys.
           Inr (fold (\<lambda>key auth_events. if dhas auth_events key then auth_events
               else (case dget unconflicted_state key of
                       None \<Rightarrow> auth_events
                     | Some auth_event_id \<Rightarrow> if auth_event_id \<noteq> []
                         then dset auth_events key auth_event_id else auth_events)) keys auth_events)))
       (concat (map (it \<circ> snd) conflicted_state)) []"

text \<open>
  The first loop of \<open>_resolve_with_state\<close>: a key with more than one known event stays in
  conflict, a key with one known event is settled.
\<close>

definition known_events :: "(string set \<Rightarrow> string list) \<Rightarrow> emap \<Rightarrow> string set \<Rightarrow> event list" where
  "known_events it state_map event_ids = List.map_filter (dget state_map) (it event_ids)"

definition settle_conflicts ::
  "(string set \<Rightarrow> string list) \<Rightarrow> emap \<Rightarrow> conflicts \<Rightarrow> state_set
     \<Rightarrow> state_set \<times> (state_key \<times> event list) list" where
  "settle_conflicts it state_map conflicted_state_ids unconflicted_state_ids =
     fold (\<lambda>(key, event_ids) (unconflicted, conflicted).
       let events = known_events it state_map event_ids in
       if 1 < length events then (unconflicted, dset conflicted key events)
       else (case events of
               [e] \<Rightarrow> (dset unconflicted key (ev_event_id e), conflicted)
             | _ \<Rightarrow> (unconflicted, conflicted)))
       conflicted_state_ids (unconflicted_state_ids, [])"

definition resolve_with_state ::
  "ext \<Rightarrow> (string set \<Rightarrow> string list) \<Rightarrow> (state_key set \<Rightarrow> state_key list) \<Rightarrow> room_version
     \<Rightarrow> state_set \<Rightarrow> conflicts \<Rightarrow> state_set \<Rightarrow> emap \<Rightarrow> state_set res" where
  "resolve_with_state x it itk room_version unconflicted_state_ids conflicted_state_ids auth_event_ids state_map =
     (let (unconflicted, conflicted_state) =
            settle_conflicts it state_map conflicted_state_ids unconflicted_state_ids;
          auth_events = List.map_filter
            (\<lambda>(key, ev_id). map_option (Pair key) (dget state_map ev_id)) auth_event_ids
      in rbind (resolve_state_events x itk room_version conflicted_state auth_events)
           (\<lambda>resolved_state. Inr (dupdate unconflicted
              (map (\<lambda>(key, event). (key, ev_event_id event)) resolved_state))))"

text \<open>Everything in a state map should be in the right room.\<close>

definition check_room :: "string \<Rightarrow> emap \<Rightarrow> unit res" where
  "check_room room_id state_map =
     forM_res (\<lambda>(_, event). raise_if (ev_room_id event \<noteq> room_id) PyException) state_map"

definition stop_iteration_escapes :: "'a res \<Rightarrow> 'a res" where
  "stop_iteration_escapes r = (case r of Inl PyStopIteration \<Rightarrow> Inl PyRuntimeError | _ \<Rightarrow> r)"

definition event_map_ids :: "emap option \<Rightarrow> string set" where
  "event_map_ids event_map = (case event_map of None \<Rightarrow> {} | Some em \<Rightarrow> set (map fst em))"

definition resolve_events_with_store_v1 ::
  "ext \<Rightarrow> (string set \<Rightarrow> string list) \<Rightarrow> (state_key set \<Rightarrow> state_key list) \<Rightarrow> string \<Rightarrow> room_version
     \<Rightarrow> state_set list \<Rightarrow> emap option \<Rightarrow> (string set \<Rightarrow> emap res) \<Rightarrow> state_set res" where
  "resolve_events_with_store_v1 x it itk room_id room_version state_sets event_map state_map_factory =
     (case state_sets of
        [s] \<Rightarrow> Inr s
      | _ \<Rightarrow>
       stop_iteration_escapes (
       rbind (seperate_v1 state_sets) (\<lambda>(unconflicted_state, conflicted_state).
       let needed_events = (\<Union>(_, ids) \<in> set conflicted_state. ids) - event_map_ids event_map in
       rbind (state_map_factory needed_events) (\<lambda>state_map.
       let state_map = (case event_map of None \<Rightarrow> state_map | Some em \<Rightarrow> dupdate state_map em) in
       rbind (check_room room_id state_map) (\<lambda>_.
       rbind (create_auth_events_from_maps it room_version unconflicted_state conflicted_state state_map)
         (\<lambda>auth_events.
       let new_needed_events = set (map snd auth_events) - needed_events - event_map_ids event_map in
       rbind (state_map_factory new_needed_events) (\<lambda>state_map_new.
       rbind (check_room room_id state_map_new) (\<lambda>_.
       resolve_with_state x it itk room_version unconflicted_state conflicted_state auth_events
         (dupdate state_map state_map_new)))))))))"

end
