(* ===== verification/State_V1_Props.thy ===== *)
theory State_V1_Props
  imports State_V2_Sound State_V1
begin

text \<open>
  What state resolution v1 returns: the split of the state, the event chosen among conflicting
  ones, that a resolved state only has entries of the state sets and keeps what they agree on, and
  that the iteration order of Python sets does not show in it.
\<close>

section \<open>Dictionaries\<close>

lemma map_of_dupdate [simp]: "map_of (dupdate d e) = map_of d ++ map_of (rev e)"
  by (induction e arbitrary: d) (auto simp: dupdate_def map_add_assoc [symmetric] fun_eq_iff)

lemma distinct_dupdate: "distinct (map fst d) \<Longrightarrow> distinct (map fst (dupdate d e))"
  by (induction e arbitrary: d) (auto simp: dupdate_def)

section \<open>The split of the state\<close>

text \<open>The events that the state sets have at a key, and what the split makes of them.\<close>

definition vals_at :: "state_set list \<Rightarrow> state_key \<Rightarrow> string set" where
  "vals_at state_sets k = {e. \<exists>s \<in> set state_sets. dget s k = Some e}"

definition split_at :: "string set \<Rightarrow> string option \<Rightarrow> string set option \<Rightarrow> bool" where
  "split_at V u c \<longleftrightarrow>
     (V = {} \<and> u = None \<and> c = None) \<or> (\<exists>v. V = {v} \<and> u = Some v \<and> c = None)
     \<or> ((\<exists>v \<in> V. \<exists>w \<in> V. v \<noteq> w) \<and> u = None \<and> c = Some V)"

lemma seperate_entry_split:
  assumes "seperate_entry (k, v) (unc, con) = (unc', con')"
    and "\<And>k. split_at (V k) (map_of unc k) (map_of con k)"
  shows "split_at (if k' = k then insert v (V k') else V k') (map_of unc' k') (map_of con' k')"
  using assms(1) assms(2) [of k'] assms(2) [of k]
  by (fastforce simp: split_at_def dget_def delete_conv' split: option.splits if_splits)

lemma seperate_fold_split:
  assumes "fold seperate_entry es (unc, con) = (unc', con')"
    and "\<And>k. split_at (V k) (map_of unc k) (map_of con k)"
  shows "split_at (V k \<union> {v. (k, v) \<in> set es}) (map_of unc' k) (map_of con' k)"
  using assms
proof (induction es arbitrary: unc con V)
  case (Cons e es)
  obtain ke ve where e: "e = (ke, ve)" by fastforce
  obtain u1 c1 where step: "seperate_entry (ke, ve) (unc, con) = (u1, c1)" by fastforce
  let ?V = "\<lambda>k. if k = ke then insert ve (V k) else V k"
  have "split_at (?V k \<union> {v. (k, v) \<in> set es}) (map_of unc' k) (map_of con' k)"
  proof (rule Cons.IH)
    show "fold seperate_entry es (u1, c1) = (unc', con')" using Cons.prems(1) step e by simp
  qed (rule seperate_entry_split [OF step Cons.prems(2)])
  moreover have "?V k \<union> {v. (k, v) \<in> set es} = V k \<union> {v. (k, v) \<in> set (e # es)}" using e by auto
  ultimately show ?case by simp
qed simp

lemma seperate_v1_split:
  assumes "state_sets \<noteq> []" and "\<forall>s \<in> set state_sets. distinct (map fst s)"
  obtains unc con where "seperate_v1 state_sets = Inr (unc, con)"
    and "\<And>k. split_at (vals_at state_sets k) (map_of unc k) (map_of con k)"
proof -
  obtain s ss where ss: "state_sets = s # ss" using assms(1) by (cases state_sets) auto
  obtain unc con where f: "fold seperate_entry (concat ss) (s, []) = (unc, con)" by fastforce
  have V: "vals_at state_sets k = set_option (map_of s k) \<union> {v. (k, v) \<in> set (concat ss)}" for k
    using assms(2) by (auto simp: vals_at_def ss dget_def)
  have "split_at (vals_at state_sets k) (map_of unc k) (map_of con k)" for k
    unfolding V
  proof (rule seperate_fold_split [OF f, where V = "\<lambda>k. set_option (map_of s k)"])
    fix k show "split_at (set_option (map_of s k)) (map_of s k) (map_of [] k)"
      by (cases "map_of s k") (simp_all add: split_at_def)
  qed
  with f ss that show thesis by simp
qed

lemma seperate_v1_splitD:
  assumes "seperate_v1 state_sets = Inr (unc, con)" and "\<forall>s \<in> set state_sets. distinct (map fst s)"
  shows "split_at (vals_at state_sets k) (map_of unc k) (map_of con k)"
proof -
  from assms(1) have "state_sets \<noteq> []" by auto
  from seperate_v1_split [OF this assms(2)] assms(1) show ?thesis by (metis Inr_inject Pair_inject)
qed

lemma split_at_unconflicted: "split_at V u c \<Longrightarrow> u = Some e \<longleftrightarrow> V = {e}"
  by (auto simp: split_at_def)

lemma split_at_conflicted: "split_at V u c \<Longrightarrow> c = Some es \<longleftrightarrow> es = V \<and> (\<exists>e \<in> es. \<exists>e' \<in> es. e \<noteq> e')"
  by (auto simp: split_at_def)

lemma seperate_entry_distinct:
  "distinct (map fst con) \<Longrightarrow> distinct (map fst (snd (seperate_entry e (unc, con))))"
  by (cases e) (auto split: option.splits)

lemma seperate_fold_distinct:
  "distinct (map fst (snd p)) \<Longrightarrow> distinct (map fst (snd (fold seperate_entry es p)))"
  by (induction es arbitrary: p) (auto simp: seperate_entry_distinct [of "snd p" _ "fst p" for p, simplified])

lemma seperate_v1_distinct:
  "seperate_v1 state_sets = Inr (unc, con) \<Longrightarrow> distinct (map fst con)"
  using seperate_fold_distinct [of "(hd state_sets, [])" "concat (tl state_sets)"]
  by (cases state_sets) auto

section \<open>The chosen event\<close>

definition accepts :: "ext \<Rightarrow> state_events \<Rightarrow> event \<Rightarrow> bool" where
  "accepts x auth_events e \<longleftrightarrow> check_state_dependent_auth_rules x e (map snd auth_events) = Inr ()"

lemma accepts_cases:
  obtains "accepts x a e" and "check_state_dependent_auth_rules x e (map snd a) = Inr ()"
  | err where "\<not> accepts x a e" and "check_state_dependent_auth_rules x e (map snd a) = Inl err"
  by (cases "check_state_dependent_auth_rules x e (map snd a)") (auto simp: accepts_def)

lemma resolve_normal_loop_picks:
  assumes "resolve_normal_loop x a es = Inr e"
  shows "\<exists>pre post. es = pre @ e # post \<and> (\<forall>e' \<in> set pre. \<not> accepts x a e') \<and> (accepts x a e \<or> post = [])"
  using assms
proof (induction es)
  case (Cons f es)
  show ?case
  proof (cases rule: accepts_cases [of x a f])
    case 1
    with Cons.prems show ?thesis by force
  next
    case (2 err)
    show ?thesis
    proof (cases "es = []")
      case True
      with 2 Cons.prems show ?thesis by (force split: if_splits)
    next
      case False
      with 2 Cons.prems have "resolve_normal_loop x a es = Inr e" by (auto split: if_splits)
      from Cons.IH [OF this] obtain pre post where
        "es = pre @ e # post" "\<forall>e' \<in> set pre. \<not> accepts x a e'" "accepts x a e \<or> post = []" by blast
      with 2(1) show ?thesis by (intro exI [of _ "f # pre"] exI [of _ post]) auto
    qed
  qed
qed simp

lemma ordered_events_set [simp]: "set (ordered_events es) = set es"
  by (simp add: ordered_events_def)

lemma ordered_events_split:
  assumes "ordered_events es = pre @ e # post"
  shows "e' \<in> set pre \<Longrightarrow> key_func e' \<le> key_func e" and "e' \<in> set post \<Longrightarrow> key_func e \<le> key_func e'"
proof -
  have "sorted (map key_func (pre @ e # post))"
    using sorted_sort_key [of key_func es] assms unfolding ordered_events_def by (simp only:)
  then show "e' \<in> set pre \<Longrightarrow> key_func e' \<le> key_func e" "e' \<in> set post \<Longrightarrow> key_func e \<le> key_func e'"
    by (auto simp: sorted_append)
qed

lemma resolve_normal_events_in: "resolve_normal_events x es a = Inr e \<Longrightarrow> e \<in> set es"
  using resolve_normal_loop_picks [of x a "ordered_events es" e] ordered_events_set [of es]
  by (auto simp: resolve_normal_events_def simp del: ordered_events_set)

lemma resolve_auth_loop_step:
  assumes "resolve_auth_loop x a p (f # es) = Inr e"
  obtains sk where "state_key_of p = Inr sk" and "accepts x (dset a (ev_type p, sk) p) f"
      and "resolve_auth_loop x (dset a (ev_type p, sk) p) f es = Inr e"
  | sk where "state_key_of p = Inr sk" and "\<not> accepts x (dset a (ev_type p, sk) p) f" and "e = p"
proof -
  from assms obtain sk where sk: "state_key_of p = Inr sk" by (auto simp: rbind_Inr_iff)
  show thesis
  proof (cases rule: accepts_cases [of x "dset a (ev_type p, sk) p" f])
    case 1
    with assms sk that(1) show ?thesis by (simp add: Let_def)
  next
    case (2 err)
    with assms sk that(2) show ?thesis by (simp add: Let_def split: if_splits)
  qed
qed

lemma resolve_auth_loop_in: "resolve_auth_loop x a p es = Inr e \<Longrightarrow> e \<in> insert p (set es)"
proof (induction es arbitrary: a p)
  case (Cons f es)
  from Cons.prems show ?case by (rule resolve_auth_loop_step) (auto dest: Cons.IH)
qed simp

lemma resolve_auth_events_Inr:
  assumes "resolve_auth_events x itk rv es a = Inr e"
  obtains keys p q ps where "mapM_res (auth_types_for_event rv) es = Inr keys"
    and "rev (ordered_events es) = p # q # ps"
    and "resolve_auth_loop x (List.map_filter (\<lambda>key. map_option (Pair key) (dget a key))
           (itk (set (concat keys)))) p (q # ps) = Inr e"
proof -
  from assms obtain keys where k: "mapM_res (auth_types_for_event rv) es = Inr keys"
    by (auto simp: resolve_auth_events_def rbind_Inr_iff)
  note eq = assms [unfolded resolve_auth_events_def k rbind_simps Let_def]
  show thesis
  proof (cases "rev (ordered_events es)")
    case Nil
    with eq show ?thesis by simp
  next
    case (Cons p qs)
    with eq that [OF k] show ?thesis by (cases qs) (simp_all del: resolve_auth_loop.simps)
  qed
qed

lemma resolve_auth_events_in:
  assumes "resolve_auth_events x itk rv es a = Inr e"
  shows "e \<in> set es"
proof -
  from assms obtain a' p qs where "rev (ordered_events es) = p # qs" "resolve_auth_loop x a' p qs = Inr e"
    by (rule resolve_auth_events_Inr) blast
  with resolve_auth_loop_in [of x a' p qs e] have "e \<in> set (rev (ordered_events es))" by simp
  then show ?thesis by simp
qed

section \<open>The passes\<close>

text \<open>The resolved entries are events of the conflict at their key.\<close>

definition entries_of :: "(state_key \<times> event list) list \<Rightarrow> state_events \<Rightarrow> bool" where
  "entries_of con r \<longleftrightarrow> distinct (map fst r)
     \<and> (\<forall>k e. map_of r k = Some e \<longrightarrow> (\<exists>es. (k, es) \<in> set con \<and> e \<in> set es))"

lemma entries_of_dset:
  assumes "entries_of con r" and "(k, es) \<in> set con" and "e \<in> set es"
  shows "entries_of con (dset r k e)"
  using assms unfolding entries_of_def by (auto split: if_splits)

lemma resolve_pass_Cons [simp]:
  "resolve_pass want f [] r = Inr r"
  "resolve_pass want f ((k, es) # con) r = rbind
     (if want r k then rbind (f es) (\<lambda>e. Inr (dset r k e)) else Inr r) (resolve_pass want f con)"
  by (simp_all add: resolve_pass_def)

lemma resolve_pass_entries:
  assumes "resolve_pass want f con r = Inr r'" and "entries_of con r"
    and "\<And>es e. f es = Inr e \<Longrightarrow> e \<in> set es"
  shows "entries_of con r'"
  using assms(1,2) unfolding resolve_pass_def
  by (rule foldM_res_invariant)
    (auto simp: rbind_Inr_iff split: if_splits intro!: entries_of_dset [OF _ _ assms(3)])

lemma dhas_dset [simp]: "dhas (dset d k v) k' \<longleftrightarrow> k' = k \<or> dhas d k'"
  by (simp add: dhas_def)

lemma resolve_pass_grows:
  assumes "resolve_pass want f con r = Inr r'" and "dhas r k"
  shows "dhas r' k"
  using assms unfolding resolve_pass_def
  by (rule foldM_res_invariant) (auto simp: rbind_Inr_iff split: if_splits)

text \<open>The last pass leaves no conflict open.\<close>

lemma last_pass_complete:
  assumes "resolve_pass (\<lambda>r k. \<not> dhas r k) f con r = Inr r'" and "k \<in> fst ` set con"
  shows "dhas r' k"
  using assms
proof (induction con arbitrary: r)
  case (Cons c con)
  obtain kc es where c: "c = (kc, es)" by fastforce
  from Cons.prems(1) obtain r1 where r1: "dhas r1 kc" "resolve_pass (\<lambda>r k. \<not> dhas r k) f con r1 = Inr r'"
    by (cases "dhas r kc") (auto simp: c rbind_Inr_iff, metis dhas_dset)
  with Cons.IH [OF r1(2)] resolve_pass_grows [OF r1(2) r1(1)] Cons.prems(2) show ?case by (auto simp: c)
qed simp

lemma resolve_state_events_entries:
  assumes "resolve_state_events x itk rv con a = Inr r"
  shows "entries_of con r" and "k \<in> fst ` set con \<Longrightarrow> dhas r k"
proof -
  from assms obtain r0 a1 r1 a2 r2 a3 where
    p0: "(case dget con POWER_KEY of None \<Rightarrow> Inr []
            | Some events \<Rightarrow> rbind (resolve_auth_events x itk rv events a) (\<lambda>e. Inr [(POWER_KEY, e)])) = Inr r0"
    and p1: "resolve_pass (\<lambda>_ key. fst key = EventTypes_JoinRules)
               (\<lambda>events. resolve_auth_events x itk rv events a1) con r0 = Inr r1"
    and p2: "resolve_pass (\<lambda>_ key. fst key = EventTypes_Member)
               (\<lambda>events. resolve_auth_events x itk rv events a2) con r1 = Inr r2"
    and p3: "resolve_pass (\<lambda>r key. \<not> dhas r key) (\<lambda>events. resolve_normal_events x events a3) con r2 = Inr r"
    unfolding resolve_state_events_def by (auto simp: rbind_Inr_iff Let_def)
  have "entries_of con r0"
    using p0 resolve_auth_events_in
    by (fastforce simp: entries_of_def rbind_Inr_iff dget_def split: option.splits dest: map_of_SomeD)
  with resolve_pass_entries [OF p1] have "entries_of con r1" using resolve_auth_events_in by blast
  with resolve_pass_entries [OF p2] have "entries_of con r2" using resolve_auth_events_in by blast
  with resolve_pass_entries [OF p3] show "entries_of con r" using resolve_normal_events_in by blast
  show "k \<in> fst ` set con \<Longrightarrow> dhas r k" by (rule last_pass_complete [OF p3])
qed

section \<open>The resolved state\<close>

text \<open>The conflicts with one known event, and those with more, as the first loop splits them.\<close>

definition single_events :: "(string set \<Rightarrow> string list) \<Rightarrow> emap \<Rightarrow> conflicts \<Rightarrow> state_set" where
  "single_events it sm con = List.map_filter (\<lambda>(k, ids). case known_events it sm ids of
      [e] \<Rightarrow> Some (k, ev_event_id e) | _ \<Rightarrow> None) con"

definition open_conflicts ::
  "(string set \<Rightarrow> string list) \<Rightarrow> emap \<Rightarrow> conflicts \<Rightarrow> (state_key \<times> event list) list" where
  "open_conflicts it sm con = List.map_filter (\<lambda>(k, ids).
      if 1 < length (known_events it sm ids) then Some (k, known_events it sm ids) else None) con"

lemma settle_conflicts_split:
  assumes "distinct (map fst con)"
  shows "settle_conflicts it sm con unc = (dupdate unc (single_events it sm con), open_conflicts it sm con)"
proof -
  have "fold (\<lambda>(key, event_ids) (unconflicted, conflicted).
       let events = known_events it sm event_ids in
       if 1 < length events then (unconflicted, dset conflicted key events)
       else (case events of
               [e] \<Rightarrow> (dset unconflicted key (ev_event_id e), conflicted)
             | _ \<Rightarrow> (unconflicted, conflicted))) con (unc, acc)
     = (dupdate unc (single_events it sm con), acc @ open_conflicts it sm con)"
    if "fst ` set acc \<inter> fst ` set con = {}" for acc
    using assms that
  proof (induction con arbitrary: unc acc)
    case Nil
    then show ?case by (simp add: dupdate_def single_events_def open_conflicts_def map_filter_simps)
  next
    case (Cons c con)
    obtain k ids where c: "c = (k, ids)" by fastforce
    have fresh: "dset acc k es = acc @ [(k, es)]" for es
      using Cons.prems by (intro dset_fresh) (auto simp: c)
    have disj: "fst ` set (acc @ [(k, es)]) \<inter> fst ` set con = {}" "fst ` set acc \<inter> fst ` set con = {}" for es :: "event list"
      using Cons.prems by (auto simp: c)
    show ?case
      using Cons.prems(1) Cons.IH [OF _ disj(1)] Cons.IH [OF _ disj(2)]
      by (cases "known_events it sm ids" rule: remdups_adj.cases)
        (simp_all add: c fresh Let_def dupdate_def single_events_def open_conflicts_def map_filter_simps)
  qed
  from this [of "[]"] show ?thesis by (simp add: settle_conflicts_def)
qed

lemma single_events_iff:
  "(k, eid) \<in> set (single_events it sm con) \<longleftrightarrow>
     (\<exists>ids e. (k, ids) \<in> set con \<and> known_events it sm ids = [e] \<and> eid = ev_event_id e)"
  by (force simp: single_events_def map_filter_def split: list.splits)

lemma open_conflicts_iff:
  "(k, es) \<in> set (open_conflicts it sm con) \<longleftrightarrow>
     (\<exists>ids. (k, ids) \<in> set con \<and> es = known_events it sm ids \<and> 1 < length es)"
  by (force simp: open_conflicts_def map_filter_def split: if_splits)

lemma known_events_id:
  assumes "set_order it" and "finite ids" and "\<And>n e. dget sm n = Some e \<Longrightarrow> ev_event_id e = n"
    and "e \<in> set (known_events it sm ids)"
  shows "ev_event_id e \<in> ids"
  using assms set_orderD(1) [OF assms(1,2)] by (auto simp: known_events_def map_filter_def)

text \<open>A dictionary of events, keyed by their ids.\<close>

definition keyed_by_id :: "emap \<Rightarrow> bool" where
  "keyed_by_id em \<longleftrightarrow> (\<forall>n e. dget em n = Some e \<longrightarrow> ev_event_id e = n)"

lemma resolve_with_state_entries:
  assumes r: "resolve_with_state x it itk rv unc con auth sm = Inr r" and con: "distinct (map fst con)"
    and it: "set_order it" and fin: "\<forall>k ids. map_of con k = Some ids \<longrightarrow> finite ids"
    and ids: "keyed_by_id sm"
  shows "map_of con k = None \<Longrightarrow> map_of r k = map_of unc k"
    and "map_of con k = Some vs \<Longrightarrow> map_of r k = Some eid \<Longrightarrow> eid \<in> vs \<or> map_of unc k = Some eid"
proof -
  let ?con = "open_conflicts it sm con" and ?one = "single_events it sm con"
  from r obtain res a where res: "resolve_state_events x itk rv ?con a = Inr res"
    and r': "r = dupdate (dupdate unc ?one) (map (\<lambda>(key, event). (key, ev_event_id event)) res)"
    by (auto simp: resolve_with_state_def settle_conflicts_split [OF con] rbind_Inr_iff)
  have ent: "entries_of ?con res" by (rule resolve_state_events_entries(1) [OF res])
  have res_map: "map_of (rev (map (\<lambda>(key, event). (key, ev_event_id event)) res)) = map_option ev_event_id \<circ> map_of res"
    using ent by (simp add: entries_of_def rev_map map_of_rev map_of_map comp_def)
  have con_iff: "(k, ids) \<in> set con \<longleftrightarrow> map_of con k = Some ids" for k ids using con by simp
  have known: "ev_event_id e \<in> vs" if "map_of con k = Some vs" "e \<in> set (known_events it sm vs)" for k vs e
    using known_events_id [OF it fin [rule_format, OF that(1)] ids [unfolded keyed_by_id_def, rule_format] that(2)] .
  have one: "\<exists>ids. map_of con k = Some ids \<and> eid \<in> ids" if "map_of (rev ?one) k = Some eid" for eid
  proof -
    from map_of_SomeD [OF that] obtain ids e where "map_of con k = Some ids"
      "known_events it sm ids = [e]" "eid = ev_event_id e" by (auto simp: single_events_iff con_iff)
    with known [of k ids e] show ?thesis by simp
  qed
  have many: "\<exists>ids. map_of con k = Some ids \<and> ev_event_id e \<in> ids" if "map_of res k = Some e" for e
  proof -
    from that ent obtain ids where "map_of con k = Some ids" "e \<in> set (known_events it sm ids)"
      unfolding entries_of_def open_conflicts_iff con_iff by blast
    with known [of k ids e] show ?thesis by simp
  qed
  have rk: "map_of r k = (case map_of res k of Some e \<Rightarrow> Some (ev_event_id e) | None \<Rightarrow>
      (case map_of (rev ?one) k of Some eid \<Rightarrow> Some eid | None \<Rightarrow> map_of unc k))"
    unfolding r' map_of_dupdate res_map by (simp add: map_add_def split: option.splits)
  show "map_of con k = None \<Longrightarrow> map_of r k = map_of unc k"
    using one many unfolding rk by (auto split: option.splits)
  show "map_of con k = Some vs \<Longrightarrow> map_of r k = Some eid \<Longrightarrow> eid \<in> vs \<or> map_of unc k = Some eid"
    using one many unfolding rk by (auto split: option.splits)
qed

lemma stop_iteration_escapes_Inr [simp]: "stop_iteration_escapes r = Inr y \<longleftrightarrow> r = Inr y"
  by (auto simp: stop_iteration_escapes_def split: sum.splits exn.splits)

lemma keyed_by_id_dupdate:
  assumes "keyed_by_id d" and "keyed_by_id e" and "distinct (map fst e)"
  shows "keyed_by_id (dupdate d e)"
  using assms by (auto simp: keyed_by_id_def dget_def map_of_rev)

text \<open>\<open>state_map_factory\<close> and \<open>event_map\<close> hold dictionaries keyed by event ids.\<close>

definition wf_sources :: "emap option \<Rightarrow> (string set \<Rightarrow> emap res) \<Rightarrow> bool" where
  "wf_sources event_map factory \<longleftrightarrow>
     (\<forall>em. event_map = Some em \<longrightarrow> keyed_by_id em \<and> distinct (map fst em))
     \<and> (\<forall>ids em. factory ids = Inr em \<longrightarrow> keyed_by_id em \<and> distinct (map fst em))"

lemma resolve_v1_Inr:
  assumes "resolve_events_with_store_v1 x it itk room_id rv state_sets event_map factory = Inr r"
    and "length state_sets \<noteq> 1" and "wf_sources event_map factory"
  obtains unc con auth sm where "seperate_v1 state_sets = Inr (unc, con)"
    and "resolve_with_state x it itk rv unc con auth sm = Inr r" and "keyed_by_id sm"
proof -
  let ?sm = "\<lambda>sm. case event_map of None \<Rightarrow> sm | Some em \<Rightarrow> dupdate sm em"
  from assms(1,2) obtain unc con sm auth new ids ids' where
    "seperate_v1 state_sets = Inr (unc, con)" "factory ids = Inr sm" "factory ids' = Inr new"
    "resolve_with_state x it itk rv unc con auth (dupdate (?sm sm) new) = Inr r"
    unfolding resolve_events_with_store_v1_def
    by (auto simp: rbind_Inr_iff Let_def split: list.splits prod.splits)
  moreover from calculation assms(3) have "keyed_by_id (dupdate (?sm sm) new)"
    by (auto simp: wf_sources_def split: option.splits intro!: keyed_by_id_dupdate)
  ultimately show thesis using that by blast
qed

text \<open>
  The split of algorithm v1. A key is unconflicted when all the state sets that have it agree
  on its event, and conflicted, with all its events, when two of them have different events. Unlike
  in algorithm v2, a key that some state sets lack is no conflict.
\<close>

theorem seperate_v1_correct:
  assumes "state_sets \<noteq> []" and "\<forall>s \<in> set state_sets. distinct (map fst s)"
  shows "\<exists>unc con. seperate_v1 state_sets = Inr (unc, con)
    \<and> (\<forall>k e. map_of unc k = Some e \<longleftrightarrow> {e'. \<exists>s \<in> set state_sets. dget s k = Some e'} = {e})
    \<and> (\<forall>k es. map_of con k = Some es \<longleftrightarrow>
          es = {e'. \<exists>s \<in> set state_sets. dget s k = Some e'} \<and> (\<exists>e \<in> es. \<exists>e' \<in> es. e \<noteq> e'))"
proof -
  obtain unc con where sep: "seperate_v1 state_sets = Inr (unc, con)"
    and split: "split_at (vals_at state_sets k) (map_of unc k) (map_of con k)" for k
    using seperate_v1_split [OF assms] by metis
  from sep split_at_unconflicted [OF split] split_at_conflicted [OF split] show ?thesis
    unfolding vals_at_def by blast
qed

lemma vals_at_finite [simp]: "finite (vals_at state_sets k)"
proof -
  have "vals_at state_sets k \<subseteq> (\<Union>s \<in> set state_sets. set_option (dget s k))"
    by (force simp: vals_at_def)
  moreover have "finite (set_option u)" for u :: "string option" by (cases u) simp_all
  ultimately show ?thesis by (meson List.finite_set finite_UN_I finite_subset)
qed

text \<open>
  A state resolved by algorithm v1 is made of the state sets. Each of its entries is the entry
  of some state set, and an entry on which all state sets that have the key agree is kept.
\<close>

theorem resolved_state_v1_sound:
  assumes "resolve_events_with_store_v1 x it itk room_id rv state_sets event_map factory = Inr r"
    and "\<forall>s \<in> set state_sets. distinct (map fst s)" and "wf_sources event_map factory" and "set_order it"
  shows "(\<forall>k e. map_of r k = Some e \<longrightarrow> (\<exists>s \<in> set state_sets. dget s k = Some e))
    \<and> (\<forall>k e. {e'. \<exists>s \<in> set state_sets. dget s k = Some e'} = {e} \<longrightarrow> map_of r k = Some e)"
proof (cases "length state_sets = 1")
  case True
  then obtain s where "state_sets = [s]" by (auto simp: length_Suc_conv)
  with assms(1) show ?thesis by (auto simp: resolve_events_with_store_v1_def dget_def)
next
  case False
  obtain unc con auth sm where sep: "seperate_v1 state_sets = Inr (unc, con)"
    and r: "resolve_with_state x it itk rv unc con auth sm = Inr r" and sm: "keyed_by_id sm"
    by (rule resolve_v1_Inr [OF assms(1) False assms(3)])
  note split = seperate_v1_splitD [OF sep assms(2)]
  have fin: "\<forall>k ids. map_of con k = Some ids \<longrightarrow> finite ids"
    using split_at_conflicted [OF split] vals_at_finite [of state_sets] by metis
  note entries = resolve_with_state_entries [OF r seperate_v1_distinct [OF sep] assms(4) fin sm]
  have "e \<in> vals_at state_sets k" if "map_of r k = Some e" for k e
  proof (cases "map_of con k")
    case None
    with entries(1) [where k = k] that split_at_unconflicted [OF split [of k], of e] show ?thesis by auto
  next
    case (Some vs)
    with entries(2) [OF Some that] split [of k] show ?thesis by (auto simp: split_at_def)
  qed
  moreover have "map_of r k = Some e" if "vals_at state_sets k = {e}" for k e
    using entries(1) [where k = k] split [of k] that by (auto simp: split_at_def)
  ultimately show ?thesis unfolding vals_at_def by blast
qed

text \<open>
  Among conflicting events that are no power levels, join rules or memberships, algorithm v1
  chooses the first in the order of decreasing depth (and hash) that the auth rules accept, and
  the last of all when they accept none.
\<close>

theorem resolve_normal_events_first:
  assumes "resolve_normal_events x events auth_events = Inr e"
  shows "e \<in> set events \<and>
    (if \<exists>e' \<in> set events. check_state_dependent_auth_rules x e' (map snd auth_events) = Inr ()
     then check_state_dependent_auth_rules x e (map snd auth_events) = Inr ()
       \<and> (\<forall>e' \<in> set events. check_state_dependent_auth_rules x e' (map snd auth_events) = Inr ()
            \<longrightarrow> key_func e \<le> key_func e')
     else \<forall>e' \<in> set events. key_func e' \<le> key_func e)"
proof -
  from resolve_normal_loop_picks [OF assms [unfolded resolve_normal_events_def]] obtain pre post where
    o: "ordered_events events = pre @ e # post" and pre: "\<forall>e' \<in> set pre. \<not> accepts x auth_events e'"
    and last: "accepts x auth_events e \<or> post = []" by blast
  have ev: "set events = set pre \<union> {e} \<union> set post" using o ordered_events_set [of events] by auto
  show ?thesis
    using ev pre last ordered_events_split [OF o] by (auto simp: accepts_def)
qed

section \<open>The order of sets does not show\<close>

lemma keyed_dupdate: "keyed a \<Longrightarrow> keyed b \<Longrightarrow> keyed (dupdate a b)"
  unfolding keyed_iff by (auto simp: distinct_dupdate map_of_rev)

lemma resolve_auth_loop_keyed:
  assumes "keyed a" and "keyed a'" and "map_of a = map_of a'"
  shows "resolve_auth_loop x a p es = resolve_auth_loop x a' p es"
  using assms
proof (induction es arbitrary: a a' p)
  case (Cons e es)
  show ?case
  proof (cases "state_key_of p")
    case (Inr sk)
    let ?a = "dset a (ev_type p, sk) p" and ?a' = "dset a' (ev_type p, sk) p"
    have k: "keyed ?a" "keyed ?a'" "map_of ?a = map_of ?a'"
      using Cons.prems Inr by (auto intro!: keyed_dset simp: key_of_def)
    show ?thesis using Inr Cons.IH [OF k] check_keyed [OF k] by (simp add: Let_def split: sum.splits)
  qed simp
qed simp

lemma resolve_normal_loop_keyed:
  assumes "keyed a" and "keyed a'" and "map_of a = map_of a'"
  shows "resolve_normal_loop x a es = resolve_normal_loop x a' es"
  by (induction es) (simp_all add: check_keyed [OF assms] split: sum.splits)

lemma mapM_res_union:
  "mapM_res f xs = Inr yss \<Longrightarrow> set (concat yss) = (\<Union>x \<in> set xs. case f x of Inl _ \<Rightarrow> {} | Inr ys \<Rightarrow> set ys)"
proof (induction xs arbitrary: yss)
  case (Cons x xs)
  then obtain ys zss where "f x = Inr ys" "mapM_res f xs = Inr zss" "yss = ys # zss"
    by (auto simp: rbind_Inr_iff)
  with Cons.IH [of zss] show ?case by simp
qed simp

lemma mapM_res_total:
  "(\<forall>x \<in> set xs. \<exists>y. f x = Inr y) \<longleftrightarrow> (\<exists>ys. mapM_res f xs = Inr ys)"
  by (induction xs) (auto simp: rbind_Inr_iff)

lemma map_of_selected:
  "map_of (List.map_filter (\<lambda>key. map_option (Pair key) (dget a key)) ks) k
     = (if k \<in> set ks then map_of a k else None)"
  by (induction ks) (auto simp: map_filter_simps dget_def split: option.splits)

lemma keyed_selected:
  assumes "keyed a" and "distinct ks"
  shows "keyed (List.map_filter (\<lambda>key. map_option (Pair key) (dget a key)) ks)"
proof -
  have "map fst (List.map_filter (\<lambda>key. map_option (Pair key) (dget a key)) ks)
      = List.filter (\<lambda>key. dget a key \<noteq> None) ks"
    by (induction ks) (auto simp: map_filter_simps split: option.splits)
  with assms show ?thesis by (auto simp: keyed_iff map_of_selected split: if_splits)
qed

text \<open>The same conflicts, each with its events in some order; no two of them tie.\<close>

definition same_events :: "event list \<Rightarrow> event list \<Rightarrow> bool" where
  "same_events es es' \<longleftrightarrow> mset es = mset es' \<and> inj_on key_func (set es)"

lemma ordered_events_same: "same_events es es' \<Longrightarrow> ordered_events es = ordered_events es'"
  unfolding same_events_def ordered_events_def
  by (metis mset_sort sort_key_inj_key_eq sorted_sort_key)

lemma resolve_auth_events_same:
  assumes r: "resolve_auth_events x itk rv es a = Inr e" and es: "same_events es es'"
    and a: "keyed a" "keyed a'" "map_of a = map_of a'" and it: "set_order itk" "set_order itk'"
  shows "resolve_auth_events x itk' rv es' a' = Inr e"
proof -
  let ?sel = "\<lambda>itk a keys. List.map_filter (\<lambda>key. map_option (Pair key) (dget a key)) (itk (set (concat keys)))"
  have set: "set es = set es'" using es mset_eq_setD by (auto simp: same_events_def)
  from r obtain keys p q ps where keys: "mapM_res (auth_types_for_event rv) es = Inr keys"
    and o: "rev (ordered_events es) = p # q # ps"
    and l: "resolve_auth_loop x (?sel itk a keys) p (q # ps) = Inr e"
    by (rule resolve_auth_events_Inr)
  from keys set obtain keys' where keys': "mapM_res (auth_types_for_event rv) es' = Inr keys'"
    by (metis mapM_res_total)
  have "set (concat keys) = set (concat keys')"
    using mapM_res_union [OF keys] mapM_res_union [OF keys'] set by simp
  then have ord: "set (itk (set (concat keys))) = set (itk' (set (concat keys')))"
    "distinct (itk (set (concat keys)))" "distinct (itk' (set (concat keys')))"
    using set_orderD [OF it(1), of "set (concat keys)"] set_orderD [OF it(2), of "set (concat keys')"] by auto
  have k: "keyed (?sel itk a keys)" "keyed (?sel itk' a' keys')"
    by (rule keyed_selected [OF a(1) ord(2)], rule keyed_selected [OF a(2) ord(3)])
  have m: "map_of (?sel itk a keys) = map_of (?sel itk' a' keys')"
    by (rule ext) (simp only: map_of_selected a(3) ord(1))
  note l' = l [unfolded resolve_auth_loop_keyed [OF k m]]
  have o': "rev (ordered_events es') = p # q # ps" using o ordered_events_same [OF es] by simp
  show ?thesis unfolding resolve_auth_events_def keys' rbind_simps Let_def o' by (simp only: list.case l')
qed

lemma resolve_normal_events_same:
  assumes "same_events es es'" and "keyed a" and "keyed a'" and "map_of a = map_of a'"
  shows "resolve_normal_events x es a = resolve_normal_events x es' a'"
  unfolding resolve_normal_events_def ordered_events_same [OF assms(1)]
  by (rule resolve_normal_loop_keyed [OF assms(2-4)])

definition same_conflicts :: "(state_key \<times> event list) list \<Rightarrow> (state_key \<times> event list) list \<Rightarrow> bool" where
  "same_conflicts = list_all2 (\<lambda>(k, es) (k', es'). k = k' \<and> same_events es es')"

lemma resolve_pass_same:
  assumes "same_conflicts con con'" and "resolve_pass want f con r = Inr r'"
    and "\<And>es es' e. same_events es es' \<Longrightarrow> f es = Inr e \<Longrightarrow> g es' = Inr e"
  shows "resolve_pass want g con' r = Inr r'"
  using assms(1,2) unfolding same_conflicts_def
proof (induction arbitrary: r rule: list_all2_induct)
  case (Cons c con c' con')
  obtain k es es' where c: "c = (k, es)" "c' = (k, es')" "same_events es es'"
    using Cons.hyps(1) by (cases c; cases c') auto
  from Cons.prems obtain r1 where r1: "(if want r k then rbind (f es) (\<lambda>e. Inr (dset r k e)) else Inr r) = Inr r1"
    and "resolve_pass want f con r1 = Inr r'"
    by (auto simp: c rbind_Inr_iff)
  moreover from r1 have "(if want r k then rbind (g es') (\<lambda>e. Inr (dset r k e)) else Inr r) = Inr r1"
    using assms(3) [OF c(3)] by (cases "want r k") (auto simp: rbind_Inr_iff)
  ultimately show ?case using Cons.IH by (simp add: c)
qed simp

lemma same_conflicts_dget:
  assumes "same_conflicts con con'"
  shows "rel_option same_events (dget con k) (dget con' k)"
  using assms unfolding same_conflicts_def dget_def by (induction rule: list_all2_induct) auto

lemma entries_of_keyed:
  assumes "entries_of con r" and "\<forall>(k, es) \<in> set con. \<forall>e \<in> set es. key_of e = Inr k"
  shows "keyed r"
  using assms unfolding entries_of_def keyed_iff by fast

lemma resolve_state_events_same:
  assumes r: "resolve_state_events x itk rv con a = Inr r" and con: "same_conflicts con con'"
    and a: "keyed a" "keyed a'" "map_of a = map_of a'" and it: "set_order itk" "set_order itk'"
    and wf: "\<forall>(k, es) \<in> set con. \<forall>e \<in> set es. key_of e = Inr k"
  shows "resolve_state_events x itk' rv con' a' = Inr r"
proof -
  let ?first = "\<lambda>itk con a. (case dget con POWER_KEY of None \<Rightarrow> Inr []
      | Some events \<Rightarrow> rbind (resolve_auth_events x itk rv events a) (\<lambda>e. Inr [(POWER_KEY, e)]))"
  from r obtain r0 r1 r2 where
    p0: "?first itk con a = Inr r0"
    and p1: "resolve_pass (\<lambda>_ key. fst key = EventTypes_JoinRules)
               (\<lambda>events. resolve_auth_events x itk rv events (dupdate a r0)) con r0 = Inr r1"
    and p2: "resolve_pass (\<lambda>_ key. fst key = EventTypes_Member)
               (\<lambda>events. resolve_auth_events x itk rv events (dupdate (dupdate a r0) r1)) con r1 = Inr r2"
    and p3: "resolve_pass (\<lambda>r key. \<not> dhas r key)
               (\<lambda>events. resolve_normal_events x events (dupdate (dupdate (dupdate a r0) r1) r2)) con r2 = Inr r"
    unfolding resolve_state_events_def by (auto simp: rbind_Inr_iff Let_def)
  have e0: "entries_of con r0"
    using p0 resolve_auth_events_in
    by (fastforce simp: entries_of_def rbind_Inr_iff dget_def split: option.splits dest: map_of_SomeD)
  have e1: "entries_of con r1" using resolve_pass_entries [OF p1 e0] resolve_auth_events_in by blast
  have e2: "entries_of con r2" using resolve_pass_entries [OF p2 e1] resolve_auth_events_in by blast
  note kr = entries_of_keyed [OF e0 wf] entries_of_keyed [OF e1 wf] entries_of_keyed [OF e2 wf]
  have q0: "?first itk' con' a' = Inr r0"
  proof (cases "dget con POWER_KEY")
    case None
    with same_conflicts_dget [OF con, of POWER_KEY] p0 show ?thesis by simp
  next
    case (Some es)
    then obtain es' where es': "dget con' POWER_KEY = Some es'" "same_events es es'"
      using same_conflicts_dget [OF con, of POWER_KEY] by (auto simp: option_rel_Some1)
    from Some p0 obtain e where "resolve_auth_events x itk rv es a = Inr e" "r0 = [(POWER_KEY, e)]"
      by (auto simp: rbind_Inr_iff)
    with resolve_auth_events_same [OF _ es'(2) a it] es'(1) show ?thesis by simp
  qed
  have a1: "keyed (dupdate a r0)" "keyed (dupdate a' r0)" "map_of (dupdate a r0) = map_of (dupdate a' r0)"
    using a kr(1) by (simp_all add: keyed_dupdate)
  have q1: "resolve_pass (\<lambda>_ key. fst key = EventTypes_JoinRules)
               (\<lambda>events. resolve_auth_events x itk' rv events (dupdate a' r0)) con' r0 = Inr r1"
    by (rule resolve_pass_same [OF con p1]) (rule resolve_auth_events_same [OF _ _ a1 it])
  have a2: "keyed (dupdate (dupdate a r0) r1)" "keyed (dupdate (dupdate a' r0) r1)"
    "map_of (dupdate (dupdate a r0) r1) = map_of (dupdate (dupdate a' r0) r1)"
    using a1 kr(2) by (simp_all add: keyed_dupdate)
  have q2: "resolve_pass (\<lambda>_ key. fst key = EventTypes_Member)
               (\<lambda>events. resolve_auth_events x itk' rv events (dupdate (dupdate a' r0) r1)) con' r1 = Inr r2"
    by (rule resolve_pass_same [OF con p2]) (rule resolve_auth_events_same [OF _ _ a2 it])
  have a3: "keyed (dupdate (dupdate (dupdate a r0) r1) r2)" "keyed (dupdate (dupdate (dupdate a' r0) r1) r2)"
    "map_of (dupdate (dupdate (dupdate a r0) r1) r2) = map_of (dupdate (dupdate (dupdate a' r0) r1) r2)"
    using a2 kr(3) by (simp_all add: keyed_dupdate)
  have q3: "resolve_pass (\<lambda>r key. \<not> dhas r key)
      (\<lambda>events. resolve_normal_events x events (dupdate (dupdate (dupdate a' r0) r1) r2)) con' r2 = Inr r"
    by (rule resolve_pass_same [OF con p3]) (simp only: resolve_normal_events_same [OF _ a3])
  show ?thesis unfolding resolve_state_events_def q0 rbind_simps Let_def q1 q2 q3 ..
qed

text \<open>The auth events picked from the unconflicted state, as a function of the key.\<close>

definition usable :: "state_set \<Rightarrow> state_key \<Rightarrow> string option" where
  "usable unc k = (case map_of unc k of Some n \<Rightarrow> if n \<noteq> [] then Some n else None | None \<Rightarrow> None)"

definition auth_keys_of :: "room_version \<Rightarrow> emap \<Rightarrow> string set \<Rightarrow> state_key set" where
  "auth_keys_of rv sm ids = (\<Union>n \<in> ids. case dget sm n of None \<Rightarrow> {}
     | Some e \<Rightarrow> (case auth_types_for_event rv e of Inl _ \<Rightarrow> {} | Inr ks \<Rightarrow> set ks))"

definition pick_auth :: "state_set \<Rightarrow> state_key \<Rightarrow> state_set \<Rightarrow> state_set" where
  "pick_auth unc key auth = (if dhas auth key then auth
     else (case dget unc key of None \<Rightarrow> auth
           | Some n \<Rightarrow> if n \<noteq> [] then dset auth key n else auth))"

lemma pick_auth_fold:
  "map_of (fold (pick_auth unc) ks auth) k =
     (if map_of auth k = None \<and> k \<in> set ks then usable unc k else map_of auth k)
   \<and> (distinct (map fst auth) \<longrightarrow> distinct (map fst (fold (pick_auth unc) ks auth)))"
proof (induction ks arbitrary: auth)
  case (Cons key ks)
  have "map_of (pick_auth unc key auth) k = (if map_of auth k = None \<and> k = key then usable unc k else map_of auth k)"
    by (auto simp: pick_auth_def usable_def dhas_def dget_def split: option.splits)
  moreover have "distinct (map fst auth) \<longrightarrow> distinct (map fst (pick_auth unc key auth))"
    by (simp add: pick_auth_def split: option.splits)
  ultimately show ?case using Cons.IH [of "pick_auth unc key auth"] by auto
qed simp

lemma create_auth_fold:
  assumes "foldM_res (\<lambda>n auth. case dget sm n of None \<Rightarrow> Inr auth
      | Some e \<Rightarrow> rbind (auth_types_for_event rv e) (\<lambda>ks. Inr (fold (pick_auth unc) ks auth))) ns auth = Inr auth'"
  shows "map_of auth' k = (if map_of auth k = None \<and> k \<in> auth_keys_of rv sm (set ns) then usable unc k else map_of auth k)"
    and "distinct (map fst auth) \<Longrightarrow> distinct (map fst auth')"
proof -
  have "map_of auth' k = (if map_of auth k = None \<and> k \<in> auth_keys_of rv sm (set ns) then usable unc k else map_of auth k)
    \<and> (distinct (map fst auth) \<longrightarrow> distinct (map fst auth'))"
    using assms
  proof (induction ns arbitrary: auth)
    case (Cons n ns)
    show ?case
    proof (cases "dget sm n")
      case None
      with Cons show ?thesis by (simp add: auth_keys_of_def)
    next
      case (Some e)
      with Cons.prems obtain ks where "auth_types_for_event rv e = Inr ks" by (auto simp: rbind_Inr_iff)
      with Cons Some pick_auth_fold [of unc ks auth k] show ?thesis by (auto simp: auth_keys_of_def)
    qed
  qed (simp add: auth_keys_of_def)
  then show "map_of auth' k = (if map_of auth k = None \<and> k \<in> auth_keys_of rv sm (set ns) then usable unc k else map_of auth k)"
    "distinct (map fst auth) \<Longrightarrow> distinct (map fst auth')" by blast+
qed

lemma create_auth_fold_total:
  "(\<exists>auth'. foldM_res (\<lambda>n auth. case dget sm n of None \<Rightarrow> Inr auth
      | Some e \<Rightarrow> rbind (auth_types_for_event rv e) (\<lambda>ks. Inr (fold (pick_auth unc) ks auth))) ns auth = Inr auth')
   \<longleftrightarrow> (\<forall>n \<in> set ns. \<forall>e. dget sm n = Some e \<longrightarrow> (\<exists>ks. auth_types_for_event rv e = Inr ks))"
proof (induction ns arbitrary: auth)
  case (Cons n ns)
  then show ?case by (cases "dget sm n") (auto simp: rbind_Inr_iff)
qed simp

lemma create_auth_same:
  assumes c: "create_auth_events_from_maps it rv unc con sm = Inr auth"
    and it: "set_order it" "set_order it'" and fin: "\<forall>c \<in> set con. finite (snd c)"
  obtains auth' where "create_auth_events_from_maps it' rv unc con sm = Inr auth'"
    and "map_of auth' = map_of auth" and "distinct (map fst auth)" and "distinct (map fst auth')"
    and "\<And>k n. map_of auth k = Some n \<Longrightarrow> map_of unc k = Some n"
proof -
  have eq: "create_auth_events_from_maps it rv unc con sm =
      foldM_res (\<lambda>n auth. case dget sm n of None \<Rightarrow> Inr auth
        | Some e \<Rightarrow> rbind (auth_types_for_event rv e) (\<lambda>ks. Inr (fold (pick_auth unc) ks auth)))
        (concat (map (it \<circ> snd) con)) []" for it
    unfolding create_auth_events_from_maps_def pick_auth_def [abs_def] ..
  have "set (it (snd c)) = snd c" if "set_order it" "c \<in> set con" for it c
    using that fin set_orderD(1) [of it "snd c"] by blast
  then have ns: "set (concat (map (it \<circ> snd) con)) = \<Union> (snd ` set con)" if "set_order it" for it
    using that by auto
  note total = create_auth_fold_total [where sm = sm and rv = rv and unc = unc and auth = "[]"]
  have "\<exists>auth. create_auth_events_from_maps it rv unc con sm = Inr auth" using c by blast
  then have "\<exists>auth. create_auth_events_from_maps it' rv unc con sm = Inr auth"
    unfolding eq total ns [OF it(1)] ns [OF it(2)] .
  then obtain auth' where c': "create_auth_events_from_maps it' rv unc con sm = Inr auth'" by blast
  note f = create_auth_fold [OF c [unfolded eq]] and f' = create_auth_fold [OF c' [unfolded eq]]
  have "map_of auth' = map_of auth" unfolding fun_eq_iff f f' ns [OF it(1)] ns [OF it(2)] by simp
  moreover have "map_of unc k = Some n" if "map_of auth k = Some n" for k n
    using that unfolding f by (auto simp: usable_def split: if_splits option.splits)
  ultimately show thesis using that [OF c'] f(2) f'(2) by simp
qed

lemma single_known:
  assumes "set_order it" and "set_order it'" and "finite ids"
  shows "mset (known_events it sm ids) = mset (known_events it' sm ids)"
proof -
  have "mset (it ids) = mset (it' ids)"
    using set_orderD [OF assms(1,3)] set_orderD [OF assms(2,3)] set_eq_iff_mset_eq_distinct by metis
  then show ?thesis unfolding known_events_def map_filter_def by (simp add: mset_filter)
qed

lemma single_list: "mset xs = mset ys \<Longrightarrow> xs = [e] \<longleftrightarrow> ys = [e]"
  by (metis mset_single_iff_right mset_single_iff)

lemma single_events_same:
  assumes "\<forall>c \<in> set con. mset (known_events it sm (snd c)) = mset (known_events it' sm (snd c))"
  shows "single_events it sm con = single_events it' sm con"
  using assms
proof (induction con)
  case (Cons c con)
  obtain k ids where c: "c = (k, ids)" by fastforce
  have ms: "mset (known_events it sm ids) = mset (known_events it' sm ids)" using Cons.prems c by simp
  have "(case known_events it sm ids of [e] \<Rightarrow> Some (k, ev_event_id e) | _ \<Rightarrow> None)
      = (case known_events it' sm ids of [e] \<Rightarrow> Some (k, ev_event_id e) | _ \<Rightarrow> None)"
    using single_list [OF ms] by (fastforce split: list.splits)
  moreover have "single_events it sm con = single_events it' sm con" using Cons by simp
  ultimately show ?case unfolding c single_events_def by (simp only: map_filter_simps prod.case)
qed (simp add: single_events_def)

lemma open_conflicts_same:
  assumes "\<forall>c \<in> set con. same_events (known_events it sm (snd c)) (known_events it' sm (snd c))"
  shows "same_conflicts (open_conflicts it sm con) (open_conflicts it' sm con)"
  using assms
proof (induction con)
  case (Cons c con)
  obtain k ids where c: "c = (k, ids)" by fastforce
  have se: "same_events (known_events it sm ids) (known_events it' sm ids)" using Cons.prems c by simp
  then have "length (known_events it sm ids) = length (known_events it' sm ids)"
    by (metis same_events_def size_mset)
  with Cons se show ?case by (simp add: c open_conflicts_def same_conflicts_def map_filter_simps)
qed (simp add: open_conflicts_def same_conflicts_def map_filter_simps)

text \<open>The auth dictionary that \<open>_resolve_with_state\<close> looks up in the state map.\<close>

lemma map_of_looked_up:
  assumes "distinct (map fst auth)"
  shows "map_of (List.map_filter (\<lambda>(key, ev_id). map_option (Pair key) (dget sm ev_id)) auth) k
     = Option.bind (map_of auth k) (dget sm)"
  using assms
proof (induction auth)
  case (Cons a auth)
  obtain key n where a: "a = (key, n)" by fastforce
  have "map_of auth key = None" using Cons.prems by (simp add: a map_of_eq_None_iff)
  with Cons show ?case by (cases "dget sm n") (auto simp: a map_filter_simps)
qed (simp add: map_filter_simps)

lemma distinct_looked_up:
  "distinct (map fst auth) \<Longrightarrow>
   distinct (map fst (List.map_filter (\<lambda>(key, ev_id). map_option (Pair key) (dget sm ev_id)) auth))"
proof (induction auth)
  case (Cons a auth)
  obtain key n where a: "a = (key, n)" by fastforce
  have "fst ` set (List.map_filter (\<lambda>(key, ev_id). map_option (Pair key) (dget sm ev_id)) auth) \<subseteq> fst ` set auth"
    by (force simp: map_filter_def split: prod.splits)
  with Cons show ?case by (cases "dget sm n") (auto simp: a map_filter_simps)
qed (simp add: map_filter_simps)

text \<open>The events at hand for state resolution.\<close>

definition source_event :: "emap option \<Rightarrow> (string set \<Rightarrow> emap res) \<Rightarrow> string \<Rightarrow> event \<Rightarrow> bool" where
  "source_event event_map factory n e \<longleftrightarrow>
     (\<exists>em. event_map = Some em \<and> dget em n = Some e) \<or> (\<exists>ids em. factory ids = Inr em \<and> dget em n = Some e)"

lemma resolve_with_state_same:
  assumes r: "resolve_with_state x it itk rv unc con auth sm = Inr r"
    and it: "set_order it" "set_order it'" "set_order itk" "set_order itk'"
    and con: "distinct (map fst con)" "\<forall>c \<in> set con. finite (snd c)"
    and auth: "map_of auth = map_of auth'" "distinct (map fst auth)" "distinct (map fst auth')"
    and keys: "\<forall>c \<in> set con. \<forall>n \<in> snd c. \<forall>e. dget sm n = Some e \<longrightarrow> key_of e = Inr (fst c)"
    and auth_keys: "\<forall>k n e. map_of auth k = Some n \<longrightarrow> dget sm n = Some e \<longrightarrow> key_of e = Inr k"
    and no_tie: "\<forall>c \<in> set con. \<forall>n \<in> snd c. \<forall>n' \<in> snd c. \<forall>e e'. dget sm n = Some e
       \<longrightarrow> dget sm n' = Some e' \<longrightarrow> key_func e = key_func e' \<longrightarrow> e = e'"
  shows "resolve_with_state x it' itk' rv unc con auth' sm = Inr r"
proof -
  let ?sel = "List.map_filter (\<lambda>(key, ev_id). map_option (Pair key) (dget sm ev_id))"
  have known: "e \<in> set (known_events it sm (snd c)) \<longleftrightarrow> (\<exists>n \<in> snd c. dget sm n = Some e)" if "c \<in> set con" for c e
    using that con(2) set_orderD(1) [OF it(1), of "snd c"] by (force simp: known_events_def map_filter_def)
  have ms: "mset (known_events it sm (snd c)) = mset (known_events it' sm (snd c))" if "c \<in> set con" for c
    using single_known it(1,2) con(2) that by blast
  have one: "single_events it sm con = single_events it' sm con"
    by (rule single_events_same) (use ms in blast)
  have "inj_on key_func (set (known_events it sm (snd c)))" if c: "c \<in> set con" for c
  proof (rule inj_onI)
    fix e e' assume "e \<in> set (known_events it sm (snd c))" "e' \<in> set (known_events it sm (snd c))"
      and tie: "key_func e = key_func e'"
    then obtain n n' where "n \<in> snd c" "n' \<in> snd c" "dget sm n = Some e" "dget sm n' = Some e'"
      unfolding known [OF c] by blast
    with no_tie c tie show "e = e'" by blast
  qed
  with ms have "\<forall>c \<in> set con. same_events (known_events it sm (snd c)) (known_events it' sm (snd c))"
    by (simp add: same_events_def)
  then have op: "same_conflicts (open_conflicts it sm con) (open_conflicts it' sm con)"
    by (rule open_conflicts_same)
  have wf: "\<forall>(k, es) \<in> set (open_conflicts it sm con). \<forall>e \<in> set es. key_of e = Inr k"
  proof (clarsimp simp: open_conflicts_iff)
    fix t sk ids e assume c: "((t, sk), ids) \<in> set con" and "e \<in> set (known_events it sm ids)"
    with known [OF c] obtain n where "n \<in> ids" "dget sm n = Some e" by auto
    with keys c show "key_of e = Inr (t, sk)" by fastforce
  qed
  have a: "keyed (?sel auth)" "keyed (?sel auth')" "map_of (?sel auth) = map_of (?sel auth')"
    unfolding keyed_iff fun_eq_iff map_of_looked_up [OF auth(2)] map_of_looked_up [OF auth(3)] bind_eq_Some_conv
    using auth_keys distinct_looked_up [OF auth(2)] distinct_looked_up [OF auth(3)] unfolding auth(1) by blast+
  from r obtain res where res: "resolve_state_events x itk rv (open_conflicts it sm con) (?sel auth) = Inr res"
    and r': "r = dupdate (dupdate unc (single_events it sm con)) (map (\<lambda>(key, event). (key, ev_event_id event)) res)"
    by (auto simp: resolve_with_state_def settle_conflicts_split [OF con(1)] rbind_Inr_iff)
  from resolve_state_events_same [OF res op a it(3,4) wf] show ?thesis
    by (simp add: resolve_with_state_def settle_conflicts_split [OF con(1)] r' one)
qed

text \<open>
  C11: algorithm v1 gives the same state for every iteration order of Python sets, when the events
  at hand belong to the keys under which the state sets list them and no two events in conflict
  tie (have the same depth and the same hash).
\<close>

theorem resolution_v1_deterministic:
  assumes r: "resolve_events_with_store_v1 x it itk room_id rv state_sets event_map factory = Inr r"
    and dist: "\<forall>s \<in> set state_sets. distinct (map fst s)"
    and it: "set_order it" "set_order it'" "set_order itk" "set_order itk'"
    and keys: "\<forall>s \<in> set state_sets. \<forall>k n e. dget s k = Some n \<longrightarrow> source_event event_map factory n e
       \<longrightarrow> key_of e = Inr k"
    and no_tie: "\<forall>s \<in> set state_sets. \<forall>s' \<in> set state_sets. \<forall>k n n' e e'. dget s k = Some n
       \<longrightarrow> dget s' k = Some n' \<longrightarrow> source_event event_map factory n e \<longrightarrow> source_event event_map factory n' e'
       \<longrightarrow> key_func e = key_func e' \<longrightarrow> e = e'"
    and wf: "wf_sources event_map factory"
  shows "resolve_events_with_store_v1 x it' itk' room_id rv state_sets event_map factory = Inr r"
proof (cases "length state_sets = 1")
  case True
  with r show ?thesis by (auto simp: resolve_events_with_store_v1_def length_Suc_conv)
next
  case False
  then have many: "(case state_sets of [s] \<Rightarrow> P s | _ \<Rightarrow> Q) = Q" for P and Q :: "'z"
    by (auto split: list.splits)
  let ?sm = "\<lambda>sm. case event_map of None \<Rightarrow> sm | Some em \<Rightarrow> dupdate sm em"
  let ?needed = "\<lambda>con. (\<Union>(_, ids) \<in> set con. ids) - event_map_ids event_map"
  let ?new = "\<lambda>con auth. set (map snd auth) - ?needed con - event_map_ids event_map"
  from r obtain unc con sm auth new where sep: "seperate_v1 state_sets = Inr (unc, con)"
    and sm: "factory (?needed con) = Inr sm" and room: "check_room room_id (?sm sm) = Inr ()"
    and auth: "create_auth_events_from_maps it rv unc con (?sm sm) = Inr auth"
    and new: "factory (?new con auth) = Inr new" and room': "check_room room_id new = Inr ()"
    and res: "resolve_with_state x it itk rv unc con auth (dupdate (?sm sm) new) = Inr r"
    unfolding resolve_events_with_store_v1_def many by (auto simp: rbind_Inr_iff Let_def)
  note dis = seperate_v1_distinct [OF sep] and split = seperate_v1_splitD [OF sep dist]
  have vals: "snd c = vals_at state_sets (fst c)" if "c \<in> set con" for c
    using that dis split_at_conflicted [OF split [of "fst c"], of "snd c"] by (simp add: map_of_is_SomeI)
  then have fin: "\<forall>c \<in> set con. finite (snd c)" by simp
  obtain auth' where auth': "create_auth_events_from_maps it' rv unc con (?sm sm) = Inr auth'"
    and m: "map_of auth' = map_of auth" and d: "distinct (map fst auth)" "distinct (map fst auth')"
    and from_unc: "\<And>k n. map_of auth k = Some n \<Longrightarrow> map_of unc k = Some n"
    using create_auth_same [OF auth it(1,2) fin] by metis
  have needed: "?new con auth' = ?new con auth"
    using ran_distinct [OF d(1)] ran_distinct [OF d(2)] m by simp
  have source: "source_event event_map factory n e" if "dget (dupdate (?sm sm) new) n = Some e" for n e
    using that wf sm new unfolding source_event_def wf_sources_def
    by (auto simp: dget_def map_of_rev split: option.splits)
  have "resolve_with_state x it' itk' rv unc con auth' (dupdate (?sm sm) new) = Inr r"
  proof (rule resolve_with_state_same [OF res it dis fin m [symmetric] d])
    show "\<forall>c \<in> set con. \<forall>n \<in> snd c. \<forall>e. dget (dupdate (?sm sm) new) n = Some e \<longrightarrow> key_of e = Inr (fst c)"
      using vals source keys by (auto simp: vals_at_def)
    show "\<forall>k n e. map_of auth k = Some n \<longrightarrow> dget (dupdate (?sm sm) new) n = Some e \<longrightarrow> key_of e = Inr k"
    proof (intro allI impI)
      fix k n e assume "map_of auth k = Some n" and e: "dget (dupdate (?sm sm) new) n = Some e"
      with from_unc split_at_unconflicted [OF split [of k], of n] have "n \<in> vals_at state_sets k" by simp
      then obtain s where "s \<in> set state_sets" "dget s k = Some n" unfolding vals_at_def by blast
      with keys source [OF e] show "key_of e = Inr k" by blast
    qed
    show "\<forall>c \<in> set con. \<forall>n \<in> snd c. \<forall>n' \<in> snd c. \<forall>e e'. dget (dupdate (?sm sm) new) n = Some e
        \<longrightarrow> dget (dupdate (?sm sm) new) n' = Some e' \<longrightarrow> key_func e = key_func e' \<longrightarrow> e = e'"
    proof (intro ballI allI impI)
      fix c n n' e e' assume c: "c \<in> set con" "n \<in> snd c" "n' \<in> snd c" and tie: "key_func e = key_func e'"
        and e: "dget (dupdate (?sm sm) new) n = Some e" "dget (dupdate (?sm sm) new) n' = Some e'"
      from c vals [OF c(1)] obtain s s' where "s \<in> set state_sets" "dget s (fst c) = Some n"
        "s' \<in> set state_sets" "dget s' (fst c) = Some n'" unfolding vals_at_def by blast
      with no_tie source [OF e(1)] source [OF e(2)] tie show "e = e'" by blast
    qed
  qed
  then show ?thesis
    unfolding resolve_events_with_store_v1_def many sep rbind_simps prod.case Let_def sm room auth' needed new room'
    by simp
qed

section \<open>Instances\<close>

text \<open>The hashes matter only between events of equal depth; the evaluation need not compute the others.\<close>

lemma sorted_by_depth:
  "sorted (map (\<lambda>e. - ev_depth e) es) \<Longrightarrow> distinct (map ev_depth es) \<Longrightarrow> sorted (map key_func es)"
  by (induction es) (auto simp: key_func_def less_le image_iff)

lemma ordered_events_code [code]:
  "ordered_events es = (if distinct (map ev_depth es) then sort_key (\<lambda>e. - ev_depth e) es else sort_key key_func es)"
proof (cases "distinct (map ev_depth es)")
  case True
  let ?ys = "sort_key (\<lambda>e. - ev_depth e) es"
  have "inj_on ev_depth (set es)" using True by (simp add: distinct_map)
  then have inj: "inj_on key_func (set es)" by (auto simp: inj_on_def key_func_def)
  have "sorted (map (\<lambda>e. - ev_depth e) ?ys)" by (rule sorted_sort_key)
  moreover have "distinct (map ev_depth ?ys)"
    using True by (metis distinct_map distinct_sort set_sort)
  ultimately have "sorted (map key_func ?ys)" by (rule sorted_by_depth)
  with True inj show ?thesis
    unfolding ordered_events_def by (simp add: sort_key_inj_key_eq)
qed (simp add: ordered_events_def)

text \<open>The sample conflict again, in a room of version 1 and with two topics at different depths.\<close>

definition sample_deep :: "event \<Rightarrow> event" where
  "sample_deep e = e\<lparr>ev_depth := (if ev_event_id e \<in> {''$t2'', ''$pl2'', ''$kb''} then 9 else 5)\<rparr>"

definition sample_factory :: "string set \<Rightarrow> emap res" where
  "sample_factory ids = Inr (filter (\<lambda>(n, e). n \<in> ids) (map (\<lambda>e. (ev_event_id e, sample_deep e)) sample_events))"

definition sample_run_v1 ::
  "(string set \<Rightarrow> string list) \<Rightarrow> (state_key set \<Rightarrow> state_key list) \<Rightarrow> state_set res" where
  "sample_run_v1 it itk = resolve_events_with_store_v1 sample_ext it itk ''!r:s'' ROOM_VERSION_V1
     sample_state_sets None sample_factory"

definition sample_result_v1 :: state_set where
  "sample_result_v1 = (case sample_run_v1 sorted_list_of_set sorted_list_of_set of Inr r \<Rightarrow> r | Inl _ \<Rightarrow> [])"

lemma sample_run_v1_result:
  "sample_run_v1 sorted_list_of_set sorted_list_of_set = Inr
     [(CREATE_KEY, ''$c''), ((EventTypes_Member, ''@a:s''), ''$ja''), (POWER_KEY, ''$pl2''),
      ((EventTypes_Member, ''@b:s''), ''$kb''), ((''m.room.topic'', ''''), ''$t1'')]"
  by code_simp

lemma sample_factory_known:
  assumes "sample_factory ids = Inr em"
  shows "keyed_by_id em" and "distinct (map fst em)"
    and "dget em n = Some e \<Longrightarrow> e \<in> sample_deep ` set sample_events \<and> ev_event_id e = n"
proof -
  let ?all = "map (\<lambda>e. (ev_event_id e, sample_deep e)) sample_events"
  have em: "em = filter (\<lambda>(n, e). n \<in> ids) ?all" using assms by (simp add: sample_factory_def)
  have d: "distinct (map fst ?all)" by code_simp
  show "distinct (map fst em)" unfolding em by (rule distinct_map_filter [OF d])
  have e: "e \<in> sample_deep ` set sample_events \<and> ev_event_id e = n" if "dget em n = Some e" for n e
  proof -
    from that have "(n, e) \<in> set ?all" unfolding dget_def em by (auto dest: map_of_SomeD)
    then show ?thesis by (auto simp: sample_deep_def)
  qed
  then show "keyed_by_id em" "dget em n = Some e \<Longrightarrow> e \<in> sample_deep ` set sample_events \<and> ev_event_id e = n"
    by (auto simp: keyed_by_id_def)
qed

lemma sample_wf_sources: "wf_sources None sample_factory"
  using sample_factory_known by (simp add: wf_sources_def)

theorem seperate_v1_correct_witness:
  "\<exists>unc con. seperate_v1 [[(CREATE_KEY, ''$c''), (POWER_KEY, ''$p'')], [(POWER_KEY, ''$q'')]] = Inr (unc, con)
     \<and> map_of unc CREATE_KEY = Some ''$c'' \<and> map_of con POWER_KEY = Some {''$p'', ''$q''}"
proof -
  let ?ss = "[[(CREATE_KEY, ''$c''), (POWER_KEY, ''$p'')], [(POWER_KEY, ''$q'')]]"
  have k: "CREATE_KEY \<noteq> POWER_KEY" by (simp add: CREATE_KEY_def POWER_KEY_def)
  then have v: "{e. \<exists>s \<in> set ?ss. dget s CREATE_KEY = Some e} = {''$c''}"
    "{e. \<exists>s \<in> set ?ss. dget s POWER_KEY = Some e} = {''$p'', ''$q''}" by (auto simp: dget_def)
  from k have d: "?ss \<noteq> []" "\<forall>s \<in> set ?ss. distinct (map fst s)" by simp_all
  from seperate_v1_correct [OF d] obtain unc con where sep: "seperate_v1 ?ss = Inr (unc, con)"
    and u: "\<forall>k e. map_of unc k = Some e \<longleftrightarrow> {e'. \<exists>s \<in> set ?ss. dget s k = Some e'} = {e}"
    and c: "\<forall>k es. map_of con k = Some es \<longleftrightarrow>
          es = {e'. \<exists>s \<in> set ?ss. dget s k = Some e'} \<and> (\<exists>e \<in> es. \<exists>e' \<in> es. e \<noteq> e')"
    by (elim exE conjE) (rule that)
  have "map_of unc CREATE_KEY = Some ''$c''" using u v(1) by blast
  moreover have "map_of con POWER_KEY = Some {''$p'', ''$q''}"
    unfolding c [THEN spec, THEN spec, of POWER_KEY "{''$p'', ''$q''}"] v(2) by (simp, blast)
  ultimately show ?thesis using sep by blast
qed

theorem resolved_state_v1_sound_witness:
  "\<exists>r. sample_run_v1 sorted_list_of_set sorted_list_of_set = Inr r \<and> map_of r CREATE_KEY = Some ''$c''"
proof -
  have d: "\<forall>s \<in> set sample_state_sets. distinct (map fst s)" by code_simp
  have v: "{e'. \<exists>s \<in> set sample_state_sets. dget s CREATE_KEY = Some e'} = {''$c''}"
    by (auto simp: sample_state_sets_def dget_def)
  note run = sample_run_v1_result [unfolded sample_run_v1_def]
  from resolved_state_v1_sound [OF run d sample_wf_sources set_order_sorted, THEN conjunct2,
      THEN spec, THEN spec, THEN mp, OF v] sample_run_v1_result show ?thesis by blast
qed

theorem resolve_normal_events_first_witness:
  "\<exists>e. resolve_normal_events sample_ext [sample_deep sample_t1, sample_deep sample_t2]
         [(CREATE_KEY, sample_create), (POWER_KEY, sample_power)] = Inr e
     \<and> e \<in> set [sample_deep sample_t1, sample_deep sample_t2]"
proof -
  have "case resolve_normal_events sample_ext [sample_deep sample_t1, sample_deep sample_t2]
         [(CREATE_KEY, sample_create), (POWER_KEY, sample_power)] of Inr _ \<Rightarrow> True | _ \<Rightarrow> False" by code_simp
  then obtain e where "resolve_normal_events sample_ext [sample_deep sample_t1, sample_deep sample_t2]
         [(CREATE_KEY, sample_create), (POWER_KEY, sample_power)] = Inr e" by (auto split: sum.splits)
  from this resolve_normal_events_first [OF this] show ?thesis by blast
qed

text \<open>The events of the sample by id.\<close>

definition sample_lookup :: "string \<Rightarrow> event option" where
  "sample_lookup n = map_of (map (\<lambda>e. (ev_event_id e, sample_deep e)) sample_events) n"

lemma sample_source:
  assumes "source_event None sample_factory n e"
  shows "sample_lookup n = Some e"
proof -
  let ?all = "map (\<lambda>e. (ev_event_id e, sample_deep e)) sample_events"
  have d: "distinct (map fst ?all)" by code_simp
  from assms have "(n, e) \<in> set ?all"
    unfolding source_event_def sample_factory_def dget_def by (auto dest!: map_of_SomeD)
  then show ?thesis unfolding sample_lookup_def by (rule map_of_is_SomeI [OF d])
qed

lemma sample_lookup_keys:
  "\<forall>s \<in> set sample_state_sets. \<forall>(k, n) \<in> set s. case sample_lookup n of Some e \<Rightarrow> key_of e = Inr k | None \<Rightarrow> True"
  by code_simp

lemma sample_lookup_depths:
  "\<forall>s \<in> set sample_state_sets. \<forall>s' \<in> set sample_state_sets. \<forall>(k, n) \<in> set s. case dget s' k of
     Some n' \<Rightarrow> n = n' \<or> map_option ev_depth (sample_lookup n) \<noteq> map_option ev_depth (sample_lookup n')
   | None \<Rightarrow> True"
  by code_simp

theorem resolution_v1_deterministic_witness:
  "\<exists>r. sample_run_v1 sorted_list_of_set sorted_list_of_set = Inr r
     \<and> sample_run_v1 (rev \<circ> sorted_list_of_set) (rev \<circ> sorted_list_of_set) = Inr r
     \<and> map_of r (EventTypes_Member, ''@b:s'') = Some ''$kb''"
proof -
  note run = sample_run_v1_result [unfolded sample_run_v1_def]
  have "sample_run_v1 (rev \<circ> sorted_list_of_set) (rev \<circ> sorted_list_of_set) =
      sample_run_v1 sorted_list_of_set sorted_list_of_set"
    unfolding sample_run_v1_result unfolding sample_run_v1_def
  proof (rule resolution_v1_deterministic [OF run _ set_order_sorted set_order_rev set_order_sorted set_order_rev _ _ sample_wf_sources])
    show "\<forall>s \<in> set sample_state_sets. distinct (map fst s)" by code_simp
    show "\<forall>s \<in> set sample_state_sets. \<forall>k n e. dget s k = Some n \<longrightarrow> source_event None sample_factory n e \<longrightarrow> key_of e = Inr k"
      using sample_lookup_keys sample_source unfolding dget_def by (fastforce dest!: map_of_SomeD)
    show "\<forall>s \<in> set sample_state_sets. \<forall>s' \<in> set sample_state_sets. \<forall>k n n' e e'. dget s k = Some n
       \<longrightarrow> dget s' k = Some n' \<longrightarrow> source_event None sample_factory n e \<longrightarrow> source_event None sample_factory n' e'
       \<longrightarrow> key_func e = key_func e' \<longrightarrow> e = e'"
    proof (intro ballI allI impI)
      fix s s' k n n' e e' assume s: "s \<in> set sample_state_sets" "s' \<in> set sample_state_sets"
        and n: "dget s k = Some n" "dget s' k = Some n'" and tie: "key_func e = key_func e'"
        and "source_event None sample_factory n e" "source_event None sample_factory n' e'"
      then have "sample_lookup n = Some e" "sample_lookup n' = Some e'" using sample_source by blast+
      moreover have "(k, n) \<in> set s" using n(1) by (auto simp: dget_def dest: map_of_SomeD)
      with sample_lookup_depths s n(2) have "n = n' \<or> map_option ev_depth (sample_lookup n)
          \<noteq> map_option ev_depth (sample_lookup n')" by fastforce
      ultimately show "e = e'" using tie by (auto simp: key_func_def)
    qed
  qed
  then show ?thesis using sample_run_v1_result by (simp add: CREATE_KEY_def POWER_KEY_def)
qed

end
