(* ===== verification/Module_Api.thy ===== *)
theory Module_Api
  imports Events
begin

text \<open>
  What a Liza module sees of the homeserver, from \<open>synapse/server.py\<close>,
  \<open>synapse/module_api/__init__.py\<close> and
  \<open>synapse/module_api/callbacks/third_party_event_rules_callbacks.py\<close>: whether an id is local, the
  account data of a local user, and the callbacks of the third-party rules, which the dispatcher
  runs in the order of registration.

  The database read behind \<open>get_global\<close> is a function of the record \<open>homeserver\<close>. The frozen
  copy that \<open>get_global\<close> returns has the same JSON value: a mapping for a dictionary and a tuple for
  a list. Cancellation of a request is not modelled.
\<close>

type_synonym room_state = "(state_key \<times> event) list"

record homeserver =
  hs_hostname :: string
  hs_account_data :: "string \<Rightarrow> string \<Rightarrow> jdict option res"

section \<open>Local ids and account data\<close>

definition is_mine_id :: "homeserver \<Rightarrow> string \<Rightarrow> bool" where
  "is_mine_id hs user_id = (snd (split1 (CHR '':'') user_id) = Some (hs_hostname hs))"

definition is_mine :: "homeserver \<Rightarrow> domain_specific_string \<Rightarrow> bool" where
  "is_mine hs u = (dss_domain u = hs_hostname hs)"

definition validate_user_id :: "homeserver \<Rightarrow> string \<Rightarrow> unit res" where
  "validate_user_id hs user_id =
     rbind (from_string USER_SIGIL user_id) (\<lambda>user. raise_if (\<not> is_mine hs user) PyValueError)"

definition get_global :: "homeserver \<Rightarrow> string \<Rightarrow> string \<Rightarrow> jdict option res" where
  "get_global hs user_id data_type =
     rbind (validate_user_id hs user_id) (\<lambda>_. hs_account_data hs user_id data_type)"

section \<open>Third-party rules\<close>

type_synonym event_rule = "event \<Rightarrow> room_state \<Rightarrow> (bool \<times> jdict option) res"

text \<open>
  \<open>check_event_allowed\<close>: the first callback that refuses, replaces or raises decides.
\<close>

fun check_event_allowed :: "event_rule list \<Rightarrow> event \<Rightarrow> room_state \<Rightarrow> (bool \<times> jdict option) res" where
  "check_event_allowed [] event state_events = Inr (True, None)"
| "check_event_allowed (callback # callbacks) event state_events =
     (case callback event state_events of
        Inl e \<Rightarrow> Inl (if is_synapse_error e then e else ModuleFailedException)
      | Inr (allowed, replacement_data) \<Rightarrow>
          if \<not> allowed then Inr (False, None)
          else (case replacement_data of
                  Some d \<Rightarrow> Inr (True, Some d)
                | None \<Rightarrow> check_event_allowed callbacks event state_events))"

text \<open>
  \<open>on_create_room\<close>: a callback may change the request \<open>config\<close> and refuses by raising. The
  callbacks get the requester's user id, the config and whether the requester is an admin.
\<close>

type_synonym create_rule = "string \<Rightarrow> jdict \<Rightarrow> bool \<Rightarrow> jdict res"

fun on_create_room :: "create_rule list \<Rightarrow> create_rule" where
  "on_create_room [] requester config is_requester_admin = Inr config"
| "on_create_room (callback # callbacks) requester config is_requester_admin =
     (case callback requester config is_requester_admin of
        Inl e \<Rightarrow> Inl (if is_synapse_error e then e else SynapseError 403 UNKNOWN)
      | Inr config' \<Rightarrow> on_create_room callbacks requester config' is_requester_admin)"

section \<open>Guards\<close>

text \<open>
  An event guard never replaces an event and never answers \<open>False\<close>: it lets an event pass or
  raises. Such callbacks commute with the others as far as a refusal is concerned.
\<close>

locale event_guard =
  fixes check :: event_rule
  assumes passes: "check e st = Inr r \<Longrightarrow> r = (True, None)"
begin

lemma dispatch:
  "check_event_allowed (check # cbs) e st = (case check e st of
     Inl err \<Rightarrow> Inl (if is_synapse_error err then err else ModuleFailedException)
   | Inr _ \<Rightarrow> check_event_allowed cbs e st)"
  by (auto dest: passes split: sum.splits)

text \<open>A refusal reaches the caller when the callbacks before the guard let the event pass.\<close>

lemma refusal_reaches_caller:
  assumes "check_event_allowed before e st = Inr (True, None)"
    and "check e st = Inl err" and "is_synapse_error err"
  shows "check_event_allowed (before @ check # after) e st = Inl err"
  using assms(1)
proof (induction before)
  case Nil
  with assms(2,3) show ?case by simp
next
  case (Cons cb before)
  then show ?case by (auto split: sum.splits if_splits option.splits)
qed

text \<open>An event the guard lets pass is decided by the others.\<close>

lemma guard_transparent:
  assumes "check e st = Inr r"
  shows "check_event_allowed (before @ check # after) e st = check_event_allowed (before @ after) e st"
proof (induction before)
  case Nil
  from assms passes [OF assms] show ?case by simp
next
  case (Cons cb before)
  then show ?case by (auto split: sum.splits option.splits)
qed

end

section \<open>Facts\<close>

lemma is_mine_id_iff: "is_mine_id hs u \<longleftrightarrow> (\<exists>a. u = a @ CHR '':'' # hs_hostname hs \<and> CHR '':'' \<notin> set a)"
proof
  assume "is_mine_id hs u"
  then have "split1 (CHR '':'') u = (fst (split1 (CHR '':'') u), Some (hs_hostname hs))"
    by (simp add: is_mine_id_def prod_eq_iff)
  from split1_Some [OF this] show "\<exists>a. u = a @ CHR '':'' # hs_hostname hs \<and> CHR '':'' \<notin> set a" by blast
qed (auto simp: is_mine_id_def split1_append)

text \<open>Account data of a remote user, or of a string that is no user id, is refused.\<close>

lemma get_global_remote: "\<not> is_mine_id hs u \<Longrightarrow> \<exists>e. get_global hs u ty = Inl e"
  by (cases u) (auto simp: get_global_def validate_user_id_def is_mine_def from_string_def is_mine_id_def
      USER_SIGIL_def split1_def raise_if_def split: list.splits)

end
