(* ===== verification/Block_Guard.thy ===== *)
theory Block_Guard
  imports Module_Api
begin

text \<open>
  The module \<open>block_guard\<close> (\<open>modules/block_guard/_logic.py\<close> and \<open>__init__.py\<close>): a user who is
  on the ignore list of another can neither create a direct chat with them, nor invite them to one,
  nor write to them in one. The lemmas characterise who is refused, show that the guard is an event
  guard in the sense of the dispatcher, that it fails open when account data cannot be read, and
  that nobody outside a direct chat of two is affected.

  A JSON value that a Python function may get in place of a dictionary is a \<open>json\<close>; \<open>JNull\<close> is
  \<open>None\<close>.
\<close>

section \<open>The decisions of \<open>_logic.py\<close>\<close>

definition MEMBER_EVENT_TYPE :: string where "MEMBER_EVENT_TYPE = ''m.room.member''"
definition CREATE_EVENT_TYPE :: string where "CREATE_EVENT_TYPE = ''m.room.create''"

definition BLOCKABLE_MESSAGE_TYPES :: "string list" where
  "BLOCKABLE_MESSAGE_TYPES = [''m.room.message'', ''m.room.encrypted'', ''m.reaction'']"

definition ROOM_TYPE_SPACE :: string where "ROOM_TYPE_SPACE = ''m.space''"
definition ROOM_TYPE_CHANNEL :: string where "ROOM_TYPE_CHANNEL = ''com.liza.channel''"
definition CHAT_TYPE_KEY :: string where "CHAT_TYPE_KEY = ''com.liza.chat.type''"
definition CHAT_TYPE_STORIES :: string where "CHAT_TYPE_STORIES = ''stories''"
definition CHAT_TYPE_DISCUSSION :: string where "CHAT_TYPE_DISCUSSION = ''channel_discussion''"
definition LEGACY_STORIES_KEY :: string where "LEGACY_STORIES_KEY = ''com.liza.stories''"
definition TOPOLOGY_STATE_TYPE :: string where "TOPOLOGY_STATE_TYPE = ''com.liza.chat.topology''"
definition IGNORED_USER_LIST :: string where "IGNORED_USER_LIST = ''m.ignored_user_list''"
definition DIRECT_ACCOUNT_DATA :: string where "DIRECT_ACCOUNT_DATA = ''m.direct''"
definition USER_ROLE_ACCOUNT_DATA :: string where "USER_ROLE_ACCOUNT_DATA = ''com.liza.user_role''"

definition DEFAULT_SERVICE_LOCALPARTS :: "string list" where
  "DEFAULT_SERVICE_LOCALPARTS =
     [''liza'', ''gpt'', ''deepseek'', ''bot_father'', ''botfather'', ''support'', ''bo_food'']"

definition is_blockable_event_type :: "string \<Rightarrow> jdict \<Rightarrow> bool" where
  "is_blockable_event_type event_type content =
     (if event_type \<in> set BLOCKABLE_MESSAGE_TYPES then True
      else if event_type \<noteq> MEMBER_EVENT_TYPE then False
      else dget_none content ''membership'' = JStr ''invite''
           \<and> dget_none content ''is_direct'' = JBool True)"

definition is_service_localpart :: "string \<Rightarrow> string list \<Rightarrow> bool" where
  "is_service_localpart user_id service_localparts =
     (lstrip_at (fst (split1 (CHR '':'') user_id)) \<in> set service_localparts)"

definition is_exempt_room :: "json \<Rightarrow> json \<Rightarrow> json \<Rightarrow> bool \<Rightarrow> bool" where
  "is_exempt_room room_type chat_type topology_content legacy_stories =
     (if room_type \<in> {JStr ROOM_TYPE_SPACE, JStr ROOM_TYPE_CHANNEL} then True
      else if chat_type \<in> {JStr CHAT_TYPE_STORIES, JStr CHAT_TYPE_DISCUSSION} then True
      else if legacy_stories then True
      else (case topology_content of
              JObj topology \<Rightarrow> dget_none topology ''hidden'' = JBool True
            | _ \<Rightarrow> False))"

definition joined_and_invited :: "(string \<times> string) list \<Rightarrow> string list" where
  "joined_and_invited members = map fst (filter (\<lambda>(_, m). m \<in> {''join'', ''invite''}) members)"

definition dm_counterpart :: "(string \<times> string) list \<Rightarrow> string \<Rightarrow> string option" where
  "dm_counterpart members sndr =
     (let participants = joined_and_invited members in
      if length participants \<noteq> 2 \<or> sndr \<notin> set participants then None
      else List.find (\<lambda>user_id. user_id \<noteq> sndr) participants)"

definition room_is_direct_for :: "json \<Rightarrow> string \<Rightarrow> bool" where
  "room_is_direct_for direct_content room_id =
     (case direct_content of
        JObj direct \<Rightarrow> room_id \<noteq> []
          \<and> list_ex (\<lambda>(_, rooms). case rooms of JList rs \<Rightarrow> JStr room_id \<in> set rs | _ \<Rightarrow> False) direct
      | _ \<Rightarrow> False)"

definition ignores :: "json \<Rightarrow> string \<Rightarrow> bool" where
  "ignores ignored_user_list_content user_id =
     (case ignored_user_list_content of
        JObj c \<Rightarrow> (case dget_none c ''ignored_users'' of
            JObj ignored \<Rightarrow> dhas ignored user_id
          | _ \<Rightarrow> False)
      | _ \<Rightarrow> False)"

text \<open>The strings of a JSON list, and the invitees who ignore the creator.\<close>

definition json_strings :: "json list \<Rightarrow> string list" where
  "json_strings vs = List.map_filter (\<lambda>v. case v of JStr s \<Rightarrow> Some s | _ \<Rightarrow> None) vs"

definition blocked_invitees :: "jdict \<Rightarrow> (string \<times> bool) list \<Rightarrow> string list" where
  "blocked_invitees config ignore_lookup =
     (if \<not> py_truthy (dget_none config ''is_direct'') then []
      else (case dget_none config ''invite'' of
              JList invites \<Rightarrow> filter (\<lambda>u. dget ignore_lookup u = Some True) (json_strings invites)
            | _ \<Rightarrow> []))"

definition should_notify_invite :: "string \<Rightarrow> string list \<Rightarrow> bool" where
  "should_notify_invite sndr invited_ignored_users = (sndr \<notin> set invited_ignored_users)"

section \<open>The module\<close>

record block_guard =
  bg_enabled :: bool
  bg_service_localparts :: "string list"

text \<open>\<open>tuple(v)\<close> on a JSON value.\<close>

fun py_tuple :: "json \<Rightarrow> json list res" where
  "py_tuple (JList xs) = Inr xs"
| "py_tuple (JObj d) = Inr (map (JStr \<circ> fst) d)"
| "py_tuple (JStr s) = Inr (map (\<lambda>c. JStr [c]) s)"
| "py_tuple _ = Inl PyTypeError"

text \<open>
  The constructor. The line that logs the configuration joins the localparts and raises when one of
  them is no string.
\<close>

definition block_guard_init :: "jdict \<Rightarrow> block_guard res" where
  "block_guard_init config =
     rbind (case dget config ''service_localparts'' of
              None \<Rightarrow> Inr (map JStr DEFAULT_SERVICE_LOCALPARTS)
            | Some v \<Rightarrow> py_tuple v) (\<lambda>localparts.
     rbind (mapM_res (\<lambda>v. case v of JStr s \<Rightarrow> Inr s | _ \<Rightarrow> Inl PyTypeError) localparts) (\<lambda>names.
     Inr \<lparr>bg_enabled = py_truthy (dget_default config ''enabled'' (JBool True)),
          bg_service_localparts = names\<rparr>))"

text \<open>\<open>_get_global\<close>: an error reads as no data.\<close>

definition bg_get_global :: "homeserver \<Rightarrow> string \<Rightarrow> string \<Rightarrow> json" where
  "bg_get_global hs user_id data_type =
     (case get_global hs user_id data_type of Inr (Some d) \<Rightarrow> JObj d | _ \<Rightarrow> JNull)"

definition bg_ignores :: "homeserver \<Rightarrow> string \<Rightarrow> string \<Rightarrow> bool" where
  "bg_ignores hs owner candidate =
     (if \<not> is_mine_id hs owner then False
      else ignores (bg_get_global hs owner IGNORED_USER_LIST) candidate)"

definition is_service_account :: "homeserver \<Rightarrow> block_guard \<Rightarrow> string \<Rightarrow> bool" where
  "is_service_account hs g user_id =
     (if is_service_localpart user_id (bg_service_localparts g) then True
      else if \<not> is_mine_id hs user_id then False
      else (case bg_get_global hs user_id USER_ROLE_ACCOUNT_DATA of
              JObj data \<Rightarrow> dget_none data ''role'' = JStr ''ai''
            | _ \<Rightarrow> False))"

definition bg_on_create_room :: "homeserver \<Rightarrow> block_guard \<Rightarrow> create_rule" where
  "bg_on_create_room hs g creator config is_requester_admin =
     (if \<not> bg_enabled g \<or> \<not> py_truthy (dget_none config ''is_direct'') then Inr config
      else if is_service_account hs g creator then Inr config
      else (case dget_none config ''invite'' of
              JList invites \<Rightarrow>
                (let lookup = map (\<lambda>invitee. (invitee, bg_ignores hs invitee creator)) (json_strings invites);
                     blocked = blocked_invitees config lookup
                 in if blocked = [] then Inr config else Inl (SynapseError 403 LIZA_BLOCKED))
            | _ \<Rightarrow> Inr config))"

text \<open>\<open>_members\<close>, \<open>_state\<close>, \<open>_is_exempt_room\<close> and \<open>_is_direct_room\<close>.\<close>

definition bg_members :: "room_state \<Rightarrow> (string \<times> string) list" where
  "bg_members state_events = List.map_filter (\<lambda>(key, ev).
     if fst key \<noteq> MEMBER_EVENT_TYPE then None
     else (case dget_none (ev_content ev) ''membership'' of
             JStr membership \<Rightarrow> Some (snd key, membership)
           | _ \<Rightarrow> None)) state_events"

definition state_content :: "room_state \<Rightarrow> string \<Rightarrow> jdict option" where
  "state_content state_events event_type = map_option ev_content (dget state_events (event_type, []))"

definition bg_is_exempt_room :: "room_state \<Rightarrow> bool" where
  "bg_is_exempt_room state_events =
     (let create_content = (case state_content state_events CREATE_EVENT_TYPE of None \<Rightarrow> [] | Some c \<Rightarrow> c) in
      is_exempt_room (dget_none create_content ''type'') (dget_none create_content CHAT_TYPE_KEY)
        (case state_content state_events TOPOLOGY_STATE_TYPE of None \<Rightarrow> JNull | Some c \<Rightarrow> JObj c)
        (py_truthy (dget_none create_content LEGACY_STORIES_KEY)))"

definition is_direct_room :: "homeserver \<Rightarrow> string \<Rightarrow> string \<Rightarrow> string \<Rightarrow> bool" where
  "is_direct_room hs room_id sndr counterpart =
     list_ex (\<lambda>user_id. is_mine_id hs user_id
       \<and> room_is_direct_for (bg_get_global hs user_id DIRECT_ACCOUNT_DATA) room_id) [counterpart, sndr]"

definition bg_check_event_allowed :: "homeserver \<Rightarrow> block_guard \<Rightarrow> event_rule" where
  "bg_check_event_allowed hs g event state_events =
     (if \<not> bg_enabled g then Inr (True, None)
      else if \<not> is_blockable_event_type (ev_type event) (ev_content event) then Inr (True, None)
      else if \<not> is_mine_id hs (ev_sender event) then Inr (True, None)
      else if bg_is_exempt_room state_events then Inr (True, None)
      else if is_service_account hs g (ev_sender event) then Inr (True, None)
      else if ev_type event = MEMBER_EVENT_TYPE then
        rbind (state_key_of event) (\<lambda>target.
          if target = [] \<or> is_service_account hs g target then Inr (True, None)
          else if \<not> bg_ignores hs target (ev_sender event) then Inr (True, None)
          else Inl (SynapseError 403 LIZA_BLOCKED))
      else (case dm_counterpart (bg_members state_events) (ev_sender event) of
              None \<Rightarrow> Inr (True, None)
            | Some counterpart \<Rightarrow>
                if is_service_account hs g counterpart then Inr (True, None)
                else if \<not> bg_ignores hs counterpart (ev_sender event) then Inr (True, None)
                else if \<not> is_direct_room hs (ev_room_id event) (ev_sender event) counterpart
                then Inr (True, None)
                else Inl (SynapseError 403 LIZA_BLOCKED)))"

section \<open>Who is refused\<close>

text \<open>
  The addressee of an event: the target of a direct invite, or the other of the two participants of
  a room that one of them lists as direct.
\<close>

inductive addressed :: "homeserver \<Rightarrow> room_state \<Rightarrow> event \<Rightarrow> string \<Rightarrow> bool"
  for hs st e where
  invite: "addressed hs st e v"
    if "ev_type e = ''m.room.member''" and "ev_state_key e = Some v" and "v \<noteq> []"
      and "dget (ev_content e) ''membership'' = Some (JStr ''invite'')"
      and "dget (ev_content e) ''is_direct'' = Some (JBool True)"
| direct: "addressed hs st e v"
    if "ev_type e \<in> {''m.room.message'', ''m.room.encrypted'', ''m.reaction''}"
      and "v \<noteq> ev_sender e" and "joined_and_invited (bg_members st) \<in> {[v, ev_sender e], [ev_sender e, v]}"
      and "is_direct_room hs (ev_room_id e) (ev_sender e) v"

inductive_cases addressedE: "addressed hs st e v"

text \<open>A user may be shielded from another: both are people, and the first ignores the second.\<close>

definition shielded :: "homeserver \<Rightarrow> block_guard \<Rightarrow> string \<Rightarrow> string \<Rightarrow> bool" where
  "shielded hs g v u \<longleftrightarrow> \<not> is_service_account hs g v \<and> \<not> is_service_account hs g u
     \<and> is_mine_id hs v \<and> is_mine_id hs u
     \<and> (\<exists>d ignored. get_global hs v ''m.ignored_user_list'' = Inr (Some d)
          \<and> dget d ''ignored_users'' = Some (JObj ignored) \<and> u \<in> fst ` set ignored)"

lemma dget_none_iff: "v \<noteq> JNull \<Longrightarrow> dget_none c k = v \<longleftrightarrow> dget c k = Some v"
  by (auto simp: dget_none_def dget_def split: option.splits)

lemma bg_ignores_iff:
  "bg_ignores hs v u \<longleftrightarrow> is_mine_id hs v \<and> (\<exists>d ignored. get_global hs v ''m.ignored_user_list'' = Inr (Some d)
     \<and> dget d ''ignored_users'' = Some (JObj ignored) \<and> u \<in> fst ` set ignored)"
  by (auto simp: bg_ignores_def ignores_def bg_get_global_def IGNORED_USER_LIST_def dhas_iff dget_none_def dget_def
      split: sum.splits option.splits json.splits)

lemma shielded_iff:
  "shielded hs g v u \<longleftrightarrow> \<not> is_service_account hs g v \<and> \<not> is_service_account hs g u
     \<and> is_mine_id hs u \<and> bg_ignores hs v u"
  unfolding shielded_def bg_ignores_iff by blast

lemma dm_counterpart_iff:
  "dm_counterpart ms u = Some v \<longleftrightarrow> v \<noteq> u \<and> joined_and_invited ms \<in> {[v, u], [u, v]}"
proof (cases "length (joined_and_invited ms) = 2")
  case True
  then obtain a b where "joined_and_invited ms = [a, b]"
    by (auto simp: numeral_2_eq_2 length_Suc_conv)
  then show ?thesis by (auto simp: dm_counterpart_def Let_def)
qed (auto simp: dm_counterpart_def Let_def)

lemma blockable_message:
  "ev_type e \<noteq> MEMBER_EVENT_TYPE \<Longrightarrow> is_blockable_event_type (ev_type e) c \<longleftrightarrow>
     ev_type e \<in> {''m.room.message'', ''m.room.encrypted'', ''m.reaction''}"
  by (auto simp: is_blockable_event_type_def BLOCKABLE_MESSAGE_TYPES_def)

lemma blockable_member:
  "is_blockable_event_type MEMBER_EVENT_TYPE c \<longleftrightarrow> dget c ''membership'' = Some (JStr ''invite'')
     \<and> dget c ''is_direct'' = Some (JBool True)"
  by (simp add: is_blockable_event_type_def BLOCKABLE_MESSAGE_TYPES_def MEMBER_EVENT_TYPE_def dget_none_iff)

lemma addressed_invite_iff:
  assumes "ev_type e = MEMBER_EVENT_TYPE"
  shows "addressed hs st e v \<longleftrightarrow> is_blockable_event_type (ev_type e) (ev_content e)
     \<and> ev_state_key e = Some v \<and> v \<noteq> []"
  unfolding assms blockable_member using assms
  by (auto simp: MEMBER_EVENT_TYPE_def intro: addressed.invite elim!: addressedE)

lemma addressed_direct_iff:
  assumes "ev_type e \<noteq> MEMBER_EVENT_TYPE"
  shows "addressed hs st e v \<longleftrightarrow> is_blockable_event_type (ev_type e) (ev_content e)
     \<and> dm_counterpart (bg_members st) (ev_sender e) = Some v
     \<and> is_direct_room hs (ev_room_id e) (ev_sender e) v"
  unfolding blockable_message [OF assms] dm_counterpart_iff using assms
  by (auto simp: MEMBER_EVENT_TYPE_def intro: addressed.direct elim!: addressedE)

lemma bg_check_refuses_iff:
  "bg_check_event_allowed hs g e st = Inl (SynapseError 403 LIZA_BLOCKED) \<longleftrightarrow>
     bg_enabled g \<and> \<not> bg_is_exempt_room st
     \<and> (\<exists>v. addressed hs st e v \<and> shielded hs g v (ev_sender e))"
proof (cases "ev_type e = MEMBER_EVENT_TYPE")
  case True
  show ?thesis
    unfolding addressed_invite_iff [OF True] shielded_iff bg_check_event_allowed_def
    using True by (cases "ev_state_key e") (auto simp: state_key_of_def)
next
  case False
  show ?thesis
    unfolding addressed_direct_iff [OF False] shielded_iff bg_check_event_allowed_def
    using False by (auto split: option.splits)
qed

text \<open>
  C12: who \<open>block_guard\<close> stops. A local event is refused exactly when the guard is enabled, the room
  is not exempt, and the event addresses somebody who is shielded from its sender; every other
  event passes unchanged, except that an invite without a state key raises.
\<close>

theorem block_guard_refuses_iff:
  "(bg_check_event_allowed hs g e st = Inl (SynapseError 403 LIZA_BLOCKED) \<longleftrightarrow>
      bg_enabled g \<and> \<not> bg_is_exempt_room st
      \<and> (\<exists>v. addressed hs st e v \<and> shielded hs g v (ev_sender e)))
   \<and> bg_check_event_allowed hs g e st
       \<in> {Inr (True, None), Inl (SynapseError 403 LIZA_BLOCKED), Inl PyAttributeError}"
  unfolding bg_check_refuses_iff
  by (auto simp: bg_check_event_allowed_def state_key_of_def split: option.splits)

lemma bg_check_Inr: "bg_check_event_allowed hs g e st = Inr r \<Longrightarrow> r = (True, None)"
  by (auto simp: bg_check_event_allowed_def rbind_Inr_iff split: option.splits if_splits)

interpretation bg: event_guard "bg_check_event_allowed hs g" for hs g
  by unfold_locales (rule bg_check_Inr)

text \<open>
  The refusal reaches the client. Whatever callbacks are registered after \<open>block_guard\<close>, and
  when those before it let the event pass, an event addressed to somebody shielded from its sender
  is answered with the guard's own error.
\<close>

theorem block_guard_refusal_reaches_client:
  assumes "bg_enabled g" and "\<not> bg_is_exempt_room st"
    and "addressed hs st e v" and "shielded hs g v (ev_sender e)"
    and "check_event_allowed before e st = Inr (True, None)"
  shows "check_event_allowed (before @ bg_check_event_allowed hs g # after) e st
    = Inl (SynapseError 403 LIZA_BLOCKED)"
proof (rule bg.refusal_reaches_caller [OF assms(5)])
  show "bg_check_event_allowed hs g e st = Inl (SynapseError 403 LIZA_BLOCKED)"
    using assms(1-4) bg_check_refuses_iff by blast
qed simp

lemma bg_ignores_data:
  "bg_ignores hs v u \<Longrightarrow> \<exists>d. hs_account_data hs v ''m.ignored_user_list'' = Inr (Some d)"
  unfolding bg_ignores_iff by (auto simp: get_global_def rbind_Inr_iff)

lemma json_strings_iff: "s \<in> set (json_strings vs) \<longleftrightarrow> JStr s \<in> set vs"
  by (induction vs) (auto simp: json_strings_def map_filter_simps split: json.splits)

lemma map_of_graph: "map_of (map (\<lambda>v. (v, f v)) xs) u = (if u \<in> set xs then Some (f u) else None)"
  by (induction xs) auto

lemma blocked_invitees_iff:
  assumes "py_truthy (dget_none config ''is_direct'')" and "dget_none config ''invite'' = JList vs"
  shows "u \<in> set (blocked_invitees config (map (\<lambda>v. (v, P v)) (json_strings vs))) \<longleftrightarrow> JStr u \<in> set vs \<and> P u"
  using assms by (auto simp: blocked_invitees_def dget_def map_of_graph json_strings_iff split: if_splits)

lemma bg_on_create_room_iff:
  "bg_on_create_room hs g creator config adm = Inl (SynapseError 403 LIZA_BLOCKED) \<longleftrightarrow>
     bg_enabled g \<and> py_truthy (dget_none config ''is_direct'') \<and> \<not> is_service_account hs g creator
     \<and> (\<exists>vs u. dget_none config ''invite'' = JList vs \<and> JStr u \<in> set vs \<and> bg_ignores hs u creator)"
proof (cases "bg_enabled g \<and> py_truthy (dget_none config ''is_direct'') \<and> \<not> is_service_account hs g creator")
  case True
  show ?thesis
  proof (cases "dget_none config ''invite''")
    case (JList vs)
    note b = blocked_invitees_iff [OF _ JList, of _ "\<lambda>v. bg_ignores hs v creator"]
    have "blocked_invitees config (map (\<lambda>v. (v, bg_ignores hs v creator)) (json_strings vs)) \<noteq> []
        \<longleftrightarrow> (\<exists>u. JStr u \<in> set vs \<and> bg_ignores hs u creator)"
      using b True by (metis list.set_intros(1) neq_Nil_conv set_empty empty_iff)
    with True JList show ?thesis by (auto simp: bg_on_create_room_def Let_def)
  qed (use True in \<open>simp_all add: bg_on_create_room_def\<close>)
qed (auto simp: bg_on_create_room_def)

text \<open>
  The guard fails open. When no account data can be read, no event is refused and no room
  creation is stopped.
\<close>

theorem block_guard_fails_open:
  assumes "\<forall>u ty. \<exists>err. hs_account_data hs u ty = Inl err"
  shows "bg_check_event_allowed hs g e st \<noteq> Inl (SynapseError 403 LIZA_BLOCKED)
    \<and> bg_on_create_room hs g creator config adm = Inr config"
proof -
  have "\<not> bg_ignores hs v u" for v u
    using assms bg_ignores_data [of hs v u] by (metis sum.distinct(1))
  then have "bg_check_event_allowed hs g e st \<noteq> Inl (SynapseError 403 LIZA_BLOCKED)"
    and "bg_on_create_room hs g creator config adm \<noteq> Inl (SynapseError 403 LIZA_BLOCKED)"
    unfolding bg_check_refuses_iff bg_on_create_room_iff shielded_iff by blast+
  then show ?thesis by (auto simp: bg_on_create_room_def Let_def split: json.splits if_splits)
qed

text \<open>The invite that the creation of a direct chat sends.\<close>

definition direct_invite :: "event \<Rightarrow> string \<Rightarrow> string \<Rightarrow> bool" where
  "direct_invite e u v \<longleftrightarrow> ev_type e = MEMBER_EVENT_TYPE \<and> ev_sender e = u \<and> ev_state_key e = Some v
     \<and> dget (ev_content e) ''membership'' = Some (JStr ''invite'')
     \<and> dget (ev_content e) ''is_direct'' = Some (JBool True)"

text \<open>
  The two ways into a direct chat are guarded alike. The creation of a direct chat by a local
  user is refused exactly when the guard would refuse one of the direct invites it sends, as long as
  no invitee is a service account.
\<close>

theorem create_refused_iff_invite_refused:
  assumes "is_mine_id hs creator" and "\<not> bg_is_exempt_room st"
    and "py_truthy (dget_none config ''is_direct'')" and "dget_none config ''invite'' = JList vs"
    and "\<forall>v. JStr v \<in> set vs \<longrightarrow> v \<noteq> [] \<and> \<not> is_service_account hs g v"
    and "\<forall>v. direct_invite (invite_of v) creator v"
  shows "bg_on_create_room hs g creator config adm = Inl (SynapseError 403 LIZA_BLOCKED) \<longleftrightarrow>
    (\<exists>v. JStr v \<in> set vs \<and> bg_check_event_allowed hs g (invite_of v) st = Inl (SynapseError 403 LIZA_BLOCKED))"
proof -
  have a: "addressed hs st (invite_of v) w \<longleftrightarrow> w = v \<and> v \<noteq> []" and s: "ev_sender (invite_of v) = creator" for v w
    using assms(6) addressed_invite_iff [of "invite_of v" hs st w]
    by (auto simp: direct_invite_def blockable_member)
  show ?thesis
    unfolding bg_on_create_room_iff bg_check_refuses_iff a s shielded_iff using assms(1-5) by auto
qed

section \<open>Instances\<close>

text \<open>A homeserver where Alice and the support account ignore Bob, and a direct chat of two.\<close>

definition sample_hs :: homeserver where
  "sample_hs = \<lparr>hs_hostname = ''s'', hs_account_data = (\<lambda>u ty.
     if ty = ''m.ignored_user_list'' \<and> u \<in> {''@alice:s'', ''@support:s''}
     then Inr (Some [(''ignored_users'', JObj [(''@bob:s'', JObj [])])])
     else if ty = ''m.direct'' \<and> u = ''@bob:s''
     then Inr (Some [(''@alice:s'', JList [JStr ''!r:s''])])
     else Inr None)\<rparr>"

definition sample_guard :: block_guard where
  "sample_guard = \<lparr>bg_enabled = True, bg_service_localparts = DEFAULT_SERVICE_LOCALPARTS\<rparr>"

definition sample_chat :: room_state where
  "sample_chat = [((''m.room.create'', ''''), sample_create),
     ((''m.room.member'', ''@alice:s''), sample_member ''$1'' ''@alice:s'' ''@alice:s'' ''join''),
     ((''m.room.member'', ''@bob:s''), sample_member ''$2'' ''@bob:s'' ''@bob:s'' ''join'')]"

definition sample_message :: event where
  "sample_message = sample_event ''$3'' ''m.room.message'' None ''@bob:s'' [] []"

definition sample_invite :: "string \<Rightarrow> event" where
  "sample_invite v = sample_event ''$4'' MEMBER_EVENT_TYPE (Some v) ''@bob:s''
     [(''membership'', JStr ''invite''), (''is_direct'', JBool True)] []"

theorem block_guard_refusal_reaches_client_witness:
  "check_event_allowed [bg_check_event_allowed sample_hs sample_guard] sample_message sample_chat
     = Inl (SynapseError 403 LIZA_BLOCKED)"
proof -
  have "\<not> bg_is_exempt_room sample_chat" and "bg_enabled sample_guard" by code_simp+
  moreover have "addressed sample_hs sample_chat sample_message ''@alice:s''"
    by (rule addressed.direct) code_simp+
  moreover have "shielded sample_hs sample_guard ''@alice:s'' (ev_sender sample_message)"
    unfolding shielded_iff by code_simp
  ultimately show ?thesis
    using block_guard_refusal_reaches_client [where before = "[]" and after = "[]"] by simp
qed

theorem block_guard_fails_open_witness:
  "bg_on_create_room (sample_hs\<lparr>hs_account_data := \<lambda>_ _. Inl PyException\<rparr>) sample_guard ''@bob:s''
     [(''is_direct'', JBool True), (''invite'', JList [JStr ''@alice:s''])] False
   = Inr [(''is_direct'', JBool True), (''invite'', JList [JStr ''@alice:s''])]"
  using block_guard_fails_open [of "sample_hs\<lparr>hs_account_data := \<lambda>_ _. Inl PyException\<rparr>"] by simp

theorem create_refused_iff_invite_refused_witness:
  "\<exists>v. JStr v \<in> set [JStr ''@alice:s''] \<and>
     bg_check_event_allowed sample_hs sample_guard (sample_invite v) [] = Inl (SynapseError 403 LIZA_BLOCKED)"
proof -
  let ?config = "[(''is_direct'', JBool True), (''invite'', JList [JStr ''@alice:s''])]"
  have "bg_on_create_room sample_hs sample_guard ''@bob:s'' ?config False = Inl (SynapseError 403 LIZA_BLOCKED)"
    by code_simp
  moreover have "is_mine_id sample_hs ''@bob:s''" "\<not> bg_is_exempt_room []"
    "\<not> is_service_account sample_hs sample_guard ''@alice:s''" by code_simp+
  moreover have "direct_invite (sample_invite v) ''@bob:s'' v" for v
    by (simp add: direct_invite_def sample_invite_def sample_event_def dget_def)
  ultimately show ?thesis
    using create_refused_iff_invite_refused [of sample_hs "''@bob:s''" "[]" ?config "[JStr ''@alice:s'']"
        sample_guard sample_invite False] by (simp add: dget_none_def)
qed

text \<open>
  Service accounts are not left alone at the creation of a room. The module's description
  says that it does not touch service accounts, and the invite to the support account passes; the
  creation of a direct chat with it is refused when the support account ignores the creator.
\<close>

theorem service_invitee_refused_at_creation:
  "is_service_account sample_hs sample_guard ''@support:s''
   \<and> bg_check_event_allowed sample_hs sample_guard (sample_invite ''@support:s'') sample_chat = Inr (True, None)
   \<and> bg_on_create_room sample_hs sample_guard ''@bob:s''
       [(''is_direct'', JBool True), (''invite'', JList [JStr ''@support:s''])] False
     = Inl (SynapseError 403 LIZA_BLOCKED)"
  by code_simp

end
