(* ===== verification/Channel_Guard.thy ===== *)
theory Channel_Guard
  imports Block_Guard
begin

text \<open>
  The module \<open>channel_guard\<close> (\<open>modules/channel_guard/_logic.py\<close> and \<open>__init__.py\<close>): only admins
  and moderators create channels, and a channel gets a room type, by which the public directory
  tells it from a chat. The callback changes the request in place; it returns the changed request
  here. The last theorem composes it with \<open>block_guard\<close> under the dispatcher.
\<close>

definition CHANNEL_TYPE :: string where "CHANNEL_TYPE = ''channel''"
definition ROLES_ALLOWED_TO_CREATE :: "string list" where "ROLES_ALLOWED_TO_CREATE = [''admin'', ''moderator'']"
definition ROOM_TYPE_KEY :: string where "ROOM_TYPE_KEY = ''type''"
definition LIZA_CHANNEL_ROOM_TYPE :: string where "LIZA_CHANNEL_ROOM_TYPE = ''com.liza.channel''"

text \<open>\<open>config.get("creation_content") or {}\<close>, of which an attribute is taken.\<close>

definition creation_content_of :: "jdict \<Rightarrow> jdict res" where
  "creation_content_of config = (let v = dget_none config ''creation_content'' in
     if \<not> py_truthy v then Inr []
     else (case v of JObj c \<Rightarrow> Inr c | _ \<Rightarrow> Inl PyAttributeError))"

definition is_channel_creation :: "jdict \<Rightarrow> bool res" where
  "is_channel_creation config = rbind (creation_content_of config) (\<lambda>creation_content.
     Inr (dget_none creation_content CHAT_TYPE_KEY = JStr CHANNEL_TYPE))"

definition mark_channel_room_type :: "jdict \<Rightarrow> (bool \<times> jdict) res" where
  "mark_channel_room_type config = rbind (is_channel_creation config) (\<lambda>channel.
     if \<not> channel then Inr (False, config)
     else rbind (case dget config ''creation_content'' of
                   None \<Rightarrow> Inr []
                 | Some (JObj c) \<Rightarrow> Inr c
                 | Some _ \<Rightarrow> Inl PyAttributeError) (\<lambda>creation_content.
       if py_truthy (dget_none creation_content ROOM_TYPE_KEY) then Inr (False, config)
       else Inr (True, dset config ''creation_content''
              (JObj (dset creation_content ROOM_TYPE_KEY (JStr LIZA_CHANNEL_ROOM_TYPE))))))"

definition role_may_create_channel :: "json \<Rightarrow> bool" where
  "role_may_create_channel role = (role \<in> JStr ` set ROLES_ALLOWED_TO_CREATE)"

definition cg_get_role :: "homeserver \<Rightarrow> string \<Rightarrow> json res" where
  "cg_get_role hs user_id = rbind (get_global hs user_id ''com.liza.user_role'') (\<lambda>data.
     let role = (case data of Some d \<Rightarrow> dget_none d ''role'' | None \<Rightarrow> JNull)
     in Inr (if py_truthy role then role else JStr ''user''))"

definition cg_on_create_room :: "homeserver \<Rightarrow> create_rule" where
  "cg_on_create_room hs requester config is_requester_admin =
     rbind (is_channel_creation config) (\<lambda>channel.
     if \<not> channel then Inr config
     else rbind (mark_channel_room_type config) (\<lambda>(_, config').
       if is_requester_admin then Inr config'
       else rbind (cg_get_role hs requester) (\<lambda>role.
         if role_may_create_channel role then Inr config'
         else Inl (SynapseError 403 UNKNOWN))))"

section \<open>Facts\<close>

lemma is_channel_creation_iff:
  "is_channel_creation config = Inr True \<longleftrightarrow>
     (\<exists>c. dget config ''creation_content'' = Some (JObj c) \<and> dget c ''com.liza.chat.type'' = Some (JStr ''channel''))"
  by (auto simp: is_channel_creation_def creation_content_of_def rbind_Inr_iff Let_def CHAT_TYPE_KEY_def
      CHANNEL_TYPE_def dget_none_def dget_def split: if_splits json.splits option.splits)

lemma mark_channel_room_type_marks:
  assumes "mark_channel_room_type config = Inr (b, config')" and "is_channel_creation config = Inr True"
  shows "\<exists>c. dget config' ''creation_content'' = Some (JObj c) \<and> py_truthy (dget_none c ''type'')
     \<and> dget c ''com.liza.chat.type'' = Some (JStr ''channel'')"
    and "k \<noteq> ''creation_content'' \<Longrightarrow> dget config' k = dget config k"
proof -
  from assms(2) obtain c where c: "dget config ''creation_content'' = Some (JObj c)"
    "dget c ''com.liza.chat.type'' = Some (JStr ''channel'')" by (auto simp: is_channel_creation_iff)
  let ?c = "dset c ''type'' (JStr ''com.liza.channel'')"
  note eq = assms(1) [unfolded mark_channel_room_type_def assms(2)]
  have "(config' = config \<and> py_truthy (dget_none c ''type'')) \<or> config' = dset config ''creation_content'' (JObj ?c)"
    using eq c(1) by (auto simp: ROOM_TYPE_KEY_def LIZA_CHANNEL_ROOM_TYPE_def split: if_splits)
  moreover have "py_truthy (dget_none ?c ''type'')" "dget ?c ''com.liza.chat.type'' = Some (JStr ''channel'')"
    using c(2) by (simp_all add: dget_none_def dget_def)
  ultimately show "\<exists>c. dget config' ''creation_content'' = Some (JObj c) \<and> py_truthy (dget_none c ''type'')
     \<and> dget c ''com.liza.chat.type'' = Some (JStr ''channel'')"
    using c by (auto simp: dget_dset)
  show "k \<noteq> ''creation_content'' \<Longrightarrow> dget config' k = dget config k"
    using eq c(1) by (auto simp: dget_dset split: if_splits)
qed

lemma mark_channel_room_type_idem:
  assumes "mark_channel_room_type config = Inr (b, config')"
  shows "mark_channel_room_type config' = Inr (False, config')"
proof (cases "is_channel_creation config = Inr True")
  case True
  from mark_channel_room_type_marks(1) [OF assms True] obtain c where
    c: "dget config' ''creation_content'' = Some (JObj c)" "py_truthy (dget_none c ''type'')"
    "dget c ''com.liza.chat.type'' = Some (JStr ''channel'')" by blast
  then have "is_channel_creation config' = Inr True" by (auto simp: is_channel_creation_iff)
  with c show ?thesis by (simp add: mark_channel_room_type_def ROOM_TYPE_KEY_def)
next
  case False
  with assms have n: "is_channel_creation config = Inr False"
    by (cases "is_channel_creation config") (simp_all add: mark_channel_room_type_def)
  with assms have "config' = config" by (simp add: mark_channel_room_type_def)
  with n show ?thesis by (simp add: mark_channel_room_type_def)
qed

lemma bg_on_create_room_config: "bg_on_create_room hs g u config adm = Inr config' \<Longrightarrow> config' = config"
  by (auto simp: bg_on_create_room_def Let_def split: if_splits json.splits)

text \<open>
  Channels are created by those who may, and marked. When the dispatcher with \<open>block_guard\<close>
  and \<open>channel_guard\<close> lets the creation of a channel through, the requester is a server admin or has
  the role admin or moderator, and the request then names a room type; the rest of the request is
  unchanged.
\<close>

theorem channel_creation_guarded:
  assumes "on_create_room [bg_on_create_room hs g, cg_on_create_room hs] requester config adm = Inr config'"
    and "dget config ''creation_content'' = Some (JObj c)"
    and "dget c ''com.liza.chat.type'' = Some (JStr ''channel'')"
  shows "(\<not> adm \<longrightarrow> (\<exists>d r. get_global hs requester ''com.liza.user_role'' = Inr (Some d)
            \<and> dget d ''role'' = Some (JStr r) \<and> r \<in> {''admin'', ''moderator''}))
    \<and> (\<exists>c'. dget config' ''creation_content'' = Some (JObj c') \<and> py_truthy (dget_none c' ''type''))
    \<and> (\<forall>k. k \<noteq> ''creation_content'' \<longrightarrow> dget config' k = dget config k)"
proof -
  have ch: "is_channel_creation config = Inr True" using assms(2,3) is_channel_creation_iff by blast
  from assms(1) have "cg_on_create_room hs requester config adm = Inr config'"
    by (auto dest!: bg_on_create_room_config split: sum.splits)
  then obtain b where m: "mark_channel_room_type config = Inr (b, config')"
    and role: "\<not> adm \<longrightarrow> (\<exists>role. cg_get_role hs requester = Inr role \<and> role_may_create_channel role)"
    by (auto simp: cg_on_create_room_def ch rbind_Inr_iff split: if_splits)
  have "\<exists>d r. get_global hs requester ''com.liza.user_role'' = Inr (Some d)
      \<and> dget d ''role'' = Some (JStr r) \<and> r \<in> {''admin'', ''moderator''}"
    if "cg_get_role hs requester = Inr role" "role_may_create_channel role" for role
    using that
    by (auto simp: cg_get_role_def role_may_create_channel_def ROLES_ALLOWED_TO_CREATE_def rbind_Inr_iff Let_def
        dget_none_def dget_def split: option.splits if_splits)
  with role mark_channel_room_type_marks [OF m ch] show ?thesis by blast
qed

theorem channel_creation_guarded_witness:
  "\<exists>config'. on_create_room [bg_on_create_room sample_hs sample_guard, cg_on_create_room sample_hs] ''@alice:s''
       [(''creation_content'', JObj [(''com.liza.chat.type'', JStr ''channel'')])] True = Inr config'
     \<and> (\<exists>c'. dget config' ''creation_content'' = Some (JObj c') \<and> py_truthy (dget_none c' ''type''))"
proof -
  let ?c = "[(''com.liza.chat.type'', JStr ''channel'')]"
  let ?config = "[(''creation_content'', JObj ?c)]"
  have "case on_create_room [bg_on_create_room sample_hs sample_guard, cg_on_create_room sample_hs] ''@alice:s''
      ?config True of Inr _ \<Rightarrow> True | _ \<Rightarrow> False" by code_simp
  then obtain config' where r: "on_create_room [bg_on_create_room sample_hs sample_guard, cg_on_create_room sample_hs]
      ''@alice:s'' ?config True = Inr config'" by (auto split: sum.splits)
  have "dget ?config ''creation_content'' = Some (JObj ?c)"
    "dget ?c ''com.liza.chat.type'' = Some (JStr ''channel'')" by (simp_all add: dget_def)
  from channel_creation_guarded [OF r this] r show ?thesis by blast
qed

end
