(* ===== verification/Mirror_Store.thy ===== *)
theory Mirror_Store
  imports Py_Base
begin

text \<open>
  The table of \<open>modules/channel_sync/_storage.py\<close>, from the posts of a channel to their mirrors in
  the linked discussion room, and the interface that the rest of the module relies on. A row is
  (\<open>post_event_id\<close>, \<open>mirror_event_id\<close>, \<open>discussion_room_id\<close>); \<open>post_event_id\<close> is the primary
  key. The post id of a query may come from the content of an event: a value that is no string
  matches no row.
\<close>

type_synonym mirror_table = "(string \<times> string \<times> json) list"

section \<open>The operations\<close>

definition already_mirrored :: "mirror_table \<Rightarrow> string \<Rightarrow> bool" where
  "already_mirrored t post_event_id = (post_event_id \<in> set (map fst t))"

text \<open>\<open>INSERT ... ON CONFLICT (post_event_id) DO NOTHING\<close>.\<close>

definition put_mirror :: "string \<Rightarrow> string \<Rightarrow> json \<Rightarrow> mirror_table \<Rightarrow> mirror_table" where
  "put_mirror post_event_id mirror_event_id discussion_room_id t =
     (if post_event_id \<in> set (map fst t) then t
      else t @ [(post_event_id, mirror_event_id, discussion_room_id)])"

definition get_mirror :: "mirror_table \<Rightarrow> json \<Rightarrow> (string \<times> json) option" where
  "get_mirror t post_event_id = (case post_event_id of JStr p \<Rightarrow> map_of t p | _ \<Rightarrow> None)"

definition delete_mirror :: "json \<Rightarrow> mirror_table \<Rightarrow> mirror_table" where
  "delete_mirror post_event_id t = filter (\<lambda>row. JStr (fst row) \<noteq> post_event_id) t"

definition delete_by_discussion :: "json \<Rightarrow> mirror_table \<Rightarrow> nat \<times> mirror_table" where
  "delete_by_discussion discussion_room_id t =
     (length (filter (\<lambda>row. snd (snd row) = discussion_room_id) t),
      filter (\<lambda>row. snd (snd row) \<noteq> discussion_room_id) t)"

text \<open>
  \<open>find_channel_rooms\<close>, from the rows (\<open>room_id\<close>, parsed JSON of the creation event); \<open>None\<close>
  stands for text that does not parse.
\<close>

fun find_channel_rooms :: "(string \<times> json option) list \<Rightarrow> string list res" where
  "find_channel_rooms [] = Inr []"
| "find_channel_rooms ((room_id, None) # rows) = find_channel_rooms rows"
| "find_channel_rooms ((room_id, Some v) # rows) =
     rbind (or_obj v) (\<lambda>ev.
     rbind (or_obj (dget_none ev ''content'')) (\<lambda>content.
     rbind (find_channel_rooms rows) (\<lambda>rooms.
       Inr (if dget_none content ''com.liza.chat.type'' = JStr ''channel'' then room_id # rooms else rooms))))"

section \<open>The interface\<close>

text \<open>
  What a store of mirrors promises: a lookup finds the first mirror put for a post until the post or
  its discussion is deleted. \<open>inv\<close> is the invariant of the representation.
\<close>

locale mirror_store =
  fixes empty :: 't and put :: "string \<Rightarrow> string \<Rightarrow> json \<Rightarrow> 't \<Rightarrow> 't"
    and lookup :: "'t \<Rightarrow> string \<Rightarrow> (string \<times> json) option"
    and delete :: "string \<Rightarrow> 't \<Rightarrow> 't" and drop_room :: "json \<Rightarrow> 't \<Rightarrow> 't" and inv :: "'t \<Rightarrow> bool"
  assumes inv_empty: "inv empty" and inv_put: "inv t \<Longrightarrow> inv (put p m d t)"
    and inv_delete: "inv t \<Longrightarrow> inv (delete p t)" and inv_drop: "inv t \<Longrightarrow> inv (drop_room d t)"
    and lookup_empty: "lookup empty p = None"
    and lookup_put: "inv t \<Longrightarrow> lookup (put p m d t) p' =
          (if p' = p \<and> lookup t p = None then Some (m, d) else lookup t p')"
    and lookup_delete: "inv t \<Longrightarrow> lookup (delete p t) p' = (if p' = p then None else lookup t p')"
    and lookup_drop: "inv t \<Longrightarrow> lookup (drop_room d t) p' =
          (case lookup t p' of Some (m, d') \<Rightarrow> if d' = d then None else Some (m, d') | None \<Rightarrow> None)"
begin

text \<open>The first mirror of a post wins.\<close>

lemma put_put: "inv t \<Longrightarrow> lookup (put p m' d' (put p m d t)) = lookup (put p m d t)"
  by (rule ext) (auto simp: lookup_put inv_put)

text \<open>Deleting a post forgets exactly its own mirror.\<close>

lemma put_delete: "inv t \<Longrightarrow> lookup t p = None \<Longrightarrow> lookup (delete p (put p m d t)) = lookup t"
  by (rule ext) (auto simp: lookup_put lookup_delete inv_put)

text \<open>After a room is dropped no post has a mirror in it.\<close>

lemma drop_no_mirror: "inv t \<Longrightarrow> lookup (drop_room d t) p \<noteq> Some (m, d)"
  by (auto simp: lookup_drop split: option.splits if_splits)

lemma drop_drop: "inv t \<Longrightarrow> lookup (drop_room d (drop_room d t)) = lookup (drop_room d t)"
  by (rule ext) (auto simp: lookup_drop inv_drop split: option.splits)

lemma put_drop:
  "inv t \<Longrightarrow> lookup t p = None \<Longrightarrow> lookup (drop_room d (put p m d t)) = lookup (drop_room d t)"
  by (rule ext) (auto simp: lookup_drop lookup_put inv_put split: option.splits)

end

definition table_ok :: "mirror_table \<Rightarrow> bool" where
  "table_ok t \<longleftrightarrow> distinct (map fst t)"

lemma map_of_filter_value:
  "distinct (map fst t) \<Longrightarrow> map_of (filter (\<lambda>row. P (snd row)) t) k =
     (case map_of t k of Some v \<Rightarrow> if P v then Some v else None | None \<Rightarrow> None)"
proof (induction t)
  case (Cons a t)
  then have "map_of t (fst a) = None" by (simp add: map_of_eq_None_iff)
  with Cons show ?case by (cases "k = fst a") (auto split: option.splits)
qed simp

lemma map_of_filter_key: "map_of (filter (\<lambda>row. P (fst row)) t) k = (if P k then map_of t k else None)"
  by (induction t) auto

interpretation mirror_tab: mirror_store "[]" put_mirror "\<lambda>t p. get_mirror t (JStr p)"
  "\<lambda>p. delete_mirror (JStr p)" "\<lambda>d t. snd (delete_by_discussion d t)" table_ok
proof unfold_locales
  fix t p m d p' assume ok: "table_ok t"
  show "table_ok (put_mirror p m d t)" using ok by (simp add: table_ok_def put_mirror_def)
  show "table_ok (delete_mirror (JStr p) t)" "table_ok (snd (delete_by_discussion d t))"
    using ok by (auto simp: table_ok_def delete_mirror_def delete_by_discussion_def distinct_map_filter)
  show "get_mirror (put_mirror p m d t) (JStr p') =
      (if p' = p \<and> get_mirror t (JStr p) = None then Some (m, d) else get_mirror t (JStr p'))"
  proof (cases "map_of t p")
    case None
    then have "p \<notin> set (map fst t)" by (simp add: map_of_eq_None_iff)
    with None show ?thesis by (simp add: get_mirror_def put_mirror_def map_add_def split: option.split)
  next
    case (Some v)
    then have "p \<in> set (map fst t)" by (metis map_of_eq_None_iff list.set_map option.distinct(1))
    with Some show ?thesis by (simp add: get_mirror_def put_mirror_def)
  qed
  show "get_mirror (delete_mirror (JStr p) t) (JStr p') = (if p' = p then None else get_mirror t (JStr p'))"
    using map_of_filter_key [of "\<lambda>k. k \<noteq> p" t p'] by (simp add: get_mirror_def delete_mirror_def)
  show "get_mirror (snd (delete_by_discussion d t)) (JStr p') = (case get_mirror t (JStr p') of
      Some (m, d') \<Rightarrow> if d' = d then None else Some (m, d') | None \<Rightarrow> None)"
    using ok map_of_filter_value [of t "\<lambda>v. snd v \<noteq> d" p']
    by (auto simp: get_mirror_def delete_by_discussion_def table_ok_def split: option.splits)
qed (simp_all add: table_ok_def get_mirror_def)

lemma already_mirrored_iff: "already_mirrored t p \<longleftrightarrow> get_mirror t (JStr p) \<noteq> None"
  by (simp add: already_mirrored_def get_mirror_def map_of_eq_None_iff)

end
