(* ===== verification/Coroutine.thy ===== *)
theory Coroutine
  imports Py_Base
begin

text \<open>
  Coroutines of the modules: a value of type \<open>('s, 'a) co\<close> takes the state, and returns a result or
  an exception with the new state. What was written before an exception stays written. Also the
  request to send an event, as the modules pass it to \<open>create_and_send_event_into_room\<close>.
\<close>

type_synonym ('s, 'a) co = "'s \<Rightarrow> 'a res \<times> 's"

definition cret :: "'a \<Rightarrow> ('s, 'a) co" where
  "cret a s = (Inr a, s)"

definition cbind :: "('s, 'a) co \<Rightarrow> ('a \<Rightarrow> ('s, 'b) co) \<Rightarrow> ('s, 'b) co" where
  "cbind m f s = (case m s of (Inl e, s') \<Rightarrow> (Inl e, s') | (Inr a, s') \<Rightarrow> f a s')"

text \<open>\<open>try: m / except Exception: h\<close>.\<close>

definition ccatch :: "('s, 'a) co \<Rightarrow> ('s, 'a) co \<Rightarrow> ('s, 'a) co" where
  "ccatch m h s = (case m s of (Inl e, s') \<Rightarrow> h s' | r \<Rightarrow> r)"

definition cres :: "'a res \<Rightarrow> ('s, 'a) co" where
  "cres r s = (r, s)"

fun cfor :: "'a list \<Rightarrow> ('a \<Rightarrow> ('s, unit) co) \<Rightarrow> ('s, unit) co" where
  "cfor [] f = cret ()"
| "cfor (x # xs) f = cbind (f x) (\<lambda>_. cfor xs f)"

record send_request =
  sd_type :: string
  sd_room_id :: json
  sd_sender :: string
  sd_state_key :: "string option"
  sd_redacts :: "string option"
  sd_content :: jdict

end
