(* ===== verification/Channel_Sync.thy ===== *)
theory Channel_Sync
  imports Mirror_Store Module_Api Coroutine
begin

text \<open>
  The module \<open>channel_sync\<close> (\<open>modules/channel_sync/_logic.py\<close> and \<open>__init__.py\<close>): the root posts
  of a channel are mirrored into a linked discussion room, subscribers of the channel get access to
  it, and its privacy follows the channel's.

  A coroutine of the module is a value of type \<open>('w, 'a) cs\<close>: it takes the state, the mirror table
  and the world \<open>'w\<close> behind the homeserver's API, and returns a result or an exception with the new
  state. The API that the module calls is the record \<open>csync\<close>; its functions may raise and may change
  the world, and nothing else is assumed of them here. A room id that comes from the content of an
  event is a JSON value. \<open>run_as_background_process\<close> starts a process and returns: the callback
  \<open>on_new_event\<close> returns the processes to run, as values of \<open>task\<close>. \<open>sleep(0)\<close> and logging are
  left out.
\<close>

section \<open>\<open>_logic.py\<close>\<close>

definition CHANNEL_DISCUSSION_STATE :: string where "CHANNEL_DISCUSSION_STATE = ''com.liza.channel.discussion''"
definition POST_REF_KEY :: string where "POST_REF_KEY = ''com.liza.channel.post_ref''"
definition DISCUSSION_CHAT_TYPE :: string where "DISCUSSION_CHAT_TYPE = ''channel_discussion''"
definition CHANNEL_DELETED_KEY :: string where "CHANNEL_DELETED_KEY = ''deleted''"
definition JOIN_RULES_STATE :: string where "JOIN_RULES_STATE = ''m.room.join_rules''"
definition HISTORY_VISIBILITY_STATE :: string where "HISTORY_VISIBILITY_STATE = ''m.room.history_visibility''"
definition TOPOLOGY_STATE :: string where "TOPOLOGY_STATE = ''com.liza.chat.topology''"

definition is_root_post :: "string \<Rightarrow> jdict \<Rightarrow> bool" where
  "is_root_post event_type content =
     (if event_type \<noteq> ''m.room.message'' then False else \<not> dhas content ''m.relates_to'')"

definition is_edit :: "jdict \<Rightarrow> bool res" where
  "is_edit content = rbind (or_obj (dget_none content ''m.relates_to'')) (\<lambda>rel.
     Inr (dget_none rel ''rel_type'' = JStr ''m.replace''))"

definition edited_event_id :: "jdict \<Rightarrow> json res" where
  "edited_event_id content = rbind (or_obj (dget_none content ''m.relates_to'')) (\<lambda>rel.
     if dget_none rel ''rel_type'' \<noteq> JStr ''m.replace'' then Inr JNull
     else Inr (dget_none rel ''event_id''))"

text \<open>The content of a state event that may be missing; \<open>{}\<close> is falsy like \<open>None\<close>.\<close>

definition discussion_room_of :: "jdict option \<Rightarrow> json" where
  "discussion_room_of discussion_state_content =
     (case discussion_state_content of
        None \<Rightarrow> JNull | Some c \<Rightarrow> if c = [] then JNull else dget_none c ''room_id'')"

definition channel_deleted_of :: "jdict option \<Rightarrow> bool" where
  "channel_deleted_of discussion_state_content =
     (case discussion_state_content of
        None \<Rightarrow> False | Some c \<Rightarrow> if c = [] then False else dget_none c CHANNEL_DELETED_KEY = JBool True)"

definition should_cleanup_mappings :: "json \<Rightarrow> json \<Rightarrow> bool \<Rightarrow> bool" where
  "should_cleanup_mappings prev_room new_room channel_deleted =
     (if \<not> py_truthy prev_room then False
      else if channel_deleted then True
      else new_room \<noteq> JNull \<and> new_room \<noteq> prev_room)"

definition build_mirror_content :: "jdict \<Rightarrow> string \<Rightarrow> string \<Rightarrow> jdict" where
  "build_mirror_content post_content channel_id post_event_id =
     dset post_content POST_REF_KEY
       (JObj [(''channel_id'', JStr channel_id), (''post_event_id'', JStr post_event_id)])"

definition join_rule_of :: "jdict option \<Rightarrow> json" where
  "join_rule_of content = (case content of
     None \<Rightarrow> JNull | Some c \<Rightarrow> if c = [] then JNull else dget_none c ''join_rule'')"

definition is_public_channel :: "json \<Rightarrow> bool" where
  "is_public_channel join_rule = (join_rule = JStr ''public'')"

definition is_membership_leave :: "string \<Rightarrow> jdict \<Rightarrow> bool" where
  "is_membership_leave event_type content =
     (event_type = ''m.room.member''
      \<and> dget_none content ''membership'' \<in> {JStr ''leave'', JStr ''ban''})"

record discussion_settings =
  ds_join_rule :: string
  ds_history_visibility :: string

definition discussion_settings_for :: "json \<Rightarrow> discussion_settings" where
  "discussion_settings_for channel_join_rule =
     (if is_public_channel channel_join_rule
      then \<lparr>ds_join_rule = ''public'', ds_history_visibility = ''world_readable''\<rparr>
      else \<lparr>ds_join_rule = ''invite'', ds_history_visibility = ''shared''\<rparr>)"

record snapshot =
  sn_channel_join_rule :: json
  sn_discussion_join_rule :: json
  sn_discussion_history_visibility :: json
  sn_discussion_hidden :: json
  sn_channel_members :: "string list"
  sn_discussion_members :: "string list"

record migration_plan =
  set_join_rule :: "string option"
  set_history_visibility :: "string option"
  set_hidden :: bool
  plan_invite :: "string list"

definition plan_discussion_migration :: "snapshot \<Rightarrow> migration_plan" where
  "plan_discussion_migration s =
     (let wanted = discussion_settings_for (sn_channel_join_rule s) in
      \<lparr>set_join_rule = (if sn_discussion_join_rule s \<noteq> JStr (ds_join_rule wanted)
                        then Some (ds_join_rule wanted) else None),
       set_history_visibility =
         (if sn_discussion_history_visibility s \<noteq> JStr (ds_history_visibility wanted)
          then Some (ds_history_visibility wanted) else None),
       set_hidden = (sn_discussion_hidden s \<noteq> JBool True),
       plan_invite = (if is_public_channel (sn_channel_join_rule s) then []
         else filter (\<lambda>m. m \<notin> set (sn_discussion_members s)) (sn_channel_members s))\<rparr>)"

definition plan_is_noop :: "migration_plan \<Rightarrow> bool" where
  "plan_is_noop plan = (set_join_rule plan = None \<and> set_history_visibility plan = None
     \<and> \<not> set_hidden plan \<and> plan_invite plan = [])"

section \<open>The state, and the API of the homeserver\<close>

record 'w csync =
  cs_hs :: homeserver
  get_current_state_event :: "json \<Rightarrow> string \<Rightarrow> 'w \<Rightarrow> (string \<times> jdict) option res"
  get_users_in_room :: "json \<Rightarrow> 'w \<Rightarrow> string list res"
  get_invited_users_in_room :: "json \<Rightarrow> 'w \<Rightarrow> string list res"
  get_prev_content :: "string \<Rightarrow> 'w \<Rightarrow> jdict option res"
  create_event_rows :: "'w \<Rightarrow> (string \<times> json option) list res"
  push_rule_exists :: "string \<Rightarrow> json \<Rightarrow> 'w \<Rightarrow> bool res"
  add_push_rule :: "string \<Rightarrow> json \<Rightarrow> 'w \<Rightarrow> unit res \<times> 'w"
  create_and_send_event_into_room :: "send_request \<Rightarrow> 'w \<Rightarrow> string res \<times> 'w"
  update_room_membership ::
    "string \<Rightarrow> string \<Rightarrow> json \<Rightarrow> string \<Rightarrow> string list option \<Rightarrow> 'w \<Rightarrow> unit res \<times> 'w"

record 'w sync_state =
  mirrors :: mirror_table
  world :: 'w

type_synonym ('w, 'a) cs = "('w sync_state, 'a) co"

definition cread :: "('w \<Rightarrow> 'a res) \<Rightarrow> ('w, 'a) cs" where
  "cread f s = (f (world s), s)"

definition cact :: "('w \<Rightarrow> 'a res \<times> 'w) \<Rightarrow> ('w, 'a) cs" where
  "cact f s = (case f (world s) of (r, w) \<Rightarrow> (r, s\<lparr>world := w\<rparr>))"

definition ctable :: "(mirror_table \<Rightarrow> 'a) \<Rightarrow> ('w, 'a) cs" where
  "ctable f s = (Inr (f (mirrors s)), s)"

definition cupdate :: "(mirror_table \<Rightarrow> mirror_table) \<Rightarrow> ('w, unit) cs" where
  "cupdate f s = (Inr (), s\<lparr>mirrors := f (mirrors s)\<rparr>)"

section \<open>Reading rooms\<close>

definition channel_type :: "'w csync \<Rightarrow> string \<Rightarrow> ('w, json) cs" where
  "channel_type x room_id =
     cbind (cread (get_current_state_event x (JStr room_id) ''m.room.create'')) (\<lambda>create.
       cret (case create of None \<Rightarrow> JNull | Some (_, content) \<Rightarrow> dget_none content ''com.liza.chat.type''))"

definition discussion_room :: "'w csync \<Rightarrow> string \<Rightarrow> ('w, json) cs" where
  "discussion_room x room_id =
     cbind (cread (get_current_state_event x (JStr room_id) CHANNEL_DISCUSSION_STATE)) (\<lambda>ev.
       cret (discussion_room_of (map_option snd ev)))"

definition channel_join_rule :: "'w csync \<Rightarrow> json \<Rightarrow> ('w, json) cs" where
  "channel_join_rule x room_id =
     cbind (cread (get_current_state_event x room_id JOIN_RULES_STATE)) (\<lambda>ev.
       cret (join_rule_of (map_option snd ev)))"

definition room_creator :: "'w csync \<Rightarrow> json \<Rightarrow> ('w, string option) cs" where
  "room_creator x room_id =
     cbind (cread (get_current_state_event x room_id ''m.room.create'')) (\<lambda>create.
       cret (map_option fst create))"

definition history_visibility :: "'w csync \<Rightarrow> json \<Rightarrow> ('w, json) cs" where
  "history_visibility x room_id =
     cbind (cread (get_current_state_event x room_id HISTORY_VISIBILITY_STATE)) (\<lambda>ev.
       cret (case ev of None \<Rightarrow> JNull | Some (_, content) \<Rightarrow> dget_none content ''history_visibility''))"

definition discussion_hidden :: "'w csync \<Rightarrow> json \<Rightarrow> ('w, json) cs" where
  "discussion_hidden x room_id =
     cbind (cread (get_current_state_event x room_id TOPOLOGY_STATE)) (\<lambda>ev.
       cret (case ev of None \<Rightarrow> JNull | Some (_, content) \<Rightarrow> dget_none content ''hidden''))"

definition AI_LOCALPARTS :: "string list" where
  "AI_LOCALPARTS = [''liza'', ''gpt'', ''deepseek'']"

definition is_ai :: "'w csync \<Rightarrow> string \<Rightarrow> bool" where
  "is_ai x user_id =
     (if lstrip_at (fst (split1 (CHR '':'') user_id)) \<in> set AI_LOCALPARTS then True
      else if \<not> is_mine_id (cs_hs x) user_id then False
      else (case get_global (cs_hs x) user_id ''com.liza.user_role'' of
              Inl _ \<Rightarrow> False
            | Inr None \<Rightarrow> False
            | Inr (Some data) \<Rightarrow> dget_none data ''role'' = JStr ''ai''))"

text \<open>\<open>member.split(":", 1)[1]\<close>.\<close>

definition host_of :: "string \<Rightarrow> string res" where
  "host_of member = (case snd (split1 (CHR '':'') member) of None \<Rightarrow> Inl PyIndexError | Some h \<Rightarrow> Inr h)"

definition remote_hosts_of :: "'w csync \<Rightarrow> string \<Rightarrow> string list option res" where
  "remote_hosts_of x member =
     (if is_mine_id (cs_hs x) member then Inr None else rbind (host_of member) (\<lambda>h. Inr (Some [h])))"

section \<open>Access of subscribers\<close>

definition mute_for_subscriber :: "'w csync \<Rightarrow> string \<Rightarrow> json \<Rightarrow> ('w, unit) cs" where
  "mute_for_subscriber x user_id room_id =
     ccatch (cbind (cread (push_rule_exists x user_id room_id)) (\<lambda>existing.
               if existing then cret () else cact (add_push_rule x user_id room_id)))
       (cret ())"

definition on_channel_join :: "'w csync \<Rightarrow> string \<Rightarrow> string \<Rightarrow> ('w, unit) cs" where
  "on_channel_join x channel_id member =
     (if is_ai x member then cret ()
      else cbind (discussion_room x channel_id) (\<lambda>discussion_id.
        if discussion_id = JNull then cret ()
        else cbind (if is_mine_id (cs_hs x) member then mute_for_subscriber x member discussion_id else cret ())
          (\<lambda>_. cbind (channel_join_rule x (JStr channel_id)) (\<lambda>join_rule.
          if is_public_channel join_rule then cret ()
          else cbind (room_creator x discussion_id) (\<lambda>owner. case owner of
              None \<Rightarrow> cret ()
            | Some owner \<Rightarrow> cbind (cres (remote_hosts_of x member)) (\<lambda>remote_hosts.
                ccatch (cact (update_room_membership x owner member discussion_id ''invite'' remote_hosts))
                  (cret ())))))))"

definition on_channel_leave :: "'w csync \<Rightarrow> string \<Rightarrow> string \<Rightarrow> ('w, unit) cs" where
  "on_channel_leave x channel_id member =
     cbind (discussion_room x channel_id) (\<lambda>discussion_id.
     if discussion_id = JNull then cret ()
     else cbind (room_creator x discussion_id) (\<lambda>owner. case owner of
         None \<Rightarrow> cret ()
       | Some owner \<Rightarrow>
           ccatch (cact (update_room_membership x owner member discussion_id ''leave'' None)) (cret ())))"

section \<open>Privacy\<close>

text \<open>A state event with an empty state key, sent in its own \<open>try\<close>.\<close>

definition state_request :: "string \<Rightarrow> json \<Rightarrow> string \<Rightarrow> jdict \<Rightarrow> send_request" where
  "state_request event_type room_id sndr content =
     \<lparr>sd_type = event_type, sd_room_id = room_id, sd_sender = sndr, sd_state_key = Some [],
      sd_redacts = None, sd_content = content\<rparr>"

definition try_send :: "'w csync \<Rightarrow> send_request \<Rightarrow> ('w, unit) cs" where
  "try_send x req = ccatch (cbind (cact (create_and_send_event_into_room x req)) (\<lambda>_. cret ())) (cret ())"

definition sync_discussion_privacy :: "'w csync \<Rightarrow> string \<Rightarrow> json \<Rightarrow> ('w, unit) cs" where
  "sync_discussion_privacy x channel_id join_rule =
     cbind (discussion_room x channel_id) (\<lambda>discussion_id.
     if discussion_id = JNull then cret ()
     else cbind (room_creator x discussion_id) (\<lambda>owner. case owner of
         None \<Rightarrow> cret ()
       | Some owner \<Rightarrow>
           (let settings = discussion_settings_for join_rule in
            cfor [(JOIN_RULES_STATE, [(''join_rule'', JStr (ds_join_rule settings))]),
                  (HISTORY_VISIBILITY_STATE, [(''history_visibility'', JStr (ds_history_visibility settings))])]
              (\<lambda>(event_type, content). try_send x (state_request event_type discussion_id owner content)))))"

section \<open>Migration of existing channels\<close>

definition channel_snapshot :: "'w csync \<Rightarrow> string \<Rightarrow> json \<Rightarrow> ('w, snapshot) cs" where
  "channel_snapshot x channel_id discussion_id =
     cbind (cread (get_users_in_room x (JStr channel_id))) (\<lambda>channel_members.
     cbind (cread (get_users_in_room x discussion_id)) (\<lambda>joined.
     cbind (cread (get_invited_users_in_room x discussion_id)) (\<lambda>invited.
     cbind (channel_join_rule x (JStr channel_id)) (\<lambda>cj.
     cbind (channel_join_rule x discussion_id) (\<lambda>dj.
     cbind (history_visibility x discussion_id) (\<lambda>hv.
     cbind (discussion_hidden x discussion_id) (\<lambda>hidden.
     cret \<lparr>sn_channel_join_rule = cj, sn_discussion_join_rule = dj,
           sn_discussion_history_visibility = hv, sn_discussion_hidden = hidden,
           sn_channel_members = filter (\<lambda>m. \<not> is_ai x m) channel_members,
           sn_discussion_members = joined @ invited\<rparr>)))))))"

definition migrate_channel_visibility :: "'w csync \<Rightarrow> string \<Rightarrow> ('w, bool) cs" where
  "migrate_channel_visibility x channel_id =
     cbind (channel_join_rule x (JStr channel_id)) (\<lambda>join_rule.
     if \<not> is_public_channel join_rule then cret False
     else cbind (history_visibility x (JStr channel_id)) (\<lambda>hv.
       if hv = JStr ''world_readable'' then cret False
       else cbind (room_creator x (JStr channel_id)) (\<lambda>owner. case owner of
           None \<Rightarrow> cret False
         | Some owner \<Rightarrow>
             ccatch (cbind (cact (create_and_send_event_into_room x
                 (state_request HISTORY_VISIBILITY_STATE (JStr channel_id) owner
                   [(''history_visibility'', JStr ''world_readable'')]))) (\<lambda>_. cret True))
               (cret False))))"

definition plan_writes :: "migration_plan \<Rightarrow> (string \<times> jdict) list" where
  "plan_writes plan =
     (case set_join_rule plan of Some r \<Rightarrow> [(JOIN_RULES_STATE, [(''join_rule'', JStr r)])] | None \<Rightarrow> [])
     @ (case set_history_visibility plan of
          Some h \<Rightarrow> [(HISTORY_VISIBILITY_STATE, [(''history_visibility'', JStr h)])] | None \<Rightarrow> [])
     @ (if set_hidden plan then [(TOPOLOGY_STATE, [(''hidden'', JBool True)])] else [])"

text \<open>Every write and every invite in its own \<open>try\<close>.\<close>

definition apply_migration :: "'w csync \<Rightarrow> json \<Rightarrow> string \<Rightarrow> migration_plan \<Rightarrow> ('w, bool) cs" where
  "apply_migration x discussion_id owner plan =
     (if plan_is_noop plan then cret False
      else cbind (cfor (plan_writes plan) (\<lambda>(event_type, content).
             try_send x (state_request event_type discussion_id owner content))) (\<lambda>_.
           cbind (cfor (plan_invite plan) (\<lambda>member.
             cbind (cres (remote_hosts_of x member)) (\<lambda>remote_hosts.
               ccatch (cact (update_room_membership x owner member discussion_id ''invite'' remote_hosts))
                 (cret ())))) (\<lambda>_.
           cret True)))"

definition migrate_one_channel :: "'w csync \<Rightarrow> string \<Rightarrow> ('w, bool) cs" where
  "migrate_one_channel x channel_id =
     cbind (discussion_room x channel_id) (\<lambda>discussion_id.
     if discussion_id = JNull then cret False
     else cbind (room_creator x discussion_id) (\<lambda>owner. case owner of
         None \<Rightarrow> cret False
       | Some owner \<Rightarrow>
           cbind (channel_snapshot x channel_id discussion_id) (\<lambda>s.
             apply_migration x discussion_id owner (plan_discussion_migration s))))"

text \<open>One turn of the loop over all channels: an error of one channel does not stop the others.\<close>

definition migrate_channel_turn :: "'w csync \<Rightarrow> string \<Rightarrow> ('w, unit) cs" where
  "migrate_channel_turn x channel_id =
     ccatch (cbind (migrate_channel_visibility x channel_id) (\<lambda>_.
             cbind (migrate_one_channel x channel_id) (\<lambda>_. cret ()))) (cret ())"

definition migrate_channel_discussions :: "'w csync \<Rightarrow> ('w, unit) cs" where
  "migrate_channel_discussions x s =
     (case cbind (cread (create_event_rows x)) (\<lambda>rows. cres (find_channel_rooms rows)) s of
        (Inl _, s') \<Rightarrow> (Inr (), s')
      | (Inr channels, s') \<Rightarrow> cfor channels (migrate_channel_turn x) s')"

text \<open>\<open>CREATE TABLE IF NOT EXISTS\<close> keeps an existing table.\<close>

definition on_startup :: "'w csync \<Rightarrow> ('w, unit) cs" where
  "on_startup x = migrate_channel_discussions x"

section \<open>Mirrors\<close>

definition message_request :: "string \<Rightarrow> json \<Rightarrow> jdict \<Rightarrow> send_request" where
  "message_request sndr discussion_id content =
     \<lparr>sd_type = ''m.room.message'', sd_room_id = discussion_id, sd_sender = sndr, sd_state_key = None,
      sd_redacts = None, sd_content = content\<rparr>"

definition ensure_author_in_discussion :: "'w csync \<Rightarrow> string \<Rightarrow> json \<Rightarrow> ('w, bool) cs" where
  "ensure_author_in_discussion x author discussion_id =
     cbind (room_creator x discussion_id) (\<lambda>owner. case owner of
         None \<Rightarrow> cret False
       | Some owner \<Rightarrow>
           (let remote_hosts = (case snd (split1 (CHR '':'') author) of Some h \<Rightarrow> Some [h] | None \<Rightarrow> None) in
            cbind (ccatch (cact (update_room_membership x owner author discussion_id ''invite'' remote_hosts))
                     (cret ())) (\<lambda>_.
            ccatch (cbind (cact (update_room_membership x author author discussion_id ''join'' remote_hosts))
                      (\<lambda>_. cret True))
              (cret False))))"

definition send_mirror :: "'w csync \<Rightarrow> string \<Rightarrow> json \<Rightarrow> jdict \<Rightarrow> ('w, string) cs" where
  "send_mirror x sndr discussion_id mirror_content =
     cact (create_and_send_event_into_room x (message_request sndr discussion_id mirror_content))"

text \<open>
  The first attempt, and a second one after the author has been brought into the room; \<open>None\<close> is
  the early return.
\<close>

definition try_mirror :: "'w csync \<Rightarrow> string \<Rightarrow> json \<Rightarrow> jdict \<Rightarrow> ('w, string option) cs" where
  "try_mirror x sndr discussion_id mirror_content =
     ccatch (cbind (send_mirror x sndr discussion_id mirror_content) (\<lambda>m. cret (Some m)))
       (cbind (ensure_author_in_discussion x sndr discussion_id) (\<lambda>joined.
          if \<not> joined then cret None
          else ccatch (cbind (send_mirror x sndr discussion_id mirror_content) (\<lambda>m. cret (Some m)))
                 (cret None)))"

definition mirror_post :: "'w csync \<Rightarrow> event \<Rightarrow> jdict \<Rightarrow> ('w, unit) cs" where
  "mirror_post x event content =
     cbind (ctable (\<lambda>t. already_mirrored t (ev_event_id event))) (\<lambda>done.
     if done then cret ()
     else cbind (discussion_room x (ev_room_id event)) (\<lambda>discussion_id.
       if discussion_id = JNull then cret ()
       else cbind (try_mirror x (ev_sender event) discussion_id
               (build_mirror_content content (ev_room_id event) (ev_event_id event))) (\<lambda>mirror. case mirror of
           None \<Rightarrow> cret ()
         | Some mirror_event_id \<Rightarrow> cupdate (put_mirror (ev_event_id event) mirror_event_id discussion_id))))"

text \<open>
  The new content of an edit is a dictionary or missing; a list of pairs, which \<open>dict(...)\<close> would
  also take, is outside the model and raises like any other value.
\<close>

definition mirror_edit :: "'w csync \<Rightarrow> event \<Rightarrow> jdict \<Rightarrow> json \<Rightarrow> ('w, unit) cs" where
  "mirror_edit x event content target_post_id =
     cbind (ctable (\<lambda>t. get_mirror t target_post_id)) (\<lambda>mapping. case mapping of
         None \<Rightarrow> cret ()
       | Some (mirror_event_id, discussion_id) \<Rightarrow>
           cbind (cres (or_obj (dget_none content ''m.new_content''))) (\<lambda>new_content.
           try_send x (message_request (ev_sender event) discussion_id
             (dset new_content ''m.relates_to''
               (JObj [(''rel_type'', JStr ''m.replace''), (''event_id'', JStr mirror_event_id)])))))"

definition mirror_redact :: "'w csync \<Rightarrow> event \<Rightarrow> json \<Rightarrow> ('w, unit) cs" where
  "mirror_redact x event redacted_post_id =
     cbind (ctable (\<lambda>t. get_mirror t redacted_post_id)) (\<lambda>mapping. case mapping of
         None \<Rightarrow> cret ()
       | Some (mirror_event_id, discussion_id) \<Rightarrow>
           cbind (ccatch (cbind (cact (create_and_send_event_into_room x
                     \<lparr>sd_type = ''m.room.redaction'', sd_room_id = discussion_id, sd_sender = ev_sender event,
                      sd_state_key = None, sd_redacts = Some mirror_event_id, sd_content = []\<rparr>))
                     (\<lambda>_. cret True)) (cret False)) (\<lambda>sent.
           if \<not> sent then cret () else cupdate (delete_mirror redacted_post_id)))"

definition cleanup_unlinked_discussion :: "'w csync \<Rightarrow> string \<Rightarrow> json \<Rightarrow> bool \<Rightarrow> ('w, unit) cs" where
  "cleanup_unlinked_discussion x event_id new_room channel_deleted s =
     (case get_prev_content x event_id (world s) of
        Inl _ \<Rightarrow> (Inr (), s)
      | Inr prev \<Rightarrow>
          (let prev_room = (case prev of None \<Rightarrow> JNull | Some c \<Rightarrow> dget_none c ''room_id'') in
           if \<not> should_cleanup_mappings prev_room new_room channel_deleted then (Inr (), s)
           else cupdate (\<lambda>t. snd (delete_by_discussion prev_room t)) s))"

section \<open>The callback\<close>

datatype task =
    ChannelLeave string string
  | MuteSubscriber string string
  | ChannelJoin string string
  | UnlinkCleanup string json bool
  | Privacy string json
  | MirrorPost event jdict
  | MirrorEdit event jdict json
  | MirrorRedact event json

text \<open>\<open>event.state_key\<close> when the rest of the branch needs it, and \<open>channel_type(...) == "channel"\<close>.\<close>

definition in_channel :: "'w csync \<Rightarrow> event \<Rightarrow> ('w, bool) cs" where
  "in_channel x event = cbind (channel_type x (ev_room_id event)) (\<lambda>t. cret (t = JStr ''channel''))"

definition on_new_event :: "'w csync \<Rightarrow> event \<Rightarrow> ('w, task list) cs" where
  "on_new_event x event =
     (let content = ev_content event; when_channel = (\<lambda>ts. cbind (in_channel x event) (\<lambda>c. cret (if c then ts else []))) in
      if is_membership_leave (ev_type event) content then
        cbind (cres (state_key_of event)) (\<lambda>user_id.
          if user_id = [] then cret [] else when_channel [ChannelLeave (ev_room_id event) user_id])
      else if ev_type event = ''m.room.member'' \<and> dget_none content ''membership'' = JStr ''join'' then
        cbind (channel_type x (ev_room_id event)) (\<lambda>room_chat_type.
        cbind (cres (state_key_of event)) (\<lambda>user_id.
          if room_chat_type = JStr DISCUSSION_CHAT_TYPE then
            cret (if user_id \<noteq> [] \<and> is_mine_id (cs_hs x) user_id
                  then [MuteSubscriber user_id (ev_room_id event)] else [])
          else if room_chat_type = JStr ''channel'' \<and> user_id \<noteq> [] then
            cret [ChannelJoin (ev_room_id event) user_id]
          else cret []))
      else if ev_type event = CHANNEL_DISCUSSION_STATE then
        when_channel [UnlinkCleanup (ev_event_id event) (discussion_room_of (Some content))
          (channel_deleted_of (Some content))]
      else if ev_type event = JOIN_RULES_STATE then
        when_channel (if py_truthy (join_rule_of (Some content))
          then [Privacy (ev_room_id event) (join_rule_of (Some content))] else [])
      else if is_root_post (ev_type event) content then
        when_channel [MirrorPost event content]
      else cbind (if ev_type event = ''m.room.message'' then cres (is_edit content) else cret False) (\<lambda>is_edit_event.
        let is_redact_event = (ev_type event = ''m.room.redaction'') in
        if \<not> (is_edit_event \<or> is_redact_event) then cret []
        else cbind (in_channel x event) (\<lambda>c.
          if \<not> c then cret []
          else if is_edit_event then cbind (cres (edited_event_id content)) (\<lambda>target.
            cret (if py_truthy target then [MirrorEdit event content target] else []))
          else cret (if py_truthy (redacts_of event) then [MirrorRedact event (redacts_of event)] else []))))"

fun run_task :: "'w csync \<Rightarrow> task \<Rightarrow> ('w, unit) cs" where
  "run_task x (ChannelLeave room_id user_id) = on_channel_leave x room_id user_id"
| "run_task x (MuteSubscriber user_id room_id) = mute_for_subscriber x user_id (JStr room_id)"
| "run_task x (ChannelJoin room_id user_id) = on_channel_join x room_id user_id"
| "run_task x (UnlinkCleanup event_id new_room deleted) = cleanup_unlinked_discussion x event_id new_room deleted"
| "run_task x (Privacy room_id join_rule) = sync_discussion_privacy x room_id join_rule"
| "run_task x (MirrorPost event content) = mirror_post x event content"
| "run_task x (MirrorEdit event content target) = mirror_edit x event content target"
| "run_task x (MirrorRedact event redacted) = mirror_redact x event redacted"

end
