(* ===== verification/Channel_Sync_Props.thy ===== *)
theory Channel_Sync_Props
  imports Channel_Sync
begin

text \<open>
  What \<open>channel_sync\<close> guarantees, whatever the API of the homeserver answers: the mirror table keeps
  its primary key and a post keeps its mirror until it is redacted or its discussion is dropped; a
  post with a mirror is not mirrored again; switching comments off forgets nothing; a discussion is
  opened only on account of a public join rule of its channel; who leaves the channel is removed from the discussion; and, with
  an API whose writes take effect, the migration of a channel has nothing to do a second time.
\<close>

section \<open>Rules for coroutines\<close>

lemmas cs_defs = cret_def cbind_def ccatch_def cres_def cread_def cact_def ctable_def cupdate_def

text \<open>An assertion on the state that a coroutine keeps.\<close>

definition keeps :: "('w sync_state \<Rightarrow> bool) \<Rightarrow> ('w, 'a) cs \<Rightarrow> bool" where
  "keeps P m \<longleftrightarrow> (\<forall>s. P s \<longrightarrow> P (snd (m s)))"

lemma keepsD: "keeps P m \<Longrightarrow> P s \<Longrightarrow> P (snd (m s))"
  by (simp add: keeps_def)

named_theorems keeps_intros \<open>introduction rules for \<open>keeps\<close>\<close>

lemma keeps_simple [keeps_intros]:
  "keeps P (cret a)" "keeps P (cres r)" "keeps P (cread f)" "keeps P (ctable g)"
  by (simp_all add: keeps_def cs_defs)

lemma keeps_cbind [keeps_intros]:
  assumes "keeps P m" and "\<And>a. keeps P (f a)"
  shows "keeps P (cbind m f)"
  unfolding keeps_def
proof (intro allI impI)
  fix s assume "P s"
  then have "P (snd (m s))" using assms(1) by (simp add: keeps_def)
  then show "P (snd (cbind m f s))"
    using assms(2) by (cases "m s"; cases "fst (m s)") (auto simp: cbind_def keeps_def)
qed

lemma keeps_ccatch [keeps_intros]:
  assumes "keeps P m" and "keeps P h"
  shows "keeps P (ccatch m h)"
  unfolding keeps_def
proof (intro allI impI)
  fix s assume "P s"
  then have "P (snd (m s))" using assms(1) by (simp add: keeps_def)
  then show "P (snd (ccatch m h s))"
    using assms(2) by (cases "m s"; cases "fst (m s)") (auto simp: ccatch_def keeps_def)
qed

lemma keeps_cfor [keeps_intros]: "(\<And>x. x \<in> set xs \<Longrightarrow> keeps P (f x)) \<Longrightarrow> keeps P (cfor xs f)"
  by (induction xs) (auto intro!: keeps_intros)

lemma keeps_if [keeps_intros]: "(c \<Longrightarrow> keeps P m) \<Longrightarrow> (\<not> c \<Longrightarrow> keeps P n) \<Longrightarrow> keeps P (if c then m else n)"
  by simp

lemma keeps_case_option [keeps_intros]:
  "keeps P m \<Longrightarrow> (\<And>a. keeps P (f a)) \<Longrightarrow> keeps P (case v of None \<Rightarrow> m | Some a \<Rightarrow> f a)"
  by (cases v) simp_all

lemma keeps_case_prod [keeps_intros]: "(\<And>a b. v = (a, b) \<Longrightarrow> keeps P (f a b)) \<Longrightarrow> keeps P (case v of (a, b) \<Rightarrow> f a b)"
  by (cases v) simp

lemma keeps_Let [keeps_intros]: "(\<And>a. a = v \<Longrightarrow> keeps P (f a)) \<Longrightarrow> keeps P (let a = v in f a)"
  by simp

lemma keeps_cact_table [keeps_intros]: "keeps (\<lambda>s. P (mirrors s)) (cact f)"
  by (simp add: keeps_def cact_def split: prod.splits)

text \<open>The coroutines that do not touch the table.\<close>

lemma keeps_table_reads [keeps_intros]:
  "keeps P (discussion_room x ch)" "keeps P (channel_type x ch)" "keeps P (channel_join_rule x r)"
  "keeps P (room_creator x r)" "keeps P (history_visibility x r)" "keeps P (discussion_hidden x r)"
  "keeps P (in_channel x e)" "keeps P (channel_snapshot x ch r)"
  unfolding discussion_room_def channel_type_def channel_join_rule_def room_creator_def
    history_visibility_def discussion_hidden_def in_channel_def channel_snapshot_def
  by (intro keeps_intros)+

lemma keeps_table [keeps_intros]:
  "keeps (\<lambda>s. P (mirrors s)) (mute_for_subscriber x u r)" "keeps (\<lambda>s. P (mirrors s)) (on_channel_join x ch u)"
  "keeps (\<lambda>s. P (mirrors s)) (on_channel_leave x ch u)" "keeps (\<lambda>s. P (mirrors s)) (try_send x req)"
  "keeps (\<lambda>s. P (mirrors s)) (sync_discussion_privacy x ch j)"
  "keeps (\<lambda>s. P (mirrors s)) (ensure_author_in_discussion x u r)"
  "keeps (\<lambda>s. P (mirrors s)) (send_mirror x u r c)" "keeps (\<lambda>s. P (mirrors s)) (try_mirror x u r c)"
  "keeps (\<lambda>s. P (mirrors s)) (mirror_edit x e c t)"
  unfolding mute_for_subscriber_def on_channel_join_def on_channel_leave_def try_send_def
    sync_discussion_privacy_def ensure_author_in_discussion_def send_mirror_def try_mirror_def mirror_edit_def
  by (intro keeps_intros)+

section \<open>The mirror table\<close>

lemma keeps_cupdate: "(\<And>t. P t \<Longrightarrow> P (f t)) \<Longrightarrow> keeps (\<lambda>s. P (mirrors s)) (cupdate f)"
  by (simp add: keeps_def cupdate_def)

lemma keeps_mirror_post:
  assumes "\<And>t m d. P t \<Longrightarrow> P (put_mirror (ev_event_id e) m d t)"
  shows "keeps (\<lambda>s. P (mirrors s)) (mirror_post x e c)"
  unfolding mirror_post_def by (intro keeps_intros keeps_cupdate assms)

lemma keeps_mirror_redact:
  assumes "\<And>t. P t \<Longrightarrow> P (delete_mirror r t)"
  shows "keeps (\<lambda>s. P (mirrors s)) (mirror_redact x e r)"
  unfolding mirror_redact_def by (intro keeps_intros keeps_cupdate assms)

lemma keeps_cleanup:
  assumes "\<And>t d. P t \<Longrightarrow> P (snd (delete_by_discussion d t))"
  shows "keeps (\<lambda>s. P (mirrors s)) (cleanup_unlinked_discussion x e r b)"
  using assms by (auto simp: keeps_def cleanup_unlinked_discussion_def cupdate_def Let_def split: sum.splits)

lemma run_task_keeps:
  assumes "\<And>e c t m d. task = MirrorPost e c \<Longrightarrow> P t \<Longrightarrow> P (put_mirror (ev_event_id e) m d t)"
    and "\<And>e r t. task = MirrorRedact e r \<Longrightarrow> P t \<Longrightarrow> P (delete_mirror r t)"
    and "\<And>e r b t d. task = UnlinkCleanup e r b \<Longrightarrow> P t \<Longrightarrow> P (snd (delete_by_discussion d t))"
  shows "keeps (\<lambda>s. P (mirrors s)) (run_task x task)"
  using assms
  by (cases task) (auto intro!: keeps_intros keeps_mirror_post keeps_mirror_redact keeps_cleanup)

lemma delete_mirror_ok: "table_ok t \<Longrightarrow> table_ok (delete_mirror r t)"
  by (simp add: table_ok_def delete_mirror_def distinct_map_filter)

lemma run_task_table_ok: "keeps (\<lambda>s. table_ok (mirrors s)) (run_task x task)"
  by (rule run_task_keeps)
    (auto intro: mirror_tab.inv_put mirror_tab.inv_drop delete_mirror_ok)

text \<open>A sequence of background processes, run one after the other; their errors are logged.\<close>

fun run_tasks :: "'w csync \<Rightarrow> task list \<Rightarrow> 'w sync_state \<Rightarrow> 'w sync_state" where
  "run_tasks x [] s = s"
| "run_tasks x (t # ts) s = run_tasks x ts (snd (run_task x t s))"

lemma run_tasks_keeps:
  assumes "\<And>t. t \<in> set ts \<Longrightarrow> keeps P (run_task x t)" and "P s"
  shows "P (run_tasks x ts s)"
  using assms by (induction ts arbitrary: s) (auto simp: keeps_def)

text \<open>
  The mirror table is well formed at all times. Whatever processes run and whatever the
  homeserver's API answers, no post has two mirrors.
\<close>

theorem mirror_table_well_formed:
  "table_ok (mirrors s) \<Longrightarrow> table_ok (mirrors (run_tasks x ts s))"
  by (rule run_tasks_keeps [where P = "\<lambda>s. table_ok (mirrors s)"]) (rule run_task_table_ok)

text \<open>
  C13: a mirror is stable, and a post is mirrored once. Once a post has a mirror, no process
  changes it but a redaction of the post or the cleanup of an unlinked discussion, and a further
  request to mirror the post does nothing: no event is sent and the state stays as it is.
\<close>

theorem mirror_stable:
  assumes "table_ok (mirrors s)" and "get_mirror (mirrors s) (JStr p) = Some m"
    and "\<forall>t \<in> set ts. (\<forall>e. t \<noteq> MirrorRedact e (JStr p)) \<and> (\<forall>e r b. t \<noteq> UnlinkCleanup e r b)"
    and "ev_event_id e = p"
  shows "get_mirror (mirrors (run_tasks x ts s)) (JStr p) = Some m
    \<and> mirror_post x e c (run_tasks x ts s) = (Inr (), run_tasks x ts s)"
proof -
  let ?P = "\<lambda>t. table_ok t \<and> get_mirror t (JStr p) = Some m"
  have "keeps (\<lambda>s. ?P (mirrors s)) (run_task x t)" if "t \<in> set ts" for t
  proof (rule run_task_keeps)
    fix e r t' assume "t = MirrorRedact e r" and P: "?P t'"
    with that assms(3) have "r \<noteq> JStr p" by blast
    then have "get_mirror (delete_mirror r t') (JStr p) = get_mirror t' (JStr p)"
      using map_of_filter_key [of "\<lambda>k. JStr k \<noteq> r" t' p] by (simp add: get_mirror_def delete_mirror_def)
    then show "?P (delete_mirror r t')"
      using P by (simp add: delete_mirror_ok)
  qed (use that assms(3) in \<open>auto simp: mirror_tab.lookup_put mirror_tab.inv_put\<close>)
  from run_tasks_keeps [OF this] assms(1,2) have "?P (mirrors (run_tasks x ts s))" by blast
  moreover from this assms(4) have "mirror_post x e c (run_tasks x ts s) = (Inr (), run_tasks x ts s)"
    by (simp add: mirror_post_def cs_defs already_mirrored_iff)
  ultimately show ?thesis by blast
qed

section \<open>Unlinking a discussion\<close>

text \<open>
  Switching comments off forgets nothing. A change of the link of a channel that names no
  other room and is not marked as a deletion schedules processes that leave the mirror table as it
  is, so that the threads are back when comments are switched on again.
\<close>

theorem comments_off_keeps_mirrors:
  assumes "on_new_event x e s = (Inr ts, s')" and "ev_type e = ''com.liza.channel.discussion''"
    and "dget_none (ev_content e) ''room_id'' = JNull" and "dget_none (ev_content e) ''deleted'' \<noteq> JBool True"
  shows "mirrors (run_tasks x ts s') = mirrors s"
proof -
  have "ts = [] \<or> ts = [UnlinkCleanup (ev_event_id e) JNull False]" and s': "mirrors s' = mirrors s"
    using assms
    by (auto simp: on_new_event_def is_membership_leave_def CHANNEL_DISCUSSION_STATE_def in_channel_def channel_type_def
        discussion_room_of_def channel_deleted_of_def CHANNEL_DELETED_KEY_def cs_defs Let_def
        split: prod.splits sum.splits if_splits)
  then show ?thesis
    by (auto simp: cleanup_unlinked_discussion_def should_cleanup_mappings_def Let_def split: sum.splits)
qed

text \<open>
  Deleting a channel forgets exactly its own mirrors. The process that a deletion marker
  schedules removes the mirrors of the room that was linked before, and no others.
\<close>

theorem channel_deletion_forgets:
  assumes "get_prev_content x eid (world s) = Inr (Some prev)" and "dget prev ''room_id'' = Some (JStr room)"
    and "room \<noteq> []" and "table_ok (mirrors s)"
  shows "get_mirror (mirrors (run_tasks x [UnlinkCleanup eid new_room True] s)) (JStr p) =
    (case get_mirror (mirrors s) (JStr p) of
       Some (m, d) \<Rightarrow> if d = JStr room then None else Some (m, d) | None \<Rightarrow> None)"
proof -
  have "mirrors (run_tasks x [UnlinkCleanup eid new_room True] s) = snd (delete_by_discussion (JStr room) (mirrors s))"
    using assms(1-3)
    by (simp add: cleanup_unlinked_discussion_def should_cleanup_mappings_def Let_def dget_none_def dget_def cupdate_def)
  then show ?thesis by (simp only: mirror_tab.lookup_drop [OF assms(4)])
qed

section \<open>Leaving a channel\<close>

lemma run_on_channel_leave:
  assumes "get_current_state_event x (JStr ch) ''com.liza.channel.discussion'' (world s) = Inr (Some (u, link))"
    and "dget link ''room_id'' = Some (JStr room)"
    and "get_current_state_event x (JStr room) ''m.room.create'' (world s) = Inr (Some (owner, cc))"
  shows "on_channel_leave x ch member s =
    (Inr (), s\<lparr>world := snd (update_room_membership x owner member (JStr room) ''leave'' None (world s))\<rparr>)"
proof -
  from assms(2) have "discussion_room_of (Some link) = JStr room"
    by (cases link) (simp_all add: discussion_room_of_def dget_none_def dget_def)
  then show ?thesis
    using assms by (auto simp: on_channel_leave_def discussion_room_def room_creator_def CHANNEL_DISCUSSION_STATE_def
        cs_defs split: prod.splits sum.splits)
qed

text \<open>
  C16: who leaves a channel, or is banned from it, is removed from its discussion. The callback
  schedules a process that asks the homeserver, in the name of the creator of the discussion, to
  remove the user from it; also when the link already carries the deletion marker.
\<close>

theorem channel_leave_removes_from_discussion:
  assumes "ev_type e = ''m.room.member''" and "ev_state_key e = Some member" and "member \<noteq> []"
    and "dget (ev_content e) ''membership'' \<in> {Some (JStr ''leave''), Some (JStr ''ban'')}"
    and "get_current_state_event x (JStr (ev_room_id e)) ''m.room.create'' (world s) = Inr (Some (creator, cc))"
    and "dget cc ''com.liza.chat.type'' = Some (JStr ''channel'')"
    and "get_current_state_event x (JStr (ev_room_id e)) ''com.liza.channel.discussion'' (world s) = Inr (Some (u, link))"
    and "dget link ''room_id'' = Some (JStr room)"
    and "get_current_state_event x (JStr room) ''m.room.create'' (world s) = Inr (Some (owner, dc))"
  shows "\<exists>ts. on_new_event x e s = (Inr ts, s) \<and>
    run_tasks x ts s = s\<lparr>world := snd (update_room_membership x owner member (JStr room) ''leave'' None (world s))\<rparr>"
proof -
  have "on_new_event x e s = (Inr [ChannelLeave (ev_room_id e) member], s)"
    using assms(1-6)
    by (auto simp: on_new_event_def is_membership_leave_def state_key_of_def in_channel_def channel_type_def cs_defs
        dget_none_def dget_def Let_def)
  moreover have "run_tasks x [ChannelLeave (ev_room_id e) member] s =
      s\<lparr>world := snd (update_room_membership x owner member (JStr room) ''leave'' None (world s))\<rparr>"
    using run_on_channel_leave [OF assms(7-9), of member] by simp
  ultimately show ?thesis by blast
qed

section \<open>Privacy\<close>

text \<open>The same API, with a log of the events that the module asks to send.\<close>

definition logged :: "'w csync \<Rightarrow> ('w \<times> send_request list) csync" where
  "logged x = \<lparr>cs_hs = cs_hs x,
     get_current_state_event = (\<lambda>r t w. get_current_state_event x r t (fst w)),
     get_users_in_room = (\<lambda>r w. get_users_in_room x r (fst w)),
     get_invited_users_in_room = (\<lambda>r w. get_invited_users_in_room x r (fst w)),
     get_prev_content = (\<lambda>e w. get_prev_content x e (fst w)),
     create_event_rows = (\<lambda>w. create_event_rows x (fst w)),
     push_rule_exists = (\<lambda>u r w. push_rule_exists x u r (fst w)),
     add_push_rule = (\<lambda>u r w. case add_push_rule x u r (fst w) of (res, w') \<Rightarrow> (res, (w', snd w))),
     create_and_send_event_into_room = (\<lambda>req w. case create_and_send_event_into_room x req (fst w) of
       (res, w') \<Rightarrow> (res, (w', snd w @ [req]))),
     update_room_membership = (\<lambda>u v r a h w. case update_room_membership x u v r a h (fst w) of
       (res, w') \<Rightarrow> (res, (w', snd w)))\<rparr>"

text \<open>A request that opens a room to everybody.\<close>

definition opens :: "send_request \<Rightarrow> bool" where
  "opens req \<longleftrightarrow>
     sd_type req = ''m.room.join_rules'' \<and> dget (sd_content req) ''join_rule'' = Some (JStr ''public'')
     \<or> sd_type req = ''m.room.history_visibility''
       \<and> dget (sd_content req) ''history_visibility'' = Some (JStr ''world_readable'')"

abbreviation sent :: "('w \<times> send_request list) sync_state \<Rightarrow> send_request list" where
  "sent s \<equiv> snd (world s)"

lemma keeps_send_logged:
  "Q req \<Longrightarrow> keeps (\<lambda>s. \<forall>req \<in> set (sent s). Q req) (cact (create_and_send_event_into_room (logged x) req))"
  by (auto simp: keeps_def logged_def cact_def split: prod.splits)

lemma keeps_try_send_logged:
  "Q req \<Longrightarrow> keeps (\<lambda>s. \<forall>req \<in> set (sent s). Q req) (try_send (logged x) req)"
  unfolding try_send_def by (intro keeps_intros keeps_send_logged)

lemma keeps_membership_logged [keeps_intros]:
  "keeps (\<lambda>s. P (sent s)) (cact (update_room_membership (logged x) u v r a h))"
  by (auto simp: keeps_def logged_def cact_def split: prod.splits)

lemma keeps_push_rule_logged [keeps_intros]: "keeps (\<lambda>s. P (sent s)) (cact (add_push_rule (logged x) u r))"
  by (auto simp: keeps_def logged_def cact_def split: prod.splits)

lemma keeps_cupdate_logged [keeps_intros]: "keeps (\<lambda>s. P (sent s)) (cupdate f)"
  by (simp add: keeps_def cupdate_def)

lemma cbind_read:
  assumes "\<And>P. keeps P m"
  shows "cbind m f s = (case fst (m s) of Inl e \<Rightarrow> (Inl e, s) | Inr a \<Rightarrow> f a s)"
  using assms [of "\<lambda>s'. s' = s"] by (cases "m s") (auto simp: keeps_def cbind_def split: sum.splits)

lemma sync_privacy_closed:
  assumes "\<not> is_public_channel j"
  shows "keeps (\<lambda>s. \<forall>req \<in> set (sent s). \<not> opens req) (sync_discussion_privacy (logged x) ch j)"
  unfolding sync_discussion_privacy_def
  by (intro keeps_intros; intro keeps_try_send_logged)
    (auto simp: discussion_settings_for_def assms state_request_def opens_def dget_def)

lemma plan_writes_closed:
  assumes "\<not> is_public_channel (sn_channel_join_rule sn)" and "(t, c) \<in> set (plan_writes (plan_discussion_migration sn))"
  shows "\<not> opens (state_request t r u c)"
  using assms
  by (auto simp: plan_writes_def plan_discussion_migration_def discussion_settings_for_def Let_def opens_def
      state_request_def dget_def split: if_splits)

lemma snapshot_join_rule:
  assumes "fst (channel_snapshot x ch d s) = Inr sn"
  shows "fst (channel_join_rule x (JStr ch) s) = Inr (sn_channel_join_rule sn)"
  using assms
  by (auto simp: channel_snapshot_def channel_join_rule_def history_visibility_def discussion_hidden_def cs_defs
      split: prod.splits sum.splits)

lemma migrate_one_closed:
  assumes "fst (channel_join_rule (logged x) (JStr ch) s) = Inr j" and "\<not> is_public_channel j"
    and "\<forall>req \<in> set (sent s). \<not> opens req"
  shows "\<forall>req \<in> set (sent (snd (migrate_one_channel (logged x) ch s))). \<not> opens req"
proof -
  let ?P = "\<lambda>s. \<forall>req \<in> set (sent s). \<not> opens req"
  have rest: "keeps ?P (apply_migration (logged x) d u (plan_discussion_migration sn))"
    if "\<not> is_public_channel (sn_channel_join_rule sn)" for sn d u
    unfolding apply_migration_def using plan_writes_closed [OF that]
    by (intro keeps_intros; intro keeps_try_send_logged) auto
  have ok: "?P (snd (apply_migration (logged x) d u (plan_discussion_migration sn) s))"
    if "fst (channel_snapshot (logged x) ch d s) = Inr sn" for d u sn
    using snapshot_join_rule [OF that] assms(1,2) by (intro keepsD [OF rest] assms(3)) simp
  show ?thesis
    using assms(3) unfolding migrate_one_channel_def cbind_read [OF keeps_table_reads(1)]
      cbind_read [OF keeps_table_reads(4)] cbind_read [OF keeps_table_reads(8)]
    by (auto simp: cret_def split: sum.splits option.splits dest: ok [rule_format])
qed

text \<open>The processes that send messages or nothing at all open no room.\<close>

lemma keeps_cleanup_logged: "keeps (\<lambda>s. P (sent s)) (cleanup_unlinked_discussion (logged x) e r b)"
  by (auto simp: keeps_def cleanup_unlinked_discussion_def cupdate_def Let_def split: sum.splits)

lemma other_tasks_closed:
  assumes "\<And>ch j. t \<noteq> Privacy ch j"
  shows "keeps (\<lambda>s. \<forall>req \<in> set (sent s). \<not> opens req) (run_task (logged x) t)"
proof -
  have send: "keeps (\<lambda>s. \<forall>req \<in> set (sent s). \<not> opens req) (send_mirror (logged x) u d c)" for u d c
    unfolding send_mirror_def by (rule keeps_send_logged) (simp add: opens_def message_request_def)
  have attempt: "keeps (\<lambda>s. \<forall>req \<in> set (sent s). \<not> opens req) (try_mirror (logged x) u d c)" for u d c
    unfolding try_mirror_def ensure_author_in_discussion_def by (intro keeps_intros send)
  have mute: "keeps (\<lambda>s. \<forall>req \<in> set (sent s). \<not> opens req) (mute_for_subscriber (logged x) u r)" for u r
    unfolding mute_for_subscriber_def by (intro keeps_intros)
  show ?thesis
  proof (cases t)
    case (ChannelLeave r u)
    show ?thesis unfolding ChannelLeave run_task.simps on_channel_leave_def by (intro keeps_intros)
  next
    case (MuteSubscriber u r)
    show ?thesis unfolding MuteSubscriber run_task.simps by (rule mute)
  next
    case (ChannelJoin r u)
    show ?thesis unfolding ChannelJoin run_task.simps on_channel_join_def by (intro keeps_intros mute)
  next
    case (UnlinkCleanup e r b)
    show ?thesis unfolding UnlinkCleanup run_task.simps by (rule keeps_cleanup_logged)
  next
    case (MirrorPost e c)
    show ?thesis unfolding MirrorPost run_task.simps mirror_post_def by (intro keeps_intros attempt)
  next
    case (MirrorEdit e c r)
    show ?thesis unfolding MirrorEdit run_task.simps mirror_edit_def
      by (intro keeps_intros keeps_try_send_logged) (simp add: opens_def message_request_def)
  next
    case (MirrorRedact e r)
    show ?thesis unfolding MirrorRedact run_task.simps mirror_redact_def
      by (intro keeps_intros keeps_send_logged) (simp add: opens_def)
  qed (use assms in simp)
qed

text \<open>The process that follows a change of the join rule writes to the discussion of the channel.\<close>

lemma sync_privacy_room:
  assumes "req \<in> set (sent (snd (sync_discussion_privacy (logged x) ch j s)))" and "sent s = []"
  shows "fst (discussion_room (logged x) ch s) = Inr (sd_room_id req)"
proof (cases "fst (discussion_room (logged x) ch s)")
  case (Inl e)
  then show ?thesis using assms
    by (simp add: sync_discussion_privacy_def cbind_read [OF keeps_table_reads(1)])
next
  case (Inr d)
  have "keeps (\<lambda>s. \<forall>req \<in> set (sent s). sd_room_id req = d)
      (if d = JNull then cret () else cbind (room_creator (logged x) d) (\<lambda>owner. case owner of
         None \<Rightarrow> cret ()
       | Some owner \<Rightarrow> (let settings = discussion_settings_for j in
            cfor [(JOIN_RULES_STATE, [(''join_rule'', JStr (ds_join_rule settings))]),
                  (HISTORY_VISIBILITY_STATE, [(''history_visibility'', JStr (ds_history_visibility settings))])]
              (\<lambda>(event_type, content). try_send (logged x) (state_request event_type d owner content)))))"
    by (intro keeps_intros; intro keeps_try_send_logged) (simp add: state_request_def)
  from keepsD [OF this, of s] show ?thesis using assms Inr
    by (simp add: sync_discussion_privacy_def cbind_read [OF keeps_table_reads(1)])
qed

lemma scheduled_privacy:
  assumes "fst (on_new_event x e s) = Inr ts" and "Privacy ch j \<in> set ts"
  shows "ev_type e = ''m.room.join_rules'' \<and> ch = ev_room_id e \<and> j = join_rule_of (Some (ev_content e))"
  using assms
  by (auto simp: on_new_event_def Let_def cs_defs JOIN_RULES_STATE_def CHANNEL_DISCUSSION_STATE_def
      split: if_splits prod.splits sum.splits)

lemma migrate_turn_closed:
  assumes "fst (channel_join_rule (logged x) (JStr ch) s) \<noteq> Inr (JStr ''public'')" and "sent s = []"
  shows "\<forall>req \<in> set (sent (snd (migrate_channel_turn (logged x) ch s))). \<not> opens req"
proof (cases "fst (channel_join_rule (logged x) (JStr ch) s)")
  case (Inl e)
  then have "migrate_channel_visibility (logged x) ch s = (Inl e, s)"
    unfolding migrate_channel_visibility_def cbind_read [OF keeps_table_reads(3)] by simp
  then show ?thesis using assms(2) by (simp add: migrate_channel_turn_def ccatch_def cbind_def cret_def)
next
  case (Inr j)
  then have p: "\<not> is_public_channel j" using assms(1) by (simp add: is_public_channel_def)
  have v: "migrate_channel_visibility (logged x) ch s = (Inr False, s)"
    unfolding migrate_channel_visibility_def cbind_read [OF keeps_table_reads(3)] Inr using p by (simp add: cret_def)
  show ?thesis
    using migrate_one_closed [OF Inr p] assms(2)
    by (simp add: migrate_channel_turn_def ccatch_def cbind_def v cret_def split: prod.splits sum.splits)
qed

text \<open>
  C15: a room is opened only on account of a public join rule of the channel. When a process that
  the callback scheduled for an event asks to make a room public or its history readable by
  everybody, in whatever state it runs, then the event set the join rule of its room to \<open>public\<close> and
  the opened room is the discussion linked to that room when the process runs. When a turn of the
  migration of a channel asks for it, the channel's join rule at the start of the turn is \<open>public\<close>.
\<close>

theorem opened_only_for_public_rule:
  assumes "fst (on_new_event x e s0) = Inr ts" and "t \<in> set ts" and "world s = (w, [])"
  shows "(\<forall>req \<in> set (sent (snd (run_task (logged x) t s))). opens req \<longrightarrow>
      ev_type e = ''m.room.join_rules'' \<and> dget (ev_content e) ''join_rule'' = Some (JStr ''public'')
      \<and> fst (discussion_room (logged x) (ev_room_id e) s) = Inr (sd_room_id req))
    \<and> (\<forall>req \<in> set (sent (snd (migrate_channel_turn (logged x) ch s))). opens req \<longrightarrow>
      fst (channel_join_rule (logged x) (JStr ch) s) = Inr (JStr ''public''))"
proof (intro conjI ballI impI)
  fix req assume req: "req \<in> set (sent (snd (run_task (logged x) t s)))" and o: "opens req"
  have "\<exists>ch j. t = Privacy ch j"
    using keepsD [OF other_tasks_closed [of t x], of s] req o assms(3) by auto
  then obtain ch j where t: "t = Privacy ch j" by blast
  from scheduled_privacy [OF assms(1) assms(2) [unfolded t]]
  have e: "ev_type e = ''m.room.join_rules''" "ch = ev_room_id e" "j = join_rule_of (Some (ev_content e))" by auto
  have "is_public_channel j"
    using keepsD [OF sync_privacy_closed [of j x ch], of s] req o assms(3) t by auto
  then show "dget (ev_content e) ''join_rule'' = Some (JStr ''public'')"
    using e(3) by (cases "dget (ev_content e) ''join_rule''")
      (auto simp: is_public_channel_def join_rule_of_def dget_none_def dget_def split: if_splits)
  show "ev_type e = ''m.room.join_rules''" by (rule e(1))
  show "fst (discussion_room (logged x) (ev_room_id e) s) = Inr (sd_room_id req)"
    using sync_privacy_room [of req x ch j s] req t assms(3) e(2) by simp
next
  fix req assume "req \<in> set (sent (snd (migrate_channel_turn (logged x) ch s)))" and "opens req"
  then show "fst (channel_join_rule (logged x) (JStr ch) s) = Inr (JStr ''public'')"
    using migrate_turn_closed [of x ch s] assms(3) by auto
qed

section \<open>The migration settles\<close>

text \<open>
  An API whose writes take effect: an accepted state event is the current one of its type, and
  an invited user is among the invited users. Other reads are not changed.
\<close>

definition effective :: "'w csync \<Rightarrow> bool" where
  "effective x \<longleftrightarrow>
     (\<forall>req w. \<exists>eid w'. create_and_send_event_into_room x req w = (Inr eid, w')
        \<and> (\<forall>r t. get_current_state_event x r t w' =
             (if sd_state_key req = Some [] \<and> r = sd_room_id req \<and> t = sd_type req
              then Inr (Some (sd_sender req, sd_content req)) else get_current_state_event x r t w))
        \<and> (\<forall>r. get_users_in_room x r w' = get_users_in_room x r w
             \<and> get_invited_users_in_room x r w' = get_invited_users_in_room x r w))
     \<and> (\<forall>u v r h w l. get_invited_users_in_room x r w = Inr l \<longrightarrow>
        (\<exists>w' l'. update_room_membership x u v r ''invite'' h w = (Inr (), w')
        \<and> (\<forall>r t. get_current_state_event x r t w' = get_current_state_event x r t w)
        \<and> (\<forall>r. get_users_in_room x r w' = get_users_in_room x r w)
        \<and> get_invited_users_in_room x r w' = Inr l' \<and> set l' = insert v (set l)))"

lemma effective_send:
  assumes "effective x"
  obtains s' where "try_send x (state_request t r u c) s = (Inr (), s')"
    and "\<And>r' t'. get_current_state_event x r' t' (world s') =
           (if r' = r \<and> t' = t then Inr (Some (u, c)) else get_current_state_event x r' t' (world s))"
    and "\<And>r'. get_users_in_room x r' (world s') = get_users_in_room x r' (world s)"
    and "\<And>r'. get_invited_users_in_room x r' (world s') = get_invited_users_in_room x r' (world s)"
proof -
  let ?req = "state_request t r u c"
  from assms obtain eid w' where w': "create_and_send_event_into_room x ?req (world s) = (Inr eid, w')"
    and st: "\<forall>r' t'. get_current_state_event x r' t' w' =
       (if sd_state_key ?req = Some [] \<and> r' = sd_room_id ?req \<and> t' = sd_type ?req
        then Inr (Some (sd_sender ?req, sd_content ?req)) else get_current_state_event x r' t' (world s))"
    and us: "\<forall>r. get_users_in_room x r w' = get_users_in_room x r (world s)
       \<and> get_invited_users_in_room x r w' = get_invited_users_in_room x r (world s)"
    unfolding effective_def by meson
  show thesis
  proof (rule that [of "s\<lparr>world := w'\<rparr>"])
    show "try_send x ?req s = (Inr (), s\<lparr>world := w'\<rparr>)" by (simp add: try_send_def cs_defs w')
  qed (use st us in \<open>simp_all add: state_request_def\<close>)
qed

lemma effective_writes:
  assumes "effective x" and "distinct (map fst ws)"
  shows "\<exists>s'. cfor ws (\<lambda>(t, c). try_send x (state_request t r u c)) s = (Inr (), s')
    \<and> (\<forall>r' t'. get_current_state_event x r' t' (world s') = (case map_of ws t' of
         Some c \<Rightarrow> if r' = r then Inr (Some (u, c)) else get_current_state_event x r' t' (world s)
       | None \<Rightarrow> get_current_state_event x r' t' (world s)))
    \<and> (\<forall>r'. get_users_in_room x r' (world s') = get_users_in_room x r' (world s)
         \<and> get_invited_users_in_room x r' (world s') = get_invited_users_in_room x r' (world s))"
  using assms(2)
proof (induction ws arbitrary: s)
  case (Cons a ws)
  obtain t c where a: "a = (t, c)" by fastforce
  obtain s1 where one: "try_send x (state_request t r u c) s = (Inr (), s1)"
    and st1: "\<And>r' t'. get_current_state_event x r' t' (world s1) =
        (if r' = r \<and> t' = t then Inr (Some (u, c)) else get_current_state_event x r' t' (world s))"
    and us1: "\<And>r'. get_users_in_room x r' (world s1) = get_users_in_room x r' (world s)"
      "\<And>r'. get_invited_users_in_room x r' (world s1) = get_invited_users_in_room x r' (world s)"
    by (rule effective_send [OF assms(1), of t r u c s]) (rule that)
  have fresh: "map_of ws t = None" using Cons.prems a by (simp add: map_of_eq_None_iff)
  have "distinct (map fst ws)" using Cons.prems by simp
  from Cons.IH [OF this, of s1] obtain s' where
    rest: "cfor ws (\<lambda>(t, c). try_send x (state_request t r u c)) s1 = (Inr (), s')"
    and st: "\<forall>r' t'. get_current_state_event x r' t' (world s') = (case map_of ws t' of
         Some c \<Rightarrow> if r' = r then Inr (Some (u, c)) else get_current_state_event x r' t' (world s1)
       | None \<Rightarrow> get_current_state_event x r' t' (world s1))"
    and us: "\<forall>r'. get_users_in_room x r' (world s') = get_users_in_room x r' (world s1)
         \<and> get_invited_users_in_room x r' (world s') = get_invited_users_in_room x r' (world s1)"
    by (elim exE conjE) (rule that)
  show ?case
  proof (intro exI conjI allI)
    show "cfor (a # ws) (\<lambda>(t, c). try_send x (state_request t r u c)) s = (Inr (), s')"
      by (simp add: a cbind_def one rest)
    fix r' t'
    show "get_current_state_event x r' t' (world s') = (case map_of (a # ws) t' of
         Some c \<Rightarrow> if r' = r then Inr (Some (u, c)) else get_current_state_event x r' t' (world s)
       | None \<Rightarrow> get_current_state_event x r' t' (world s))"
      using fresh by (cases "t' = t") (auto simp: a st st1 split: option.splits)
  qed (use us us1 in auto)
qed (simp add: cret_def)

definition invite_step :: "'w csync \<Rightarrow> string \<Rightarrow> json \<Rightarrow> string \<Rightarrow> ('w, unit) cs" where
  "invite_step x u r m = cbind (cres (remote_hosts_of x m)) (\<lambda>h.
     ccatch (cact (update_room_membership x u m r ''invite'' h)) (cret ()))"

lemma effective_invites:
  assumes "effective x" and "get_invited_users_in_room x r (world s) = Inr l"
    and "cfor ms (invite_step x u r) s = (Inr (), s')"
  shows "(\<forall>r t. get_current_state_event x r t (world s') = get_current_state_event x r t (world s))
    \<and> (\<forall>r. get_users_in_room x r (world s') = get_users_in_room x r (world s))
    \<and> (\<exists>l'. get_invited_users_in_room x r (world s') = Inr l' \<and> set l' = set l \<union> set ms)"
  using assms(2,3)
proof (induction ms arbitrary: s l)
  case (Cons m ms)
  from Cons.prems(2) obtain h where h: "remote_hosts_of x m = Inr h"
    by (cases "remote_hosts_of x m") (auto simp: invite_step_def cbind_def cres_def)
  from assms(1) Cons.prems(1) obtain w1 l1 where
    w1: "update_room_membership x u m r ''invite'' h (world s) = (Inr (), w1)"
    and st: "\<forall>r t. get_current_state_event x r t w1 = get_current_state_event x r t (world s)"
    and us: "\<forall>r. get_users_in_room x r w1 = get_users_in_room x r (world s)"
    and inv: "get_invited_users_in_room x r w1 = Inr l1" "set l1 = insert m (set l)"
    unfolding effective_def by meson
  have "invite_step x u r m s = (Inr (), s\<lparr>world := w1\<rparr>)"
    by (simp add: invite_step_def cs_defs h w1)
  with Cons.prems(2) have rest: "cfor ms (invite_step x u r) (s\<lparr>world := w1\<rparr>) = (Inr (), s')"
    by (simp add: cbind_def)
  show ?case using Cons.IH [OF _ rest] inv st us by auto
qed (simp add: cret_def)

lemma plan_writes_distinct: "distinct (map fst (plan_writes p))"
  by (simp add: plan_writes_def JOIN_RULES_STATE_def HISTORY_VISIBILITY_STATE_def TOPOLOGY_STATE_def split: option.splits)

text \<open>A snapshot as the values it was read from.\<close>

lemma channel_snapshot_iff:
  "fst (channel_snapshot x ch d s) = Inr sn \<longleftrightarrow> (\<exists>cm jn iv cj dj hv hd.
     get_users_in_room x (JStr ch) (world s) = Inr cm \<and> get_users_in_room x d (world s) = Inr jn
     \<and> get_invited_users_in_room x d (world s) = Inr iv
     \<and> fst (channel_join_rule x (JStr ch) s) = Inr cj \<and> fst (channel_join_rule x d s) = Inr dj
     \<and> fst (history_visibility x d s) = Inr hv \<and> fst (discussion_hidden x d s) = Inr hd
     \<and> sn = \<lparr>sn_channel_join_rule = cj, sn_discussion_join_rule = dj,
           sn_discussion_history_visibility = hv, sn_discussion_hidden = hd,
           sn_channel_members = filter (\<lambda>m. \<not> is_ai x m) cm, sn_discussion_members = jn @ iv\<rparr>)"
  by (auto simp: channel_snapshot_def cbind_read [OF keeps_table_reads(3)] cbind_read [OF keeps_table_reads(5)]
      cbind_read [OF keeps_table_reads(6)] cbind_read [OF keeps_simple(3)] cread_def cret_def split: sum.splits)

text \<open>After the writes of a plan, the settings of the discussion are the wanted ones.\<close>

lemma settings_after_writes:
  assumes "\<forall>t. get_current_state_event x d t (world s') = (case map_of (plan_writes (plan_discussion_migration sn)) t of
         Some c \<Rightarrow> Inr (Some (u, c)) | None \<Rightarrow> get_current_state_event x d t (world s))"
    and "fst (channel_snapshot x ch d s) = Inr sn"
  shows "fst (channel_join_rule x d s') = Inr (JStr (ds_join_rule (discussion_settings_for (sn_channel_join_rule sn))))"
    and "fst (history_visibility x d s') =
      Inr (JStr (ds_history_visibility (discussion_settings_for (sn_channel_join_rule sn))))"
    and "fst (discussion_hidden x d s') = Inr (JBool True)"
  using assms
  by (auto simp: channel_snapshot_iff channel_join_rule_def history_visibility_def discussion_hidden_def cs_defs
      plan_writes_def plan_discussion_migration_def Let_def JOIN_RULES_STATE_def HISTORY_VISIBILITY_STATE_def
      TOPOLOGY_STATE_def join_rule_of_def dget_none_def dget_def split: sum.splits option.splits if_splits)

lemma migrate_one_channel_read:
  "migrate_one_channel x ch s = (case fst (discussion_room x ch s) of Inl e \<Rightarrow> (Inl e, s) | Inr d \<Rightarrow>
     if d = JNull then (Inr False, s) else (case fst (room_creator x d s) of Inl e \<Rightarrow> (Inl e, s)
     | Inr None \<Rightarrow> (Inr False, s) | Inr (Some u) \<Rightarrow> (case fst (channel_snapshot x ch d s) of Inl e \<Rightarrow> (Inl e, s)
     | Inr sn \<Rightarrow> apply_migration x d u (plan_discussion_migration sn) s)))"
  unfolding migrate_one_channel_def cbind_read [OF keeps_table_reads(1)] cbind_read [OF keeps_table_reads(4)]
      cbind_read [OF keeps_table_reads(8)]
  by (auto simp: cret_def cbind_read [OF keeps_table_reads(4)] cbind_read [OF keeps_table_reads(8)] split: sum.splits option.splits)

lemma invite_step_fold:
  "apply_migration x d u p = (if plan_is_noop p then cret False
     else cbind (cfor (plan_writes p) (\<lambda>(t, c). try_send x (state_request t d u c)))
       (\<lambda>_. cbind (cfor (plan_invite p) (invite_step x u d)) (\<lambda>_. cret True)))"
  by (simp add: apply_migration_def invite_step_def [abs_def])

text \<open>Applying the plan of a snapshot leaves nothing to do for the next snapshot.\<close>

lemma apply_migration_settles:
  assumes "effective x" and "d \<noteq> JStr ch" and sn: "fst (channel_snapshot x ch d s) = Inr sn"
    and ap: "apply_migration x d u (plan_discussion_migration sn) s = (Inr b, s')"
  shows "(\<exists>sn'. fst (channel_snapshot x ch d s') = Inr sn' \<and> plan_is_noop (plan_discussion_migration sn'))
    \<and> (\<forall>r t. t \<notin> {JOIN_RULES_STATE, HISTORY_VISIBILITY_STATE, TOPOLOGY_STATE} \<longrightarrow>
         get_current_state_event x r t (world s') = get_current_state_event x r t (world s))"
proof (cases "plan_is_noop (plan_discussion_migration sn)")
  case True
  then show ?thesis using ap sn by (auto simp: apply_migration_def cret_def)
next
  case False
  let ?p = "plan_discussion_migration sn"
  obtain s1 where w: "cfor (plan_writes ?p) (\<lambda>(t, c). try_send x (state_request t d u c)) s = (Inr (), s1)"
    and st1: "\<forall>r t. get_current_state_event x r t (world s1) = (case map_of (plan_writes ?p) t of
         Some c \<Rightarrow> if r = d then Inr (Some (u, c)) else get_current_state_event x r t (world s)
       | None \<Rightarrow> get_current_state_event x r t (world s))"
    and us1: "\<forall>r. get_users_in_room x r (world s1) = get_users_in_room x r (world s)
         \<and> get_invited_users_in_room x r (world s1) = get_invited_users_in_room x r (world s)"
    using effective_writes [OF assms(1) plan_writes_distinct, of ?p d u s] by auto
  have i: "cfor (plan_invite ?p) (invite_step x u d) s1 = (Inr (), s')"
    using ap False w by (auto simp: invite_step_fold cbind_def cret_def split: prod.splits sum.splits)
  obtain iv where iv: "get_invited_users_in_room x d (world s1) = Inr iv"
    using sn us1 by (auto simp: channel_snapshot_iff)
  note s' = effective_invites [OF assms(1) iv i]
  have "\<forall>t. get_current_state_event x d t (world s') = (case map_of (plan_writes ?p) t of
         Some c \<Rightarrow> Inr (Some (u, c)) | None \<Rightarrow> get_current_state_event x d t (world s))"
    using s' st1 by (simp split: option.splits)
  note d = settings_after_writes [OF this sn]
  have "get_current_state_event x (JStr ch) t (world s') = get_current_state_event x (JStr ch) t (world s)" for t
    using s' st1 assms(2) by (simp split: option.splits)
  then have c: "fst (channel_join_rule x (JStr ch) s') = Inr (sn_channel_join_rule sn)"
    using snapshot_join_rule [OF sn] by (simp add: channel_join_rule_def cs_defs split: prod.splits sum.splits)
  have "t \<notin> {JOIN_RULES_STATE, HISTORY_VISIBILITY_STATE, TOPOLOGY_STATE} \<Longrightarrow> map_of (plan_writes ?p) t = None" for t
    by (auto simp: plan_writes_def split: option.splits)
  then have "\<forall>r t. t \<notin> {JOIN_RULES_STATE, HISTORY_VISIBILITY_STATE, TOPOLOGY_STATE} \<longrightarrow>
       get_current_state_event x r t (world s') = get_current_state_event x r t (world s)"
    using s' st1 by simp
  moreover
  obtain cm jn l' where m: "get_users_in_room x (JStr ch) (world s') = Inr cm" "get_users_in_room x d (world s') = Inr jn"
      "get_invited_users_in_room x d (world s') = Inr l'" "set l' = set iv \<union> set (plan_invite ?p)"
      "sn_channel_members sn = filter (\<lambda>m. \<not> is_ai x m) cm" "sn_discussion_members sn = jn @ iv"
    using s' us1 iv sn by (auto simp: channel_snapshot_iff)
  let ?sn' = "\<lparr>sn_channel_join_rule = sn_channel_join_rule sn,
      sn_discussion_join_rule = JStr (ds_join_rule (discussion_settings_for (sn_channel_join_rule sn))),
      sn_discussion_history_visibility = JStr (ds_history_visibility (discussion_settings_for (sn_channel_join_rule sn))),
      sn_discussion_hidden = JBool True, sn_channel_members = filter (\<lambda>m. \<not> is_ai x m) cm,
      sn_discussion_members = jn @ l'\<rparr>"
  have "fst (channel_snapshot x ch d s') = Inr ?sn'" using m c d by (simp add: channel_snapshot_iff)
  moreover have "plan_is_noop (plan_discussion_migration ?sn')"
    using m(4-6) by (auto simp: plan_is_noop_def plan_discussion_migration_def Let_def filter_empty_conv)
  ultimately show ?thesis by blast
qed

text \<open>
  C14: the migration of a channel is idempotent. With an API whose writes take effect, and a
  discussion that is not the channel itself, a second run finds nothing to do: it reports that
  nothing changed and leaves the state as it is.
\<close>

theorem migration_idempotent:
  assumes "effective x"
    and "get_current_state_event x (JStr ch) ''com.liza.channel.discussion'' (world s) = Inr (Some (a, link))"
    and "dget link ''room_id'' \<noteq> Some (JStr ch)"
    and "migrate_one_channel x ch s = (Inr b, s')"
  shows "migrate_one_channel x ch s' = (Inr False, s')"
proof -
  define d where "d = discussion_room_of (Some link)"
  have dr: "fst (discussion_room x ch z) = Inr d"
    if "get_current_state_event x (JStr ch) CHANNEL_DISCUSSION_STATE (world z) = Inr (Some (a, link))" for z
    using that by (simp add: discussion_room_def cs_defs d_def)
  have dch: "d \<noteq> JStr ch"
    using assms(3) by (auto simp: d_def discussion_room_of_def dget_none_def dget_def split: option.splits)
  have link: "get_current_state_event x (JStr ch) CHANNEL_DISCUSSION_STATE (world s) = Inr (Some (a, link))"
    using assms(2) by (simp add: CHANNEL_DISCUSSION_STATE_def)
  show ?thesis
  proof (cases "\<exists>u sn. d \<noteq> JNull \<and> fst (room_creator x d s) = Inr (Some u) \<and> fst (channel_snapshot x ch d s) = Inr sn")
    case True
    then obtain u sn where t: "d \<noteq> JNull" "fst (room_creator x d s) = Inr (Some u)" "fst (channel_snapshot x ch d s) = Inr sn"
      by blast
    with assms(4) have "apply_migration x d u (plan_discussion_migration sn) s = (Inr b, s')"
      by (simp add: migrate_one_channel_read dr [OF link])
    from apply_migration_settles [OF assms(1) dch t(3) this] obtain sn' where
      sn': "fst (channel_snapshot x ch d s') = Inr sn'" "plan_is_noop (plan_discussion_migration sn')"
      and same: "\<forall>r t. t \<notin> {JOIN_RULES_STATE, HISTORY_VISIBILITY_STATE, TOPOLOGY_STATE} \<longrightarrow>
         get_current_state_event x r t (world s') = get_current_state_event x r t (world s)" by blast
    have "fst (room_creator x d s') = Inr (Some u)"
      using same t(2) by (simp add: room_creator_def cs_defs JOIN_RULES_STATE_def HISTORY_VISIBILITY_STATE_def
          TOPOLOGY_STATE_def split: sum.splits)
    moreover have "get_current_state_event x (JStr ch) CHANNEL_DISCUSSION_STATE (world s') = Inr (Some (a, link))"
      using same link by (simp add: CHANNEL_DISCUSSION_STATE_def JOIN_RULES_STATE_def HISTORY_VISIBILITY_STATE_def
          TOPOLOGY_STATE_def)
    ultimately show ?thesis
      using t(1) sn' by (simp add: migrate_one_channel_read dr apply_migration_def cret_def)
  next
    case False
    with assms(4) have "b = False \<and> s' = s"
      by (auto simp: migrate_one_channel_read dr [OF link] split: if_splits sum.splits option.splits)
    then show ?thesis using assms(4) by simp
  qed
qed

end
