(* ===== verification/Channel_Sync_Examples.thy ===== *)
theory Channel_Sync_Examples
  imports Channel_Sync_Props
begin

text \<open>
  A concrete homeserver for \<open>channel_sync\<close>: its world is the current state of the rooms, the joined
  and the invited users, and the previous contents. Its writes take effect, and the theorems on the
  module are applied to a closed channel \<open>!r:s\<close> with the discussion \<open>!d:s\<close>.
\<close>

record demo =
  dm_state :: "((json \<times> string) \<times> (string \<times> jdict)) list"
  dm_joined :: "(json \<times> string list) list"
  dm_invited :: "(json \<times> string list) list"

definition dm_list :: "(json \<times> string list) list \<Rightarrow> json \<Rightarrow> string list" where
  "dm_list l r = (case map_of l r of None \<Rightarrow> [] | Some us \<Rightarrow> us)"

definition demo_api :: "demo csync" where
  "demo_api = \<lparr>cs_hs = \<lparr>hs_hostname = ''s'', hs_account_data = \<lambda>_ _. Inr None\<rparr>,
     get_current_state_event = (\<lambda>r t w. Inr (map_of (dm_state w) (r, t))),
     get_users_in_room = (\<lambda>r w. Inr (dm_list (dm_joined w) r)),
     get_invited_users_in_room = (\<lambda>r w. Inr (dm_list (dm_invited w) r)),
     get_prev_content = (\<lambda>e w. Inr (if e = ''$9'' then Some [(''room_id'', JStr ''!d:s'')] else None)),
     create_event_rows = (\<lambda>w. Inr []),
     push_rule_exists = (\<lambda>u r w. Inr False),
     add_push_rule = (\<lambda>u r w. (Inr (), w)),
     create_and_send_event_into_room = (\<lambda>req w. (Inr ''$new'',
       if sd_state_key req = Some []
       then w\<lparr>dm_state := ((sd_room_id req, sd_type req), (sd_sender req, sd_content req)) # dm_state w\<rparr> else w)),
     update_room_membership = (\<lambda>u v r a h w. (Inr (),
       if a = ''invite'' then w\<lparr>dm_invited := (r, v # dm_list (dm_invited w) r) # dm_invited w\<rparr>
       else w\<lparr>dm_joined := (r, removeAll v (dm_list (dm_joined w) r)) # dm_joined w\<rparr>))\<rparr>"

lemma demo_effective: "effective demo_api"
  by (auto simp: effective_def demo_api_def dm_list_def split: option.splits)

definition demo_world :: demo where
  "demo_world = \<lparr>dm_state =
     [((JStr ''!r:s'', ''m.room.create''), (''@a:s'', [(''com.liza.chat.type'', JStr ''channel'')])),
      ((JStr ''!r:s'', ''m.room.join_rules''), (''@a:s'', [(''join_rule'', JStr ''invite'')])),
      ((JStr ''!r:s'', ''com.liza.channel.discussion''), (''@a:s'', [(''room_id'', JStr ''!d:s'')])),
      ((JStr ''!d:s'', ''m.room.create''), (''@a:s'', [(''com.liza.chat.type'', JStr ''channel_discussion'')])),
      ((JStr ''!d:s'', ''m.room.join_rules''), (''@a:s'', [(''join_rule'', JStr ''public'')]))],
    dm_joined = [(JStr ''!r:s'', [''@a:s'', ''@b:s'']), (JStr ''!d:s'', [''@a:s''])], dm_invited = []\<rparr>"

definition demo_start :: "demo sync_state" where
  "demo_start = \<lparr>mirrors = [(''$p'', (''$m'', JStr ''!d:s'')), (''$q'', (''$n'', JStr ''!e:s''))], world = demo_world\<rparr>"

definition demo_post :: event where
  "demo_post = sample_event ''$p'' ''m.room.message'' None ''@a:s'' [(''body'', JStr ''news'')] []"

section \<open>The theorems at the example\<close>

theorem mirror_table_well_formed_witness:
  "table_ok (mirrors (run_tasks demo_api [MirrorPost (demo_post\<lparr>ev_event_id := ''$z''\<rparr>) [], MirrorRedact demo_post (JStr ''$p'')] demo_start))"
  by (rule mirror_table_well_formed) code_simp

theorem mirror_stable_witness:
  "get_mirror (mirrors (run_tasks demo_api [MirrorRedact demo_post (JStr ''$q'')] demo_start)) (JStr ''$p'')
     = Some (''$m'', JStr ''!d:s'')
   \<and> mirror_post demo_api demo_post [] (run_tasks demo_api [MirrorRedact demo_post (JStr ''$q'')] demo_start)
     = (Inr (), run_tasks demo_api [MirrorRedact demo_post (JStr ''$q'')] demo_start)"
proof (rule mirror_stable)
  show "table_ok (mirrors demo_start)" by code_simp
  show "get_mirror (mirrors demo_start) (JStr ''$p'') = Some (''$m'', JStr ''!d:s'')" by code_simp
  show "ev_event_id demo_post = ''$p''" by (simp add: demo_post_def sample_event_def)
qed simp

theorem comments_off_keeps_mirrors_witness:
  "fst (on_new_event demo_api (sample_event ''$9'' ''com.liza.channel.discussion'' (Some []) ''@a:s'' [] []) demo_start)
     = Inr [UnlinkCleanup ''$9'' JNull False]
   \<and> mirrors (run_tasks demo_api [UnlinkCleanup ''$9'' JNull False] demo_start) = mirrors demo_start"
proof -
  let ?e = "sample_event ''$9'' ''com.liza.channel.discussion'' (Some []) ''@a:s'' [] []"
  have e: "ev_type ?e = ''com.liza.channel.discussion''" "dget_none (ev_content ?e) ''room_id'' = JNull"
    "dget_none (ev_content ?e) ''deleted'' \<noteq> JBool True"
    by (simp_all add: sample_event_def dget_none_def)
  have "on_new_event demo_api ?e demo_start = (Inr [UnlinkCleanup ''$9'' JNull False], demo_start)"
    by (simp add: on_new_event_def is_membership_leave_def CHANNEL_DISCUSSION_STATE_def in_channel_def channel_type_def
        discussion_room_of_def channel_deleted_of_def cs_defs Let_def demo_api_def demo_start_def demo_world_def
        sample_event_def dget_none_def)
  with comments_off_keeps_mirrors [OF this e] show ?thesis by simp
qed

theorem channel_deletion_forgets_witness:
  "get_mirror (mirrors (run_tasks demo_api [UnlinkCleanup ''$9'' JNull True] demo_start)) (JStr ''$p'') = None
   \<and> get_mirror (mirrors (run_tasks demo_api [UnlinkCleanup ''$9'' JNull True] demo_start)) (JStr ''$q'')
     = Some (''$n'', JStr ''!e:s'')"
proof -
  have h: "get_prev_content demo_api ''$9'' (world demo_start) = Inr (Some [(''room_id'', JStr ''!d:s'')])"
    "dget [(''room_id'', JStr ''!d:s'')] ''room_id'' = Some (JStr ''!d:s'')" "''!d:s'' \<noteq> []" "table_ok (mirrors demo_start)"
    by (simp_all add: demo_api_def dget_def demo_start_def table_ok_def)
  show ?thesis
    using channel_deletion_forgets [OF h, of JNull "''$p''"] channel_deletion_forgets [OF h, of JNull "''$q''"]
    by (simp add: demo_start_def get_mirror_def)
qed

theorem channel_leave_removes_from_discussion_witness:
  "\<exists>ts. on_new_event demo_api
       (sample_event ''$7'' ''m.room.member'' (Some ''@b:s'') ''@b:s'' [(''membership'', JStr ''leave'')] []) demo_start
     = (Inr ts, demo_start)
   \<and> run_tasks demo_api ts demo_start = demo_start\<lparr>world := snd (update_room_membership demo_api ''@a:s'' ''@b:s''
       (JStr ''!d:s'') ''leave'' None (world demo_start))\<rparr>"
  by (rule channel_leave_removes_from_discussion [where creator = "''@a:s''" and u = "''@a:s''"
        and cc = "[(''com.liza.chat.type'', JStr ''channel'')]" and link = "[(''room_id'', JStr ''!d:s'')]"
        and dc = "[(''com.liza.chat.type'', JStr ''channel_discussion'')]"])
    (simp_all add: sample_event_def demo_api_def demo_start_def demo_world_def dget_def)

text \<open>
  The join rule that the process works with is the one of its event, not the current one: the
  process that was scheduled when \<open>!r:s\<close> was opened still opens the discussion \<open>!d:s\<close> when it runs
  after \<open>!r:s\<close> has been closed again.
\<close>

definition demo_opening :: event where
  "demo_opening = (sample_event ''$8'' ''m.room.join_rules'' (Some []) ''@a:s'' [(''join_rule'', JStr ''public'')] [])
     \<lparr>ev_room_id := ''!r:s''\<rparr>"

lemma demo_opening_task: "fst (on_new_event demo_api demo_opening demo_start) = Inr [Privacy ''!r:s'' (JStr ''public'')]"
  by code_simp

lemma stale_rule_opens_closed_channel:
  "fst (channel_join_rule demo_api (JStr ''!r:s'') demo_start) = Inr (JStr ''invite'')
   \<and> list_all opens (sent (snd (run_task (logged demo_api) (Privacy ''!r:s'' (JStr ''public''))
        \<lparr>mirrors = [], world = (demo_world, [])\<rparr>)))
   \<and> length (sent (snd (run_task (logged demo_api) (Privacy ''!r:s'' (JStr ''public''))
        \<lparr>mirrors = [], world = (demo_world, [])\<rparr>))) = 2"
  by code_simp

lemma map_two: "length xs = 2 \<Longrightarrow> \<forall>y \<in> set xs. f y = a \<Longrightarrow> map f xs = [a, a]"
  by (auto simp: numeral_2_eq_2 length_Suc_conv)

theorem opened_only_for_public_rule_witness:
  "map sd_room_id (filter opens (sent (snd (run_task (logged demo_api) (Privacy ''!r:s'' (JStr ''public''))
      \<lparr>mirrors = [], world = (demo_world, [])\<rparr>)))) = [JStr ''!d:s'', JStr ''!d:s'']
   \<and> fst (discussion_room (logged demo_api) ''!r:s'' \<lparr>mirrors = [], world = (demo_world, [])\<rparr>) = Inr (JStr ''!d:s'')
   \<and> filter opens (sent (snd (migrate_channel_turn (logged demo_api) ''!r:s''
      \<lparr>mirrors = [], world = (demo_world, [])\<rparr>))) = []"
proof -
  let ?s = "\<lparr>mirrors = [], world = (demo_world, [])\<rparr> :: (demo \<times> send_request list) sync_state"
  let ?sent = "sent (snd (run_task (logged demo_api) (Privacy ''!r:s'' (JStr ''public'')) ?s))"
  have two: "length (filter opens ?sent) = 2" by code_simp
  have r: "ev_room_id demo_opening = ''!r:s''" by (simp add: demo_opening_def)
  have d: "fst (discussion_room (logged demo_api) ''!r:s'' ?s) = Inr (JStr ''!d:s'')" by code_simp
  have c: "fst (channel_join_rule (logged demo_api) (JStr ''!r:s'') ?s) \<noteq> Inr (JStr ''public'')" by code_simp
  note ok = opened_only_for_public_rule [OF demo_opening_task, of "Privacy ''!r:s'' (JStr ''public'')" ?s demo_world "''!r:s''"]
  have "\<forall>req \<in> set (filter opens ?sent). sd_room_id req = JStr ''!d:s''" using ok r d by auto
  from map_two [OF two this] have "map sd_room_id (filter opens ?sent) = [JStr ''!d:s'', JStr ''!d:s'']" .
  moreover have "filter opens (sent (snd (migrate_channel_turn (logged demo_api) ''!r:s'' ?s))) = []"
    using ok c by (auto simp: filter_empty_conv)
  ultimately show ?thesis using d by simp
qed

theorem migration_idempotent_witness:
  "fst (migrate_one_channel demo_api ''!r:s'' demo_start) = Inr True
   \<and> fst (migrate_one_channel demo_api ''!r:s'' (snd (migrate_one_channel demo_api ''!r:s'' demo_start))) = Inr False"
proof -
  have one: "fst (migrate_one_channel demo_api ''!r:s'' demo_start) = Inr True" by code_simp
  then have "migrate_one_channel demo_api ''!r:s'' demo_start = (Inr True, snd (migrate_one_channel demo_api ''!r:s'' demo_start))"
    by (cases "migrate_one_channel demo_api ''!r:s'' demo_start") simp
  from migration_idempotent [OF demo_effective _ _ this, of "''@a:s''" "[(''room_id'', JStr ''!d:s'')]"] one show ?thesis
    by (simp add: demo_api_def demo_start_def demo_world_def dget_def)
qed

end
