(* ===== verification/Access_Logic.thy ===== *)
theory Access_Logic
  imports Py_Base
begin

text \<open>
  The decisions of the module \<open>access_admin\<close> (\<open>modules/access_admin/_logic.py\<close>) and the tables
  that its queries read: the current state of the rooms, the JSON of the events, and the room
  statistics. \<open>db_json\<close> gives the parsed JSON of an event, \<open>None\<close> when there is no row or the
  text is empty or does not parse. The queries of one request see the same tables.
\<close>

section \<open>\<open>_logic.py\<close>\<close>

definition ROOM_TYPE_SPACE :: string where "ROOM_TYPE_SPACE = ''m.space''"
definition ROOM_TYPE_CHANNEL :: string where "ROOM_TYPE_CHANNEL = ''com.liza.channel''"
definition CHAT_TYPE_KEY :: string where "CHAT_TYPE_KEY = ''com.liza.chat.type''"
definition CHAT_TYPE_STORIES :: string where "CHAT_TYPE_STORIES = ''stories''"
definition CHAT_TYPE_DISCUSSION :: string where "CHAT_TYPE_DISCUSSION = ''channel_discussion''"
definition LEGACY_STORIES_KEY :: string where "LEGACY_STORIES_KEY = ''com.liza.stories''"
definition ADMIN_POWER_LEVEL :: int where "ADMIN_POWER_LEVEL = 100"
definition MODERATOR_POWER_LEVEL :: int where "MODERATOR_POWER_LEVEL = 50"

datatype level = LEVEL_ADMIN | LEVEL_MODERATOR | LEVEL_USER

definition level_from_power :: "int \<Rightarrow> level" where
  "level_from_power pl =
     (if pl \<ge> ADMIN_POWER_LEVEL then LEVEL_ADMIN
      else if pl \<ge> MODERATOR_POWER_LEVEL then LEVEL_MODERATOR
      else LEVEL_USER)"

text \<open>\<open>v if isinstance(v, int) else 0\<close>; a \<open>bool\<close> is an \<open>int\<close>.\<close>

fun int_or_zero :: "json \<Rightarrow> int" where
  "int_or_zero (JInt i) = i"
| "int_or_zero (JBool b) = (if b then 1 else 0)"
| "int_or_zero _ = 0"

definition power_from_content :: "jdict option \<Rightarrow> string \<Rightarrow> int" where
  "power_from_content content user_id = (case content of
     None \<Rightarrow> 0
   | Some content \<Rightarrow>
       (case dget_none content ''users'' of
          JObj users \<Rightarrow> (case dget users user_id of
              Some v \<Rightarrow> int_or_zero v
            | None \<Rightarrow> int_or_zero (dget_default content ''users_default'' (JInt 0)))
        | _ \<Rightarrow> int_or_zero (dget_default content ''users_default'' (JInt 0))))"

datatype group = Space | Channel | Chat | Bot

definition classify_room :: "string option \<Rightarrow> json \<Rightarrow> bool \<Rightarrow> group option" where
  "classify_room room_type chat_type legacy_stories =
     (if chat_type \<in> {JStr CHAT_TYPE_STORIES, JStr CHAT_TYPE_DISCUSSION} then None
      else if room_type = Some ROOM_TYPE_SPACE then Some Space
      else if room_type = Some ROOM_TYPE_CHANNEL then Some Channel
      else if legacy_stories then None
      else Some Chat)"

definition is_bot_user :: "string \<Rightarrow> string list \<Rightarrow> string \<Rightarrow> bool" where
  "is_bot_user user_id bot_localparts bots_homeserver =
     (if \<not> py_startswith user_id ''@'' \<or> CHR '':'' \<notin> set user_id then False
      else (case split1 (CHR '':'') (drop 1 user_id) of (localpart, domain_part) \<Rightarrow>
        if domain_part = Some bots_homeserver then True else localpart \<in> set bot_localparts))"

definition is_local_room :: "string \<Rightarrow> string \<Rightarrow> bool" where
  "is_local_room room_id server_name = True"

definition is_hidden_room :: "jdict option \<Rightarrow> json \<Rightarrow> bool \<Rightarrow> bool" where
  "is_hidden_room topology_content chat_type legacy_stories = (case topology_content of
     Some c \<Rightarrow> dget_none c ''hidden'' = JBool True
   | None \<Rightarrow> legacy_stories \<or> chat_type = JStr CHAT_TYPE_STORIES)"

section \<open>The tables\<close>

record state_row =
  sw_room :: string
  sw_type :: string
  sw_key :: string
  sw_membership :: "string option"
  sw_event :: string

record stats_row =
  st_room :: string
  st_name :: "string option"
  st_avatar :: "string option"
  st_type :: "string option"

record access_db =
  db_state :: "state_row list"
  db_json :: "string \<Rightarrow> json option"
  db_stats :: "stats_row list"

text \<open>\<open>content_from_json\<close> of the JSON of an event that may be missing.\<close>

definition content_from_json :: "json option \<Rightarrow> jdict option" where
  "content_from_json raw = (case raw of
     Some (JObj parsed) \<Rightarrow> (case dget_none parsed ''content'' of JObj content \<Rightarrow> Some content | _ \<Rightarrow> None)
   | _ \<Rightarrow> None)"

text \<open>The rows of a state event with an empty state key, as they are joined to a room.\<close>

definition state_at :: "access_db \<Rightarrow> string \<Rightarrow> string \<Rightarrow> state_row list" where
  "state_at db ty room_id =
     filter (\<lambda>r. sw_room r = room_id \<and> sw_type r = ty \<and> sw_key r = []) (db_state db)"

text \<open>\<open>LEFT JOIN\<close>: a row without a partner is kept once.\<close>

definition left_join :: "'a list \<Rightarrow> 'a option list" where
  "left_join rows = (if rows = [] then [None] else map Some rows)"

definition json_of :: "access_db \<Rightarrow> state_row option \<Rightarrow> json option" where
  "json_of db r = Option.bind (map_option sw_event r) (db_json db)"

end
