(* ===== verification/Space_Members.thy ===== *)
theory Space_Members
  imports Access_Logic
begin

text \<open>
  The members of a space with all its child rooms (\<open>modules/access_admin/_space_members.py\<close>): the
  breadth-first traversal of the hierarchy, cut off at ten layers and a thousand rooms, and the list
  of members. The set of known rooms is a list without duplicates.
\<close>

definition MAX_SPACE_DEPTH :: nat where "MAX_SPACE_DEPTH = 10"
definition MAX_SPACE_ROOMS :: nat where "MAX_SPACE_ROOMS = 1000"

section \<open>The hierarchy\<close>

text \<open>\<open>edges.get(room_id, ())\<close>.\<close>

definition edges_at :: "(string \<rightharpoonup> string list) \<Rightarrow> string \<Rightarrow> string list" where
  "edges_at edges room_id = (case edges room_id of None \<Rightarrow> [] | Some cs \<Rightarrow> cs)"

text \<open>A room that is not seen yet is appended to the order and to the next frontier.\<close>

definition append_new :: "string \<Rightarrow> string list \<times> string list \<Rightarrow> string list \<times> string list" where
  "append_new child_id st = (case st of (order, next_frontier) \<Rightarrow>
     if child_id \<in> set order then (order, next_frontier)
     else (order @ [child_id], next_frontier @ [child_id]))"

definition bfs_layer :: "(string \<Rightarrow> string list) \<Rightarrow> string list \<Rightarrow> string list \<Rightarrow> string list \<times> string list" where
  "bfs_layer edges frontier order =
     fold (\<lambda>room_id. fold append_new (edges room_id)) frontier (order, [])"

text \<open>\<open>while frontier and depth < max_depth\<close>; the first argument is \<open>max_depth - depth\<close>.\<close>

fun bfs_loop :: "nat \<Rightarrow> (string \<Rightarrow> string list) \<Rightarrow> string list \<Rightarrow> string list \<Rightarrow> string list" where
  "bfs_loop 0 edges frontier order = order"
| "bfs_loop (Suc n) edges frontier order =
     (if frontier = [] then order
      else (case bfs_layer edges frontier order of (order', frontier') \<Rightarrow> bfs_loop n edges frontier' order'))"

definition collect_space_room_ids :: "(string \<rightharpoonup> string list) \<Rightarrow> string \<Rightarrow> nat \<Rightarrow> string list" where
  "collect_space_room_ids child_edges root_id max_depth =
     bfs_loop max_depth (edges_at child_edges) [root_id] [root_id]"

section \<open>The members\<close>

record elevated_room =
  er_room_id :: string
  er_name :: "string option"
  er_power_level :: int
  er_group :: group

record member_entry =
  me_user_id :: string
  me_in_space :: bool
  me_max_power_level :: int
  me_elevated_rooms :: "elevated_room list"

definition add_member_row ::
  "string \<Rightarrow> (string \<times> string option) list \<Rightarrow> (string \<times> group) list \<Rightarrow> string \<times> string \<times> int
     \<Rightarrow> (string \<times> member_entry) list \<Rightarrow> (string \<times> member_entry) list" where
  "add_member_row root_id room_names room_groups row by_user = (case row of (room_id, user_id, power_level) \<Rightarrow>
     let e = dget_default by_user user_id
               \<lparr>me_user_id = user_id, me_in_space = False, me_max_power_level = 0, me_elevated_rooms = []\<rparr>;
         e = (if room_id = root_id then e\<lparr>me_in_space := True\<rparr> else e);
         e = (if power_level > me_max_power_level e then e\<lparr>me_max_power_level := power_level\<rparr> else e);
         e = (if power_level \<ge> MODERATOR_POWER_LEVEL
              then e\<lparr>me_elevated_rooms := me_elevated_rooms e @
                [\<lparr>er_room_id = room_id, er_name = Option.bind (dget room_names room_id) id,
                  er_power_level = power_level, er_group = dget_default room_groups room_id Chat\<rparr>]\<rparr>
              else e)
     in dset by_user user_id e)"

definition elevated_key :: "elevated_room \<Rightarrow> int \<times> bool \<times> string" where
  "elevated_key r = (- er_power_level r, er_name r = None, (case er_name r of None \<Rightarrow> [] | Some n \<Rightarrow> n))"

definition build_space_members ::
  "(string \<times> string \<times> int) list \<Rightarrow> string \<Rightarrow> (string \<times> string option) list \<Rightarrow> (string \<times> group) list
     \<Rightarrow> member_entry list" where
  "build_space_members member_rows root_id room_names room_groups =
     (let by_user = fold (add_member_row root_id room_names room_groups) member_rows [];
          entries = map (\<lambda>(_, e). e\<lparr>me_elevated_rooms := sort_key elevated_key (me_elevated_rooms e)\<rparr>) by_user
      in sort_key (\<lambda>m. (- me_max_power_level m, me_user_id m)) entries)"

section \<open>The queries\<close>

definition child_rows :: "access_db \<Rightarrow> string list \<Rightarrow> (string \<times> string \<times> json option) list" where
  "child_rows db room_ids = map (\<lambda>r. (sw_room r, sw_key r, json_of db (Some r)))
     (filter (\<lambda>r. sw_type r = ''m.space.child'' \<and> sw_room r \<in> set room_ids) (db_state db))"

text \<open>A withdrawn edge has no \<open>via\<close>.\<close>

definition live_edge :: "json option \<Rightarrow> bool" where
  "live_edge raw = (case content_from_json raw of None \<Rightarrow> False | Some c \<Rightarrow> py_truthy (dget_none c ''via''))"

definition child_edges :: "access_db \<Rightarrow> string list \<Rightarrow> (string \<rightharpoonup> string list)" where
  "child_edges db room_ids =
     fold (\<lambda>(parent_id, child_id, raw) edges. if live_edge raw
        then edges(parent_id \<mapsto> edges_at edges parent_id @ [child_id]) else edges)
       (child_rows db room_ids) Map.empty"

definition member_rows :: "access_db \<Rightarrow> string list \<Rightarrow> (string \<times> string) list" where
  "member_rows db room_ids = map (\<lambda>r. (sw_room r, sw_key r))
     (filter (\<lambda>r. sw_type r = ''m.room.member'' \<and> sw_membership r = Some ''join''
        \<and> sw_room r \<in> set room_ids) (db_state db))"

text \<open>The content of a state event by room; a later row of the same room replaces an earlier one.\<close>

definition content_by_room :: "access_db \<Rightarrow> string \<Rightarrow> string list \<Rightarrow> (string \<times> jdict option) list" where
  "content_by_room db ty room_ids = fold (\<lambda>r d. dset d (sw_room r) (content_from_json (json_of db (Some r))))
     (filter (\<lambda>r. sw_type r = ty \<and> sw_key r = [] \<and> sw_room r \<in> set room_ids) (db_state db)) []"

definition meta_rows :: "access_db \<Rightarrow> string list \<Rightarrow> stats_row list" where
  "meta_rows db room_ids = filter (\<lambda>r. st_room r \<in> set room_ids) (db_stats db)"

definition room_group_of :: "(string \<times> jdict option) list \<Rightarrow> stats_row \<Rightarrow> group option" where
  "room_group_of create_content_by_room r =
     (let create_content = (case dget create_content_by_room (st_room r) of Some (Some c) \<Rightarrow> c | _ \<Rightarrow> [])
      in classify_room (st_type r) (dget_none create_content CHAT_TYPE_KEY)
           (dget_none create_content LEGACY_STORIES_KEY = JBool True))"

definition fetch_members ::
  "access_db \<Rightarrow> string list
     \<Rightarrow> (string \<times> string \<times> int) list \<times> (string \<times> string option) list \<times> (string \<times> group) list" where
  "fetch_members db room_ids =
     (if room_ids = [] then ([], [], [])
      else let powers = content_by_room db ''m.room.power_levels'' room_ids;
               creates = content_by_room db ''m.room.create'' room_ids;
               metas = meta_rows db room_ids;
               names = fold (\<lambda>r d. dset d (st_room r) (st_name r)) metas [];
               groups = fold (\<lambda>r d. case room_group_of creates r of
                   None \<Rightarrow> d | Some g \<Rightarrow> dset d (st_room r) g) metas []
           in (map (\<lambda>(room_id, user_id). (room_id, user_id,
                  power_from_content (Option.bind (dget powers room_id) id) user_id))
                 (filter (\<lambda>(room_id, _). dhas groups room_id) (member_rows db room_ids)),
               filter (\<lambda>(room_id, _). dhas groups room_id) names, groups))"

section \<open>The traversal\<close>

text \<open>The two inner loops, which stop when a thousand rooms are known.\<close>

fun scan_children :: "string list \<Rightarrow> string list \<Rightarrow> string list \<Rightarrow> string list \<times> string list" where
  "scan_children [] known next_frontier = (known, next_frontier)"
| "scan_children (child # children) known next_frontier =
     (if child \<in> set known then scan_children children known next_frontier
      else if length (known @ [child]) \<ge> MAX_SPACE_ROOMS then (known @ [child], next_frontier @ [child])
      else scan_children children (known @ [child]) (next_frontier @ [child]))"

fun scan_frontier ::
  "(string \<rightharpoonup> string list) \<Rightarrow> string list \<Rightarrow> string list \<Rightarrow> string list \<Rightarrow> string list \<times> string list" where
  "scan_frontier layer [] known next_frontier = (known, next_frontier)"
| "scan_frontier layer (parent # parents) known next_frontier =
     (case scan_children (edges_at layer parent) known next_frontier of
        (known', next_frontier') \<Rightarrow>
          if length known' \<ge> MAX_SPACE_ROOMS then (known', next_frontier')
          else scan_frontier layer parents known' next_frontier')"

text \<open>\<open>for _ in range(MAX_SPACE_DEPTH)\<close>: the edges that are known at the end.\<close>

fun collect_edges ::
  "nat \<Rightarrow> access_db \<Rightarrow> string list \<Rightarrow> (string \<rightharpoonup> string list) \<Rightarrow> string list \<Rightarrow> string list \<times> (string \<rightharpoonup> string list)" where
  "collect_edges 0 db known edges frontier = (known, edges)"
| "collect_edges (Suc n) db known edges frontier =
     (if frontier = [] \<or> length known \<ge> MAX_SPACE_ROOMS then (known, edges)
      else let layer = child_edges db frontier in
        (case scan_frontier layer frontier known [] of
           (known', frontier') \<Rightarrow> collect_edges n db known' (edges ++ layer) frontier'))"

definition space_room_ids :: "access_db \<Rightarrow> string \<Rightarrow> string list" where
  "space_room_ids db root_id =
     (let edges = snd (collect_edges MAX_SPACE_DEPTH db [root_id] Map.empty [root_id])
      in take MAX_SPACE_ROOMS (collect_space_room_ids edges root_id MAX_SPACE_DEPTH))"

definition collect_space_members :: "access_db \<Rightarrow> string \<Rightarrow> member_entry list" where
  "collect_space_members db root_id =
     (case fetch_members db (space_room_ids db root_id) of
        (rows, names, groups) \<Rightarrow> build_space_members rows root_id names groups)"

end
