(* ===== verification/Space_Members_Props.thy ===== *)
theory Space_Members_Props
  imports Space_Members
begin

text \<open>
  The traversal of a space finds the rooms within ten live edges of the root, cut off at a thousand;
  and the list of members has one entry for each user with a room, with the highest power level.
\<close>

section \<open>Rooms within a number of edges\<close>

fun reach_in :: "('a \<Rightarrow> 'a list) \<Rightarrow> 'a \<Rightarrow> nat \<Rightarrow> 'a set" where
  "reach_in ch r 0 = {r}"
| "reach_in ch r (Suc n) = reach_in ch r n \<union> (\<Union>p \<in> reach_in ch r n. set (ch p))"

lemma finite_reach [simp]: "finite (reach_in ch r n)"
  by (induction n) auto

lemma reach_mono: "(\<And>p. set (f p) \<subseteq> set (g p)) \<Longrightarrow> reach_in f r n \<subseteq> reach_in g r n"
  by (induction n) auto

lemma reach_le: "reach_in ch r n \<subseteq> reach_in ch r (n + m)"
  by (induction m) auto

lemma reach_closed:
  assumes "\<forall>p \<in> reach_in ch r k. set (ch p) \<subseteq> reach_in ch r k"
  shows "reach_in ch r (k + n) = reach_in ch r k"
  using assms by (induction n) auto

section \<open>The pure traversal\<close>

lemma fold_append_new:
  "\<exists>new. fold append_new cs (order, nf) = (order @ new, nf @ new) \<and> set new = set cs - set order \<and> distinct new"
proof (induction cs arbitrary: order nf)
  case (Cons c cs)
  show ?case
  proof (cases "c \<in> set order")
    case True
    then show ?thesis using Cons.IH [of order nf] by (auto simp: append_new_def)
  next
    case False
    obtain new where "fold append_new cs (order @ [c], nf @ [c]) = ((order @ [c]) @ new, (nf @ [c]) @ new)"
      "set new = set cs - set (order @ [c])" "distinct new" using Cons.IH by blast
    moreover from False have "fold append_new (c # cs) (order, nf) = fold append_new cs (order @ [c], nf @ [c])"
      by (simp add: append_new_def)
    ultimately show ?thesis using False by (intro exI [of _ "c # new"] conjI) (simp, simp, blast, simp)
  qed
qed simp

lemma bfs_layer_new:
  "\<exists>new. bfs_layer edges frontier order = (order @ new, new) \<and> distinct new
     \<and> set new = (\<Union>p \<in> set frontier. set (edges p)) - set order"
proof -
  have "\<exists>new. fold (\<lambda>r. fold append_new (edges r)) frontier (order, nf) = (order @ new, nf @ new) \<and> distinct new
     \<and> set new = (\<Union>p \<in> set frontier. set (edges p)) - set order" for nf
  proof (induction frontier arbitrary: order nf)
    case (Cons p ps)
    obtain new where a: "fold append_new (edges p) (order, nf) = (order @ new, nf @ new)"
      "set new = set (edges p) - set order" "distinct new" using fold_append_new by blast
    obtain new' where b: "fold (\<lambda>r. fold append_new (edges r)) ps (order @ new, nf @ new) = ((order @ new) @ new', (nf @ new) @ new')"
      "distinct new'" "set new' = (\<Union>p \<in> set ps. set (edges p)) - set (order @ new)"
      using Cons.IH [of "order @ new" "nf @ new"] by blast
    from a(1) b(1) have "fold (\<lambda>r. fold append_new (edges r)) (p # ps) (order, nf) = (order @ new @ new', nf @ new @ new')"
      by simp
    moreover have "distinct (new @ new')" using a(3) b(2,3) by auto
    moreover have "set (new @ new') = (\<Union>p \<in> set (p # ps). set (edges p)) - set order"
      unfolding set_append a(2) b(3) by (simp, blast)
    ultimately show ?case by blast
  qed simp
  from this [of "[]"] show ?thesis by (simp add: bfs_layer_def)
qed

lemma bfs_loop_within:
  assumes "set order = reach_in ch r k" and "distinct order" and "set frontier \<subseteq> set order"
    and "\<forall>p \<in> reach_in ch r k - set frontier. set (ch p) \<subseteq> reach_in ch r k"
  shows "distinct (bfs_loop n ch frontier order) \<and> set (bfs_loop n ch frontier order) = reach_in ch r (k + n)"
  using assms
proof (induction n arbitrary: k frontier order)
  case (Suc n)
  show ?case
  proof (cases "frontier = []")
    case True
    then show ?thesis using Suc.prems reach_closed [of ch r k "Suc n"] by simp
  next
    case False
    obtain new where l: "bfs_layer ch frontier order = (order @ new, new)" "distinct new"
      "set new = (\<Union>p \<in> set frontier. set (ch p)) - set order"
      using bfs_layer_new [of ch frontier order] by blast
    have c: "(\<Union>p \<in> reach_in ch r k. set (ch p)) \<subseteq> reach_in ch r k \<union> (\<Union>p \<in> set frontier. set (ch p))"
      using Suc.prems(4) by blast
    have s: "set (order @ new) = reach_in ch r (Suc k)"
      unfolding set_append l(3) reach_in.simps Suc.prems(1) using c Suc.prems(1,3) by blast
    have "p \<in> reach_in ch r k" if "p \<in> reach_in ch r (Suc k) - set new" for p
      using that s Suc.prems(1) by auto
    then have "\<forall>p \<in> reach_in ch r (Suc k) - set new. set (ch p) \<subseteq> reach_in ch r (Suc k)" by fastforce
    moreover have "distinct (order @ new)" using l(2,3) Suc.prems(2) by simp
    ultimately show ?thesis using Suc.IH [OF s, of new] False l(1) by simp
  qed
qed simp

lemma collect_space_room_ids_within:
  "distinct (collect_space_room_ids edges r n) \<and> set (collect_space_room_ids edges r n) = reach_in (edges_at edges) r n"
  using bfs_loop_within [of "[r]" "edges_at edges" r 0 "[r]" n] by (simp add: collect_space_room_ids_def)

section \<open>The edges of the database\<close>

text \<open>The live children of a room.\<close>

definition children_of :: "access_db \<Rightarrow> string \<Rightarrow> string list" where
  "children_of db p = map sw_key (filter (\<lambda>r. sw_type r = ''m.space.child'' \<and> sw_room r = p
     \<and> live_edge (json_of db (Some r))) (db_state db))"

lemma edges_at_update: "edges_at (m(q \<mapsto> v)) p = (if p = q then v else edges_at m p)"
  by (simp add: edges_at_def)

lemma edges_at_empty [simp]: "edges_at Map.empty p = []"
  by (simp add: edges_at_def)

lemma child_edges_fold:
  "edges_at (fold (\<lambda>(parent_id, child_id, raw) edges. if live_edge raw
      then edges(parent_id \<mapsto> edges_at edges parent_id @ [child_id]) else edges) rows m) p =
   edges_at m p @ map (\<lambda>(_, c, _). c) (filter (\<lambda>(q, _, raw). q = p \<and> live_edge raw) rows)"
proof (induction rows arbitrary: m)
  case (Cons row rows)
  obtain q c raw where "row = (q, c, raw)" by (cases row)
  then show ?case unfolding fold_Cons comp_apply Cons.IH by (simp add: edges_at_update)
qed simp

lemma child_edges_at: "edges_at (child_edges db ids) p = (if p \<in> set ids then children_of db p else [])"
proof -
  have "map (\<lambda>(_, c, _). c) (filter (\<lambda>(q, _, raw). q = p \<and> live_edge raw) (child_rows db ids)) =
      (if p \<in> set ids then children_of db p else [])"
    unfolding child_rows_def children_of_def
    by (auto simp: filter_map comp_def filter_empty_conv intro!: arg_cong [where f = "map sw_key"] filter_cong)
  then show ?thesis unfolding child_edges_def child_edges_fold by simp
qed

section \<open>The traversal with a limit\<close>

definition scan_ok :: "string set \<Rightarrow> string list \<Rightarrow> string list \<Rightarrow> string list \<times> string list \<Rightarrow> bool" where
  "scan_ok C known nf res \<longleftrightarrow> (\<exists>new. res = (known @ new, nf @ new) \<and> distinct new \<and> set new \<inter> set known = {}
     \<and> set new \<subseteq> C \<and> length (known @ new) \<le> MAX_SPACE_ROOMS
     \<and> (length (known @ new) < MAX_SPACE_ROOMS \<longrightarrow> C \<subseteq> set known \<union> set new))"

lemma scan_children_ok: "length known < MAX_SPACE_ROOMS \<Longrightarrow> scan_ok (set cs) known nf (scan_children cs known nf)"
proof (induction cs arbitrary: known nf)
  case (Cons c cs)
  consider "c \<in> set known" | "c \<notin> set known" "length (known @ [c]) \<ge> MAX_SPACE_ROOMS"
    | "c \<notin> set known" "length (known @ [c]) < MAX_SPACE_ROOMS" by linarith
  then show ?case
  proof cases
    case 1
    then show ?thesis using Cons.IH [OF Cons.prems, of nf] by (auto simp: scan_ok_def)
  next
    case 2
    then show ?thesis using Cons.prems by (auto simp: scan_ok_def intro!: exI [of _ "[c]"])
  next
    case 3
    from Cons.IH [OF 3(2), of "nf @ [c]"] obtain new where
      "scan_children cs (known @ [c]) (nf @ [c]) = ((known @ [c]) @ new, (nf @ [c]) @ new)" "distinct new"
      "set new \<inter> set (known @ [c]) = {}" "set new \<subseteq> set cs" "length ((known @ [c]) @ new) \<le> MAX_SPACE_ROOMS"
      "length ((known @ [c]) @ new) < MAX_SPACE_ROOMS \<longrightarrow> set cs \<subseteq> set (known @ [c]) \<union> set new"
      unfolding scan_ok_def by blast
    with 3 show ?thesis unfolding scan_ok_def by (intro exI [of _ "c # new"]) auto
  qed
qed (auto simp: scan_ok_def)

lemma scan_frontier_ok:
  "length known < MAX_SPACE_ROOMS \<Longrightarrow>
     scan_ok (\<Union>p \<in> set ps. set (edges_at layer p)) known nf (scan_frontier layer ps known nf)"
proof (induction ps arbitrary: known nf)
  case (Cons p ps)
  from scan_children_ok [OF Cons.prems, of "edges_at layer p" nf] obtain new where
    n: "scan_children (edges_at layer p) known nf = (known @ new, nf @ new)" "distinct new" "set new \<inter> set known = {}"
      "set new \<subseteq> set (edges_at layer p)" "length (known @ new) \<le> MAX_SPACE_ROOMS"
      "length (known @ new) < MAX_SPACE_ROOMS \<longrightarrow> set (edges_at layer p) \<subseteq> set known \<union> set new"
    unfolding scan_ok_def by blast
  show ?case
  proof (cases "length (known @ new) \<ge> MAX_SPACE_ROOMS")
    case True
    with n show ?thesis unfolding scan_ok_def by (intro exI [of _ new]) auto
  next
    case False
    then have "length (known @ new) < MAX_SPACE_ROOMS" by simp
    from Cons.IH [OF this, of "nf @ new"] obtain new' where
      "scan_frontier layer ps (known @ new) (nf @ new) = ((known @ new) @ new', (nf @ new) @ new')" "distinct new'"
      "set new' \<inter> set (known @ new) = {}" "set new' \<subseteq> (\<Union>p \<in> set ps. set (edges_at layer p))"
      "length ((known @ new) @ new') \<le> MAX_SPACE_ROOMS"
      "length ((known @ new) @ new') < MAX_SPACE_ROOMS \<longrightarrow>
         (\<Union>p \<in> set ps. set (edges_at layer p)) \<subseteq> set (known @ new) \<union> set new'"
      unfolding scan_ok_def by blast
    with n False show ?thesis unfolding scan_ok_def by (intro exI [of _ "new @ new'"]) auto
  qed
qed (auto simp: scan_ok_def)

lemma child_edges_nonempty: "child_edges db ids p \<noteq> Some []"
proof -
  have "\<forall>p. m p \<noteq> Some [] \<Longrightarrow> fold (\<lambda>(parent_id, child_id, raw) edges. if live_edge raw
      then edges(parent_id \<mapsto> edges_at edges parent_id @ [child_id]) else edges) rows m p \<noteq> Some []" for rows m
    by (induction rows arbitrary: m) auto
  then show ?thesis by (simp add: child_edges_def)
qed

lemma edges_at_add:
  assumes "\<And>p. layer p \<noteq> Some []" and "\<And>p. edges_at edges p = (if p \<in> Q then ch p else [])" and "\<And>p. edges_at layer p = (if p \<in> F then ch p else [])"
  shows "edges_at (edges ++ layer) p = (if p \<in> Q \<union> F then ch p else [])"
  using assms(1) [of p] assms(2) [of p] assms(3) [of p] by (auto simp: edges_at_def map_add_def split: option.splits if_splits)

text \<open>
  The invariant of the loop after \<open>k\<close> layers: the edges are those of the rooms asked for, every
  known room is reached by them, and below the limit all rooms within \<open>k\<close> edges are known.
\<close>

definition collect_inv :: "access_db \<Rightarrow> string \<Rightarrow> nat \<Rightarrow> string list \<Rightarrow> (string \<rightharpoonup> string list) \<Rightarrow> string list \<Rightarrow> bool" where
  "collect_inv db r k known edges frontier \<longleftrightarrow> distinct known \<and> set frontier \<subseteq> set known
     \<and> (\<exists>Q. \<forall>p. edges_at edges p = (if p \<in> Q then children_of db p else []))
     \<and> set known \<subseteq> reach_in (edges_at edges) r k
     \<and> (length known < MAX_SPACE_ROOMS \<longrightarrow> set known = reach_in (children_of db) r k
          \<and> (\<forall>p \<in> set known - set frontier. set (children_of db p) \<subseteq> set known))"

lemma Un_eq_between: "A \<subseteq> K \<union> C \<Longrightarrow> C \<subseteq> A \<Longrightarrow> C \<subseteq> K \<union> F \<Longrightarrow> F \<subseteq> C \<Longrightarrow> K \<union> F = K \<union> A"
  by blast

lemma collect_inv_step:
  assumes inv: "collect_inv db r k known edges frontier" and "length known < MAX_SPACE_ROOMS"
    and sc: "scan_frontier (child_edges db frontier) frontier known [] = (known', frontier')"
  shows "collect_inv db r (Suc k) known' (edges ++ child_edges db frontier) frontier'"
proof -
  let ?ch = "children_of db" and ?edges' = "edges ++ child_edges db frontier"
  let ?C = "\<Union>p \<in> set frontier. set (?ch p)"
  have "(\<Union>p \<in> set frontier. set (edges_at (child_edges db frontier) p)) = ?C" by (simp add: child_edges_at)
  with scan_frontier_ok [OF assms(2), of "child_edges db frontier" frontier "[]"] sc have "scan_ok ?C known [] (known', frontier')"
    by simp
  then have k': "known' = known @ frontier'" and new: "distinct frontier'" "set frontier' \<inter> set known = {}" "set frontier' \<subseteq> ?C"
    and all: "length known' < MAX_SPACE_ROOMS \<longrightarrow> ?C \<subseteq> set known \<union> set frontier'"
    by (auto simp: scan_ok_def)
  from inv obtain Q where Q: "\<And>p. edges_at edges p = (if p \<in> Q then ?ch p else [])"
    and d: "distinct known" "set frontier \<subseteq> set known" and reach: "set known \<subseteq> reach_in (edges_at edges) r k"
    and full: "set known = reach_in ?ch r k" "\<forall>p \<in> set known - set frontier. set (?ch p) \<subseteq> set known"
    using assms(2) by (auto simp: collect_inv_def)
  have E: "edges_at ?edges' p = (if p \<in> Q \<union> set frontier then ?ch p else [])" for p
    by (rule edges_at_add [OF child_edges_nonempty Q child_edges_at])
  have "reach_in (edges_at edges) r k \<subseteq> reach_in (edges_at ?edges') r k"
    by (rule reach_mono) (auto simp: Q E)
  with reach have old: "set known \<subseteq> reach_in (edges_at ?edges') r k" by blast
  have "set (?ch p) \<subseteq> reach_in (edges_at ?edges') r (Suc k)" if "p \<in> set frontier" for p
    using that old d(2) by (fastforce simp: E)
  then have "?C \<subseteq> reach_in (edges_at ?edges') r (Suc k)" by (rule UN_least)
  with new(3) have "set frontier' \<subseteq> reach_in (edges_at ?edges') r (Suc k)" by (rule subset_trans)
  moreover have "set known \<subseteq> reach_in (edges_at ?edges') r (Suc k)" using old by (simp add: le_supI1)
  ultimately have "set known' \<subseteq> reach_in (edges_at ?edges') r (Suc k)"
    unfolding k' set_append by (intro Un_least)
  moreover have "set known' = reach_in ?ch r (Suc k)" if "length known' < MAX_SPACE_ROOMS"
  proof -
    have "(\<Union>p \<in> set known. set (?ch p)) \<subseteq> set known \<union> ?C" using full(2) by blast
    moreover have "?C \<subseteq> (\<Union>p \<in> set known. set (?ch p))" using d(2) by (rule UN_mono) simp
    moreover have "?C \<subseteq> set known \<union> set frontier'" using all that by blast
    ultimately have "set known \<union> set frontier' = set known \<union> (\<Union>p \<in> set known. set (?ch p))"
      using new(3) by (rule Un_eq_between)
    then show ?thesis by (simp add: k' full(1) [symmetric])
  qed
  moreover have "set (?ch p) \<subseteq> set known'" if "length known' < MAX_SPACE_ROOMS" "p \<in> set known' - set frontier'" for p
    unfolding k' set_append using that full(2) all k' by (cases "p \<in> set frontier") auto
  moreover have "distinct known'" "set frontier' \<subseteq> set known'" using k' d(1) new by auto
  ultimately show ?thesis unfolding collect_inv_def using E by blast
qed

text \<open>At the end a thousand rooms are reached by the collected edges, or all of them.\<close>

lemma collect_edges_result:
  assumes "collect_inv db r k known edges frontier" and "collect_edges n db known edges frontier = (known', edges')"
  shows "reach_in (edges_at edges') r (k + n) \<subseteq> reach_in (children_of db) r (k + n)
    \<and> (MAX_SPACE_ROOMS \<le> card (reach_in (edges_at edges') r (k + n))
       \<or> reach_in (edges_at edges') r (k + n) = reach_in (children_of db) r (k + n))"
  using assms
proof (induction n arbitrary: k known edges frontier)
  case 0
  then have e: "edges' = edges" by simp
  from 0 have sub: "reach_in (edges_at edges) r k \<subseteq> reach_in (children_of db) r k"
    by (auto simp: collect_inv_def intro!: reach_mono)
  from 0 have "card (set known) = length known" and known: "set known \<subseteq> reach_in (edges_at edges) r k"
    by (auto simp: collect_inv_def distinct_card)
  then have "length known \<le> card (reach_in (edges_at edges) r k)" by (metis card_mono finite_reach)
  then show ?case using 0(1) e sub known by (cases "length known < MAX_SPACE_ROOMS") (auto simp: collect_inv_def)
next
  case (Suc n)
  show ?case
  proof (cases "frontier = [] \<or> length known \<ge> MAX_SPACE_ROOMS")
    case True
    then have e: "edges' = edges" using Suc.prems(2) by simp
    from Suc.prems(1) have sub: "reach_in (edges_at edges) r m \<subseteq> reach_in (children_of db) r m" for m
      by (auto simp: collect_inv_def intro!: reach_mono)
    from Suc.prems(1) have c: "card (set known) = length known" and known: "set known \<subseteq> reach_in (edges_at edges) r (k + Suc n)"
      using reach_le [of "edges_at edges" r k "Suc n"] by (auto simp: collect_inv_def distinct_card)
    then have len: "length known \<le> card (reach_in (edges_at edges) r (k + Suc n))" by (metis card_mono finite_reach)
    show ?thesis
    proof (cases "length known < MAX_SPACE_ROOMS")
      case below: True
      then have w: "set known = reach_in (children_of db) r k"
        and "\<forall>p \<in> set known - set frontier. set (children_of db p) \<subseteq> set known"
        using Suc.prems(1) unfolding collect_inv_def by blast+
      then have "\<forall>p \<in> reach_in (children_of db) r k. set (children_of db p) \<subseteq> reach_in (children_of db) r k"
        using True below by simp
      with w reach_closed [of "children_of db" r k "Suc n"] known sub e show ?thesis by (metis subset_antisym)
    next
      case above: False
      then have "MAX_SPACE_ROOMS \<le> card (reach_in (edges_at edges) r (k + Suc n))" using len by linarith
      then show ?thesis using sub e by blast
    qed
  next
    case False
    obtain kn fr where sc: "scan_frontier (child_edges db frontier) frontier known [] = (kn, fr)" by fastforce
    with False Suc.prems(2) have "collect_edges n db kn (edges ++ child_edges db frontier) fr = (known', edges')"
      by (simp add: Let_def)
    from Suc.IH [OF collect_inv_step [OF Suc.prems(1) _ sc] this] False show ?thesis by simp
  qed
qed

text \<open>
  C17: the rooms of a space. The traversal returns every room once, only rooms that are reached
  from the root over at most ten live edges, and as many of them as there are, up to a thousand: a
  cycle or a diamond in the hierarchy does no harm, and nothing is lost below the limit.
\<close>

theorem space_rooms_bounded:
  "distinct (space_room_ids db root_id) \<and> set (space_room_ids db root_id) \<subseteq> reach_in (children_of db) root_id 10
   \<and> length (space_room_ids db root_id) = min 1000 (card (reach_in (children_of db) root_id 10))"
proof -
  obtain known edges where e: "collect_edges MAX_SPACE_DEPTH db [root_id] Map.empty [root_id] = (known, edges)" by fastforce
  have "collect_inv db root_id 0 [root_id] Map.empty [root_id]"
    by (auto simp: collect_inv_def MAX_SPACE_ROOMS_def intro!: exI [of _ "{}"])
  from collect_edges_result [OF this e]
  have r: "reach_in (edges_at edges) root_id 10 \<subseteq> reach_in (children_of db) root_id 10"
    "1000 \<le> card (reach_in (edges_at edges) root_id 10) \<or> reach_in (edges_at edges) root_id 10 = reach_in (children_of db) root_id 10"
    by (simp_all add: MAX_SPACE_ROOMS_def MAX_SPACE_DEPTH_def)
  define ids where "ids = collect_space_room_ids edges root_id 10"
  have ids: "distinct ids" "set ids = reach_in (edges_at edges) root_id 10"
    using collect_space_room_ids_within [of edges root_id 10] by (simp_all add: ids_def)
  have s: "space_room_ids db root_id = take 1000 ids"
    using e by (simp add: space_room_ids_def ids_def MAX_SPACE_ROOMS_def MAX_SPACE_DEPTH_def)
  have "length ids = card (reach_in (edges_at edges) root_id 10)" using ids distinct_card by metis
  moreover have "card (reach_in (edges_at edges) root_id 10) \<le> card (reach_in (children_of db) root_id 10)"
    using r(1) by (simp add: card_mono)
  ultimately have "length (take 1000 ids) = min 1000 (card (reach_in (children_of db) root_id 10))"
    using r(2) by auto
  moreover have "set (take 1000 ids) \<subseteq> reach_in (children_of db) root_id 10"
    using set_take_subset [of 1000 ids] ids(2) r(1) by blast
  ultimately show ?thesis using ids(1) s by simp
qed

section \<open>The list of members\<close>

text \<open>The entry of a user, read off the rows.\<close>

definition elevated_of ::
  "(string \<times> string option) list \<Rightarrow> (string \<times> group) list \<Rightarrow> string \<times> string \<times> int \<Rightarrow> elevated_room" where
  "elevated_of room_names room_groups row = (case row of (room_id, _, power_level) \<Rightarrow>
     \<lparr>er_room_id = room_id, er_name = Option.bind (dget room_names room_id) id,
      er_power_level = power_level, er_group = dget_default room_groups room_id Chat\<rparr>)"

definition powers_of :: "(string \<times> string \<times> int) list \<Rightarrow> string \<Rightarrow> int set" where
  "powers_of rows u = {p. \<exists>r. (r, u, p) \<in> set rows}"

definition max_power :: "(string \<times> string \<times> int) list \<Rightarrow> string \<Rightarrow> int" where
  "max_power rows u = Max (insert 0 (powers_of rows u))"

definition entry_of ::
  "string \<Rightarrow> (string \<times> string option) list \<Rightarrow> (string \<times> group) list \<Rightarrow> (string \<times> string \<times> int) list \<Rightarrow> string
     \<Rightarrow> member_entry" where
  "entry_of root_id room_names room_groups rows u =
     \<lparr>me_user_id = u, me_in_space = (\<exists>p. (root_id, u, p) \<in> set rows),
      me_max_power_level = max_power rows u,
      me_elevated_rooms = map (elevated_of room_names room_groups)
        (filter (\<lambda>(_, v, p). v = u \<and> p \<ge> MODERATOR_POWER_LEVEL) rows)\<rparr>"

abbreviation users_of :: "(string \<times> string \<times> int) list \<Rightarrow> string set" where
  "users_of rows \<equiv> (\<lambda>(_, u, _). u) ` set rows"

lemma finite_powers [simp]: "finite (powers_of rows u)"
proof -
  have "powers_of rows u \<subseteq> (\<lambda>(_, _, p). p) ` set rows" by (force simp: powers_of_def)
  then show ?thesis by (rule finite_subset) simp
qed

lemma powers_of_snoc [simp]:
  "powers_of (rows @ [(r, v, q)]) u = (if v = u then insert q (powers_of rows u) else powers_of rows u)"
  by (auto simp: powers_of_def)

lemma entry_of_new: "u \<notin> users_of rows \<Longrightarrow> entry_of root_id ns gs rows u =
    \<lparr>me_user_id = u, me_in_space = False, me_max_power_level = 0, me_elevated_rooms = []\<rparr>"
proof -
  assume u: "u \<notin> users_of rows"
  then have n: "(r, u, p) \<notin> set rows" for r p by force
  then have "filter (\<lambda>(_, v, p). v = u \<and> p \<ge> MODERATOR_POWER_LEVEL) rows = []" by (force simp: filter_empty_conv)
  then show ?thesis using n by (simp add: entry_of_def max_power_def powers_of_def)
qed

lemma max_power_snoc [simp]:
  "max_power (rows @ [(r, v, q)]) u = (if v = u then max q (max_power rows u) else max_power rows u)"
proof -
  have "Max (insert q (insert 0 (powers_of rows u))) = max q (Max (insert 0 (powers_of rows u)))"
    by (rule Max_insert) simp_all
  then show ?thesis by (simp only: max_power_def powers_of_snoc insert_commute [of 0] split: if_split) simp
qed

lemma add_member_row_entry:
  assumes "\<And>v. dget by_user v = (if v \<in> users_of rows then Some (entry_of root_id ns gs rows v) else None)"
  shows "dget (add_member_row root_id ns gs (r, u, p) by_user) v =
    (if v \<in> users_of (rows @ [(r, u, p)]) then Some (entry_of root_id ns gs (rows @ [(r, u, p)]) v) else None)"
proof (cases "v = u")
  case True
  have "dget_default by_user u \<lparr>me_user_id = u, me_in_space = False, me_max_power_level = 0, me_elevated_rooms = []\<rparr>
      = entry_of root_id ns gs rows u"
    using assms [of u] entry_of_new [of u rows root_id ns gs] by (auto simp: dget_default_def dget_def split: if_splits)
  then show ?thesis
    using True by (auto simp: add_member_row_def dget_def dset_def update_conv' Let_def entry_of_def elevated_of_def
        max_def)
next
  case False
  then have "entry_of root_id ns gs (rows @ [(r, u, p)]) v = entry_of root_id ns gs rows v"
    by (simp add: entry_of_def)
  with False assms [of v] show ?thesis
    by (simp add: add_member_row_def dget_def dset_def update_conv' Let_def)
qed

lemma distinct_add_member_row: "distinct (map fst d) \<Longrightarrow> distinct (map fst (add_member_row root_id ns gs row d))"
  unfolding add_member_row_def Let_def dset_def by (cases row) (simp only: prod.case AList.distinct_update)

lemma distinct_map_sort_key: "distinct (map g (sort_key k xs)) \<longleftrightarrow> distinct (map g xs)"
  by (rule mset_eq_imp_distinct_iff) simp

lemma by_user_entries:
  "distinct (map fst (fold (add_member_row root_id ns gs) rows []))
   \<and> dget (fold (add_member_row root_id ns gs) rows []) v =
       (if v \<in> users_of rows then Some (entry_of root_id ns gs rows v) else None)"
proof (induction rows arbitrary: v rule: rev_induct)
  case (snoc row rows)
  obtain r u p where row: "row = (r, u, p)" by (cases row)
  have "distinct (map fst (add_member_row root_id ns gs row (fold (add_member_row root_id ns gs) rows [])))"
    by (rule distinct_add_member_row) (use snoc.IH in blast)
  moreover have "dget (fold (add_member_row root_id ns gs) rows []) v =
       (if v \<in> users_of rows then Some (entry_of root_id ns gs rows v) else None)" for v using snoc.IH by blast
  ultimately show ?case using add_member_row_entry [of _ rows root_id ns gs r u p v] row by simp
qed (simp add: dget_def)

text \<open>
  The list of members of a space. There is exactly one entry for each user of the rows,
  with the membership in the root, the highest power level and the rooms where the user moderates;
  the list is ordered by falling power level and then by id.
\<close>

theorem space_members_correct:
  "set (build_space_members rows root_id ns gs) =
     (\<lambda>u. (entry_of root_id ns gs rows u)\<lparr>me_elevated_rooms :=
        sort_key elevated_key (me_elevated_rooms (entry_of root_id ns gs rows u))\<rparr>) ` users_of rows
   \<and> distinct (map me_user_id (build_space_members rows root_id ns gs))
   \<and> sorted (map (\<lambda>m. (- me_max_power_level m, me_user_id m)) (build_space_members rows root_id ns gs))"
proof -
  let ?b = "fold (add_member_row root_id ns gs) rows []" and ?e = "entry_of root_id ns gs rows"
  let ?f = "\<lambda>e. e\<lparr>me_elevated_rooms := sort_key elevated_key (me_elevated_rooms e)\<rparr>"
  have d: "distinct (map fst ?b)" and get: "\<And>v. map_of ?b v = (if v \<in> users_of rows then Some (?e v) else None)"
    using by_user_entries [of root_id ns gs rows] by (simp_all add: dget_def)
  have b: "set ?b = (\<lambda>u. (u, ?e u)) ` users_of rows"
  proof (intro set_eqI iffI)
    fix x assume "x \<in> set ?b"
    then have "map_of ?b (fst x) = Some (snd x)" by (simp add: map_of_eq_Some_iff [OF d])
    then show "x \<in> (\<lambda>u. (u, ?e u)) ` users_of rows" using get [of "fst x"] by (cases x) (auto split: if_splits)
  next
    fix x assume "x \<in> (\<lambda>u. (u, ?e u)) ` users_of rows"
    then obtain u where "u \<in> users_of rows" "x = (u, ?e u)" by blast
    then show "x \<in> set ?b" using get [of u] by (metis map_of_SomeD)
  qed
  have id: "me_user_id (?e u) = u" for u by (simp add: entry_of_def)
  have "fst x = me_user_id (?f (snd x))" if "x \<in> set ?b" for x using that b id by auto
  then have ids: "map me_user_id (map (\<lambda>(_, e). ?f e) ?b) = map fst ?b" by (simp add: case_prod_beta)
  have "distinct (map me_user_id (sort_key (\<lambda>m. (- me_max_power_level m, me_user_id m)) (map (\<lambda>(_, e). ?f e) ?b)))"
    unfolding distinct_map_sort_key ids by (rule d)
  moreover have "set (map (\<lambda>(_, e). ?f e) ?b) = (\<lambda>u. ?f (?e u)) ` users_of rows"
    unfolding set_map b by (simp add: image_image)
  ultimately show ?thesis by (simp add: build_space_members_def Let_def del: set_map)
qed

end
