(* ===== verification/Access_Admin.thy ===== *)
theory Access_Admin
  imports Space_Members Module_Api
begin

text \<open>
  The module \<open>access_admin\<close>: the dossier of a user's rooms (\<open>_dossier.py\<close>), who may see it
  (\<open>_permissions.py\<close>), the soft deactivation of accounts (\<open>_accounts.py\<close>) and the handler that
  composes them (\<open>AccessAdminHandler\<close> of \<open>_api.py\<close>).

  The account data, the admin flag and the profiles are functions of the record \<open>access_env\<close>. The
  users table is the state; the calls that \<open>_accounts.py\<close> makes to the auth handler and to the user
  directory are recorded in the order of the calls, and \<open>ae_fails\<close> says which of them raise.
\<close>

section \<open>\<open>_dossier.py\<close>\<close>

record dossier_row =
  dr_room_id :: string
  dr_name :: "string option"
  dr_avatar :: "string option"
  dr_room_type :: "string option"
  dr_power :: "json option"
  dr_create :: "json option"
  dr_topology :: "json option"
  dr_tombstone :: "string option"

text \<open>\<open>membership_rows_sql\<close>.\<close>

definition membership_rows :: "access_db \<Rightarrow> string \<Rightarrow> dossier_row list" where
  "membership_rows db user_id =
     [\<lparr>dr_room_id = sw_room cse, dr_name = Option.bind rss st_name, dr_avatar = Option.bind rss st_avatar,
       dr_room_type = Option.bind rss st_type, dr_power = json_of db pl, dr_create = json_of db cr,
       dr_topology = json_of db tp, dr_tombstone = map_option sw_event tomb\<rparr>.
      cse \<leftarrow> filter (\<lambda>r. sw_type r = ''m.room.member'' \<and> sw_key r = user_id \<and> sw_membership r = Some ''join'')
              (db_state db),
      rss \<leftarrow> left_join (filter (\<lambda>s. st_room s = sw_room cse) (db_stats db)),
      pl \<leftarrow> left_join (state_at db ''m.room.power_levels'' (sw_room cse)),
      cr \<leftarrow> left_join (state_at db ''m.room.create'' (sw_room cse)),
      tp \<leftarrow> left_join (state_at db ''com.liza.chat.topology'' (sw_room cse)),
      tomb \<leftarrow> left_join (state_at db ''m.room.tombstone'' (sw_room cse))]"

record dossier_entry =
  de_room_id :: string
  de_name :: "string option"
  de_avatar :: "string option"
  de_level :: level

record dossier_groups =
  spaces :: "dossier_entry list"
  channels :: "dossier_entry list"
  chats :: "dossier_entry list"
  bots :: "dossier_entry list"

text \<open>The group of a row, \<open>None\<close> when the loop skips it.\<close>

definition dossier_group :: "string \<Rightarrow> string list \<Rightarrow> string list \<Rightarrow> dossier_row \<Rightarrow> group option" where
  "dossier_group server_name dm_room_ids bot_dm_room_ids row =
     (let is_bot_dm = (dr_room_id row \<in> set bot_dm_room_ids) in
      if \<not> is_local_room (dr_room_id row) server_name then None
      else if dr_room_id row \<in> set dm_room_ids \<and> \<not> is_bot_dm then None
      else if dr_tombstone row \<noteq> None then None
      else let create_content = (case content_from_json (dr_create row) of None \<Rightarrow> [] | Some c \<Rightarrow> c);
               chat_type = dget_none create_content CHAT_TYPE_KEY;
               legacy_stories = (dget_none create_content LEGACY_STORIES_KEY = JBool True);
               topology_content = content_from_json (dr_topology row)
           in if is_hidden_room topology_content chat_type legacy_stories then None
              else if is_bot_dm then Some Bot
              else classify_room (dr_room_type row) chat_type (legacy_stories \<and> topology_content = None))"

definition dossier_entry_of :: "string \<Rightarrow> dossier_row \<Rightarrow> dossier_entry" where
  "dossier_entry_of target_id row =
     \<lparr>de_room_id = dr_room_id row, de_name = dr_name row, de_avatar = dr_avatar row,
      de_level = level_from_power (power_from_content (content_from_json (dr_power row)) target_id)\<rparr>"

fun add_to_group :: "group \<Rightarrow> dossier_entry \<Rightarrow> dossier_groups \<Rightarrow> dossier_groups" where
  "add_to_group Space e g = g\<lparr>spaces := spaces g @ [e]\<rparr>"
| "add_to_group Channel e g = g\<lparr>channels := channels g @ [e]\<rparr>"
| "add_to_group Chat e g = g\<lparr>chats := chats g @ [e]\<rparr>"
| "add_to_group Bot e g = g\<lparr>bots := bots g @ [e]\<rparr>"

fun level_order :: "level \<Rightarrow> int" where
  "level_order LEVEL_ADMIN = 0"
| "level_order LEVEL_MODERATOR = 1"
| "level_order LEVEL_USER = 2"

definition entry_key :: "dossier_entry \<Rightarrow> int \<times> bool \<times> string" where
  "entry_key e = (level_order (de_level e), de_name e = None, (case de_name e of None \<Rightarrow> [] | Some n \<Rightarrow> n))"

definition build_dossier_groups ::
  "dossier_row list \<Rightarrow> string \<Rightarrow> string \<Rightarrow> string list \<Rightarrow> string list \<Rightarrow> dossier_groups" where
  "build_dossier_groups rows target_id server_name dm_room_ids bot_dm_room_ids =
     (let g = fold (\<lambda>row g. case dossier_group server_name dm_room_ids bot_dm_room_ids row of
                None \<Rightarrow> g | Some k \<Rightarrow> add_to_group k (dossier_entry_of target_id row) g)
              rows \<lparr>spaces = [], channels = [], chats = [], bots = []\<rparr>
      in \<lparr>spaces = sort_key entry_key (spaces g), channels = sort_key entry_key (channels g),
          chats = sort_key entry_key (chats g), bots = sort_key entry_key (bots g)\<rparr>)"

section \<open>The environment\<close>

datatype account_call =
    DeleteAccessTokens string
  | DirectoryRemove string
  | DirectoryProfile string "string option \<times> string option"

record access_env =
  ae_hs :: homeserver
  ae_db :: access_db
  ae_is_server_admin :: "string \<Rightarrow> bool res"
  ae_bot_localparts :: "string list"
  ae_bots_homeserver :: string
  ae_profile :: "domain_specific_string \<Rightarrow> (string option \<times> string option) res"
  ae_fails :: "account_call \<Rightarrow> exn option"

text \<open>The users table, from the name to the \<open>deactivated\<close> flag, and the calls made so far.\<close>

record accounts =
  ac_users :: "(string \<times> bool) list"
  ac_calls :: "account_call list"

definition DEFAULT_BOT_LOCALPARTS :: "string list" where
  "DEFAULT_BOT_LOCALPARTS = [''liza'', ''gpt'', ''deepseek'', ''bot_father'', ''botfather'']"
definition DEFAULT_BOTS_HOMESERVER :: string where "DEFAULT_BOTS_HOMESERVER = ''bots.liza.ru''"

section \<open>\<open>DossierBuilder\<close>\<close>

definition is_local :: "access_env \<Rightarrow> string \<Rightarrow> bool" where
  "is_local env user_id = py_endswith user_id ('':'' @ hs_hostname (ae_hs env))"

text \<open>
  The rooms of one value of \<open>m.direct\<close>. \<open>str\<close> of an entry that is no string does not start with
  the sigil of a room id; such an entry names no room and is left out.
\<close>

definition direct_rooms :: "json \<Rightarrow> string list" where
  "direct_rooms v = (case v of JList xs \<Rightarrow> concat (map (\<lambda>x. case x of JStr r \<Rightarrow> [r] | _ \<Rightarrow> []) xs) | _ \<Rightarrow> [])"

definition dm_room_ids :: "access_env \<Rightarrow> string \<Rightarrow> string list res" where
  "dm_room_ids env user_id =
     (if \<not> is_local env user_id then Inr []
      else rbind (get_global (ae_hs env) user_id ''m.direct'') (\<lambda>data. Inr (case data of
          None \<Rightarrow> [] | Some d \<Rightarrow> concat (map (\<lambda>(_, v). direct_rooms v) d))))"

definition bot_dm_room_ids :: "access_env \<Rightarrow> string \<Rightarrow> string list res" where
  "bot_dm_room_ids env user_id =
     (if \<not> is_local env user_id then Inr []
      else rbind (get_global (ae_hs env) user_id ''m.direct'') (\<lambda>data. Inr (case data of
          None \<Rightarrow> []
        | Some d \<Rightarrow> concat (map (\<lambda>(peer_id, v).
            if is_bot_user peer_id (ae_bot_localparts env) (ae_bots_homeserver env) then direct_rooms v else []) d))))"

definition collect_dossier :: "access_env \<Rightarrow> string \<Rightarrow> dossier_groups res" where
  "collect_dossier env target_id =
     rbind (dm_room_ids env target_id) (\<lambda>dm_rooms.
     rbind (bot_dm_room_ids env target_id) (\<lambda>bot_dm_rooms.
     Inr (build_dossier_groups (membership_rows (ae_db env) target_id) target_id
           (hs_hostname (ae_hs env)) dm_rooms bot_dm_rooms)))"

definition power_in_room :: "access_env \<Rightarrow> string \<Rightarrow> string \<Rightarrow> int" where
  "power_in_room env user_id room_id =
     (let power_raw = (case state_at (ae_db env) ''m.room.power_levels'' room_id of
          [] \<Rightarrow> None | r # _ \<Rightarrow> json_of (ae_db env) (Some r))
      in power_from_content (content_from_json power_raw) user_id)"

definition shared_space_powers :: "access_env \<Rightarrow> string \<Rightarrow> string \<Rightarrow> int list" where
  "shared_space_powers env caller_id target_id =
     (let target_spaces = map dr_room_id (filter (\<lambda>row. dr_room_type row = Some ''m.space''
            \<and> is_local_room (dr_room_id row) (hs_hostname (ae_hs env))) (membership_rows (ae_db env) target_id))
      in if target_spaces = [] then []
         else map (\<lambda>row. power_from_content (content_from_json (dr_power row)) caller_id)
                (filter (\<lambda>row. dr_room_id row \<in> set target_spaces) (membership_rows (ae_db env) caller_id)))"

section \<open>\<open>_permissions.py\<close>\<close>

definition has_admin_role :: "access_env \<Rightarrow> string \<Rightarrow> bool res" where
  "has_admin_role env user_id =
     rbind (get_global (ae_hs env) user_id ''com.liza.user_role'') (\<lambda>data.
       Inr (case data of None \<Rightarrow> False | Some d \<Rightarrow> dget_none d ''role'' = JStr ''admin''))"

definition is_space_admin_over :: "access_env \<Rightarrow> string \<Rightarrow> string \<Rightarrow> bool" where
  "is_space_admin_over env caller_id target_id =
     list_ex (\<lambda>p. p \<ge> ADMIN_POWER_LEVEL) (shared_space_powers env caller_id target_id)"

definition may_view :: "access_env \<Rightarrow> string \<Rightarrow> string \<Rightarrow> bool res" where
  "may_view env caller_id target_id =
     rbind (ae_is_server_admin env caller_id) (\<lambda>admin.
     if admin then Inr True
     else rbind (has_admin_role env caller_id) (\<lambda>role.
       if role then Inr True else Inr (is_space_admin_over env caller_id target_id)))"

definition may_view_space :: "access_env \<Rightarrow> string \<Rightarrow> string \<Rightarrow> bool res" where
  "may_view_space env caller_id space_id =
     rbind (ae_is_server_admin env caller_id) (\<lambda>admin.
     if admin then Inr True
     else rbind (has_admin_role env caller_id) (\<lambda>role.
       if role then Inr True else Inr (power_in_room env caller_id space_id \<ge> MODERATOR_POWER_LEVEL)))"

datatype deny_reason = DenySelf | DenyForeignServer | DenyForbidden

text \<open>\<open>None\<close> allows.\<close>

definition may_deactivate :: "access_env \<Rightarrow> string \<Rightarrow> string \<Rightarrow> deny_reason option res" where
  "may_deactivate env caller_id target_id =
     (if caller_id = target_id then Inr (Some DenySelf)
      else if \<not> py_endswith target_id ('':'' @ hs_hostname (ae_hs env)) then Inr (Some DenyForeignServer)
      else rbind (may_view env caller_id target_id) (\<lambda>ok. Inr (if ok then None else Some DenyForbidden)))"

section \<open>\<open>_accounts.py\<close>\<close>

text \<open>
  The users table; a missing row raises \<open>StoreError(404)\<close>. \<open>account_call\<close> is recorded when it
  does not raise.
\<close>

definition get_user_deactivated_status :: "string \<Rightarrow> accounts \<Rightarrow> bool res" where
  "get_user_deactivated_status user_id st = (case dget (ac_users st) user_id of
     None \<Rightarrow> Inl (SynapseError 404 UNKNOWN) | Some b \<Rightarrow> Inr b)"

definition set_user_deactivated_status :: "string \<Rightarrow> bool \<Rightarrow> accounts \<Rightarrow> unit res \<times> accounts" where
  "set_user_deactivated_status user_id b st =
     (if dhas (ac_users st) user_id then (Inr (), st\<lparr>ac_users := dset (ac_users st) user_id b\<rparr>)
      else (Inl (SynapseError 404 UNKNOWN), st))"

definition make_call :: "access_env \<Rightarrow> account_call \<Rightarrow> accounts \<Rightarrow> unit res \<times> accounts" where
  "make_call env c st = (case ae_fails env c of Some e \<Rightarrow> (Inl e, st) | None \<Rightarrow> (Inr (), st\<lparr>ac_calls := ac_calls st @ [c]\<rparr>))"

definition abind :: "'a res \<times> accounts \<Rightarrow> ('a \<Rightarrow> accounts \<Rightarrow> 'b res \<times> accounts) \<Rightarrow> 'b res \<times> accounts" where
  "abind m f = (case m of (Inl e, st) \<Rightarrow> (Inl e, st) | (Inr a, st) \<Rightarrow> f a st)"

definition deactivate :: "access_env \<Rightarrow> string \<Rightarrow> accounts \<Rightarrow> bool res \<times> accounts" where
  "deactivate env user_id st =
     abind (get_user_deactivated_status user_id st, st) (\<lambda>b st.
     if b then (Inr True, st)
     else abind (set_user_deactivated_status user_id True st) (\<lambda>_ st.
          abind (make_call env (DeleteAccessTokens user_id) st) (\<lambda>_ st.
          abind (make_call env (DirectoryRemove user_id) st) (\<lambda>_ st. (Inr True, st)))))"

definition reactivate :: "access_env \<Rightarrow> string \<Rightarrow> accounts \<Rightarrow> bool res \<times> accounts" where
  "reactivate env user_id st =
     abind (get_user_deactivated_status user_id st, st) (\<lambda>b st.
     if \<not> b then (Inr False, st)
     else abind (set_user_deactivated_status user_id False st) (\<lambda>_ st.
          abind (from_string USER_SIGIL user_id, st) (\<lambda>user st.
          abind (ae_profile env user, st) (\<lambda>profile st.
          abind (make_call env (DirectoryProfile user_id profile) st) (\<lambda>_ st. (Inr False, st))))))"

section \<open>\<open>AccessAdminHandler\<close>\<close>

datatype answer =
    Denied deny_reason
  | NotFound
  | Dossier string "string option" "string option" bool bool json dossier_groups
  | Members string "member_entry list"
  | AccountState string bool

definition role_view :: "access_env \<Rightarrow> string \<Rightarrow> json res" where
  "role_view env user_id =
     rbind (get_global (ae_hs env) user_id ''com.liza.user_role'') (\<lambda>data. Inr (case data of
         None \<Rightarrow> JNull
       | Some d \<Rightarrow> (case dget_none d ''role_v2'' of
             JObj r \<Rightarrow> JObj r
           | _ \<Rightarrow> (let code = dget_none d ''role'' in
               if py_truthy code then JObj [(''code'', code), (''label'', code), (''color'', JNull)] else JNull))))"

definition dossier :: "access_env \<Rightarrow> accounts \<Rightarrow> string \<Rightarrow> string \<Rightarrow> (int \<times> answer) res" where
  "dossier env st caller_id target_id =
     rbind (may_view env caller_id target_id) (\<lambda>ok.
     if \<not> ok then Inr (403, Denied DenyForbidden)
     else let loc = is_local env target_id; userinfo = (if loc then dget (ac_users st) target_id else None) in
       if loc \<and> userinfo = None then Inr (404, NotFound)
       else rbind (from_string USER_SIGIL target_id) (\<lambda>user.
            rbind (ae_profile env user) (\<lambda>profile.
            rbind (collect_dossier env target_id) (\<lambda>groups.
            rbind (if loc then role_view env target_id else Inr JNull) (\<lambda>role.
            Inr (200, Dossier target_id (fst profile) (snd profile)
              (case userinfo of Some b \<Rightarrow> b | None \<Rightarrow> False) loc role groups))))))"

definition space_members :: "access_env \<Rightarrow> string \<Rightarrow> string \<Rightarrow> (int \<times> answer) res" where
  "space_members env caller_id space_id =
     rbind (may_view_space env caller_id space_id) (\<lambda>ok.
     if \<not> ok then Inr (403, Denied DenyForbidden)
     else Inr (200, Members space_id (collect_space_members (ae_db env) space_id)))"

definition set_state :: "access_env \<Rightarrow> string \<Rightarrow> string \<Rightarrow> bool \<Rightarrow> accounts \<Rightarrow> (int \<times> answer) res \<times> accounts" where
  "set_state env caller_id target_id activate st =
     (case may_deactivate env caller_id target_id of
        Inl e \<Rightarrow> (Inl e, st)
      | Inr (Some reason) \<Rightarrow> (Inr (403, Denied reason), st)
      | Inr None \<Rightarrow>
          if dget (ac_users st) target_id = None then (Inr (404, NotFound), st)
          else abind (if activate then reactivate env target_id st else deactivate env target_id st)
                 (\<lambda>b st. (Inr (200, AccountState target_id b), st)))"

end
