(* ===== verification/Single_Space.thy ===== *)
theory Single_Space
  imports Module_Api
begin

text \<open>
  The module \<open>single_space_guard\<close> (\<open>modules/single_space_guard/_guard.py\<close> and \<open>__init__.py\<close>): a
  server has one main space, the earliest space that is no child of another. A second one is not
  created, nobody leaves the main space, and new rooms are added to it.

  The state of the module is the record \<open>space_guard\<close>; the tables it reads and writes are \<open>space_db\<close>.
  Background processes are values of \<open>space_task\<close>. The web endpoints, the federated list of
  companies and the publication in the room directory are not modelled, nor are failures of the
  database.
\<close>

section \<open>\<open>_guard.py\<close>\<close>

definition SPACE_TYPE :: string where "SPACE_TYPE = ''m.space''"
definition SPACE_PARENT_EVENT :: string where "SPACE_PARENT_EVENT = ''m.space.parent''"
definition MEMBER_EVENT :: string where "MEMBER_EVENT = ''m.room.member''"

text \<open>\<open>any(ev.get("type") == SPACE_PARENT_EVENT for ev in ...)\<close>, which stops at the first hit.\<close>

fun any_space_parent :: "json list \<Rightarrow> bool res" where
  "any_space_parent [] = Inr False"
| "any_space_parent (JObj ev # evs) =
     (if dget_none ev ''type'' = JStr SPACE_PARENT_EVENT then Inr True else any_space_parent evs)"
| "any_space_parent (_ # evs) = Inl PyAttributeError"

text \<open>The elements of \<open>v or []\<close>: the keys of a dictionary and the characters of a string are strings.\<close>

definition iter_or_empty :: "json \<Rightarrow> json list res" where
  "iter_or_empty v = (if \<not> py_truthy v then Inr [] else (case v of
      JList xs \<Rightarrow> Inr xs
    | JObj d \<Rightarrow> Inr (map (JStr \<circ> fst) d)
    | JStr s \<Rightarrow> Inr (map (\<lambda>c. JStr [c]) s)
    | _ \<Rightarrow> Inl PyTypeError))"

definition is_root_space_creation :: "jdict \<Rightarrow> bool res" where
  "is_root_space_creation config =
     rbind (or_obj (dget_none config ''creation_content'')) (\<lambda>creation_content.
     if dget_none creation_content ''type'' \<noteq> JStr SPACE_TYPE then Inr False
     else rbind (iter_or_empty (dget_none config ''initial_state'')) (\<lambda>initial_state.
          rbind (any_space_parent initial_state) (\<lambda>has_parent. Inr (\<not> has_parent))))"

definition is_dm_creation :: "jdict \<Rightarrow> bool" where
  "is_dm_creation config = py_truthy (dget_none config ''is_direct'')"

definition is_protected_membership_change :: "string \<Rightarrow> json \<Rightarrow> string \<Rightarrow> string option \<Rightarrow> bool" where
  "is_protected_membership_change event_type membership room_id main_root_space_id =
     (case main_root_space_id of
        None \<Rightarrow> False
      | Some m \<Rightarrow> if event_type \<noteq> MEMBER_EVENT then False
          else if membership \<notin> {JStr ''leave'', JStr ''ban''} then False
          else room_id = m)"

definition is_auto_add_candidate :: "json \<Rightarrow> bool \<Rightarrow> bool \<Rightarrow> bool \<Rightarrow> bool" where
  "is_auto_add_candidate room_type is_direct has_space_parent is_loc =
     (if \<not> is_loc then False
      else if room_type = JStr SPACE_TYPE then False
      else if is_direct then False
      else if has_space_parent then False
      else True)"

definition is_local_room :: "string \<Rightarrow> string \<Rightarrow> bool" where
  "is_local_room room_id server_name = (room_id \<noteq> [] \<and> py_endswith room_id ('':'' @ server_name))"

section \<open>The tables\<close>

record space_db =
  sp_stats :: "(string \<times> string option) list"
  sp_local_users :: "(string \<times> int) list"
  sp_creates :: "(string \<times> int \<times> string) list"
  sp_children :: "(string \<times> string) list"
  sp_direct :: "json option list"
  sp_meta :: "(string \<times> string) list"

text \<open>\<open>NOT EXISTS\<close> a space child event with this state key.\<close>

definition is_child :: "space_db \<Rightarrow> string \<Rightarrow> bool" where
  "is_child db room_id = (room_id \<in> set (map snd (sp_children db)))"

definition root_spaces :: "space_db \<Rightarrow> (int \<times> string) list" where
  "root_spaces db = [(ts, room_id).
     (room_id, room_type) \<leftarrow> sp_stats db, (r, ts, _) \<leftarrow> sp_creates db,
     r = room_id \<and> room_type = Some SPACE_TYPE \<and> \<not> is_child db room_id]"

text \<open>\<open>ORDER BY origin_server_ts ASC LIMIT 1\<close>; of rows with the same timestamp the first is taken.\<close>

definition find_main_root_space :: "space_db \<Rightarrow> string option" where
  "find_main_root_space db =
     (case sort_key fst (root_spaces db) of [] \<Rightarrow> None | (_, room_id) # _ \<Rightarrow> Some room_id)"

definition space_room_creator :: "space_db \<Rightarrow> string \<Rightarrow> string option" where
  "space_room_creator db room_id = map_option snd (map_of (sp_creates db) room_id)"

definition get_meta :: "space_db \<Rightarrow> string \<Rightarrow> string option" where
  "get_meta db key = dget (sp_meta db) key"

definition set_meta :: "string \<Rightarrow> string \<Rightarrow> space_db \<Rightarrow> space_db" where
  "set_meta key v db = db\<lparr>sp_meta := dset (sp_meta db) key v\<rparr>"

text \<open>The rooms of all \<open>m.direct\<close> entries; a content that is no dictionary raises.\<close>

fun direct_room_ids :: "json option list \<Rightarrow> string list res" where
  "direct_room_ids [] = Inr []"
| "direct_room_ids (None # rest) = direct_room_ids rest"
| "direct_room_ids (Some (JObj mapping) # rest) = rbind (direct_room_ids rest) (\<lambda>ids.
     Inr (concat (map (\<lambda>(_, v). case v of
        JList xs \<Rightarrow> concat (map (\<lambda>x. case x of JStr r \<Rightarrow> [r] | _ \<Rightarrow> []) xs) | _ \<Rightarrow> []) mapping) @ ids))"
| "direct_room_ids (Some _ # rest) = Inl PyAttributeError"

definition orphan_rooms :: "space_db \<Rightarrow> string \<Rightarrow> string \<Rightarrow> string list res" where
  "orphan_rooms db main_id server_name =
     rbind (direct_room_ids (sp_direct db)) (\<lambda>dm_room_ids.
     Inr (filter (\<lambda>room_id. room_id \<notin> set dm_room_ids \<and> is_local_room room_id server_name)
       [room_id. (room_id, room_type) \<leftarrow> sp_stats db, (r, local_users) \<leftarrow> sp_local_users db,
          r = room_id \<and> room_type \<noteq> Some SPACE_TYPE \<and> room_id \<noteq> main_id \<and> local_users > 0 \<and> \<not> is_child db room_id]))"

section \<open>The module\<close>

record space_guard =
  sg_backfill_existing :: bool
  sg_auto_add_new :: bool
  sg_main :: "string option"
  sg_backfill_started :: bool
  sg_pending_dm :: "string list"

datatype space_task =
    EnsurePublic string
  | Backfill
  | AddRoom string string string

text \<open>
  A coroutine is given up at the \<open>await\<close> of \<open>get_main_root_space_id\<close>, and other callbacks run before it
  goes on. So every coroutine is cut there: \<open>lookup_done\<close> is the code of the search after the
  \<open>await\<close>, which assigns without a second look at \<open>sg_main\<close>, and the callbacks are a part up to the
  search and a part that starts with its answer. The definitions with the names of the source
  compose the parts, as they run when nothing comes between; \<open>Single_Space_Props\<close> interleaves them.
\<close>

definition lookup_done :: "string option \<Rightarrow> space_guard \<Rightarrow> space_guard \<times> space_task list" where
  "lookup_done room_id g = (case room_id of
     None \<Rightarrow> (g, [])
   | Some m \<Rightarrow> (g\<lparr>sg_main := Some m\<rparr>, [EnsurePublic m, Backfill]))"

definition get_main_root_space_id :: "space_db \<Rightarrow> space_guard \<Rightarrow> string option \<times> space_guard \<times> space_task list" where
  "get_main_root_space_id db g = (case sg_main g of
     Some m \<Rightarrow> (Some m, g, [])
   | None \<Rightarrow> (let room_id = find_main_root_space db in (room_id, lookup_done room_id g)))"

text \<open>\<open>create_start\<close> returns \<open>None\<close> when the main space has to be known for the answer.\<close>

definition create_start :: "string \<Rightarrow> jdict \<Rightarrow> space_guard \<Rightarrow> unit res option \<times> space_guard" where
  "create_start requester config g =
     (let g = (if is_dm_creation config then g\<lparr>sg_pending_dm := List.insert requester (sg_pending_dm g)\<rparr> else g) in
      case is_root_space_creation config of
        Inl e \<Rightarrow> (Some (Inl e), g)
      | Inr False \<Rightarrow> (Some (Inr ()), g)
      | Inr True \<Rightarrow> (None, g))"

definition create_finish :: "string option \<Rightarrow> unit res" where
  "create_finish existing = (if existing = None then Inr () else Inl (SynapseError 403 FORBIDDEN))"

definition ssg_on_create_room ::
  "space_db \<Rightarrow> string \<Rightarrow> jdict \<Rightarrow> space_guard \<Rightarrow> unit res \<times> space_guard \<times> space_task list" where
  "ssg_on_create_room db requester config g = (case create_start requester config g of
     (Some res, g) \<Rightarrow> (res, g, [])
   | (None, g) \<Rightarrow> (case get_main_root_space_id db g of (existing, g, ts) \<Rightarrow> (create_finish existing, g, ts)))"

definition check_finish ::
  "homeserver \<Rightarrow> space_db \<Rightarrow> event \<Rightarrow> string option \<Rightarrow> space_guard \<Rightarrow> (bool \<times> jdict option) \<times> space_guard \<times> space_task list" where
  "check_finish hs db event main_id g =
     (let membership = (if ev_type event = ''m.room.member'' then dget_none (ev_content event) ''membership'' else JNull) in
      if is_protected_membership_change (ev_type event) membership (ev_room_id event) main_id then ((False, None), g, [])
      else if ev_type event = ''m.room.create'' then
        (let is_direct = (ev_sender event \<in> set (sg_pending_dm g));
             g = g\<lparr>sg_pending_dm := removeAll (ev_sender event) (sg_pending_dm g)\<rparr>
         in ((True, None), g, (case main_id of
              None \<Rightarrow> []
            | Some m \<Rightarrow>
                if sg_auto_add_new g
                   \<and> is_auto_add_candidate (dget_none (ev_content event) ''type'') is_direct False
                       (is_mine_id hs (ev_sender event))
                   \<and> ev_room_id event \<noteq> m
                then (case space_room_creator db m of None \<Rightarrow> [] | Some creator \<Rightarrow> [AddRoom (ev_room_id event) m creator])
                else [])))
      else ((True, None), g, []))"

definition ssg_check_event_allowed ::
  "homeserver \<Rightarrow> space_db \<Rightarrow> event \<Rightarrow> space_guard \<Rightarrow> (bool \<times> jdict option) \<times> space_guard \<times> space_task list" where
  "ssg_check_event_allowed hs db event g =
     (case get_main_root_space_id db g of (main_id, g, ts) \<Rightarrow>
      case check_finish hs db event main_id g of (verdict, g, ts') \<Rightarrow> (verdict, g, ts @ ts'))"

text \<open>
  \<open>_add_room_to_main_space\<close>: the state event is accepted or not (\<open>ok\<close>), and a refusal is logged.
\<close>

definition add_room_to_main_space :: "(string \<Rightarrow> bool) \<Rightarrow> string \<Rightarrow> string \<Rightarrow> space_db \<Rightarrow> space_db" where
  "add_room_to_main_space ok room_id main_id db =
     (if ok room_id then db\<lparr>sp_children := List.insert (main_id, room_id) (sp_children db)\<rparr> else db)"

text \<open>\<open>backfill_start\<close> says whether the process goes on to the search.\<close>

definition backfill_start :: "space_guard \<Rightarrow> bool \<times> space_guard" where
  "backfill_start g =
     (if \<not> sg_backfill_existing g then (False, g)
      else if sg_backfill_started g then (False, g)
      else (True, g\<lparr>sg_backfill_started := True\<rparr>))"

definition backfill_finish ::
  "homeserver \<Rightarrow> (string \<Rightarrow> bool) \<Rightarrow> string option \<Rightarrow> space_db \<Rightarrow> space_guard \<Rightarrow> unit res \<times> space_db \<times> space_guard" where
  "backfill_finish hs ok main db g = (case main of
       None \<Rightarrow> (Inr (), db, g\<lparr>sg_backfill_started := False\<rparr>)
     | Some main_id \<Rightarrow>
         if get_meta db ''backfill_done'' = Some ''1'' then (Inr (), db, g)
         else (case space_room_creator db main_id of
             None \<Rightarrow> (Inr (), db, g)
           | Some creator \<Rightarrow> (case orphan_rooms db main_id (hs_hostname hs) of
                 Inl e \<Rightarrow> (Inl e, db, g)
               | Inr room_ids \<Rightarrow> (Inr (), set_meta ''backfill_done'' ''1''
                     (fold (\<lambda>r. add_room_to_main_space ok r main_id) room_ids db), g))))"

text \<open>The background processes that \<open>get_main_root_space_id\<close> starts are the last component.\<close>

definition maybe_backfill ::
  "homeserver \<Rightarrow> (string \<Rightarrow> bool) \<Rightarrow> space_db \<Rightarrow> space_guard \<Rightarrow> unit res \<times> space_db \<times> space_guard \<times> space_task list" where
  "maybe_backfill hs ok db g = (case backfill_start g of
     (False, g) \<Rightarrow> (Inr (), db, g, [])
   | (True, g) \<Rightarrow> (case get_main_root_space_id db g of (main, g, ts) \<Rightarrow>
       case backfill_finish hs ok main db g of (res, db, g) \<Rightarrow> (res, db, g, ts)))"

end
