(* ===== verification/Single_Space_Props.thy ===== *)
theory Single_Space_Props
  imports Single_Space
begin

text \<open>
  What \<open>single_space_guard\<close> guarantees: which space it takes for the main one, when it refuses the
  creation of a space, and, once no search for the main space is under way any more, that over all
  interleavings of requests, events, background processes and changes of the tables the main space
  stays the main space, gets no rival that the module is asked about, and is not left. A search that
  was under way when another one ended overwrites the main space, and two requests that are checked
  before either space is in the tables both pass.
\<close>

section \<open>The main space\<close>

text \<open>A root space: a space with a creation event that is no child of another room.\<close>

definition root_space :: "space_db \<Rightarrow> string \<Rightarrow> int \<Rightarrow> bool" where
  "root_space db room ts \<longleftrightarrow> (room, Some ''m.space'') \<in> set (sp_stats db) \<and> (\<exists>s. (room, ts, s) \<in> set (sp_creates db))
     \<and> (\<forall>p. (p, room) \<notin> set (sp_children db))"

lemma root_spaces_iff: "(ts, room) \<in> set (root_spaces db) \<longleftrightarrow> root_space db room ts"
  by (force simp: root_spaces_def root_space_def SPACE_TYPE_def is_child_def)

lemma find_main_Some:
  assumes "find_main_root_space db = Some m"
  shows "\<exists>ts. root_space db m ts \<and> (\<forall>r ts'. root_space db r ts' \<longrightarrow> ts \<le> ts')"
proof -
  from assms obtain ts rest where s: "sort_key fst (root_spaces db) = (ts, m) # rest"
    by (auto simp: find_main_root_space_def split: list.splits)
  have "set (sort_key fst (root_spaces db)) = set (root_spaces db)" by simp
  with s have in_db: "(ts, m) \<in> set (root_spaces db)" and all: "set (root_spaces db) = insert (ts, m) (set rest)" by auto
  have "sorted (map fst (sort_key fst (root_spaces db)))" by simp
  with s have "\<forall>x \<in> set rest. ts \<le> fst x" by simp
  with all have "\<forall>x \<in> set (root_spaces db). ts \<le> fst x" by auto
  then show ?thesis using in_db by (metis fst_conv root_spaces_iff)
qed

lemma find_main_None: "find_main_root_space db = None \<longleftrightarrow> (\<forall>r ts. \<not> root_space db r ts)"
proof -
  have "find_main_root_space db = None \<longleftrightarrow> sort_key fst (root_spaces db) = []"
    by (auto simp: find_main_root_space_def split: list.splits)
  also have "\<dots> \<longleftrightarrow> root_spaces db = []" by (metis length_0_conv length_sort)
  also have "\<dots> \<longleftrightarrow> (\<forall>r ts. \<not> root_space db r ts)"
    by (metis root_spaces_iff length_pos_if_in_set list.size(3) less_numeral_extra(3) list.set_intros(1) neq_Nil_conv surj_pair)
  finally show ?thesis .
qed

lemma any_space_parent_error: "any_space_parent evs = Inl e \<Longrightarrow> e = PyAttributeError"
  by (induction evs rule: any_space_parent.induct) (auto split: if_splits)

text \<open>
  When the creation of a room is refused. The module refuses it exactly when the request
  describes a space without a parent and a main space is known or in the tables; then it remembers
  as the main space the one it knew or an earliest root space.
\<close>

theorem second_root_space_refused_iff:
  "(fst (ssg_on_create_room db u config g) = Inl (SynapseError 403 FORBIDDEN) \<longleftrightarrow>
      is_root_space_creation config = Inr True \<and> (sg_main g \<noteq> None \<or> (\<exists>r ts. root_space db r ts)))
   \<and> (\<forall>m. sg_main (fst (snd (ssg_on_create_room db u config g))) = Some m \<longrightarrow> sg_main g = Some m
        \<or> sg_main g = None \<and> (\<exists>ts. root_space db m ts \<and> (\<forall>r ts'. root_space db r ts' \<longrightarrow> ts \<le> ts')))"
proof -
  have err: "is_root_space_creation config \<noteq> Inl (SynapseError 403 FORBIDDEN)"
    by (auto simp: is_root_space_creation_def or_obj_def iter_or_empty_def rbind_def
        split: sum.splits json.splits if_splits dest: any_space_parent_error)
  show ?thesis
    using err find_main_None [of db] find_main_Some [of db]
    by (auto simp: ssg_on_create_room_def create_start_def create_finish_def get_main_root_space_id_def lookup_done_def Let_def
        split: sum.splits bool.splits option.splits)
qed

section \<open>Interleavings\<close>

text \<open>
  Who waits for the main space, and how far his search is: the tables are still to be read, or they
  were read with an answer that is not yet assigned.
\<close>

datatype caller =
    ByRequest string jdict
  | ByEvent event
  | ByBackfill
  | ByEndpoint

datatype space_lookup =
    Asked caller
  | Answered caller "string option"

record space_world =
  w_db :: space_db
  w_guard :: space_guard
  w_tasks :: "space_task list"
  w_lookups :: "space_lookup list"

text \<open>What can be seen of a step: a request with its answer, an event with the verdict, or neither.\<close>

datatype space_label =
    Request string jdict "unit res"
  | Verdict event "bool \<times> jdict option"
  | Silent

text \<open>A caller runs up to the search for the main space.\<close>

inductive enters :: "space_world \<Rightarrow> caller \<Rightarrow> space_world \<Rightarrow> bool" where
  by_request: "create_start u config (w_guard w) = (None, g) \<Longrightarrow> enters w (ByRequest u config) (w\<lparr>w_guard := g\<rparr>)"
| by_event: "enters w (ByEvent e) w"
| by_backfill: "Backfill \<in> set (w_tasks w) \<Longrightarrow> backfill_start (w_guard w) = (True, g)
    \<Longrightarrow> enters w ByBackfill (w\<lparr>w_guard := g, w_tasks := remove1 Backfill (w_tasks w)\<rparr>)"
| by_endpoint: "enters w ByEndpoint w"

text \<open>The caller goes on with the answer of the search.\<close>

fun go_on :: "homeserver \<Rightarrow> (string \<Rightarrow> bool) \<Rightarrow> caller \<Rightarrow> string option \<Rightarrow> space_world \<Rightarrow> space_label \<times> space_world" where
  "go_on hs ok (ByRequest u config) main w = (Request u config (create_finish main), w)"
| "go_on hs ok (ByEvent e) main w = (case check_finish hs (w_db w) e main (w_guard w) of
     (v, g, ts) \<Rightarrow> (Verdict e v, w\<lparr>w_guard := g, w_tasks := w_tasks w @ ts\<rparr>))"
| "go_on hs ok ByBackfill main w = (case backfill_finish hs ok main (w_db w) (w_guard w) of
     (_, db, g) \<Rightarrow> (Silent, w\<lparr>w_db := db, w_guard := g\<rparr>))"
| "go_on hs ok ByEndpoint main w = (Silent, w)"

text \<open>
  A step of the server. A caller that finds the main space known goes on at once; another one waits,
  the tables are read for him at some later time, and he assigns the answer and goes on at some time
  after that. Between these steps every other step may come: other callers, background processes,
  and changes of the tables by the rest of the server in any way.
\<close>

inductive space_step :: "homeserver \<Rightarrow> space_world \<Rightarrow> space_label \<Rightarrow> space_world \<Rightarrow> bool" for hs where
  unasked: "create_start u config (w_guard w) = (Some res, g)
    \<Longrightarrow> space_step hs w (Request u config res) (w\<lparr>w_guard := g\<rparr>)"
| known: "enters w k w1 \<Longrightarrow> sg_main (w_guard w1) = Some m \<Longrightarrow> go_on hs ok k (Some m) w1 = (l, w')
    \<Longrightarrow> space_step hs w l w'"
| asks: "enters w k w1 \<Longrightarrow> sg_main (w_guard w1) = None
    \<Longrightarrow> space_step hs w Silent (w1\<lparr>w_lookups := Asked k # w_lookups w1\<rparr>)"
| reads: "Asked k \<in> set (w_lookups w)
    \<Longrightarrow> space_step hs w Silent (w\<lparr>w_lookups := Answered k (find_main_root_space (w_db w)) # remove1 (Asked k) (w_lookups w)\<rparr>)"
| assigns: "Answered k r \<in> set (w_lookups w) \<Longrightarrow> lookup_done r (w_guard w) = (g, ts)
    \<Longrightarrow> go_on hs ok k r (w\<lparr>w_guard := g, w_tasks := w_tasks w @ ts, w_lookups := remove1 (Answered k r) (w_lookups w)\<rparr>) = (l, w')
    \<Longrightarrow> space_step hs w l w'"
| add_room: "AddRoom r m c \<in> set (w_tasks w)
    \<Longrightarrow> space_step hs w Silent (w\<lparr>w_db := add_room_to_main_space ok r m (w_db w), w_tasks := remove1 (AddRoom r m c) (w_tasks w)\<rparr>)"
| no_backfill: "Backfill \<in> set (w_tasks w) \<Longrightarrow> backfill_start (w_guard w) = (False, g)
    \<Longrightarrow> space_step hs w Silent (w\<lparr>w_guard := g, w_tasks := remove1 Backfill (w_tasks w)\<rparr>)"
| publish: "EnsurePublic m \<in> set (w_tasks w)
    \<Longrightarrow> space_step hs w Silent (w\<lparr>w_tasks := remove1 (EnsurePublic m) (w_tasks w)\<rparr>)"
| tables: "space_step hs w Silent (w\<lparr>w_db := db\<rparr>)"

inductive space_run :: "homeserver \<Rightarrow> space_world \<Rightarrow> space_label list \<Rightarrow> space_world \<Rightarrow> bool" for hs where
  stop: "space_run hs w [] w"
| step: "space_step hs w l w' \<Longrightarrow> space_run hs w' ls w'' \<Longrightarrow> space_run hs w (l # ls) w''"

lemma run_tables: "space_run hs w [Silent] (w\<lparr>w_db := db\<rparr>)"
  by (rule space_run.step [OF space_step.tables space_run.stop])

lemma space_run_append: "space_run hs w ls w' \<Longrightarrow> space_run hs w' ls' w'' \<Longrightarrow> space_run hs w (ls @ ls') w''"
  by (induction rule: space_run.induct) (auto intro: space_run.step)

text \<open>
  A search that nothing interrupts: the three steps together do what \<open>get_main_root_space_id\<close> does.
\<close>

lemma uninterrupted_search:
  assumes "enters w k w1" and "sg_main (w_guard w1) = None"
    and "get_main_root_space_id (w_db w1) (w_guard w1) = (r, g, ts)"
    and "go_on hs ok k r (w1\<lparr>w_guard := g, w_tasks := w_tasks w1 @ ts\<rparr>) = (l, w')"
  shows "space_run hs w [Silent, Silent, l] w'"
proof -
  let ?asked = "w1\<lparr>w_lookups := Asked k # w_lookups w1\<rparr>"
  let ?read = "w1\<lparr>w_lookups := Answered k r # w_lookups w1\<rparr>"
  have r: "r = find_main_root_space (w_db w1)" "lookup_done r (w_guard w1) = (g, ts)"
    using assms(2, 3) by (auto simp: get_main_root_space_id_def Let_def)
  have "space_step hs ?asked Silent ?read" using space_step.reads [of k ?asked] by (simp add: r)
  moreover have "space_step hs ?read l w'"
    by (rule space_step.assigns [of k r _ g ts]) (use r(2) assms(4) in simp_all)
  ultimately show ?thesis using space_step.asks [OF assms(1, 2)] by (meson space_run.intros)
qed

text \<open>What a step may show when the main space is \<open>m\<close>.\<close>

fun respects_main :: "string \<Rightarrow> space_label \<Rightarrow> bool" where
  "respects_main m (Request u config res) =
     (is_root_space_creation config = Inr True \<longrightarrow> res = Inl (SynapseError 403 FORBIDDEN))"
| "respects_main m (Verdict e v) =
     (ev_type e = ''m.room.member'' \<and> ev_room_id e = m \<and> dget_none (ev_content e) ''membership'' \<in> {JStr ''leave'', JStr ''ban''}
        \<longrightarrow> v = (False, None))"
| "respects_main m Silent = True"

text \<open>
  The main space is \<open>m\<close> and every search under way has already read \<open>m\<close>; in particular when no search
  is under way.
\<close>

definition main_settled :: "string \<Rightarrow> space_world \<Rightarrow> bool" where
  "main_settled m w \<longleftrightarrow> sg_main (w_guard w) = Some m \<and> (\<forall>x \<in> set (w_lookups w). \<exists>k. x = Answered k (Some m))"

lemma enters_keeps: "enters w k w1 \<Longrightarrow> sg_main (w_guard w1) = sg_main (w_guard w) \<and> w_lookups w1 = w_lookups w"
  by (induction rule: enters.induct)
    (auto simp: create_start_def backfill_start_def Let_def split: sum.splits bool.splits if_splits)

lemma check_finish_keeps_main: "check_finish hs db e main g = (v, g', ts) \<Longrightarrow> sg_main g' = sg_main g"
  by (auto simp: check_finish_def Let_def split: if_splits)

lemma backfill_finish_keeps_main: "backfill_finish hs ok main db g = (res, db', g') \<Longrightarrow> sg_main g' = sg_main g"
  by (auto simp: backfill_finish_def split: option.splits if_splits sum.splits)

lemma go_on_keeps:
  "go_on hs ok k main w = (l, w') \<Longrightarrow> sg_main (w_guard w') = sg_main (w_guard w) \<and> w_lookups w' = w_lookups w"
  by (cases k) (auto split: prod.splits dest: check_finish_keeps_main backfill_finish_keeps_main)

lemma go_on_respects: "go_on hs ok k (Some m) w = (l, w') \<Longrightarrow> respects_main m l"
  by (cases k) (auto simp: create_finish_def check_finish_def is_protected_membership_change_def MEMBER_EVENT_def Let_def
      split: prod.splits if_splits)

lemma space_step_main:
  assumes "space_step hs w l w'" and "main_settled m w"
  shows "main_settled m w' \<and> respects_main m l"
  using assms
proof (induction rule: space_step.induct)
  case (unasked u config w res g)
  then show ?case
    by (auto simp: main_settled_def create_start_def Let_def split: sum.splits bool.splits if_splits)
next
  case (known w k w1 m' ok l w')
  then show ?case
    using enters_keeps [OF known(1)] go_on_keeps [OF known(3)] go_on_respects by (auto simp: main_settled_def)
next
  case (asks w k w1)
  then show ?case using enters_keeps [OF asks(1)] by (simp add: main_settled_def)
next
  case (reads k w)
  then show ?case by (auto simp: main_settled_def)
next
  case (assigns k r w g ts ok l w')
  then have "r = Some m" by (auto simp: main_settled_def)
  with assigns show ?case
    using go_on_keeps [OF assigns(3)] go_on_respects
    by (auto simp: main_settled_def lookup_done_def dest!: in_set_remove1 [THEN iffD1, rotated] notin_set_remove1)
next
  case (no_backfill w g)
  then show ?case by (auto simp: main_settled_def backfill_start_def split: if_splits)
qed (simp_all add: main_settled_def)

text \<open>
  C20: the main space is protected. Once the module knows its main space and every search for it
  that is still under way has read the same one, it stays the main space through all interleavings
  of requests, events, background processes and changes of the tables; every request to create
  another root space is refused, and so is every leave and every ban in the main space.
\<close>

theorem main_space_protected:
  assumes "space_run hs w ls w'" and "main_settled m w"
  shows "sg_main (w_guard w') = Some m \<and> list_all (respects_main m) ls"
proof -
  have "main_settled m w' \<and> list_all (respects_main m) ls"
    using assms by (induction rule: space_run.induct) (auto dest: space_step_main)
  then show ?thesis by (simp add: main_settled_def)
qed

section \<open>Backfill\<close>

lemma children_after_adds:
  "set (sp_children (fold (\<lambda>r. add_room_to_main_space ok r m) rs db)) = set (sp_children db) \<union> {(m, r) | r. r \<in> set rs \<and> ok r}"
  by (induction rs arbitrary: db) (auto simp: add_room_to_main_space_def)

lemma meta_after_adds: "sp_meta (fold (\<lambda>r. add_room_to_main_space ok r m) rs db) = sp_meta db"
  by (induction rs arbitrary: db) (auto simp: add_room_to_main_space_def)

text \<open>
  A backfill adds the orphan rooms whose child event is accepted, and is done: neither a second run
  nor a run after a restart changes the tables.
\<close>

lemma backfill_once:
  assumes "sg_backfill_existing g" and "\<not> sg_backfill_started g" and "sg_main g = Some m"
    and "get_meta db ''backfill_done'' = None" and "space_room_creator db m = Some c"
    and "orphan_rooms db m (hs_hostname hs) = Inr rs"
    and run: "maybe_backfill hs ok db g = (res, db', g', ts)"
  shows "set (sp_children db') = set (sp_children db) \<union> {(m, r) | r. r \<in> set rs \<and> ok r}"
    and "fst (snd (maybe_backfill hs ok' db' (g'\<lparr>sg_backfill_started := b\<rparr>))) = db'"
proof -
  have db': "db' = set_meta ''backfill_done'' ''1'' (fold (\<lambda>r. add_room_to_main_space ok r m) rs db)"
    and g': "g' = g\<lparr>sg_backfill_started := True\<rparr>"
    using assms by (auto simp: maybe_backfill_def backfill_start_def backfill_finish_def get_main_root_space_id_def)
  show "set (sp_children db') = set (sp_children db) \<union> {(m, r) | r. r \<in> set rs \<and> ok r}"
    by (simp add: db' set_meta_def children_after_adds)
  have "get_meta db' ''backfill_done'' = Some ''1''"
    by (simp add: db' get_meta_def set_meta_def dget_def dset_def update_conv')
  then show "fst (snd (maybe_backfill hs ok' db' (g'\<lparr>sg_backfill_started := b\<rparr>))) = db'"
    using assms(3) by (simp add: maybe_backfill_def backfill_start_def backfill_finish_def get_main_root_space_id_def g')
qed

section \<open>Examples\<close>

definition empty_db :: space_db where
  "empty_db = \<lparr>sp_stats = [], sp_local_users = [], sp_creates = [], sp_children = [], sp_direct = [], sp_meta = []\<rparr>"

definition fresh_guard :: space_guard where
  "fresh_guard = \<lparr>sg_backfill_existing = False, sg_auto_add_new = True, sg_main = None, sg_backfill_started = False,
     sg_pending_dm = []\<rparr>"

definition space_request :: jdict where
  "space_request = [(''creation_content'', JObj [(''type'', JStr ''m.space'')])]"

definition one_space :: space_db where
  "one_space = empty_db\<lparr>sp_stats := [(''!m:s'', Some ''m.space'')], sp_creates := [(''!m:s'', 1, ''@a:s'')]\<rparr>"

definition two_spaces :: space_db where
  "two_spaces = one_space\<lparr>sp_stats := (''!n:s'', Some ''m.space'') # sp_stats one_space,
     sp_creates := (''!n:s'', 2, ''@b:s'') # sp_creates one_space\<rparr>"

theorem second_root_space_refused_iff_witness:
  "fst (ssg_on_create_room two_spaces ''@c:s'' space_request fresh_guard) = Inl (SynapseError 403 FORBIDDEN)
   \<and> (\<exists>ts. root_space two_spaces ''!m:s'' ts)"
proof -
  have "is_root_space_creation space_request = Inr True" by code_simp
  moreover have "root_space two_spaces ''!n:s'' 2"
    by (simp add: root_space_def two_spaces_def one_space_def empty_db_def)
  ultimately have "fst (ssg_on_create_room two_spaces ''@c:s'' space_request fresh_guard) = Inl (SynapseError 403 FORBIDDEN)"
    using second_root_space_refused_iff [of two_spaces "''@c:s''" space_request fresh_guard] by blast
  moreover have "sg_main (fst (snd (ssg_on_create_room two_spaces ''@c:s'' space_request fresh_guard))) = Some ''!m:s''"
    and "sg_main fresh_guard = None" by code_simp+
  ultimately show ?thesis
    using second_root_space_refused_iff [of two_spaces "''@c:s''" space_request fresh_guard] by auto
qed

definition demo_space :: space_world where
  "demo_space = \<lparr>w_db = one_space, w_guard = fresh_guard\<lparr>sg_main := Some ''!m:s''\<rparr>, w_tasks = [],
     w_lookups = [Answered ByEndpoint (Some ''!m:s'')]\<rparr>"

theorem main_space_protected_witness:
  "sg_main (w_guard (demo_space\<lparr>w_db := two_spaces\<rparr>)) = Some ''!m:s''
   \<and> list_all (respects_main ''!m:s'') [Request ''@c:s'' space_request (Inl (SynapseError 403 FORBIDDEN)), Silent]"
proof (rule main_space_protected)
  let ?hs = "\<lparr>hs_hostname = ''s'', hs_account_data = \<lambda>_ _. Inr None\<rparr>"
  have "create_start ''@c:s'' space_request (fresh_guard\<lparr>sg_main := Some ''!m:s''\<rparr>)
      = (None, fresh_guard\<lparr>sg_main := Some ''!m:s''\<rparr>)" by code_simp
  then have "enters demo_space (ByRequest ''@c:s'' space_request) demo_space"
    using enters.by_request [of "''@c:s''" space_request demo_space] by (simp add: demo_space_def)
  then have "space_step ?hs demo_space (Request ''@c:s'' space_request (Inl (SynapseError 403 FORBIDDEN))) demo_space"
    by (rule space_step.known [where m = "''!m:s''"]) (simp_all add: demo_space_def create_finish_def)
  then show "space_run ?hs demo_space [Request ''@c:s'' space_request (Inl (SynapseError 403 FORBIDDEN)), Silent]
      (demo_space\<lparr>w_db := two_spaces\<rparr>)"
    by (rule space_run.step) (rule run_tables)
  show "main_settled ''!m:s'' demo_space" by (simp add: main_settled_def demo_space_def)
qed

definition start_space :: "space_db \<Rightarrow> space_world" where
  "start_space db = \<lparr>w_db = db, w_guard = fresh_guard, w_tasks = [], w_lookups = []\<rparr>"

text \<open>
  Two requests for a root space that are answered before the first space is in the tables both pass,
  and the server ends with two root spaces.
\<close>

lemma two_root_spaces_created:
  "\<exists>ls w'. space_run hs (start_space empty_db) ls w'
    \<and> filter (\<lambda>l. l \<noteq> Silent) ls = [Request ''@a:s'' space_request (Inr ()), Request ''@b:s'' space_request (Inr ())]
    \<and> root_space (w_db w') ''!m:s'' 1 \<and> root_space (w_db w') ''!n:s'' 2"
proof -
  let ?w = "start_space empty_db"
  have "create_start u space_request fresh_guard = (None, fresh_guard)" for u
    by (simp add: create_start_def is_dm_creation_def is_root_space_creation_def space_request_def or_obj_def
        iter_or_empty_def dget_none_def SPACE_TYPE_def)
  then have ask: "enters ?w (ByRequest u space_request) ?w" for u
    using enters.by_request [of u space_request ?w] by (simp add: start_space_def)
  have "get_main_root_space_id empty_db fresh_guard = (None, fresh_guard, [])" by code_simp
  then have one: "space_run hs ?w [Silent, Silent, Request u space_request (Inr ())] ?w" for u
    by (intro uninterrupted_search [OF ask, where ok = "\<lambda>_. True" and r = None and g = fresh_guard and ts = "[]"])
      (simp_all add: start_space_def fresh_guard_def create_finish_def)
  have "space_run hs ?w ([Silent, Silent, Request ''@a:s'' space_request (Inr ())]
      @ [Silent, Silent, Request ''@b:s'' space_request (Inr ())] @ [Silent]) (?w\<lparr>w_db := two_spaces\<rparr>)"
    by (intro space_run_append [OF one] space_run_append [OF one] run_tables)
  moreover have "root_space two_spaces ''!m:s'' 1" "root_space two_spaces ''!n:s'' 2"
    by (simp_all add: root_space_def two_spaces_def one_space_def empty_db_def)
  ultimately show ?thesis by (intro exI conjI) (assumption, simp_all)
qed

text \<open>
  A search overwrites a known main space: two callers start to search before either has an answer;
  the first reads and assigns the one root space there is; then that space becomes a child of
  another, the second reads this other one and assigns it.
\<close>

definition nested_space :: space_db where
  "nested_space = two_spaces\<lparr>sp_children := [(''!n:s'', ''!m:s'')]\<rparr>"

lemma known_main_space_overwritten:
  "\<exists>ls1 w1 ls2 w2. space_run hs (start_space one_space) ls1 w1 \<and> sg_main (w_guard w1) = Some ''!m:s''
    \<and> space_run hs w1 ls2 w2 \<and> sg_main (w_guard w2) = Some ''!n:s''"
proof -
  let ?w0 = "start_space one_space"
  let ?w2 = "?w0\<lparr>w_lookups := [Asked ByEndpoint, Asked ByEndpoint]\<rparr>"
  let ?w3 = "?w0\<lparr>w_lookups := [Answered ByEndpoint (Some ''!m:s''), Asked ByEndpoint]\<rparr>"
  let ?w4 = "?w0\<lparr>w_guard := fresh_guard\<lparr>sg_main := Some ''!m:s''\<rparr>, w_tasks := [EnsurePublic ''!m:s'', Backfill],
     w_lookups := [Asked ByEndpoint]\<rparr>"
  let ?w5 = "?w4\<lparr>w_db := nested_space\<rparr>"
  let ?w6 = "?w5\<lparr>w_lookups := [Answered ByEndpoint (Some ''!n:s'')]\<rparr>"
  let ?w7 = "?w5\<lparr>w_guard := fresh_guard\<lparr>sg_main := Some ''!n:s''\<rparr>,
     w_tasks := [EnsurePublic ''!m:s'', Backfill, EnsurePublic ''!n:s'', Backfill], w_lookups := []\<rparr>"
  have found: "find_main_root_space one_space = Some ''!m:s''" "find_main_root_space nested_space = Some ''!n:s''"
    by code_simp+
  have "space_step hs ?w0 Silent (?w0\<lparr>w_lookups := [Asked ByEndpoint]\<rparr>)"
    using space_step.asks [OF enters.by_endpoint, of ?w0] by (simp add: start_space_def fresh_guard_def)
  moreover have "space_step hs (?w0\<lparr>w_lookups := [Asked ByEndpoint]\<rparr>) Silent ?w2"
    using space_step.asks [OF enters.by_endpoint, of "?w0\<lparr>w_lookups := [Asked ByEndpoint]\<rparr>"]
    by (simp add: start_space_def fresh_guard_def)
  moreover have "space_step hs ?w2 Silent ?w3"
    using space_step.reads [of ByEndpoint ?w2] by (simp add: start_space_def found)
  moreover have "space_step hs ?w3 Silent ?w4"
    by (rule space_step.assigns [of ByEndpoint "Some ''!m:s''"]) (simp_all add: start_space_def lookup_done_def)
  ultimately have "space_run hs ?w0 [Silent, Silent, Silent, Silent] ?w4" by (meson space_run.intros)
  moreover have "space_run hs ?w4 [Silent, Silent, Silent] ?w7"
  proof -
    have "space_step hs ?w5 Silent ?w6"
      using space_step.reads [of ByEndpoint ?w5] by (simp add: start_space_def found)
    moreover have "space_step hs ?w6 Silent ?w7"
      by (rule space_step.assigns [of ByEndpoint "Some ''!n:s''"]) (simp_all add: start_space_def lookup_done_def)
    ultimately show ?thesis using space_step.tables [of hs ?w4] by (meson space_run.intros)
  qed
  ultimately show ?thesis by (intro exI conjI) (assumption, simp, assumption, simp)
qed

end
