(* ===== verification/Wheel_Timer.thy ===== *)
theory Wheel_Timer
  imports Py_Base
begin

text \<open>
  The timer wheel of \<open>synapse/util/wheel_timer.py\<close>: objects are put into buckets of a fixed
  width and returned once the end of their bucket has passed. A bucket holds a Python set; it is
  a list without repetitions here, and nothing is stated about the order of its elements. The
  warning that \<open>insert\<close> logs when nobody has fetched for long is left out.

  The contract a client relies on is the locale \<open>deadline_timer\<close>: an inserted object gets a
  deadline strictly after the requested time and at most one bucket late, and a fetch returns
  exactly the objects whose deadline has come. The wheel is an interpretation of it.
\<close>

section \<open>The wheel\<close>

record 'a wentry =
  end_key :: int
  elements :: "'a list"

record 'a wheel =
  bucket_size :: int
  entries :: "'a wentry list"

text \<open>\<open>WheelTimer(bucket_size)\<close>; the width is in milliseconds.\<close>

definition new_wheel :: "int \<Rightarrow> 'a wheel" where
  "new_wheel b = \<lparr>bucket_size = b, entries = []\<rparr>"

text \<open>\<open>elements.add(obj)\<close>.\<close>

definition set_add :: "'a \<Rightarrow> 'a list \<Rightarrow> 'a list" where
  "set_add x xs = (if x \<in> set xs then xs else xs @ [x])"

definition add_element :: "'a \<Rightarrow> 'a wentry \<Rightarrow> 'a wentry" where
  "add_element x e = e\<lparr>elements := set_add x (elements e)\<rparr>"

text \<open>\<open>int(t / self.bucket_size.as_millis())\<close>: a true division, truncated towards zero.\<close>

definition bucket_key :: "int \<Rightarrow> int \<Rightarrow> int" where
  "bucket_key b t = trunc_rat (of_int t / of_int b)"

definition wheel_insert :: "'a wheel \<Rightarrow> int \<Rightarrow> 'a \<Rightarrow> int \<Rightarrow> 'a wheel res" where
  "wheel_insert w now obj then_ms =
     rbind (raise_if (bucket_size w = 0) PyZeroDivisionError) (\<lambda>_.
     let then_key = bucket_key (bucket_size w) then_ms + 1;
         now_key = bucket_key (bucket_size w) now;
         es = entries w;
         min_key = end_key (hd es);
         max_key = end_key (last es)
     in if es \<noteq> [] \<and> then_key \<le> max_key
        then (let i = nat (max min_key then_key - min_key)
              in if i < length es then Inr (w\<lparr>entries := es[i := add_element obj (es ! i)]\<rparr>)
                 else Inl PyIndexError)
        else (let last_key = (if es \<noteq> [] then max_key + 1 else now_key + 1);
                  then_key' = max last_key then_key;
                  es' = es @ map (\<lambda>k. \<lparr>end_key = k, elements = []\<rparr>) [last_key..then_key']
              in Inr (w\<lparr>entries := butlast es' @ [add_element obj (last es')]\<rparr>)))"

text \<open>The loop of \<open>fetch\<close>: the objects popped and the entries left.\<close>

fun fetch_loop :: "int \<Rightarrow> 'a wentry list \<Rightarrow> 'a list \<times> 'a wentry list" where
  "fetch_loop now_key [] = ([], [])"
| "fetch_loop now_key (e # es) =
     (if end_key e \<le> now_key
      then (case fetch_loop now_key es of (ret, rest) \<Rightarrow> (elements e @ ret, rest))
      else ([], e # es))"

definition wheel_fetch :: "'a wheel \<Rightarrow> int \<Rightarrow> ('a list \<times> 'a wheel) res" where
  "wheel_fetch w now =
     rbind (raise_if (bucket_size w = 0) PyZeroDivisionError) (\<lambda>_.
     case fetch_loop (bucket_key (bucket_size w) now) (entries w) of
       (ret, rest) \<Rightarrow> Inr (ret, w\<lparr>entries := rest\<rparr>))"

definition wheel_len :: "'a wheel \<Rightarrow> nat" where
  "wheel_len w = sum_list (map (length \<circ> elements) (entries w))"

section \<open>Keys of buckets\<close>

lemma trunc_rat_nonneg: "0 \<le> r \<Longrightarrow> trunc_rat r = \<lfloor>r\<rfloor>"
  by (simp add: trunc_rat_def)

lemma trunc_rat_less: "r < of_int (trunc_rat r + 1)"
  by (simp add: trunc_rat_def) linarith

lemma trunc_rat_le: "0 \<le> r \<Longrightarrow> of_int (trunc_rat r) \<le> r"
  by (simp add: trunc_rat_nonneg)

lemma trunc_rat_mono:
  assumes "0 \<le> s" and "r \<le> s"
  shows "trunc_rat r \<le> trunc_rat s"
proof (cases "r < 0")
  case True
  then have "0 \<le> \<lfloor>- r\<rfloor>" by simp
  moreover have "0 \<le> \<lfloor>s\<rfloor>" using assms by simp
  ultimately have "- \<lfloor>- r\<rfloor> \<le> \<lfloor>s\<rfloor>" by linarith
  then show ?thesis using True assms by (simp add: trunc_rat_def)
qed (use assms in \<open>simp add: trunc_rat_def floor_mono\<close>)

lemma bucket_key_div: "0 < b \<Longrightarrow> 0 \<le> t \<Longrightarrow> bucket_key b t = t div b"
  by (simp add: bucket_key_def trunc_rat_nonneg floor_divide_of_int_eq)

lemma bucket_key_mono: "0 < b \<Longrightarrow> 0 \<le> t' \<Longrightarrow> t \<le> t' \<Longrightarrow> bucket_key b t \<le> bucket_key b t'"
  unfolding bucket_key_def by (rule trunc_rat_mono) (simp_all add: divide_right_mono)

text \<open>The end of the bucket of a time lies after it, by at most the width of a bucket.\<close>

lemma bucket_end_after:
  assumes "0 < b"
  shows "t < (bucket_key b t + 1) * b"
proof -
  have "(of_int t / of_int b :: rat) < of_int (bucket_key b t + 1)"
    unfolding bucket_key_def by (rule trunc_rat_less)
  then have "(of_int t :: rat) < of_int (bucket_key b t + 1) * of_int b"
    using assms by (simp only: pos_divide_less_eq of_int_0_less_iff)
  then show ?thesis by (metis of_int_less_iff of_int_mult)
qed

lemma bucket_key_le_iff:
  assumes "0 < b" and "0 \<le> t"
  shows "k \<le> bucket_key b t \<longleftrightarrow> k * b \<le> t"
proof -
  have "k \<le> bucket_key b t \<longleftrightarrow> of_int k \<le> (of_int t / of_int b :: rat)"
    using assms by (simp add: bucket_key_def trunc_rat_nonneg le_floor_iff)
  also have "\<dots> \<longleftrightarrow> of_int k * of_int b \<le> (of_int t :: rat)"
    using assms by (simp add: pos_le_divide_eq)
  also have "\<dots> \<longleftrightarrow> k * b \<le> t" by (metis of_int_le_iff of_int_mult)
  finally show ?thesis .
qed

lemma bucket_end_close: "0 < b \<Longrightarrow> 0 \<le> t \<Longrightarrow> (bucket_key b t + 1) * b \<le> t + b"
  using bucket_key_le_iff [of b t "bucket_key b t"] by (simp add: algebra_simps)

section \<open>Well-formed wheels\<close>

text \<open>The keys of the buckets are consecutive and no bucket holds an object twice.\<close>

definition keys_from :: "int \<Rightarrow> 'a wentry list \<Rightarrow> bool" where
  "keys_from m es \<longleftrightarrow> map end_key es = [m..m + int (length es) - 1]"

definition wheel_wf :: "'a wheel \<Rightarrow> bool" where
  "wheel_wf w \<longleftrightarrow> 0 < bucket_size w \<and> (entries w = [] \<or> keys_from (end_key (hd (entries w))) (entries w))
     \<and> list_all (distinct \<circ> elements) (entries w)"

text \<open>At a time \<open>now\<close> the first bucket is not further away than the next one.\<close>

definition wheel_at :: "int \<Rightarrow> 'a wheel \<Rightarrow> bool" where
  "wheel_at now w \<longleftrightarrow> wheel_wf w \<and> 0 \<le> now
     \<and> (entries w = [] \<or> end_key (hd (entries w)) \<le> bucket_key (bucket_size w) now + 1)"

text \<open>The objects in the wheel with the end of their bucket, in milliseconds.\<close>

definition wheel_pending :: "'a wheel \<Rightarrow> ('a \<times> int) set" where
  "wheel_pending w = (\<Union>e \<in> set (entries w). (\<lambda>x. (x, end_key e * bucket_size w)) ` set (elements e))"

lemma set_add_simps [simp]:
  "set (set_add x xs) = insert x (set xs)"
  "distinct (set_add x xs) = distinct xs"
  by (auto simp: set_add_def)

lemma add_element_simps [simp]:
  "end_key (add_element x e) = end_key e"
  "elements (add_element x e) = set_add x (elements e)"
  by (simp_all add: add_element_def)

lemma keys_from_Nil [simp]: "keys_from m []"
  by (simp add: keys_from_def)

lemma keys_from_Cons [simp]:
  "keys_from m (e # es) \<longleftrightarrow> end_key e = m \<and> keys_from (m + 1) es"
proof -
  have "[m..m + int (length es)] = m # [m + 1..m + int (length es)]"
    by (simp add: upto_rec1)
  then show ?thesis by (auto simp: keys_from_def add.commute add.left_commute)
qed

lemma keys_from_append [simp]:
  "keys_from m (es @ fs) \<longleftrightarrow> keys_from m es \<and> keys_from (m + int (length es)) fs"
  by (induction es arbitrary: m) (auto simp: algebra_simps)

lemma keys_from_upto [simp]:
  "keys_from m (map (\<lambda>k. \<lparr>end_key = k, elements = []\<rparr>) [m..n])"
  by (simp add: keys_from_def comp_def)

lemma hd_upto: "i \<le> j \<Longrightarrow> hd [i..j] = i"
  by (simp add: upto_rec1)

lemma keys_from_nth: "keys_from m es \<Longrightarrow> i < length es \<Longrightarrow> end_key (es ! i) = m + int i"
  by (induction es arbitrary: m i) (auto simp: nth_Cons split: nat.splits)

lemma keys_from_last: "keys_from m es \<Longrightarrow> es \<noteq> [] \<Longrightarrow> end_key (last es) = m + int (length es) - 1"
  using keys_from_nth [of m es "length es - 1"] by (cases es rule: rev_cases) auto

lemma keys_from_cong: "map end_key es = map end_key fs \<Longrightarrow> keys_from m es = keys_from m fs"
  unfolding keys_from_def by (metis length_map)

lemma keys_from_bounds: "keys_from m es \<Longrightarrow> e \<in> set es \<Longrightarrow> m \<le> end_key e"
  by (induction es arbitrary: m) force+

section \<open>Operations on well-formed wheels\<close>

abbreviation empty_bucket :: "int \<Rightarrow> 'a wentry" where
  "empty_bucket k \<equiv> \<lparr>end_key = k, elements = []\<rparr>"

definition due :: "int \<Rightarrow> 'a wentry list \<Rightarrow> ('a \<times> int) set" where
  "due b es = (\<Union>e \<in> set es. (\<lambda>x. (x, end_key e * b)) ` set (elements e))"

lemma wheel_pending_due: "wheel_pending w = due (bucket_size w) (entries w)"
  by (simp add: wheel_pending_def due_def)

lemma due_simps [simp]:
  "due b [] = {}"
  "due b (e # es) = (\<lambda>x. (x, end_key e * b)) ` set (elements e) \<union> due b es"
  "due b (es @ fs) = due b es \<union> due b fs"
  "due b (map empty_bucket ks) = {}"
  by (auto simp: due_def)

text \<open>Every insertion puts the object into one bucket of the list, possibly after extending it.\<close>

lemma wheel_insert_shape:
  fixes then_ms :: int
  defines "tk w \<equiv> bucket_key (bucket_size w) then_ms + 1"
  assumes "wheel_at now w"
  obtains us e vs where
    "wheel_insert w now x then_ms = Inr (w\<lparr>entries := us @ add_element x e # vs\<rparr>)"
    "\<exists>ks. us @ e # vs = entries w @ map empty_bucket ks"
    "keys_from (end_key (hd (us @ e # vs))) (us @ e # vs)"
    "end_key (hd (us @ e # vs)) \<le> bucket_key (bucket_size w) now + 1"
    "tk w \<le> end_key e" "end_key e \<le> max (tk w) (bucket_key (bucket_size w) now + 1)"
proof -
  let ?b = "bucket_size w" and ?es = "entries w"
  let ?nk = "bucket_key ?b now"
  have b: "0 < ?b" and wf: "wheel_wf w" using assms(2) by (auto simp: wheel_at_def wheel_wf_def)
  show thesis
  proof (cases "?es \<noteq> [] \<and> tk w \<le> end_key (last ?es)")
    case True
    let ?m = "end_key (hd ?es)"
    let ?i = "nat (max ?m (tk w) - ?m)"
    have kf: "keys_from ?m ?es" using wf True by (simp add: wheel_wf_def)
    have i: "?i < length ?es"
      using True keys_from_last [OF kf] by (cases "tk w \<le> ?m") (simp_all add: nat_less_iff)
    let ?us = "take ?i ?es" and ?vs = "drop (Suc ?i) ?es"
    have split: "?es = ?us @ ?es ! ?i # ?vs" using i by (rule id_take_nth_drop)
    have e: "end_key (?es ! ?i) = max ?m (tk w)" using keys_from_nth [OF kf i] by simp
    show thesis
    proof (rule that)
      show "\<exists>ks. ?us @ ?es ! ?i # ?vs = ?es @ map empty_bucket ks"
        by (rule exI [of _ "[]"]) (simp add: split [symmetric])
      show "wheel_insert w now x then_ms = Inr (w\<lparr>entries := ?us @ add_element x (?es ! ?i) # ?vs\<rparr>)"
        using True b i upd_conv_take_nth_drop [OF i, of "add_element x (?es ! ?i)"]
        by (simp add: wheel_insert_def tk_def Let_def raise_if_def)
      show "keys_from (end_key (hd (?us @ ?es ! ?i # ?vs))) (?us @ ?es ! ?i # ?vs)"
        using kf unfolding split [symmetric] .
      show "end_key (hd (?us @ ?es ! ?i # ?vs)) \<le> ?nk + 1"
        using assms(2) True unfolding split [symmetric] by (simp add: wheel_at_def)
      show "end_key (?es ! ?i) \<le> max (tk w) (?nk + 1)"
        using assms(2) True e by (auto simp: wheel_at_def)
    qed (simp add: e)
  next
    case False
    let ?lk = "if ?es \<noteq> [] then end_key (last ?es) + 1 else ?nk + 1"
    let ?tk = "max ?lk (tk w)"
    let ?us = "?es @ map empty_bucket [?lk..?tk - 1]"
    have upto: "[?lk..?tk] = [?lk..?tk - 1] @ [?tk]" by (rule upto_rec2) simp
    have shape: "?es @ map empty_bucket [?lk..?tk] = ?us @ [empty_bucket ?tk]"
      unfolding upto by simp
    have kf: "keys_from (end_key (hd (?us @ [empty_bucket ?tk]))) (?us @ [empty_bucket ?tk])"
    proof (cases "?es = []")
      case True
      then show ?thesis unfolding shape [symmetric] by (simp add: hd_map hd_upto)
    next
      case es: False
      then have "keys_from (end_key (hd ?es)) ?es" using wf by (simp add: wheel_wf_def)
      with es keys_from_last [OF this] show ?thesis unfolding shape [symmetric] by simp
    qed
    show thesis
    proof (rule that)
      show "wheel_insert w now x then_ms = Inr (w\<lparr>entries := ?us @ add_element x (empty_bucket ?tk) # []\<rparr>)"
        using False b shape by (auto simp: wheel_insert_def tk_def Let_def raise_if_def butlast_append)
      show "\<exists>ks. ?us @ empty_bucket ?tk # [] = ?es @ map empty_bucket ks"
        by (rule exI [of _ "[?lk..?tk]"]) (rule shape [symmetric])
      show "keys_from (end_key (hd (?us @ empty_bucket ?tk # []))) (?us @ empty_bucket ?tk # [])"
        by (rule kf)
      show "end_key (hd (?us @ [empty_bucket ?tk])) \<le> ?nk + 1"
        using assms(2) unfolding shape [symmetric]
        by (cases "?es = []") (auto simp: wheel_at_def hd_map hd_upto)
      show "end_key (empty_bucket ?tk) \<le> max (tk w) (?nk + 1)"
        using False by auto
    qed simp
  qed
qed

lemma wheel_insert_law:
  assumes "wheel_at now w"
  shows "\<exists>w' d. wheel_insert w now x then_ms = Inr w' \<and> wheel_at now w'
     \<and> bucket_size w' = bucket_size w
     \<and> wheel_pending w' = insert (x, d) (wheel_pending w) \<and> then_ms < d
     \<and> d \<le> max then_ms now + bucket_size w"
proof -
  let ?b = "bucket_size w"
  obtain us e vs where shape:
      "wheel_insert w now x then_ms = Inr (w\<lparr>entries := us @ add_element x e # vs\<rparr>)" (is "_ = Inr ?w'")
      "\<exists>ks. us @ e # vs = entries w @ map empty_bucket ks"
      "keys_from (end_key (hd (us @ e # vs))) (us @ e # vs)"
      "end_key (hd (us @ e # vs)) \<le> bucket_key ?b now + 1"
      "bucket_key ?b then_ms + 1 \<le> end_key e"
      "end_key e \<le> max (bucket_key ?b then_ms + 1) (bucket_key ?b now + 1)"
    using wheel_insert_shape [OF assms, of x then_ms] by blast
  have b: "0 < ?b" and now: "0 \<le> now" and dist: "list_all (distinct \<circ> elements) (entries w)"
    using assms by (auto simp: wheel_at_def wheel_wf_def)
  obtain ks where ks: "us @ e # vs = entries w @ map empty_bucket ks" using shape(2) by blast
  have dist': "list_all (distinct \<circ> elements) (us @ e # vs)"
    unfolding ks using dist by (auto simp: list_all_iff)
  have hd': "end_key (hd (us @ add_element x e # vs)) = end_key (hd (us @ e # vs))"
    by (cases us) simp_all
  have "keys_from m (us @ add_element x e # vs) = keys_from m (us @ e # vs)" for m by simp
  then have wf': "wheel_at now ?w'"
    using shape(3,4) dist' b now hd' by (auto simp: wheel_at_def wheel_wf_def)
  have "due ?b (entries w) = due ?b (us @ e # vs)" unfolding ks by simp
  then have pend: "wheel_pending ?w' = insert (x, end_key e * ?b) (wheel_pending w)"
    by (auto simp: wheel_pending_due)
  have after: "then_ms < end_key e * ?b"
    using bucket_end_after [OF b, of then_ms] mult_right_mono [OF shape(5), of ?b] b by linarith
  have "(max (bucket_key ?b then_ms + 1) (bucket_key ?b now + 1)) * ?b \<le> max then_ms now + ?b"
  proof (cases "0 \<le> then_ms")
    case True
    then show ?thesis using bucket_end_close [OF b True] bucket_end_close [OF b now]
      by (auto simp: max_def)
  next
    case False
    then have "bucket_key ?b then_ms \<le> bucket_key ?b now" using b now by (intro bucket_key_mono) auto
    then show ?thesis using bucket_end_close [OF b now] False now by simp
  qed
  then have "end_key e * ?b \<le> max then_ms now + ?b"
    using mult_right_mono [OF shape(6), of ?b] b by linarith
  with shape(1) wf' pend after show ?thesis by fastforce
qed

lemma fetch_loop_sound:
  assumes "fetch_loop nk es = (ret, rest)" and "keys_from m es"
  shows "rest = filter (\<lambda>e. nk < end_key e) es
      \<and> set ret = (\<Union>e \<in> set (filter (\<lambda>e. end_key e \<le> nk) es). set (elements e))
      \<and> (rest = [] \<or> keys_from (end_key (hd rest)) rest \<and> end_key (hd rest) \<le> max m (nk + 1))"
  using assms
proof (induction es arbitrary: m ret rest)
  case (Cons e es)
  show ?case
  proof (cases "end_key e \<le> nk")
    case True
    obtain ret' rest' where "fetch_loop nk es = (ret', rest')" by fastforce
    with Cons.IH [of ret' rest' "m + 1"] Cons.prems True show ?thesis by auto
  next
    case False
    then have "nk < end_key f" if "f \<in> set es" for f
      using Cons.prems keys_from_bounds [OF _ that] by fastforce
    then have "filter (\<lambda>e. nk < end_key e) es = es" "filter (\<lambda>e. end_key e \<le> nk) es = []"
      by (force simp: filter_id_conv filter_empty_conv)+
    then show ?thesis using Cons.prems False by (auto simp: filter_empty_conv)
  qed
qed simp

lemma wheel_fetch_law:
  assumes "wheel_at now w"
  shows "\<exists>xs w'. wheel_fetch w now = Inr (xs, w') \<and> wheel_at now w' \<and> bucket_size w' = bucket_size w
     \<and> set xs = {x. \<exists>d \<le> now. (x, d) \<in> wheel_pending w}
     \<and> wheel_pending w' = {p \<in> wheel_pending w. now < snd p}"
proof -
  let ?b = "bucket_size w" and ?es = "entries w"
  have b: "0 < ?b" and now: "0 \<le> now" and wf: "wheel_wf w"
    using assms by (auto simp: wheel_at_def wheel_wf_def)
  obtain ret rest where loop: "fetch_loop (bucket_key ?b now) ?es = (ret, rest)" by fastforce
  have kf: "keys_from (end_key (hd ?es)) ?es" using wf by (auto simp: wheel_wf_def)
  note sound = fetch_loop_sound [OF loop kf]
  have rest: "rest = filter (\<lambda>e. bucket_key ?b now < end_key e) ?es"
    and ret: "set ret = (\<Union>e \<in> set (filter (\<lambda>e. end_key e \<le> bucket_key ?b now) ?es). set (elements e))"
    using sound by auto
  have es: "?es \<noteq> []" if "rest \<noteq> []" using that rest by auto
  note iff = bucket_key_le_iff [OF b now]
  have fetch: "wheel_fetch w now = Inr (ret, w\<lparr>entries := rest\<rparr>)"
    using b loop by (simp add: wheel_fetch_def raise_if_def)
  have "wheel_at now (w\<lparr>entries := rest\<rparr>)"
    using assms sound b now wf es by (auto simp: wheel_at_def wheel_wf_def list_all_iff)
  moreover have "set ret = {x. \<exists>d \<le> now. (x, d) \<in> wheel_pending w}"
    unfolding ret by (auto simp: wheel_pending_def iff)
  moreover have "wheel_pending (w\<lparr>entries := rest\<rparr>) = {p \<in> wheel_pending w. now < snd p}"
    unfolding rest by (auto simp: wheel_pending_def iff not_le [symmetric])
  ultimately show ?thesis using fetch by auto
qed

lemma wheel_at_later: "wheel_at now w \<Longrightarrow> now \<le> now' \<Longrightarrow> wheel_at now' w"
  using bucket_key_mono [of "bucket_size w" now' now]
  by (auto simp: wheel_at_def wheel_wf_def)

section \<open>The contract of a timer\<close>

text \<open>
  A client sees the pending objects with their deadlines. The width of the wheel enters as
  \<open>slack\<close>: how much later than asked for an object may become due.
\<close>

datatype 'o timer_op =
    Insert int 'o int
  | Fetch int

fun op_time :: "'o timer_op \<Rightarrow> int" where
  "op_time (Insert now _ _) = now"
| "op_time (Fetch now) = now"

text \<open>A sequence of calls, with what every fetch returned.\<close>

fun run_timer :: "('w \<Rightarrow> int \<Rightarrow> 'o \<Rightarrow> int \<Rightarrow> 'w res) \<Rightarrow> ('w \<Rightarrow> int \<Rightarrow> ('o list \<times> 'w) res)
    \<Rightarrow> 'o timer_op list \<Rightarrow> 'w \<Rightarrow> (int \<times> 'o list) list res" where
  "run_timer ins fet [] w = Inr []"
| "run_timer ins fet (Insert now x then_ms # ops) w =
     rbind (ins w now x then_ms) (\<lambda>w'. run_timer ins fet ops w')"
| "run_timer ins fet (Fetch now # ops) w =
     rbind (fet w now) (\<lambda>r. rbind (run_timer ins fet ops (snd r)) (\<lambda>rets. Inr ((now, fst r) # rets)))"

locale deadline_timer =
  fixes ins :: "'w \<Rightarrow> int \<Rightarrow> 'o \<Rightarrow> int \<Rightarrow> 'w res"
    and fet :: "'w \<Rightarrow> int \<Rightarrow> ('o list \<times> 'w) res"
    and pending :: "'w \<Rightarrow> ('o \<times> int) set"
    and ok_at :: "int \<Rightarrow> 'w \<Rightarrow> bool"
    and slack :: "int"
  assumes insert_law: "ok_at now w \<Longrightarrow> \<exists>w' d. ins w now x then_ms = Inr w' \<and> ok_at now w'
      \<and> pending w' = insert (x, d) (pending w) \<and> then_ms < d \<and> d \<le> max then_ms now + slack"
    and fetch_law: "ok_at now w \<Longrightarrow> \<exists>xs w'. fet w now = Inr (xs, w') \<and> ok_at now w'
      \<and> set xs = {x. \<exists>d \<le> now. (x, d) \<in> pending w}
      \<and> pending w' = {p \<in> pending w. now < snd p}"
    and ok_later: "ok_at now w \<Longrightarrow> now \<le> now' \<Longrightarrow> ok_at now' w"
begin

lemma insertE:
  assumes "ok_at now w" and "ins w now x then_ms = Inr w'"
  obtains d where "ok_at now w'" and "pending w' = insert (x, d) (pending w)"
    and "then_ms < d" and "d \<le> max then_ms now + slack"
  using insert_law [OF assms(1), of x then_ms] assms(2) by auto

lemma fetchE:
  assumes "ok_at now w" and "fet w now = Inr (xs, w')"
  shows "ok_at now w'" and "set xs = {x. \<exists>d \<le> now. (x, d) \<in> pending w}"
    and "pending w' = {p \<in> pending w. now < snd p}"
  using fetch_law [OF assms(1)] assms(2) by auto

text \<open>A run whose times do not go back raises nothing.\<close>

lemma run_total:
  assumes "ok_at t0 w" and "sorted (t0 # map op_time ops)"
  shows "\<exists>rets. run_timer ins fet ops w = Inr rets"
  using assms
proof (induction ops arbitrary: t0 w)
  case (Cons a ops)
  have sorted: "sorted (op_time a # map op_time ops)" and t0: "t0 \<le> op_time a"
    using Cons.prems(2) by auto
  have ok: "ok_at (op_time a) w" using Cons.prems(1) t0 by (rule ok_later)
  show ?case
  proof (cases a)
    case (Insert now x then_ms)
    then obtain w' where "ins w now x then_ms = Inr w'" "ok_at now w'"
      using insert_law ok by fastforce
    then show ?thesis using Cons.IH [of now w'] sorted Insert by auto
  next
    case (Fetch now)
    then obtain xs w' where "fet w now = Inr (xs, w')" "ok_at now w'"
      using fetch_law ok by fastforce
    then show ?thesis using Cons.IH [of now w'] sorted Fetch by auto
  qed
qed simp

text \<open>A pending object is returned by some fetch once its deadline has come, and not before.\<close>

lemma pending_delivered:
  assumes "run_timer ins fet ops w = Inr rets" and "ok_at t0 w" and "sorted (t0 # map op_time ops)"
    and "(x, d) \<in> pending w" and "Fetch t \<in> set ops" and "d \<le> t"
  shows "\<exists>t' xs. (t', xs) \<in> set rets \<and> x \<in> set xs \<and> d \<le> t' \<and> t' \<le> t"
  using assms
proof (induction ops arbitrary: t0 w rets)
  case (Cons a ops)
  have sorted: "sorted (op_time a # map op_time ops)" and t0: "t0 \<le> op_time a"
    using Cons.prems(3) by auto
  have ok: "ok_at (op_time a) w" using Cons.prems(2) t0 by (rule ok_later)
  show ?case
  proof (cases a)
    case (Insert now y then_ms)
    with Cons.prems(1) obtain w' where w': "ins w now y then_ms = Inr w'"
      and run: "run_timer ins fet ops w' = Inr rets" by (auto simp: rbind_Inr_iff)
    then obtain e where "ok_at now w'" "pending w' = insert (y, e) (pending w)"
      using ok insertE [OF _ w'] Insert by auto
    then show ?thesis using Cons.IH [OF run, of now] sorted Insert Cons.prems by simp
  next
    case (Fetch now)
    with Cons.prems(1) obtain xs w' rets' where w': "fet w now = Inr (xs, w')"
      and run: "run_timer ins fet ops w' = Inr rets'" and rets: "rets = (now, xs) # rets'"
      by (auto simp: rbind_Inr_iff)
    have ok_now: "ok_at now w" using ok Fetch by simp
    note law = fetchE [OF ok_now w']
    have le: "now \<le> t" using sorted Cons.prems(5) Fetch by auto
    show ?thesis
    proof (cases "d \<le> now")
      case True
      then have "x \<in> set xs" using law(2) Cons.prems(4) by auto
      then show ?thesis using True le rets by auto
    next
      case False
      then have "(x, d) \<in> pending w'" "Fetch t \<in> set ops"
        using law(3) Cons.prems(4,5,6) Fetch by auto
      then show ?thesis using Cons.IH [OF run law(1)] sorted Fetch Cons.prems(6) rets by auto
    qed
  qed
qed simp

lemma returned_due:
  assumes "run_timer ins fet ops w = Inr rets" and "ok_at t0 w" and "sorted (t0 # map op_time ops)"
    and "(t, xs) \<in> set rets" and "x \<in> set xs"
  shows "(\<exists>d \<le> t. (x, d) \<in> pending w) \<or> (\<exists>n th. Insert n x th \<in> set ops \<and> th < t)"
  using assms
proof (induction ops arbitrary: t0 w rets)
  case (Cons a ops)
  have sorted: "sorted (op_time a # map op_time ops)" and t0: "t0 \<le> op_time a"
    using Cons.prems(3) by auto
  have ok: "ok_at (op_time a) w" using Cons.prems(2) t0 by (rule ok_later)
  show ?case
  proof (cases a)
    case (Insert now y then_ms)
    with Cons.prems(1) obtain w' where w': "ins w now y then_ms = Inr w'"
      and run: "run_timer ins fet ops w' = Inr rets" by (auto simp: rbind_Inr_iff)
    then obtain e where "ok_at now w'" "pending w' = insert (y, e) (pending w)" "then_ms < e"
      using ok insertE [OF _ w'] Insert by auto
    then show ?thesis using Cons.IH [OF run, of now] sorted Insert Cons.prems(4,5) by fastforce
  next
    case (Fetch now)
    with Cons.prems(1) obtain ys w' rets' where w': "fet w now = Inr (ys, w')"
      and run: "run_timer ins fet ops w' = Inr rets'" and rets: "rets = (now, ys) # rets'"
      by (auto simp: rbind_Inr_iff)
    have ok_now: "ok_at now w" using ok Fetch by simp
    note law = fetchE [OF ok_now w']
    show ?thesis
    proof (cases "(t, xs) = (now, ys)")
      case True
      then show ?thesis using law(2) Cons.prems(5) by auto
    next
      case False
      then show ?thesis
        using Cons.IH [OF run law(1)] law(3) sorted Fetch Cons.prems(4,5) rets by auto
    qed
  qed
qed simp

end

section \<open>The wheel keeps the contract\<close>

interpretation wt: deadline_timer wheel_insert wheel_fetch wheel_pending
    "\<lambda>now w. wheel_at now w \<and> bucket_size w = b" b for b
proof unfold_locales
  fix now :: int and w :: "'a wheel" and x and then_ms :: int
  assume "wheel_at now w \<and> bucket_size w = b"
  then show "\<exists>w' d. wheel_insert w now x then_ms = Inr w' \<and> (wheel_at now w' \<and> bucket_size w' = b)
      \<and> wheel_pending w' = insert (x, d) (wheel_pending w) \<and> then_ms < d \<and> d \<le> max then_ms now + b"
    using wheel_insert_law [of now w x then_ms] by auto
next
  fix now :: int and w :: "'a wheel"
  assume "wheel_at now w \<and> bucket_size w = b"
  then show "\<exists>xs w'. wheel_fetch w now = Inr (xs, w') \<and> (wheel_at now w' \<and> bucket_size w' = b)
      \<and> set xs = {x. \<exists>d \<le> now. (x, d) \<in> wheel_pending w}
      \<and> wheel_pending w' = {p \<in> wheel_pending w. now < snd p}"
    using wheel_fetch_law [of now w] by auto
next
  fix now now' :: int and w :: "'a wheel"
  assume "wheel_at now w \<and> bucket_size w = b" and "now \<le> now'"
  then show "wheel_at now' w \<and> bucket_size w = b" by (auto intro: wheel_at_later)
qed

abbreviation run_wheel :: "'o timer_op list \<Rightarrow> 'o wheel \<Rightarrow> (int \<times> 'o list) list res" where
  "run_wheel \<equiv> run_timer wheel_insert wheel_fetch"

lemma wheel_at_new: "0 < b \<Longrightarrow> 0 \<le> now \<Longrightarrow> wheel_at now (new_wheel b)"
  by (simp add: wheel_at_def wheel_wf_def new_wheel_def)

lemma wheel_pending_new [simp]: "wheel_pending (new_wheel b) = {}"
  by (simp add: wheel_pending_def new_wheel_def)

text \<open>
  C33: an object inserted into the wheel is returned by a fetch strictly after the requested time,
  at the latest by the first fetch that comes one bucket after the requested time or the time of
  the insertion; the calls in between, with times that do not go back, raise nothing.
\<close>

theorem wheel_timer_on_time:
  assumes "wheel_at now w" and "sorted (now # map op_time ops)"
    and "Fetch t \<in> set ops" and "max then_ms now + bucket_size w \<le> t"
  shows "\<exists>rets t' xs. run_wheel (Insert now x then_ms # ops) w = Inr rets
     \<and> (t', xs) \<in> set rets \<and> x \<in> set xs \<and> then_ms < t' \<and> t' \<le> t"
proof -
  obtain w' d where ins: "wheel_insert w now x then_ms = Inr w'"
    and w': "wheel_at now w' \<and> bucket_size w' = bucket_size w"
    and pending: "wheel_pending w' = insert (x, d) (wheel_pending w)" "then_ms < d"
      "d \<le> max then_ms now + bucket_size w"
    using wt.insert_law [of now w "bucket_size w" x then_ms] assms(1) by blast
  have d: "(x, d) \<in> wheel_pending w'" "then_ms < d" "d \<le> t" using pending assms(4) by auto
  obtain rets where rets: "run_wheel ops w' = Inr rets"
    using wt.run_total [OF w' assms(2)] by blast
  show ?thesis
    using wt.pending_delivered [OF rets w' assms(2) d(1) assms(3) d(3)] ins rets d(2) by fastforce
qed

theorem wheel_timer_on_time_witness:
  "\<exists>rets t' xs. run_wheel (Insert 1000 ''k'' 7000 # [Fetch 6000, Insert 9999 ''j'' 3, Fetch 12000])
       (new_wheel 5000) = Inr rets
     \<and> (t', xs) \<in> set rets \<and> ''k'' \<in> set xs \<and> 7000 < t' \<and> t' \<le> 12000"
  by (rule wheel_timer_on_time) (simp_all add: wheel_at_new, simp add: new_wheel_def)

text \<open>
  An object that a fetch returns was inserted before with a requested time strictly before
  the time of the fetch.
\<close>

theorem wheel_timer_never_early:
  assumes "0 < b" and "sorted (0 # map op_time ops)" and "run_wheel ops (new_wheel b) = Inr rets"
    and "(t, xs) \<in> set rets" and "x \<in> set xs"
  shows "\<exists>n th. Insert n x th \<in> set ops \<and> th < t"
  using wt.returned_due [of ops "new_wheel b" rets 0 b t xs x] assms wheel_at_new [of b 0]
  by (auto simp: new_wheel_def wheel_pending_def)

theorem wheel_timer_never_early_witness:
  "\<exists>n th. Insert n ''k'' th \<in> set [Insert 1000 ''k'' 7000, Fetch 6000, Fetch 10000] \<and> th < 10000"
proof -
  have "run_wheel [Insert 1000 ''k'' 7000, Fetch 6000, Fetch 10000] (new_wheel 5000)
      = Inr [(6000, []), (10000, [''k''])]" by code_simp
  from wheel_timer_never_early [OF _ _ this, of 10000 "[''k'']" "''k''"] show ?thesis by simp
qed

end
