(* ===== verification/Ratelimit.thy ===== *)
theory Ratelimit
  imports Ids Wheel_Timer
begin

text \<open>
  The rate limiter of \<open>synapse/api/ratelimiting.py\<close> with the timer wheel that prunes it, the
  table of overrides (\<open>storage/databases/main/room.py\<close>) and the callbacks of modules
  (\<open>module_api/callbacks/ratelimit_callbacks.py\<close>).

  A limiter keeps a bucket per key: how many actions were counted since a start time, and the
  rate at which they are forgiven. Times and rates are the rationals that the floats of the code
  denote; the rounding of float arithmetic is not modelled. The callbacks of modules are
  parameters, as no module of the repository registers one. After its reads of the database
  \<open>can_do_action\<close> runs to its end without a suspension, so that a call is one step.
\<close>

section \<open>Data\<close>

text \<open>Keys are strings or tuples of keys.\<close>

datatype rl_key = KStr string | KTuple "rl_key list"

record ratelimit_settings =
  rs_key :: string
  per_second :: rat
  burst_count :: int

text \<open>A requester: the user, whether its application service (if any) is rate limited, and the
  entity that authenticated.\<close>

record requester =
  rq_user :: domain_specific_string
  rq_app_service :: "bool option"
  rq_authenticated_entity :: string

text \<open>A row of \<open>ratelimit_override\<close>: both columns may be null.\<close>

record db_override =
  ov_messages_per_second :: "int option"
  ov_burst_count :: "int option"

record mod_override =
  mo_per_second :: rat
  mo_burst_count :: int

type_synonym override_callback = "string \<Rightarrow> string \<Rightarrow> mod_override option res"

record rl_env =
  ratelimit_override_table :: "(string \<times> db_override) list"
  app_service_senders :: "string list"
  override_callbacks :: "override_callback list option"

record limiter =
  rate_hz :: rat
  rl_burst_count :: int
  limiter_name :: string
  actions :: "(rl_key \<times> (int \<times> rat \<times> rat)) list"
  timer :: "rl_key wheel"

text \<open>The width of a bucket of a timer that is made with no argument: five seconds.\<close>

definition DEFAULT_BUCKET_MS :: int where
  "DEFAULT_BUCKET_MS = 5000"

definition new_limiter :: "ratelimit_settings \<Rightarrow> limiter" where
  "new_limiter cfg = \<lparr>rate_hz = per_second cfg, rl_burst_count = burst_count cfg,
     limiter_name = rs_key cfg, actions = [], timer = new_wheel DEFAULT_BUCKET_MS\<rparr>"

section \<open>Overrides\<close>

definition get_ratelimit_for_user :: "rl_env \<Rightarrow> string \<Rightarrow> db_override option" where
  "get_ratelimit_for_user env user_id = dget (ratelimit_override_table env) user_id"

definition set_ratelimit_for_user :: "rl_env \<Rightarrow> string \<Rightarrow> int \<Rightarrow> int \<Rightarrow> rl_env" where
  "set_ratelimit_for_user env user_id mps burst =
     env\<lparr>ratelimit_override_table := dset (ratelimit_override_table env) user_id
       \<lparr>ov_messages_per_second = Some mps, ov_burst_count = Some burst\<rparr>\<rparr>"

definition delete_ratelimit_for_user :: "rl_env \<Rightarrow> string \<Rightarrow> rl_env" where
  "delete_ratelimit_for_user env user_id =
     (if \<not> dhas (ratelimit_override_table env) user_id then env
      else env\<lparr>ratelimit_override_table := AList.delete user_id (ratelimit_override_table env)\<rparr>)"

text \<open>\<open>not override.messages_per_second\<close>: null or zero.\<close>

definition unlimited :: "db_override \<Rightarrow> bool" where
  "unlimited ov = (ov_messages_per_second ov \<in> {None, Some 0})"

fun get_ratelimit_override_for_user ::
    "override_callback list \<Rightarrow> string \<Rightarrow> string \<Rightarrow> mod_override option res" where
  "get_ratelimit_override_for_user [] user_id name = Inr None"
| "get_ratelimit_override_for_user (cb # cbs) user_id name =
     rbind (cb user_id name) (\<lambda>r. case r of
        Some ov \<Rightarrow> Inr (Some ov)
      | None \<Rightarrow> get_ratelimit_override_for_user cbs user_id name)"

section \<open>The limiter\<close>

definition user_id_of :: "requester \<Rightarrow> string" where
  "user_id_of rq = to_string USER_SIGIL (rq_user rq)"

definition get_key :: "requester option \<Rightarrow> rl_key option \<Rightarrow> rl_key res" where
  "get_key rq key = (case key of
      Some k \<Rightarrow> Inr k
    | None \<Rightarrow> (case rq of None \<Rightarrow> Inl PyValueError | Some r \<Rightarrow> Inr (KStr (user_id_of r))))"

definition get_action_counts :: "limiter \<Rightarrow> rl_key \<Rightarrow> rat \<Rightarrow> int \<times> rat \<times> rat" where
  "get_action_counts l key time_now_s =
     dget_default (actions l) key (0, time_now_s, rate_hz l)"

text \<open>\<open>int(t * 1000)\<close>.\<close>

definition to_ms :: "rat \<Rightarrow> int" where
  "to_ms t = trunc_rat (t * 1000)"

definition record_action_inner ::
    "limiter \<Rightarrow> rl_key \<Rightarrow> int \<Rightarrow> rat \<Rightarrow> rat \<Rightarrow> rat \<Rightarrow> limiter res" where
  "record_action_inner l key action_count time_start rate time_now_s =
     rbind (raise_if (rate = 0) PyZeroDivisionError) (\<lambda>_.
     let prune_time_s = time_start + of_int action_count / rate
     in if prune_time_s \<le> time_now_s
        then Inr (l\<lparr>actions := AList.delete key (actions l)\<rparr>)
        else rbind (wheel_insert (timer l) (to_ms time_now_s) key (to_ms (prune_time_s + 1 / 10)))
          (\<lambda>t. Inr (l\<lparr>actions := dset (actions l) key (action_count, time_start, rate), timer := t\<rparr>)))"

text \<open>Requesters that are not limited: their application service is not, or their override is null.\<close>

definition exempt :: "rl_env \<Rightarrow> requester option \<Rightarrow> bool" where
  "exempt env rq = (case rq of
      None \<Rightarrow> False
    | Some r \<Rightarrow> rq_app_service r = Some False
        \<or> (case get_ratelimit_for_user env (rq_authenticated_entity r) of
             Some ov \<Rightarrow> unlimited ov | None \<Rightarrow> False))"

definition module_limits ::
    "rl_env \<Rightarrow> limiter \<Rightarrow> requester option \<Rightarrow> rat option \<Rightarrow> int option \<Rightarrow> (rat option \<times> int option) res" where
  "module_limits env l rq rate burst = (case (rq, override_callbacks env) of
      (Some r, Some cbs) \<Rightarrow>
        rbind (get_ratelimit_override_for_user cbs (user_id_of r) (limiter_name l)) (\<lambda>m. Inr (case m of
            Some ov \<Rightarrow> (Some (mo_per_second ov), Some (mo_burst_count ov))
          | None \<Rightarrow> (rate, burst)))
    | _ \<Rightarrow> Inr (rate, burst))"

text \<open>The rate and the burst count that a call uses: the arguments, overridden by modules, or the
  values of the limiter.\<close>

definition effective_limits ::
    "rl_env \<Rightarrow> limiter \<Rightarrow> requester option \<Rightarrow> rat option \<Rightarrow> int option \<Rightarrow> (rat \<times> int) res" where
  "effective_limits env l rq rate burst =
     rbind (module_limits env l rq rate burst) (\<lambda>(rate, burst).
       Inr (case rate of Some r \<Rightarrow> r | None \<Rightarrow> rate_hz l,
            case burst of Some b \<Rightarrow> b | None \<Rightarrow> rl_burst_count l))"

text \<open>The bucket of the key after the leak: count, start time and level.\<close>

definition leaked :: "limiter \<Rightarrow> rl_key \<Rightarrow> rat \<Rightarrow> rat \<Rightarrow> int \<times> rat \<times> rat" where
  "leaked l key rate time_now_s =
     (case get_action_counts l key time_now_s of (action_count, time_start, _) \<Rightarrow>
        let time_delta = time_now_s - time_start;
            performed_count = of_int action_count - time_delta * rate
        in if performed_count < 0 then (0, time_now_s, 0)
           else (action_count, time_start, performed_count))"

text \<open>\<open>-1\<close> when the rate is not positive, otherwise not before now.\<close>

definition time_allowed :: "rat \<Rightarrow> int \<Rightarrow> int \<Rightarrow> rat \<Rightarrow> rat \<Rightarrow> rat" where
  "time_allowed rate burst action_count time_start time_now_s =
     (if rate > 0
      then max (time_start + of_int (action_count - burst + 1) / rate) time_now_s
      else - 1)"

definition bucket_check ::
    "limiter \<Rightarrow> rl_key \<Rightarrow> rat \<Rightarrow> int \<Rightarrow> bool \<Rightarrow> int \<Rightarrow> rat \<Rightarrow> ((bool \<times> rat) \<times> limiter) res" where
  "bucket_check l key rate burst update n_actions time_now_s =
     (case leaked l key rate time_now_s of (action_count, time_start, performed_count) \<Rightarrow>
        if performed_count > of_int (burst - n_actions)
        then Inr ((False, time_allowed rate burst action_count time_start time_now_s), l)
        else (let action_count = action_count + n_actions
              in rbind (if update then record_action_inner l key action_count time_start rate time_now_s
                        else Inr l) (\<lambda>l'.
                 Inr ((True, time_allowed rate burst action_count time_start time_now_s), l'))))"

definition can_do_action ::
    "rl_env \<Rightarrow> rat \<Rightarrow> limiter \<Rightarrow> requester option \<Rightarrow> rl_key option \<Rightarrow> rat option \<Rightarrow> int option \<Rightarrow> bool
      \<Rightarrow> int \<Rightarrow> rat option \<Rightarrow> ((bool \<times> rat) \<times> limiter) res" where
  "can_do_action env clock l rq key rate burst update n_actions time_now =
     rbind (get_key rq key) (\<lambda>k.
     if exempt env rq then Inr ((True, - 1), l)
     else rbind (effective_limits env l rq rate burst) (\<lambda>(rate, burst).
       bucket_check l k rate burst update n_actions (case time_now of Some t \<Rightarrow> t | None \<Rightarrow> clock)))"

definition record_action ::
    "rat \<Rightarrow> limiter \<Rightarrow> requester option \<Rightarrow> rl_key option \<Rightarrow> int \<Rightarrow> rat option \<Rightarrow> limiter res" where
  "record_action clock l rq key n_actions time_now =
     rbind (get_key rq key) (\<lambda>k.
     let time_now_s = (case time_now of Some t \<Rightarrow> t | None \<Rightarrow> clock)
     in case get_action_counts l k time_now_s of (action_count, time_start, rate) \<Rightarrow>
          record_action_inner l k (action_count + n_actions) time_start rate time_now_s)"

definition prune_key :: "rat \<Rightarrow> rl_key \<Rightarrow> (rl_key \<times> (int \<times> rat \<times> rat)) list
    \<Rightarrow> (rl_key \<times> (int \<times> rat \<times> rat)) list" where
  "prune_key time_now_s key acts = (case dget acts key of
      None \<Rightarrow> acts
    | Some (action_count, time_start, rate) \<Rightarrow>
        if of_int action_count - (time_now_s - time_start) * rate > 0 then acts
        else AList.delete key acts)"

definition prune_message_counts :: "rat \<Rightarrow> limiter \<Rightarrow> limiter res" where
  "prune_message_counts clock l =
     rbind (wheel_fetch (timer l) (to_ms clock)) (\<lambda>(to_prune, t).
       Inr (l\<lparr>actions := fold (prune_key clock) to_prune (actions l), timer := t\<rparr>))"

text \<open>\<open>ratelimit\<close> raises when the action is not allowed; \<open>retry_after_ms\<close> is what the error carries.\<close>

definition ratelimit ::
    "rl_env \<Rightarrow> rat \<Rightarrow> limiter \<Rightarrow> requester option \<Rightarrow> rl_key option \<Rightarrow> rat option \<Rightarrow> int option \<Rightarrow> bool
      \<Rightarrow> int \<Rightarrow> rat option \<Rightarrow> limiter res" where
  "ratelimit env clock l rq key rate burst update n_actions time_now =
     (let time_now_s = (case time_now of Some t \<Rightarrow> t | None \<Rightarrow> clock)
      in rbind (can_do_action env clock l rq key rate burst update n_actions (Some time_now_s))
           (\<lambda>((allowed, t_allowed), l').
              if \<not> allowed then Inl (LimitExceededError (to_ms (t_allowed - time_now_s))) else Inr l'))"

section \<open>The limiter of requests\<close>

record request_limiter =
  request_ratelimiter :: limiter
  rc_message :: ratelimit_settings
  admin_redaction_ratelimiter :: "limiter option"

definition new_request_limiter :: "ratelimit_settings \<Rightarrow> ratelimit_settings option \<Rightarrow> request_limiter" where
  "new_request_limiter rc_msg rc_admin_redaction =
     \<lparr>request_ratelimiter = new_limiter \<lparr>rs_key = rs_key rc_msg, per_second = 0, burst_count = 0\<rparr>,
      rc_message = rc_msg,
      admin_redaction_ratelimiter = map_option new_limiter rc_admin_redaction\<rparr>"

definition request_ratelimit ::
    "rl_env \<Rightarrow> rat \<Rightarrow> request_limiter \<Rightarrow> requester \<Rightarrow> bool \<Rightarrow> bool \<Rightarrow> int \<Rightarrow> request_limiter res" where
  "request_ratelimit env clock rl rq update is_admin_redaction n_actions =
     (if user_id_of rq \<in> set (app_service_senders env) then Inr rl
      else (let override = get_ratelimit_for_user env (user_id_of rq);
                (mps, burst) = (case override of
                   Some ov \<Rightarrow> (map_option rat_of_int (ov_messages_per_second ov), ov_burst_count ov)
                 | None \<Rightarrow> (Some (per_second (rc_message rl)), Some (burst_count (rc_message rl))))
            in if (case override of Some ov \<Rightarrow> unlimited ov | None \<Rightarrow> False) then Inr rl
               else (case (is_admin_redaction, admin_redaction_ratelimiter rl) of
                   (True, Some al) \<Rightarrow>
                     rbind (ratelimit env clock al (Some rq) None None None update n_actions None)
                       (\<lambda>al'. Inr (rl\<lparr>admin_redaction_ratelimiter := Some al'\<rparr>))
                 | _ \<Rightarrow>
                     rbind (ratelimit env clock (request_ratelimiter rl) (Some rq) None mps burst
                              update n_actions None)
                       (\<lambda>l'. Inr (rl\<lparr>request_ratelimiter := l'\<rparr>)))))"

end
