(* ===== verification/Ratelimit_Props.thy ===== *)
theory Ratelimit_Props
  imports Ratelimit
begin

text \<open>
  What the rate limiter guarantees: it is a leaky bucket per key, so that the accepted actions of
  any window of time are bounded; the time it gives for the next try is exact; and the pruning is
  invisible and complete.
\<close>

section \<open>The level of a bucket\<close>

definition level :: "limiter \<Rightarrow> rl_key \<Rightarrow> rat \<Rightarrow> rat \<Rightarrow> rat" where
  "level l key rate t = (case dget (actions l) key of
      None \<Rightarrow> 0
    | Some (c, s, _) \<Rightarrow> max 0 (of_int c - (t - s) * rate))"

lemma level_nonneg [simp]: "0 \<le> level l k r t"
  by (auto simp: level_def split: option.splits)

lemma leaked_level:
  "leaked l k r t = (c, s, p) \<Longrightarrow> p = level l k r t"
  "leaked l k r t = (c, s, p) \<Longrightarrow> p = of_int c - (t - s) * r"
  by (auto simp: leaked_def get_action_counts_def dget_default_def dget_def level_def Let_def
      split: option.splits if_splits)

lemma leakedE:
  obtains c s where "leaked l k r t = (c, s, level l k r t)"
    and "level l k r t = of_int c - (t - s) * r"
proof -
  obtain c s p where p: "leaked l k r t = (c, s, p)" by (cases "leaked l k r t") auto
  show thesis
    by (rule that [of c s]) (use p leaked_level [OF p] in auto)
qed

text \<open>Levels go down with the rate until they are zero.\<close>

lemma max_leak:
  fixes x d :: rat
  assumes "0 \<le> d"
  shows "max 0 (max 0 x - d) = max 0 (x - d)"
  using assms by (auto simp: max_def)

lemma level_later:
  assumes "0 \<le> r" and "t \<le> t'"
  shows "level l k r t' = max 0 (level l k r t - (t' - t) * r)"
proof (cases "dget (actions l) k")
  case None
  then show ?thesis using assms by (simp add: level_def)
next
  case (Some v)
  obtain c s r' where v: "v = (c, s, r')" by (cases v) auto
  have eq: "of_int c - (t' - s) * r = (of_int c - (t - s) * r) - (t' - t) * r"
    by (simp add: algebra_simps)
  have "0 \<le> (t' - t) * r" using assms by simp
  from max_leak [OF this, of "of_int c - (t - s) * r"] show ?thesis
    using Some v unfolding level_def by (simp add: eq)
qed

lemma level_antimono: "0 \<le> r \<Longrightarrow> t \<le> t' \<Longrightarrow> level l k r t - (t' - t) * r \<le> level l k r t'"
  by (simp add: level_later)

section \<open>Operations on the dictionary of buckets\<close>

lemma dget_delete: "dget (AList.delete k d) k' = (if k' = k then None else dget d k')"
  by (simp add: dget_def delete_conv)

lemma record_action_inner_zero: "record_action_inner l k c s 0 now = Inl PyZeroDivisionError"
  by (simp add: record_action_inner_def raise_if_def)

text \<open>Recording sets the level of the key and keeps the others.\<close>

lemma level_record:
  assumes "record_action_inner l k c s r now = Inr l'" and "0 < r"
  shows "level l' k' r now = (if k' = k then max 0 (of_int c - (now - s) * r) else level l k' r now)"
proof -
  have iff: "s + of_int c / r \<le> now \<longleftrightarrow> of_int c - (now - s) * r \<le> 0"
    using assms(2) by (simp add: field_simps)
  show ?thesis
    using assms unfolding record_action_inner_def
    by (auto simp: Let_def iff level_def dget_delete dget_dset rbind_Inr_iff split: if_splits)
qed

lemma record_fixed:
  "record_action_inner l k c s r now = Inr l' \<Longrightarrow>
     rate_hz l' = rate_hz l \<and> rl_burst_count l' = rl_burst_count l \<and> limiter_name l' = limiter_name l"
  by (auto simp: record_action_inner_def Let_def rbind_Inr_iff split: if_splits)

section \<open>The invariant of the buckets\<close>

text \<open>
  At time \<open>t\<close> the wheel is well formed, and every bucket that is kept has a positive rate and a
  pending entry in the wheel whose deadline comes after the bucket is empty, by at most 5.1 seconds.
\<close>

definition empty_at :: "int \<times> rat \<times> rat \<Rightarrow> rat" where
  "empty_at b = (case b of (c, s, r) \<Rightarrow> s + of_int c / r)"

definition will_be_pruned :: "limiter \<Rightarrow> rl_key \<Rightarrow> int \<times> rat \<times> rat \<Rightarrow> bool" where
  "will_be_pruned l k b \<longleftrightarrow> 0 < snd (snd b) \<and> (\<exists>d. (k, d) \<in> wheel_pending (timer l)
     \<and> empty_at b * 1000 < of_int d \<and> of_int d \<le> empty_at b * 1000 + 5100)"

definition limiter_ok :: "rat \<Rightarrow> limiter \<Rightarrow> bool" where
  "limiter_ok t l \<longleftrightarrow> 0 \<le> t \<and> wheel_at (to_ms t) (timer l) \<and> bucket_size (timer l) = DEFAULT_BUCKET_MS
     \<and> (\<forall>k b. dget (actions l) k = Some b \<longrightarrow> will_be_pruned l k b)"

lemma limiter_ok_bucket: "limiter_ok t l \<Longrightarrow> dget (actions l) k = Some b \<Longrightarrow> will_be_pruned l k b"
  unfolding limiter_ok_def by blast

lemma to_ms_bounds:
  assumes "0 \<le> t"
  shows "of_int (to_ms t) \<le> t * 1000" and "t * 1000 < of_int (to_ms t) + 1" and "0 \<le> to_ms t"
  using assms trunc_rat_le [of "t * 1000"] trunc_rat_less [of "t * 1000"]
  by (simp_all add: to_ms_def trunc_rat_nonneg)

lemma to_ms_mono: "0 \<le> t \<Longrightarrow> t \<le> t' \<Longrightarrow> to_ms t \<le> to_ms t'"
  unfolding to_ms_def by (rule trunc_rat_mono) simp_all

lemma limiter_ok_new: "0 \<le> t \<Longrightarrow> limiter_ok t (new_limiter cfg)"
  by (simp add: limiter_ok_def new_limiter_def wheel_at_new DEFAULT_BUCKET_MS_def dget_def to_ms_bounds(3))
    (simp add: new_wheel_def)

lemma limiter_ok_later: "limiter_ok t l \<Longrightarrow> t \<le> t' \<Longrightarrow> limiter_ok t' l"
  unfolding limiter_ok_def using to_ms_mono [of t t'] wheel_at_later [of "to_ms t" "timer l" "to_ms t'"]
  by auto

lemma will_be_pruned_mono:
  "will_be_pruned l k b \<Longrightarrow> wheel_pending (timer l) \<subseteq> wheel_pending (timer l') \<Longrightarrow> will_be_pruned l' k b"
  unfolding will_be_pruned_def by blast

lemma record_ok:
  assumes ok: "limiter_ok now l" and r: "0 < r"
  shows "\<exists>l'. record_action_inner l k c s r now = Inr l' \<and> limiter_ok now l'"
proof (cases "s + of_int c / r \<le> now")
  case True
  then show ?thesis using ok r
    by (auto simp: record_action_inner_def raise_if_def limiter_ok_def will_be_pruned_def dget_delete)
next
  case False
  define p where "p = s + of_int c / r"
  let ?then = "to_ms (p + 1 / 10)"
  have now: "0 \<le> now" and wheel: "wheel_at (to_ms now) (timer l)"
    and bs: "bucket_size (timer l) = DEFAULT_BUCKET_MS" using ok by (auto simp: limiter_ok_def)
  obtain w d where w: "wheel_insert (timer l) (to_ms now) k ?then = Inr w" "wheel_at (to_ms now) w"
      "bucket_size w = bucket_size (timer l)"
      "wheel_pending w = insert (k, d) (wheel_pending (timer l))"
    and d: "?then < d" "d \<le> max ?then (to_ms now) + bucket_size (timer l)"
    using wheel_insert_law [OF wheel, of k ?then] by blast
  have then_ms: "p * 1000 + 99 < of_int ?then" "of_int ?then \<le> p * 1000 + 100"
    using to_ms_bounds [of "p + 1 / 10"] False now by (auto simp: p_def [symmetric])
  have "(of_int ?then :: rat) < of_int d" using d(1) by simp
  moreover have "of_int (max ?then (to_ms now)) \<le> p * 1000 + 100"
  proof -
    have "now < p" using False by (simp add: p_def)
    then have "of_int (to_ms now) \<le> p * 1000 + 100" using to_ms_bounds(1) [OF now] by linarith
    then show ?thesis using then_ms(2) by (simp add: max_def)
  qed
  moreover have "(of_int d :: rat) \<le> of_int (max ?then (to_ms now)) + 5000"
  proof -
    have "d \<le> max ?then (to_ms now) + 5000" using d(2) bs by (simp add: DEFAULT_BUCKET_MS_def)
    then have "(of_int d :: rat) \<le> of_int (max ?then (to_ms now) + 5000)" by (simp only: of_int_le_iff)
    then show ?thesis by simp
  qed
  ultimately have d': "p * 1000 < of_int d" "of_int d \<le> p * 1000 + 5100"
    using then_ms by linarith+
  let ?l' = "l\<lparr>actions := dset (actions l) k (c, s, r), timer := w\<rparr>"
  have new: "will_be_pruned ?l' k (c, s, r)"
    using r d' w(4) by (auto simp: will_be_pruned_def empty_at_def p_def)
  have old: "will_be_pruned ?l' k' b" if "dget (actions l) k' = Some b" for k' b
    by (rule will_be_pruned_mono [OF limiter_ok_bucket [OF ok that]]) (simp add: w(4) subset_insertI)
  have "limiter_ok now ?l'"
    unfolding limiter_ok_def using now w(2,3) bs new old by (auto simp: dget_dset)
  then show ?thesis using False r w(1) by (simp add: record_action_inner_def raise_if_def p_def [symmetric])
qed

section \<open>Pruning\<close>

text \<open>The dictionary after the loop over the fetched keys.\<close>

lemma dget_prune_key:
  "dget (prune_key now k' acts) k = (case dget acts k of
      None \<Rightarrow> None
    | Some (c, s, r) \<Rightarrow> if k = k' \<and> of_int c - (now - s) * r \<le> 0 then None else Some (c, s, r))"
  by (auto simp: prune_key_def dget_delete split: option.splits)

lemma dget_prune:
  "dget (fold (prune_key now) ks acts) k = (case dget acts k of
      None \<Rightarrow> None
    | Some (c, s, r) \<Rightarrow> if k \<in> set ks \<and> of_int c - (now - s) * r \<le> 0 then None else Some (c, s, r))"
proof (induction ks arbitrary: acts)
  case Nil
  then show ?case by (simp split: option.splits)
next
  case (Cons k' ks)
  then show ?case by (simp add: dget_prune_key split: option.splits)
qed

lemma pruneE:
  assumes "limiter_ok now l"
  obtains ks w where "prune_message_counts now l
      = Inr (l\<lparr>actions := fold (prune_key now) ks (actions l), timer := w\<rparr>)"
    and "set ks = {k. \<exists>d \<le> to_ms now. (k, d) \<in> wheel_pending (timer l)}"
    and "wheel_pending w = {p \<in> wheel_pending (timer l). to_ms now < snd p}"
    and "wheel_at (to_ms now) w" and "bucket_size w = DEFAULT_BUCKET_MS"
proof -
  have "wheel_at (to_ms now) (timer l)" using assms by (simp add: limiter_ok_def)
  from wheel_fetch_law [OF this] obtain ks w where
    w: "wheel_fetch (timer l) (to_ms now) = Inr (ks, w)" "wheel_at (to_ms now) w"
      "bucket_size w = bucket_size (timer l)"
      "set ks = {k. \<exists>d \<le> to_ms now. (k, d) \<in> wheel_pending (timer l)}"
      "wheel_pending w = {p \<in> wheel_pending (timer l). to_ms now < snd p}"
    by blast
  show thesis
    by (rule that)
      (use w assms in \<open>simp_all add: prune_message_counts_def limiter_ok_def\<close>)
qed

text \<open>Whether a bucket is empty, by its level and by the time it becomes empty.\<close>

lemma empty_at_iff: "0 < r \<Longrightarrow> of_int c - (t - s) * r \<le> 0 \<longleftrightarrow> empty_at (c, s, r) \<le> t"
  by (simp add: empty_at_def field_simps)

text \<open>A bucket that survives a pruning has a deadline in the future.\<close>

lemma survivor_pending:
  assumes ok: "will_be_pruned l k (c, s, r)" and now: "0 \<le> now"
    and keep: "\<not> ((\<exists>d \<le> to_ms now. (k, d) \<in> wheel_pending (timer l)) \<and> of_int c - (now - s) * r \<le> 0)"
  obtains d where "(k, d) \<in> wheel_pending (timer l)" and "to_ms now < d"
    and "empty_at (c, s, r) * 1000 < of_int d" and "of_int d \<le> empty_at (c, s, r) * 1000 + 5100"
proof -
  obtain d where d: "0 < r" "(k, d) \<in> wheel_pending (timer l)"
      "empty_at (c, s, r) * 1000 < of_int d" "of_int d \<le> empty_at (c, s, r) * 1000 + 5100"
    using ok by (auto simp: will_be_pruned_def)
  have "to_ms now < d"
  proof (rule ccontr)
    assume due: "\<not> to_ms now < d"
    then have "\<not> empty_at (c, s, r) \<le> now" using keep d(2) empty_at_iff [OF d(1)] by auto
    moreover have "(of_int d :: rat) \<le> of_int (to_ms now)" using due by simp
    ultimately show False using d(3) to_ms_bounds(1) [OF now] by linarith
  qed
  with d that show thesis by blast
qed

lemma prune_ok:
  assumes ok: "limiter_ok now l" and prune: "prune_message_counts now l = Inr l'"
  shows "limiter_ok now l'"
proof -
  obtain ks w where l': "prune_message_counts now l
        = Inr (l\<lparr>actions := fold (prune_key now) ks (actions l), timer := w\<rparr>)"
      and ks: "set ks = {k. \<exists>d \<le> to_ms now. (k, d) \<in> wheel_pending (timer l)}"
      and pend: "wheel_pending w = {p \<in> wheel_pending (timer l). to_ms now < snd p}"
      and w: "wheel_at (to_ms now) w" "bucket_size w = DEFAULT_BUCKET_MS"
    by (rule pruneE [OF ok])
  have now: "0 \<le> now" using ok by (simp add: limiter_ok_def)
  have eq: "l' = l\<lparr>actions := fold (prune_key now) ks (actions l), timer := w\<rparr>" using l' prune by simp
  have "will_be_pruned l' k b" if b: "dget (actions l') k = Some b" for k b
  proof -
    obtain c s r where crs: "b = (c, s, r)" by (cases b) auto
    have old: "dget (actions l) k = Some (c, s, r)"
      and keep: "\<not> (k \<in> set ks \<and> of_int c - (now - s) * r \<le> 0)"
      using b crs by (auto simp: eq dget_prune split: option.splits if_splits)
    note wbp = limiter_ok_bucket [OF ok old]
    have keep': "\<not> ((\<exists>d \<le> to_ms now. (k, d) \<in> wheel_pending (timer l)) \<and> of_int c - (now - s) * r \<le> 0)"
      using keep unfolding ks by simp
    obtain d where "(k, d) \<in> wheel_pending (timer l)" "to_ms now < d"
        "empty_at (c, s, r) * 1000 < of_int d" "of_int d \<le> empty_at (c, s, r) * 1000 + 5100"
      by (rule survivor_pending [OF wbp now keep'])
    moreover have "0 < r" using wbp by (simp add: will_be_pruned_def)
    ultimately show ?thesis using pend by (auto simp: eq crs will_be_pruned_def)
  qed
  then show ?thesis using now w by (simp add: limiter_ok_def eq)
qed

section \<open>Runs of a limiter\<close>

lemma bucket_check_ok:
  assumes ok: "limiter_ok now l" and r: "0 < r"
  shows "\<exists>allowed ta l'. bucket_check l k r b upd n now = Inr ((allowed, ta), l') \<and> limiter_ok now l'"
proof -
  obtain c s p where lk: "leaked l k r now = (c, s, p)" by (cases "leaked l k r now") auto
  obtain l' where "record_action_inner l k (c + n) s r now = Inr l'" "limiter_ok now l'"
    using record_ok [OF ok r] by blast
  then show ?thesis using ok by (auto simp: bucket_check_def lk Let_def)
qed

text \<open>
  The states a limiter goes through: calls, recordings and prunings at times that do not go back,
  as long as the rates used are positive.
\<close>

inductive limiter_reach :: "rl_env \<Rightarrow> rat \<Rightarrow> limiter \<Rightarrow> bool" for env where
  start: "0 \<le> t \<Longrightarrow> 0 < per_second cfg \<Longrightarrow> limiter_reach env t (new_limiter cfg)"
| can_do: "limiter_reach env t l \<Longrightarrow> t \<le> now \<Longrightarrow> effective_limits env l rq rate burst = Inr (r, b) \<Longrightarrow> 0 < r
    \<Longrightarrow> can_do_action env now l rq key rate burst upd n None = Inr (res, l') \<Longrightarrow> limiter_reach env now l'"
| record_act: "limiter_reach env t l \<Longrightarrow> t \<le> now \<Longrightarrow> record_action now l rq key n None = Inr l'
    \<Longrightarrow> limiter_reach env now l'"
| prune: "limiter_reach env t l \<Longrightarrow> t \<le> now \<Longrightarrow> prune_message_counts now l = Inr l'
    \<Longrightarrow> limiter_reach env now l'"

lemma bucket_check_fixed:
  "bucket_check l k r b upd n now = Inr (res, l') \<Longrightarrow>
     rate_hz l' = rate_hz l \<and> rl_burst_count l' = rl_burst_count l \<and> limiter_name l' = limiter_name l"
  by (auto simp: bucket_check_def Let_def rbind_Inr_iff dest: record_fixed split: prod.splits if_splits)

lemma stored_rate_pos:
  assumes "limiter_ok t l" and "0 < rate_hz l" and "get_action_counts l k now = (c, s, r)"
  shows "0 < r"
  using assms limiter_ok_bucket [OF assms(1), of k]
  by (auto simp: get_action_counts_def dget_default_def dget_def will_be_pruned_def split: option.splits)

lemma limiter_reach_ok: "limiter_reach env t l \<Longrightarrow> limiter_ok t l \<and> 0 < rate_hz l"
proof (induction rule: limiter_reach.induct)
  case (start t cfg)
  then show ?case by (simp add: limiter_ok_new) (simp add: new_limiter_def)
next
  case (can_do t l now rq rate burst r b key upd n res l')
  have ok: "limiter_ok now l" using can_do by (auto intro: limiter_ok_later)
  consider "l' = l" | k where "bucket_check l k r b upd n now = Inr (res, l')"
    using can_do(3,5) by (auto simp: can_do_action_def rbind_Inr_iff split: if_splits)
  then show ?case
  proof cases
    case 2
    then show ?thesis
      using bucket_check_ok [OF ok can_do(4), of k b upd n] bucket_check_fixed [OF 2] can_do by auto
  qed (use ok can_do in simp)
next
  case (record_act t l now rq key n l')
  have ok: "limiter_ok now l" using record_act by (auto intro: limiter_ok_later)
  obtain k c s r where inner: "record_action_inner l k (c + n) s r now = Inr l'"
    and counts: "get_action_counts l k now = (c, s, r)"
    using record_act(3) by (auto simp: record_action_def Let_def rbind_Inr_iff split: prod.splits) (metis prod_cases3)
  show ?case
    using record_ok [OF ok stored_rate_pos [OF ok _ counts], of k "c + n" s] inner record_fixed [OF inner]
      record_act(4) by auto
next
  case (prune t l now l')
  have ok: "limiter_ok now l" using prune by (auto intro: limiter_ok_later)
  have "rate_hz l' = rate_hz l"
    using prune(3) by (auto simp: prune_message_counts_def rbind_Inr_iff split: prod.splits)
  then show ?case using prune_ok [OF ok prune(3)] prune(4) by simp
qed

text \<open>
  A pruning never raises and leaves no bucket behind that has been empty for 5.1 seconds,
  whatever calls, recordings and prunings came before it.
\<close>

theorem limiter_prunes_expired:
  assumes "limiter_reach env t l" and "t \<le> now"
  shows "\<exists>l'. prune_message_counts now l = Inr l'
     \<and> (\<forall>k c s r. dget (actions l') k = Some (c, s, r) \<longrightarrow> now < s + of_int c / r + 51 / 10)"
proof -
  have ok: "limiter_ok now l"
    using limiter_reach_ok [OF assms(1)] assms(2) by (auto intro: limiter_ok_later)
  then have now: "0 \<le> now" by (simp add: limiter_ok_def)
  obtain ks w where l': "prune_message_counts now l
        = Inr (l\<lparr>actions := fold (prune_key now) ks (actions l), timer := w\<rparr>)" (is "_ = Inr ?l'")
      and ks: "set ks = {k. \<exists>d \<le> to_ms now. (k, d) \<in> wheel_pending (timer l)}"
    by (rule pruneE [OF ok])
  have "now < s + of_int c / r + 51 / 10" if b: "dget (actions ?l') k = Some (c, s, r)" for k c s r
  proof -
    have old: "dget (actions l) k = Some (c, s, r)"
      and keep: "\<not> (k \<in> set ks \<and> of_int c - (now - s) * r \<le> 0)"
      using b by (auto simp: dget_prune split: option.splits if_splits)
    from keep have keep': "\<not> ((\<exists>d \<le> to_ms now. (k, d) \<in> wheel_pending (timer l))
        \<and> of_int c - (now - s) * r \<le> 0)" unfolding ks by simp
    obtain d where d: "to_ms now < d" "of_int d \<le> empty_at (c, s, r) * 1000 + 5100"
      by (rule survivor_pending [OF limiter_ok_bucket [OF ok old] now keep'])
    have "(of_int (to_ms now) :: rat) + 1 \<le> of_int d" using d(1) by linarith
    then have "now < empty_at (c, s, r) + 51 / 10" using d(2) to_ms_bounds(2) [OF now] by linarith
    then show ?thesis by (simp add: empty_at_def)
  qed
  then show ?thesis using l' by blast
qed

section \<open>The bound on a window of time\<close>

text \<open>
  A call with its environment (the overrides may change between calls), requester, key, limits,
  number of actions, whether it counts, and time; or a run of the pruning job.
\<close>

datatype rl_call =
    Call rl_env "requester option" "rl_key option" "rat option" "int option" int bool rat
  | PruneAt rat

fun call_time :: "rl_call \<Rightarrow> rat" where
  "call_time (Call _ _ _ _ _ _ _ t) = t"
| "call_time (PruneAt t) = t"

text \<open>
  The calls that the bound is about: they have a key or a requester, their number of actions is not
  negative, and the requester is exempt or the limits that are in force for the call are those of
  the limiter.
\<close>

fun own_limits :: "ratelimit_settings \<Rightarrow> rl_call \<Rightarrow> bool" where
  "own_limits cfg (Call env rq key rate burst n upd t) = (0 \<le> n \<and> (rq \<noteq> None \<or> key \<noteq> None)
     \<and> (exempt env rq \<or> effective_limits env (new_limiter cfg) rq rate burst = Inr (per_second cfg, burst_count cfg)))"
| "own_limits cfg (PruneAt t) = True"

text \<open>The actions that a call counted; those of an exempt requester are not.\<close>

fun rl_step :: "rl_call \<Rightarrow> limiter \<Rightarrow> ((rl_key \<times> int \<times> rat) list \<times> limiter) res" where
  "rl_step (Call env rq key rate burst n upd t) l =
     rbind (get_key rq key) (\<lambda>k.
     rbind (can_do_action env t l rq key rate burst upd n None) (\<lambda>((ok, _), l').
       Inr (if ok \<and> upd \<and> \<not> exempt env rq then [(k, n, t)] else [], l')))"
| "rl_step (PruneAt t) l = rbind (prune_message_counts t l) (\<lambda>l'. Inr ([], l'))"

fun rl_run :: "rl_call list \<Rightarrow> limiter \<Rightarrow> (rl_key \<times> int \<times> rat) list res" where
  "rl_run [] l = Inr []"
| "rl_run (c # cs) l =
     rbind (rl_step c l) (\<lambda>(acc, l'). rbind (rl_run cs l') (\<lambda>acc'. Inr (acc @ acc')))"

definition amount :: "rl_key \<Rightarrow> (rat \<Rightarrow> bool) \<Rightarrow> (rl_key \<times> int \<times> rat) list \<Rightarrow> int" where
  "amount k P acc = (\<Sum>(k', n, t) \<leftarrow> acc. if k' = k \<and> P t then n else 0)"

lemma amount_simps [simp]:
  "amount k P [] = 0"
  "amount k P (acc @ acc') = amount k P acc + amount k P acc'"
  "amount k P [(k', n, t)] = (if k' = k \<and> P t then n else 0)"
  by (simp_all add: amount_def)

lemma amount_cong:
  assumes "\<And>k n t. (k, n, t) \<in> set acc \<Longrightarrow> P t = Q t"
  shows "amount k P acc = amount k Q acc"
  unfolding amount_def using assms by (intro arg_cong [where f = sum_list] map_cong) auto

lemma amount_none: "(\<And>k n t. (k, n, t) \<in> set acc \<Longrightarrow> \<not> P t) \<Longrightarrow> amount k P acc = 0"
  using amount_cong [of acc P "\<lambda>_. False" k] by (simp add: amount_def case_prod_unfold)

lemma bucket_check_level:
  assumes "bucket_check l k r b upd n now = Inr ((ok, ta), l')" and r: "0 < r" and n: "0 \<le> n"
  shows "ok \<longleftrightarrow> level l k r now + of_int n \<le> of_int b"
    and "level l' k' r now = level l k' r now + of_int (if ok \<and> upd \<and> k' = k then n else 0)"
proof -
  obtain c s where lk: "leaked l k r now = (c, s, level l k r now)"
    and lv: "level l k r now = of_int c - (now - s) * r" by (rule leakedE)
  have iff: "level l k r now > of_int (b - n) \<longleftrightarrow> \<not> level l k r now + of_int n \<le> of_int b"
    by (auto simp: not_le algebra_simps)
  show ok: "ok \<longleftrightarrow> level l k r now + of_int n \<le> of_int b"
    using assms(1) unfolding bucket_check_def lk
    by (auto simp: iff Let_def rbind_Inr_iff split: if_splits)
  show "level l' k' r now = level l k' r now + of_int (if ok \<and> upd \<and> k' = k then n else 0)"
  proof (cases "ok \<and> upd")
    case True
    then have "record_action_inner l k (c + n) s r now = Inr l'"
      using assms(1) ok unfolding bucket_check_def lk
      by (auto simp: iff Let_def rbind_Inr_iff split: if_splits)
    from level_record [OF this r, of k'] have
      "level l' k' r now = (if k' = k then max 0 (level l k r now + of_int n) else level l k' r now)"
      unfolding lv by (simp add: algebra_simps)
    moreover have "0 \<le> level l k r now + of_int n"
      using level_nonneg [of l k r now] n by simp
    ultimately show ?thesis using True by (simp add: max_absorb2)
  next
    case False
    then have "l' = l"
      using assms(1) ok unfolding bucket_check_def lk
      by (auto simp: iff Let_def rbind_Inr_iff split: if_splits)
    then show ?thesis using False by auto
  qed
qed

text \<open>The invariant of a run whose calls all use the rate and the burst count of the limiter.\<close>

definition same_limits :: "limiter \<Rightarrow> limiter \<Rightarrow> bool" where
  "same_limits l l' \<longleftrightarrow> rate_hz l = rate_hz l' \<and> rl_burst_count l = rl_burst_count l' \<and> limiter_name l = limiter_name l'"

definition run_inv :: "ratelimit_settings \<Rightarrow> rat \<Rightarrow> int \<Rightarrow> rat \<Rightarrow> limiter \<Rightarrow> bool" where
  "run_inv cfg r b t l \<longleftrightarrow> limiter_ok t l \<and> 0 < r \<and> r = per_second cfg \<and> b = burst_count cfg
     \<and> same_limits l (new_limiter cfg)
     \<and> (\<forall>k v. dget (actions l) k = Some v \<longrightarrow> snd (snd v) = r)
     \<and> (\<forall>k. level l k r t \<le> of_int b)"

lemma run_inv_later: "run_inv cfg r b t l \<Longrightarrow> t \<le> t' \<Longrightarrow> run_inv cfg r b t' l"
proof -
  assume inv: "run_inv cfg r b t l" and le: "t \<le> t'"
  have r: "0 \<le> r" using inv by (simp add: run_inv_def)
  have "level l k r t' \<le> of_int b" for k
  proof -
    have "0 \<le> (t' - t) * r" using r le by simp
    moreover have "level l k r t \<le> of_int b" using inv unfolding run_inv_def by blast
    ultimately show ?thesis
      using level_nonneg [of l k r t] unfolding level_later [OF r le]
      by (intro max.boundedI) linarith+
  qed
  then show ?thesis using inv limiter_ok_later [OF _ le] by (auto simp: run_inv_def)
qed

lemma record_stored:
  assumes "record_action_inner l k c s r now = Inr l'"
    and "\<forall>k v. dget (actions l) k = Some v \<longrightarrow> snd (snd v) = r"
  shows "\<forall>k v. dget (actions l') k = Some v \<longrightarrow> snd (snd v) = r"
  using assms
  by (auto simp: record_action_inner_def Let_def rbind_Inr_iff dget_delete dget_dset split: if_splits)

lemma bucket_check_stored:
  assumes "bucket_check l k r b upd n now = Inr (res, l')"
    and "\<forall>k v. dget (actions l) k = Some v \<longrightarrow> snd (snd v) = r"
  shows "\<forall>k v. dget (actions l') k = Some v \<longrightarrow> snd (snd v) = r"
proof -
  obtain c s p where lk: "leaked l k r now = (c, s, p)" by (cases "leaked l k r now") auto
  have "l' = l \<or> record_action_inner l k (c + n) s r now = Inr l'"
    using assms(1) unfolding bucket_check_def lk by (auto simp: Let_def rbind_Inr_iff split: if_splits)
  then consider "l' = l" | "record_action_inner l k (c + n) s r now = Inr l'" by blast
  then show ?thesis
  proof cases
    case 2
    then show ?thesis using assms(2) by (rule record_stored)
  qed (use assms(2) in simp)
qed

lemma prune_level:
  assumes inv: "run_inv cfg r b now l"
  shows "\<exists>l'. prune_message_counts now l = Inr l' \<and> run_inv cfg r b now l'
     \<and> (\<forall>k. level l' k r now = level l k r now)"
proof -
  have ok: "limiter_ok now l" and r: "0 < r"
    and stored: "\<And>k v. dget (actions l) k = Some v \<Longrightarrow> snd (snd v) = r"
    using inv by (auto simp: run_inv_def)
  obtain ks w where l': "prune_message_counts now l
      = Inr (l\<lparr>actions := fold (prune_key now) ks (actions l), timer := w\<rparr>)" (is "_ = Inr ?l'")
    by (rule pruneE [OF ok])
  have lv: "level ?l' k r now = level l k r now" for k
    using stored [of k]
    by (auto simp: level_def dget_prune max_def split: option.splits)
  have "\<forall>k v. dget (actions ?l') k = Some v \<longrightarrow> snd (snd v) = r"
    using stored by (auto simp: dget_prune split: option.splits if_splits)
  then have "run_inv cfg r b now ?l'"
    using inv lv prune_ok [OF ok l'] by (auto simp: run_inv_def same_limits_def)
  with l' lv show ?thesis by auto
qed

lemma effective_limits_cong: "same_limits l l' \<Longrightarrow> effective_limits env l rq rate burst = effective_limits env l' rq rate burst"
  unfolding effective_limits_def module_limits_def same_limits_def by (elim conjE) (simp only:)

text \<open>A call of a requester that is not exempt, in terms of its key and the limits in force.\<close>

lemma can_do_action_limits:
  assumes "get_key rq key = Inr k" and "\<not> exempt env rq" and "effective_limits env l rq rate burst = Inr (r, b)"
  shows "can_do_action env clock l rq key rate burst upd n time_now
    = bucket_check l k r b upd n (case time_now of Some t \<Rightarrow> t | None \<Rightarrow> clock)"
  using assms by (simp add: can_do_action_def)

lemma rl_step_law:
  assumes inv: "run_inv cfg r b t0 l" and t0: "t0 \<le> call_time c" and own: "own_limits cfg c"
  shows "\<exists>acc l'. rl_step c l = Inr (acc, l') \<and> run_inv cfg r b (call_time c) l'
     \<and> (\<forall>(k, n, t) \<in> set acc. t = call_time c)
     \<and> (\<forall>k. level l' k r (call_time c) = level l k r (call_time c) + of_int (amount k (\<lambda>_. True) acc))"
proof (cases c)
  case (PruneAt t)
  then show ?thesis using prune_level [OF run_inv_later [OF inv t0]] by auto
next
  case (Call env rq key rate burst n upd t)
  have inv': "run_inv cfg r b t l" using run_inv_later [OF inv t0] Call by simp
  then have ok: "limiter_ok t l" and r: "0 < r" and cfg: "r = per_second cfg" "b = burst_count cfg"
    and fixed: "same_limits l (new_limiter cfg)"
    and stored: "\<forall>k v. dget (actions l) k = Some v \<longrightarrow> snd (snd v) = r"
    by (auto simp: run_inv_def)
  obtain k where key: "get_key rq key = Inr k"
    using own Call by (cases key; cases rq) (auto simp: get_key_def)
  show ?thesis
  proof (cases "exempt env rq")
    case True
    then have "rl_step c l = Inr ([], l)" using Call key by (simp add: can_do_action_def)
    then show ?thesis using inv' Call by simp
  next
    case False
    have lim: "effective_limits env l rq rate burst = Inr (r, b)"
      using own Call False cfg effective_limits_cong [OF fixed] by simp
    obtain allowed ta l' where chk: "bucket_check l k r b upd n t = Inr ((allowed, ta), l')"
      and ok': "limiter_ok t l'" using bucket_check_ok [OF ok r] by blast
    have n: "0 \<le> n" using own Call by simp
    note lev = bucket_check_level [OF chk r n]
    have step: "rl_step c l = Inr (if allowed \<and> upd then [(k, n, t)] else [], l')"
      using Call chk key False by (simp add: can_do_action_limits [OF key False lim])
    have "level l' k' r t \<le> of_int b" for k'
      using inv' lev(1) lev(2) [of k'] by (auto simp: run_inv_def)
    then have "run_inv cfg r b t l'"
      using ok' r cfg fixed bucket_check_fixed [OF chk] bucket_check_stored [OF chk stored]
      by (simp add: run_inv_def same_limits_def)
    then show ?thesis using step lev(2) Call by auto
  qed
qed

lemma rl_run_total:
  assumes "run_inv cfg r b s l" and "sorted (s # map call_time cs)" and "list_all (own_limits cfg) cs"
  shows "\<exists>acc. rl_run cs l = Inr acc \<and> (\<forall>(k, n, t) \<in> set acc. s \<le> t)"
  using assms
proof (induction cs arbitrary: s l)
  case (Cons c cs)
  obtain acc l' where step: "rl_step c l = Inr (acc, l')" "run_inv cfg r b (call_time c) l'"
      "\<forall>(k, n, t) \<in> set acc. t = call_time c"
    using rl_step_law [OF Cons.prems(1), of c] Cons.prems(2,3) by auto
  obtain acc' where "rl_run cs l' = Inr acc'" "\<forall>(k, n, t) \<in> set acc'. call_time c \<le> t"
    using Cons.IH [OF step(2)] Cons.prems(2,3) by auto
  then show ?case using step(1,3) Cons.prems(2) by fastforce
qed simp

text \<open>From a time on: what is accepted up to \<open>t\<close> fits into the room that is left and what leaks.\<close>

lemma run_bound:
  assumes "run_inv cfg r b s l" and "sorted (s # map call_time cs)" and "list_all (own_limits cfg) cs"
    and "rl_run cs l = Inr acc" and "s \<le> t"
  shows "of_int (amount k (\<lambda>t'. t' \<le> t) acc) \<le> of_int b - level l k r s + r * (t - s)"
  using assms
proof (induction cs arbitrary: s l acc)
  case Nil
  then have "0 \<le> of_int b - level l k r s" "0 \<le> r * (t - s)" by (auto simp: run_inv_def)
  then show ?case using Nil.prems(4) by simp
next
  case (Cons c cs)
  let ?\<tau> = "call_time c"
  obtain acc1 l' where step: "rl_step c l = Inr (acc1, l')" "run_inv cfg r b ?\<tau> l'"
      "\<forall>(k, n, t) \<in> set acc1. t = ?\<tau>"
      "level l' k r ?\<tau> = level l k r ?\<tau> + of_int (amount k (\<lambda>_. True) acc1)"
    using rl_step_law [OF Cons.prems(1), of c] Cons.prems(2,3) by auto
  have rest: "sorted (?\<tau> # map call_time cs)" "list_all (own_limits cfg) cs" and s: "s \<le> ?\<tau>"
    using Cons.prems(2,3) by auto
  obtain acc2 where acc2: "rl_run cs l' = Inr acc2" "acc = acc1 @ acc2"
    using Cons.prems(4) step(1) by (auto simp: rbind_Inr_iff)
  have later: "\<forall>(k, n, t) \<in> set acc2. ?\<tau> \<le> t"
    using rl_run_total [OF step(2) rest] acc2(1) by auto
  have r: "0 \<le> r" using Cons.prems(1) by (simp add: run_inv_def)
  show ?case
  proof (cases "?\<tau> \<le> t")
    case True
    have "amount k (\<lambda>t'. t' \<le> t) acc1 = amount k (\<lambda>_. True) acc1"
      using step(3) True by (intro amount_cong) auto
    moreover have "of_int (amount k (\<lambda>t'. t' \<le> t) acc2) \<le> of_int b - level l' k r ?\<tau> + r * (t - ?\<tau>)"
      by (rule Cons.IH [OF step(2) rest acc2(1) True])
    ultimately show ?thesis
      using level_antimono [OF r s, of l k] step(4) acc2(2) by (simp add: algebra_simps)
  next
    case False
    have "amount k (\<lambda>t'. t' \<le> t) acc = 0"
      using step(3) later False acc2(2) by (intro amount_none) fastforce
    moreover have "0 \<le> of_int b - level l k r s" "0 \<le> r * (t - s)"
      using Cons.prems(1,5) r by (auto simp: run_inv_def)
    ultimately show ?thesis by simp
  qed
qed

lemma run_window:
  assumes "run_inv cfg r b t0 l" and "sorted (t0 # map call_time cs)" and "list_all (own_limits cfg) cs"
    and "rl_run cs l = Inr acc" and "t0 \<le> s" and "s \<le> t"
  shows "of_int (amount k (\<lambda>t'. s \<le> t' \<and> t' \<le> t) acc) \<le> of_int b + r * (t - s)"
  using assms
proof (induction cs arbitrary: t0 l acc)
  case Nil
  then have "0 \<le> of_int b - level l k r t0" "0 \<le> r * (t - s)" by (auto simp: run_inv_def)
  then have "0 \<le> of_int b + r * (t - s)" using level_nonneg [of l k r t0] by linarith
  then show ?case using Nil.prems(4) by simp
next
  case (Cons c cs)
  let ?\<tau> = "call_time c"
  show ?case
  proof (cases "?\<tau> < s")
    case True
    obtain acc1 l' where step: "rl_step c l = Inr (acc1, l')" "run_inv cfg r b ?\<tau> l'"
        "\<forall>(k, n, t) \<in> set acc1. t = ?\<tau>"
      using rl_step_law [OF Cons.prems(1), of c] Cons.prems(2,3) by auto
    obtain acc2 where acc2: "rl_run cs l' = Inr acc2" "acc = acc1 @ acc2"
      using Cons.prems(4) step(1) by (auto simp: rbind_Inr_iff)
    have "amount k (\<lambda>t'. s \<le> t' \<and> t' \<le> t) acc1 = 0"
      using step(3) True by (intro amount_none) auto
    then show ?thesis
      using Cons.IH [OF step(2) _ _ acc2(1)] Cons.prems(2,3,6) True acc2(2) by simp
  next
    case False
    have inv: "run_inv cfg r b s l" by (rule run_inv_later [OF Cons.prems(1,5)])
    have sorted: "sorted (s # map call_time (c # cs))" using False Cons.prems(2) by fastforce
    have eq: "amount k (\<lambda>t'. s \<le> t' \<and> t' \<le> t) acc = amount k (\<lambda>t'. t' \<le> t) acc"
      using rl_run_total [OF inv sorted Cons.prems(3)] Cons.prems(4)
      by (intro amount_cong) auto
    show ?thesis
      unfolding eq using run_bound [OF inv sorted Cons.prems(3,4,6), of k] level_nonneg [of l k r s]
      by linarith
  qed
qed

text \<open>
  C26: in every window of time, the actions that a limiter accepts for a key number at most its
  burst count plus its rate times the length of the window, however the calls for this and other
  keys and requesters and the prunings are interleaved; and none of these calls raises. This holds
  for a limiter with a positive rate and calls with the limits of the limiter in force; the actions
  of exempt requesters are not limited and not counted.
\<close>

theorem limiter_window_bound:
  assumes "0 < per_second cfg" and "0 \<le> burst_count cfg"
    and "sorted (0 # map call_time calls)" and "list_all (own_limits cfg) calls" and "0 \<le> s" and "s \<le> t"
  shows "\<exists>acc. rl_run calls (new_limiter cfg) = Inr acc
     \<and> of_int (amount k (\<lambda>t'. s \<le> t' \<and> t' \<le> t) acc) \<le> of_int (burst_count cfg) + per_second cfg * (t - s)"
proof -
  have inv: "run_inv cfg (per_second cfg) (burst_count cfg) 0 (new_limiter cfg)"
    using assms(1,2) limiter_ok_new [of 0 cfg]
    by (simp add: run_inv_def same_limits_def level_def) (simp add: new_limiter_def dget_def)
  obtain acc where acc: "rl_run calls (new_limiter cfg) = Inr acc"
    using rl_run_total [OF inv assms(3,4)] by blast
  show ?thesis using acc run_window [OF inv assms(3,4) acc assms(5,6)] by blast
qed

abbreviation no_overrides :: rl_env where
  "no_overrides \<equiv> \<lparr>ratelimit_override_table = [], app_service_senders = [], override_callbacks = None\<rparr>"

abbreviation sample_cfg :: ratelimit_settings where
  "sample_cfg \<equiv> \<lparr>rs_key = ''rc_message'', per_second = 1 / 2, burst_count = 3\<rparr>"

definition sample_requester :: requester where
  "sample_requester = \<lparr>rq_user = \<lparr>dss_localpart = ''u'', dss_domain = ''s''\<rparr>, rq_app_service = None,
     rq_authenticated_entity = ''@u:s''\<rparr>"

text \<open>A user without and, later, with an override that lifts the limit; and a client without an account.\<close>

definition sample_calls :: "rl_call list" where
  "sample_calls = [Call no_overrides (Some sample_requester) None None None 2 True 1,
     Call no_overrides (Some sample_requester) None None None 2 True 1, Call no_overrides None (Some (KStr ''a'')) None None 3 True 2,
     PruneAt 15, Call no_overrides (Some sample_requester) None (Some (1 / 2)) (Some 3) 3 True 16,
     Call (set_ratelimit_for_user no_overrides ''@u:s'' 0 0) (Some sample_requester) None None None 100 True 16]"

theorem limiter_window_bound_witness:
  "\<exists>acc. rl_run sample_calls (new_limiter sample_cfg) = Inr acc
     \<and> of_int (amount (KStr ''@u:s'') (\<lambda>t'. 1 \<le> t' \<and> t' \<le> 16) acc)
        \<le> of_int (burst_count sample_cfg) + per_second sample_cfg * (16 - 1)"
proof (rule limiter_window_bound)
  show "list_all (own_limits sample_cfg) sample_calls" by code_simp
  show "sorted (0 # map call_time sample_calls)" by code_simp
qed simp_all

abbreviation one_action :: limiter where
  "one_action \<equiv> \<lparr>rate_hz = 1 / 2, rl_burst_count = 3, limiter_name = ''rc_message'',
     actions = [(KStr ''a'', 1, 1, 1 / 2)],
     timer = \<lparr>bucket_size = 5000, entries = [\<lparr>end_key = 1, elements = [KStr ''a'']\<rparr>]\<rparr>\<rparr>"

lemma one_action_reached: "limiter_reach no_overrides 1 one_action"
proof (rule limiter_reach.can_do [OF limiter_reach.start [of 0]])
  show "can_do_action no_overrides 1 (new_limiter sample_cfg) None (Some (KStr ''a'')) None None True 1 None
      = Inr ((True, 1), one_action)" by code_simp
  show "effective_limits no_overrides (new_limiter sample_cfg) None None None = Inr (1 / 2, 3)"
    by (simp add: effective_limits_def module_limits_def new_limiter_def)
qed simp_all

theorem limiter_prunes_expired_witness:
  "\<exists>l'. prune_message_counts 15 one_action = Inr l'
     \<and> (\<forall>k c s r. dget (actions l') k = Some (c, s, r) \<longrightarrow> 15 < s + of_int c / r + 51 / 10)"
  by (rule limiter_prunes_expired [OF one_action_reached]) simp

section \<open>The time of the next try\<close>

lemma can_do_action_anonymous:
  "can_do_action env clock l None (Some k) None None upd n (Some t)
     = bucket_check l k (rate_hz l) (rl_burst_count l) upd n t"
  by (simp add: can_do_action_def get_key_def exempt_def effective_limits_def module_limits_def)

text \<open>
  C35: the time that a refused single action is told to wait for is exact: it lies in the future,
  and asking again for a single action at a later time is allowed from that time on and refused
  before it, as long as nothing else is counted for the key. This holds for every requester that is
  not exempt, with the limits in force for him if the rate is positive and the burst count at least
  one.
\<close>

theorem limiter_retry_time_exact:
  assumes key: "get_key rq key = Inr k" and lim: "\<not> exempt env rq" "effective_limits env l rq rate burst = Inr (r, b)"
    and r: "0 < r" and b: "1 \<le> b" and later: "t \<le> t'"
    and refused: "can_do_action env clock l rq key rate burst upd 1 (Some t) = Inr ((False, ta), l')"
  shows "t < ta \<and> l' = l
     \<and> (\<exists>x. can_do_action env clock l' rq key rate burst False 1 (Some t') = Inr ((ta \<le> t', x), l))"
proof -
  obtain c s where lk: "leaked l k r t = (c, s, level l k r t)"
    and lv: "level l k r t = of_int c - (t - s) * r" by (rule leakedE)
  have denied: "level l k r t > of_int (b - 1)" and l': "l' = l"
    and ta: "ta = time_allowed r b c s t"
    using refused unfolding can_do_action_limits [OF key lim] option.case bucket_check_def lk
    by (auto simp: Let_def rbind_Inr_iff split: if_splits)
  have future: "t < s + of_int (c - b + 1) / r"
    using denied r unfolding lv by (simp add: field_simps)
  then have ta_eq: "ta = s + of_int (c - b + 1) / r"
    using r by (simp add: ta time_allowed_def)
  obtain c' s' where lk': "leaked l k r t' = (c', s', level l k r t')" by (rule leakedE)
  have b0: "(0 :: rat) \<le> of_int (b - 1)" using b by simp
  have "level l k r t' = max 0 (of_int c - (t' - s) * r)"
    unfolding level_later [OF less_imp_le [OF r] later] lv by (simp add: algebra_simps)
  then have "level l k r t' \<le> of_int (b - 1) \<longleftrightarrow> of_int c - (t' - s) * r \<le> of_int (b - 1)"
    using b0 by (simp only: max.bounded_iff simp_thms)
  also have "\<dots> \<longleftrightarrow> ta \<le> t'"
    unfolding ta_eq using r by (simp add: field_simps)
  finally have "\<not> level l k r t' > of_int (b - 1) \<longleftrightarrow> ta \<le> t'" by (simp only: not_less)
  then have "\<exists>x. bucket_check l k r b False 1 t' = Inr ((ta \<le> t', x), l)"
    unfolding bucket_check_def lk' by (auto simp: Let_def)
  then show ?thesis using future unfolding l' can_do_action_limits [OF key lim] option.case ta_eq by simp
qed

abbreviation full_bucket :: limiter where
  "full_bucket \<equiv> (new_limiter sample_cfg)\<lparr>actions := [(KStr ''a'', 3, 1, 1 / 2)]\<rparr>"

text \<open>The user of the example has used up his burst count.\<close>

abbreviation full_user :: limiter where
  "full_user \<equiv> (new_limiter sample_cfg)\<lparr>actions := [(KStr ''@u:s'', 3, 1, 1 / 2)]\<rparr>"

theorem limiter_retry_time_exact_witness:
  "2 < (3 :: rat) \<and> full_user = full_user
     \<and> (\<exists>x. can_do_action no_overrides 0 full_user (Some sample_requester) None None None False 1 (Some 5)
          = Inr ((3 \<le> (5 :: rat), x), full_user))"
proof (rule limiter_retry_time_exact [where t = 2 and upd = True and k = "KStr ''@u:s''" and r = "1 / 2" and b = 3])
  show "get_key (Some sample_requester) None = Inr (KStr ''@u:s'')" by code_simp
  show "\<not> exempt no_overrides (Some sample_requester)" by code_simp
  show "effective_limits no_overrides full_user (Some sample_requester) None None = Inr (1 / 2, 3)" by code_simp
  show "can_do_action no_overrides 0 full_user (Some sample_requester) None None None True 1 (Some 2)
      = Inr ((False, 3), full_user)" by code_simp
qed simp_all

text \<open>
  A refused call for several actions may be told to try again at once, while the same call
  is refused again at that time: the waiting time is computed for a single action.
\<close>

theorem limiter_retry_ignores_n_actions:
  "can_do_action no_overrides 0 full_bucket None (Some (KStr ''a'')) None None True 3 (Some 4)
     = Inr ((False, 4), full_bucket)
   \<and> ratelimit no_overrides 0 full_bucket None (Some (KStr ''a'')) None None True 3 (Some 4)
     = Inl (LimitExceededError 0)"
  by (simp add: ratelimit_def can_do_action_anonymous bucket_check_def leaked_def get_action_counts_def
      dget_default_def time_allowed_def new_limiter_def to_ms_def trunc_rat_def)

section \<open>A rate of zero\<close>

text \<open>
  When a module overrides the rate of a user with zero, the documented way to lift the limit,
  an action that fits into the burst count raises \<open>ZeroDivisionError\<close>.
\<close>

theorem zero_rate_override_raises:
  assumes "override_callbacks env = Some (cb # cbs)"
    and "cb (user_id_of rq) (limiter_name l) = Inr (Some \<lparr>mo_per_second = 0, mo_burst_count = b\<rparr>)"
    and "\<not> exempt env (Some rq)" and "get_key (Some rq) key = Inr k"
    and "dget (actions l) k = None" and "n \<le> b"
  shows "can_do_action env clock l (Some rq) key rate burst True n time_now = Inl PyZeroDivisionError"
proof -
  have "dget_default (actions l) k v = v" for v
    using assms(5) by (simp add: dget_default_def dget_def)
  then show ?thesis
    using assms
    by (simp add: can_do_action_def effective_limits_def module_limits_def bucket_check_def leaked_def
        get_action_counts_def record_action_inner_zero)
qed

theorem zero_rate_override_raises_witness:
  "can_do_action (no_overrides\<lparr>override_callbacks
        := Some [\<lambda>_ _. Inr (Some \<lparr>mo_per_second = 0, mo_burst_count = 5\<rparr>)]\<rparr>) 0
     (new_limiter sample_cfg) (Some sample_requester) None None None True 1 None = Inl PyZeroDivisionError"
  by (rule zero_rate_override_raises [where b = 5 and k = "KStr ''@u:s''"])
    (simp_all add: exempt_def get_key_def get_ratelimit_for_user_def dget_def new_limiter_def
      sample_requester_def user_id_of_def to_string_def USER_SIGIL_def)

end
