(* ===== verification/Redaction.thy ===== *)
theory Redaction
  imports Event_Auth_Props
begin

text \<open>
  Redaction of events (\<open>prune_event_dict\<close> and \<open>prune_event\<close> of \<open>synapse/events/utils.py\<close>) and the
  reference hash that gives an event its id (\<open>synapse/crypto/event_signing.py\<close> and
  \<open>synapse/events/__init__.py\<close>).

  An event that reaches this code has passed validation: its content is an object. For a create
  event of a version that protects relations and has the updated rules the source would write
  into the content of the original event; no room version has both flags.

  The encoding of a dictionary as canonical JSON, the hash of the bytes and the two base64
  alphabets are library code and enter as parameters.
\<close>

section \<open>Redaction\<close>

text \<open>\<open>add_fields(*fields)\<close>.\<close>

definition add_field :: "jdict \<Rightarrow> string \<Rightarrow> jdict \<Rightarrow> jdict" where
  "add_field content field new_content = (case dget content field of
      Some v \<Rightarrow> dset new_content field v | None \<Rightarrow> new_content)"

definition add_fields :: "jdict \<Rightarrow> string list \<Rightarrow> jdict \<Rightarrow> jdict" where
  "add_fields content names new_content = fold (add_field content) names new_content"

definition keep_third_party_invite :: "jdict \<Rightarrow> jdict \<Rightarrow> jdict" where
  "keep_third_party_invite content new_content = (case dget content ''third_party_invite'' of
      Some (JObj tpi) \<Rightarrow> dset new_content ''third_party_invite'' (JObj (add_field tpi ''signed'' []))
    | _ \<Rightarrow> new_content)"

definition keep_relates_to :: "jdict \<Rightarrow> jdict \<Rightarrow> jdict" where
  "keep_relates_to content new_content = (case dget content ''m.relates_to'' of
      Some (JObj relates_to) \<Rightarrow>
        (let new_relates_to = add_fields relates_to [''rel_type'', ''event_id''] []
         in if new_relates_to \<noteq> [] then dset new_content ''m.relates_to'' (JObj new_relates_to)
            else new_content)
    | _ \<Rightarrow> new_content)"

definition power_level_fields :: "string list" where
  "power_level_fields = [''users'', ''users_default'', ''events'', ''events_default'',
     ''state_default'', ''ban'', ''kick'', ''redact'']"

text \<open>The fields that are kept, by the type of the event.\<close>

definition kept_fields :: "room_version \<Rightarrow> json \<Rightarrow> jdict \<Rightarrow> jdict" where
  "kept_fields rv event_type content =
     (if event_type = JStr EventTypes_Member then
        (let nc = add_fields content [''membership''] [];
             nc = (if restricted_join_rule_fix rv then add_fields content [AUTHORISING_USER] nc else nc)
         in if updated_redaction_rules rv then keep_third_party_invite content nc else nc)
      else if event_type = JStr EventTypes_Create then
        (let nc = (if updated_redaction_rules rv then content else [])
         in if \<not> implicit_room_creator rv then add_fields content [''creator''] nc else nc)
      else if event_type = JStr EventTypes_JoinRules then
        (let nc = add_fields content [''join_rule''] []
         in if restricted_join_rule rv then add_fields content [''allow''] nc else nc)
      else if event_type = JStr EventTypes_PowerLevels then
        (let nc = add_fields content power_level_fields []
         in if updated_redaction_rules rv then add_fields content [''invite''] nc else nc)
      else if event_type = JStr EventTypes_Aliases \<and> special_case_aliases_auth rv then
        add_fields content [''aliases''] []
      else if event_type = JStr EventTypes_RoomHistoryVisibility then
        add_fields content [''history_visibility''] []
      else if event_type = JStr EventTypes_Redaction \<and> updated_redaction_rules rv then
        add_fields content [''redacts''] []
      else [])"

definition prune_content :: "room_version \<Rightarrow> json \<Rightarrow> jdict \<Rightarrow> jdict" where
  "prune_content rv event_type content =
     (let new_content = kept_fields rv event_type content
      in if msc3389_relation_redactions rv then keep_relates_to content new_content else new_content)"

definition allowed_keys :: "room_version \<Rightarrow> json \<Rightarrow> string list" where
  "allowed_keys rv event_type =
     filter (\<lambda>k. \<not> (event_type = JStr EventTypes_Create \<and> msc4291_room_ids_as_hashes rv \<and> k = ''room_id''))
       ([''event_id'', ''sender'', ''room_id'', ''hashes'', ''signatures'', ''content'', ''type'',
         ''state_key'', ''depth'', ''prev_events'', ''auth_events'', ''origin_server_ts'']
        @ (if updated_redaction_rules rv then [] else [''prev_state'', ''membership'', ''origin'']))"

text \<open>A field of a dictionary that is itself a dictionary.\<close>

definition dict_field :: "jdict \<Rightarrow> string \<Rightarrow> jdict res" where
  "dict_field d k = rbind (dindex d k) (\<lambda>v. case v of JObj o' \<Rightarrow> Inr o' | _ \<Rightarrow> Inl PyTypeError)"

definition prune_event_dict :: "room_version \<Rightarrow> jdict \<Rightarrow> jdict res" where
  "prune_event_dict rv event_dict =
     rbind (dindex event_dict ''type'') (\<lambda>event_type.
     rbind (dict_field event_dict ''content'') (\<lambda>content.
     rbind (if dhas event_dict ''unsigned'' then dict_field event_dict ''unsigned'' else Inr [])
       (\<lambda>event_unsigned.
     let allowed_fields = filter (\<lambda>(k, v). k \<in> set (allowed_keys rv event_type)) event_dict;
         unsigned = add_fields event_unsigned [''age_ts'', ''replaces_state''] []
     in Inr (dset (dset allowed_fields ''content'' (JObj (prune_content rv event_type content)))
               ''unsigned'' (JObj unsigned)))))"

text \<open>
  \<open>prune_event\<close> on the view of an event that the rest of the development uses: the new event is
  built from the pruned dictionary, which has no top-level \<open>redacts\<close>, and is not marked as rejected.
\<close>

definition prune_event :: "event \<Rightarrow> event" where
  "prune_event e = e\<lparr>ev_content := prune_content (ev_room_version e) (JStr (ev_type e)) (ev_content e),
     ev_has_room_id := (ev_has_room_id e
        \<and> \<not> (ev_type e = EventTypes_Create \<and> msc4291_room_ids_as_hashes (ev_room_version e))),
     ev_redacts_field := JNull, ev_rejected_reason := None\<rparr>"

section \<open>The reference hash\<close>

text \<open>\<open>d.pop(k, None)\<close>.\<close>

definition dpop :: "string \<Rightarrow> jdict \<Rightarrow> jdict" where
  "dpop k d = AList.delete k d"

text \<open>What is hashed; \<open>d\<close> is the dictionary of the event, of which the pruned event is made.\<close>

definition reference_input :: "room_version \<Rightarrow> jdict \<Rightarrow> jdict res" where
  "reference_input rv d = rbind (prune_event_dict rv d) (\<lambda>p.
     if event_format rv = ROOM_V1_V2 \<and> \<not> dhas p ''event_id'' then Inl PyKeyError
     else if event_format rv \<noteq> ROOM_V1_V2 \<and> dhas p ''event_id'' then Inl PyAssertionError
     else Inr (dpop ''unsigned'' (dpop ''age_ts'' (dpop ''signatures'' p))))"

record hash_ext =
  hx_canonical_sha256 :: "jdict \<Rightarrow> string"
  hx_base64 :: "string \<Rightarrow> string"
  hx_base64_urlsafe :: "string \<Rightarrow> string"

definition compute_event_reference_hash :: "hash_ext \<Rightarrow> room_version \<Rightarrow> jdict \<Rightarrow> string res" where
  "compute_event_reference_hash hx rv d =
     rbind (reference_input rv d) (\<lambda>p. Inr (hx_canonical_sha256 hx p))"

text \<open>The property \<open>event_id\<close> of the event classes.\<close>

definition event_id_of :: "hash_ext \<Rightarrow> room_version \<Rightarrow> jdict \<Rightarrow> json res" where
  "event_id_of hx rv d = (case event_format rv of
      ROOM_V1_V2 \<Rightarrow> dindex d ''event_id''
    | ROOM_V3 \<Rightarrow> rbind (compute_event_reference_hash hx rv d) (\<lambda>h.
        Inr (JStr (''$'' @ hx_base64 hx h)))
    | _ \<Rightarrow> rbind (compute_event_reference_hash hx rv d) (\<lambda>h.
        Inr (JStr (''$'' @ hx_base64_urlsafe hx h))))"

section \<open>The fields of a redacted content\<close>

lemma dget_add_field:
  "dget (add_field c f nc) k = (if k = f \<and> dget c f \<noteq> None then dget c f else dget nc k)"
  by (auto simp: add_field_def dget_dset split: option.splits)

lemma dget_add_fields:
  "dget (add_fields c fs nc) k = (if k \<in> set fs \<and> dget c k \<noteq> None then dget c k else dget nc k)"
  unfolding add_fields_def
  by (induction fs arbitrary: nc) (auto simp: dget_add_field)

lemma add_fields_Nil [simp]: "add_fields c [] nc = nc"
  by (simp add: add_fields_def)

lemma dget_keep_third_party_invite:
  "k \<noteq> ''third_party_invite'' \<Longrightarrow> dget (keep_third_party_invite c nc) k = dget nc k"
  by (simp add: keep_third_party_invite_def dget_dset split: option.splits json.splits)

lemma dget_keep_relates_to:
  "k \<noteq> ''m.relates_to'' \<Longrightarrow> dget (keep_relates_to c nc) k = dget nc k"
  by (simp add: keep_relates_to_def dget_dset Let_def split: option.splits json.splits)

lemma dget_relates_if:
  "k \<noteq> ''m.relates_to'' \<Longrightarrow> dget (if b then keep_relates_to c nc else nc) k = dget nc k"
  by (simp add: dget_keep_relates_to)

lemma prune_content_member:
  "dget (prune_content rv (JStr EventTypes_Member) c) ''membership'' = dget c ''membership''"
  by (cases "dget c ''membership''")
    (simp_all add: prune_content_def kept_fields_def Let_def dget_relates_if dget_add_fields
      dget_keep_third_party_invite AUTHORISING_USER_def dget_def [of "[]"])

lemma prune_content_join_rules:
  "dget (prune_content rv (JStr EventTypes_JoinRules) c) ''join_rule'' = dget c ''join_rule''"
  by (cases "dget c ''join_rule''")
    (simp_all add: prune_content_def kept_fields_def Let_def dget_relates_if dget_add_fields dget_def [of "[]"])

lemma prune_content_power_levels:
  assumes "k \<in> set power_level_fields \<or> updated_redaction_rules rv \<and> k = ''invite''"
  shows "dget (prune_content rv (JStr EventTypes_PowerLevels) c) k = dget c k"
proof -
  have k: "k \<noteq> ''m.relates_to''" using assms by (auto simp: power_level_fields_def)
  show ?thesis
    using assms
    by (cases "dget c k")
      (auto simp: prune_content_def kept_fields_def Let_def dget_relates_if [OF k] dget_add_fields dget_def [of "[]"])
qed

lemma prune_content_create:
  assumes "updated_redaction_rules rv" and "k \<noteq> ''m.relates_to''"
  shows "dget (prune_content rv (JStr EventTypes_Create) c) k = dget c k"
  using assms by (simp add: prune_content_def kept_fields_def Let_def dget_relates_if dget_add_fields)

section \<open>Redaction does not change authorisation\<close>

definition prune_state :: "auth_map \<Rightarrow> auth_map" where
  "prune_state a k = map_option prune_event (a k)"

text \<open>Every entry of a state map stands under its own type.\<close>

definition typed_state :: "auth_map \<Rightarrow> bool" where
  "typed_state a \<longleftrightarrow> (\<forall>k e. a k = Some e \<longrightarrow> ev_type e = fst k \<and> updated_redaction_rules (ev_room_version e))"

lemma prune_event_simps [simp]:
  "ev_sender (prune_event e) = ev_sender e" "ev_event_id (prune_event e) = ev_event_id e"
  "ev_type (prune_event e) = ev_type e" "ev_room_version (prune_event e) = ev_room_version e"
  "ev_state_key (prune_event e) = ev_state_key e"
  "ev_content (prune_event e) = prune_content (ev_room_version e) (JStr (ev_type e)) (ev_content e)"
  by (simp_all add: prune_event_def)

text \<open>Accessors of a dictionary see only the value of their key.\<close>

lemma field_access_cong:
  assumes "map_of c k = map_of c' k"
  shows "dget_dict c k = dget_dict c' k" and "dindex c k = dindex c' k"
    and "dget_default c k v = dget_default c' k v" and "dget_none c k = dget_none c' k"
    and "dget c k = dget c' k"
  using assms by (simp_all add: dget_dict_def dindex_def dget_default_def dget_none_def dget_def)

lemma power_event_fields:
  assumes "typed_state a" and "a POWER_KEY = Some e" and "k \<in> set (''invite'' # power_level_fields)"
  shows "map_of (ev_content (prune_event e)) k = map_of (ev_content e) k"
proof -
  have "ev_type e = EventTypes_PowerLevels" "updated_redaction_rules (ev_room_version e)"
    using assms(1,2) by (auto simp: typed_state_def POWER_KEY_def)
  then show ?thesis
    using prune_content_power_levels [of k "ev_room_version e" "ev_content e"] assms(3)
    by (auto simp: dget_def)
qed

lemma create_event_fields:
  assumes "typed_state a" and "a CREATE_KEY = Some e" and "k \<noteq> ''m.relates_to''"
  shows "map_of (ev_content (prune_event e)) k = map_of (ev_content e) k"
proof -
  have "ev_type e = EventTypes_Create" "updated_redaction_rules (ev_room_version e)"
    using assms(1,2) by (auto simp: typed_state_def CREATE_KEY_def)
  then show ?thesis
    using prune_content_create [of "ev_room_version e" k "ev_content e"] assms(3) by (simp add: dget_def)
qed

lemma is_creator_prune:
  assumes "typed_state a" and "a CREATE_KEY = Some e"
  shows "is_creator (prune_event e) u = is_creator e u"
proof -
  have "ADDITIONAL_CREATORS \<noteq> ''m.relates_to''" by (simp add: ADDITIONAL_CREATORS_def)
  note field_access_cong(3) [OF create_event_fields [OF assms this]]
  then show ?thesis by (simp add: is_creator_def del: prune_event_simps(6))
qed

lemma get_user_power_level_prune:
  assumes "typed_state a"
  shows "get_user_power_level u (prune_state a) = get_user_power_level u a"
proof (cases "a CREATE_KEY")
  case None
  then show ?thesis by (simp add: get_user_power_level_def prune_state_def)
next
  case (Some c)
  have "ROOM_CREATOR \<noteq> ''m.relates_to''" by (simp add: ROOM_CREATOR_def)
  note creator = field_access_cong(2) [OF create_event_fields [OF assms Some this]]
  show ?thesis
  proof (cases "a POWER_KEY")
    case None
    with Some creator show ?thesis
      by (simp add: get_user_power_level_def prune_state_def get_power_level_event_def
          is_creator_prune [OF assms Some] del: prune_event_simps(6) cong: branch_congs)
  next
    case p: (Some p)
    have "map_of (ev_content (prune_event p)) k = map_of (ev_content p) k"
      if "k \<in> {''users'', ''users_default''}" for k
      by (rule power_event_fields [OF assms p]) (use that in \<open>auto simp: power_level_fields_def\<close>)
    note access = field_access_cong(1,3) [OF this]
    show ?thesis
      using Some p
      by (simp add: get_user_power_level_def prune_state_def get_power_level_event_def
          is_creator_prune [OF assms Some] access del: prune_event_simps(6) cong: branch_congs)
  qed
qed

lemma get_named_level_prune:
  assumes "typed_state a" and "name \<in> {''invite'', ''ban'', ''kick'', ''redact''}"
  shows "get_named_level (prune_state a) name d = get_named_level a name d"
proof (cases "a POWER_KEY")
  case (Some p)
  have "map_of (ev_content (prune_event p)) name = map_of (ev_content p) name"
    by (rule power_event_fields [OF assms(1) Some]) (use assms(2) in \<open>auto simp: power_level_fields_def\<close>)
  note access = field_access_cong(4) [OF this]
  show ?thesis
    using Some
    by (simp add: get_named_level_def prune_state_def get_power_level_event_def access
        del: prune_event_simps(6))
qed (simp add: get_named_level_def prune_state_def get_power_level_event_def)

lemma get_send_level_prune:
  assumes "typed_state a"
  shows "get_send_level ty sk (get_power_level_event (prune_state a))
    = get_send_level ty sk (get_power_level_event a)"
proof (cases "a POWER_KEY")
  case (Some p)
  have "map_of (ev_content (prune_event p)) k = map_of (ev_content p) k"
    if "k \<in> {''events'', ''events_default'', ''state_default''}" for k
    by (rule power_event_fields [OF assms Some]) (use that in \<open>auto simp: power_level_fields_def\<close>)
  note access = field_access_cong(1,3) [OF this]
  show ?thesis
    using Some
    by (simp add: get_send_level_def prune_state_def get_power_level_event_def access Let_def
        del: prune_event_simps(6) cong: branch_congs)
qed (simp add: get_send_level_def prune_state_def get_power_level_event_def)

lemma member_prune:
  assumes "typed_state a"
  shows "opt_membership (prune_state a (EventTypes_Member, u)) = opt_membership (a (EventTypes_Member, u))"
    and "check_joined_room (prune_state a (EventTypes_Member, u)) = check_joined_room (a (EventTypes_Member, u))"
proof -
  have m: "membership_of (prune_event e) = membership_of e" if "a (EventTypes_Member, u) = Some e" for e
  proof -
    have "ev_type e = EventTypes_Member" using assms that by (auto simp: typed_state_def)
    then show ?thesis
      using prune_content_member [of "ev_room_version e" "ev_content e"]
      by (simp add: membership_of_def dindex_def dget_def)
  qed
  then show "opt_membership (prune_state a (EventTypes_Member, u)) = opt_membership (a (EventTypes_Member, u))"
    and "check_joined_room (prune_state a (EventTypes_Member, u)) = check_joined_room (a (EventTypes_Member, u))"
    by (cases "a (EventTypes_Member, u)",
        simp_all add: prune_state_def opt_membership_def check_joined_room_def)+
qed

lemma can_federate_prune:
  assumes "typed_state a"
  shows "can_federate (prune_state a) = can_federate a"
proof (cases "a CREATE_KEY")
  case (Some c)
  have "FEDERATE \<noteq> ''m.relates_to''" by (simp add: FEDERATE_def)
  note field_access_cong(3) [OF create_event_fields [OF assms Some this]]
  then show ?thesis using Some by (simp add: can_federate_def prune_state_def del: prune_event_simps(6))
qed (simp add: can_federate_def prune_state_def)

lemma is_creator_join_prune:
  assumes "typed_state a"
  shows "is_creator_join rv ev (prune_state a) m = is_creator_join rv ev a m"
proof (cases "a CREATE_KEY")
  case (Some c)
  have "ROOM_CREATOR \<noteq> ''m.relates_to''" by (simp add: ROOM_CREATOR_def)
  note field_access_cong(2) [OF create_event_fields [OF assms Some this]]
  then show ?thesis using Some
    by (simp add: is_creator_join_def prune_state_def del: prune_event_simps(6) split: list.splits)
qed (simp add: is_creator_join_def prune_state_def split: list.splits)

lemma get_member_facts_prune:
  assumes "typed_state a"
  shows "get_member_facts rv ev t (prune_state a) = get_member_facts rv ev t a"
proof -
  have "dget_default (ev_content (prune_event e)) ''join_rule'' v = dget_default (ev_content e) ''join_rule'' v"
    if "a JOIN_RULES_KEY = Some e" for e v
  proof (rule field_access_cong(3))
    have "ev_type e = EventTypes_JoinRules" using assms that by (auto simp: typed_state_def JOIN_RULES_KEY_def)
    then show "map_of (ev_content (prune_event e)) ''join_rule'' = map_of (ev_content e) ''join_rule''"
      using prune_content_join_rules [of "ev_room_version e" "ev_content e"] by (simp add: dget_def)
  qed
  then have jr: "(case prune_state a JOIN_RULES_KEY of
        Some e \<Rightarrow> dget_default (ev_content e) ''join_rule'' (JStr JoinRules_INVITE)
      | None \<Rightarrow> JStr JoinRules_INVITE)
    = (case a JOIN_RULES_KEY of
        Some e \<Rightarrow> dget_default (ev_content e) ''join_rule'' (JStr JoinRules_INVITE)
      | None \<Rightarrow> JStr JoinRules_INVITE)"
    by (simp add: prune_state_def del: prune_event_simps(6) split: option.splits)
  show ?thesis
    unfolding get_member_facts_def jr
    by (simp add: member_prune [OF assms] get_user_power_level_prune [OF assms]
        get_named_level_prune [OF assms])
qed

lemma check_membership_rules_prune:
  assumes "typed_state a" and "\<not> dhas (ev_content ev) ''third_party_invite''"
  shows "check_membership_rules x rv ev t (prune_state a) m f = check_membership_rules x rv ev t a m f"
proof -
  have "check_restricted_join ev (prune_state a) f = check_restricted_join ev a f"
    unfolding check_restricted_join_def member_prune [OF assms(1)] get_user_power_level_prune [OF assms(1)] ..
  then show ?thesis
    using assms(2)
    by (simp add: check_membership_rules_def check_join_rules_def check_leave_rules_def
        get_named_level_prune [OF assms(1)])
qed

text \<open>
  C23: replacing every event of the state by its redaction changes no authorisation decision, in
  room versions with the updated redaction rules: the redaction keeps every field that the rules
  read of the state. Power level changes, which compare the notification levels that a redaction
  drops, and third-party invites, whose keys a redaction revokes, are not covered.
\<close>

theorem redaction_keeps_auth:
  assumes "typed_state a" and "ev_type ev \<noteq> EventTypes_PowerLevels"
    and "\<not> dhas (ev_content ev) ''third_party_invite''"
  shows "check_auth_rules x ev (prune_state a) = check_auth_rules x ev a"
proof -
  note levels = get_user_power_level_prune [OF assms(1)] get_named_level_prune [OF assms(1)]
    get_send_level_prune [OF assms(1)] can_federate_prune [OF assms(1)]
  have create: "prune_state a CREATE_KEY = map_option prune_event (a CREATE_KEY)"
    by (simp add: prune_state_def)
  have member: "is_membership_change_allowed x (ev_room_version ev) ev (prune_state a)
      = is_membership_change_allowed x (ev_room_version ev) ev a"
    unfolding is_membership_change_allowed_def is_creator_join_prune [OF assms(1)]
      get_member_facts_prune [OF assms(1)] check_membership_rules_prune [OF assms(1,3)] levels(4)
    by (cases "a CREATE_KEY") (simp_all add: prune_state_def cong: if_cong)
  have sender: "check_event_sender_in_room ev (prune_state a) = check_event_sender_in_room ev a"
    by (simp add: check_event_sender_in_room_def member_prune [OF assms(1)])
  have send: "can_send_event x ev (prune_state a) = can_send_event x ev a"
    unfolding can_send_event_def levels(1,3) ..
  have redaction: "check_redaction (ev_room_version ev) ev (prune_state a)
      = check_redaction (ev_room_version ev) ev a"
    by (simp add: check_redaction_def levels cong: branch_congs)
  have invite: "get_named_level (prune_state a) ''invite'' d = get_named_level a ''invite'' d" for d
    by (simp add: levels)
  show ?thesis
    unfolding check_auth_rules_def member sender send redaction invite levels(1,4) create
    by (cases "a CREATE_KEY") (simp_all add: assms(2))
qed

definition sample_state_v11 :: auth_map where
  "sample_state_v11 = map_option (\<lambda>e. e\<lparr>ev_room_version := ROOM_VERSION_V11\<rparr>) \<circ> sample_state"

lemma typed_sample_v11: "typed_state sample_state_v11"
  by (auto simp: typed_state_def sample_state_v11_def sample_defs CREATE_KEY_def POWER_KEY_def
      event_type_defs room_version_defs split: if_splits)

theorem redaction_keeps_auth_witness:
  "check_auth_rules sample_ext (sample_event ''$m'' ''m.room.message'' None ''@b:s'' [] [])
       (prune_state sample_state_v11)
   = check_auth_rules sample_ext (sample_event ''$m'' ''m.room.message'' None ''@b:s'' [] [])
       sample_state_v11"
  by (rule redaction_keeps_auth [OF typed_sample_v11])
    (simp_all add: sample_event_def event_type_defs dhas_def)

section \<open>Redaction is idempotent\<close>

text \<open>The fields of a dictionary in a given order.\<close>

definition pick :: "jdict \<Rightarrow> string list \<Rightarrow> jdict" where
  "pick c names = List.map_filter (\<lambda>f. map_option (\<lambda>v. (f, v)) (dget c f)) names"

lemma pick_simps [simp]:
  "pick c [] = []"
  "pick c (f # names) = (case dget c f of Some v \<Rightarrow> (f, v) # pick c names | None \<Rightarrow> pick c names)"
  by (simp_all add: pick_def map_filter_simps split: option.splits)

lemma pick_append [simp]: "pick c (a @ b) = pick c a @ pick c b"
  by (induction a) (simp_all split: option.splits)

lemma pick_cong: "(\<And>f. f \<in> set names \<Longrightarrow> dget c f = dget c' f) \<Longrightarrow> pick c names = pick c' names"
  by (induction names) (simp_all split: option.splits)

lemma keys_pick: "fst ` set (pick c names) \<subseteq> set names"
  by (induction names) (auto split: option.splits)

lemma add_fields_pick:
  assumes "distinct names" and "set names \<inter> fst ` set nc = {}"
  shows "add_fields c names nc = nc @ pick c names"
  using assms
proof (induction names arbitrary: nc)
  case (Cons f names)
  have step: "add_fields c (f # names) nc = add_fields c names (add_field c f nc)"
    by (simp add: add_fields_def)
  show ?case
  proof (cases "dget c f")
    case None
    then show ?thesis using Cons by (simp add: step add_field_def)
  next
    case (Some v)
    then have "add_field c f nc = nc @ [(f, v)]"
      using Cons.prems by (auto simp: add_field_def dset_fresh)
    then show ?thesis using Cons.IH [of "nc @ [(f, v)]"] Cons.prems Some by (simp add: step)
  qed
qed simp

lemma dget_append: "dget (a @ b) k = (case dget a k of Some v \<Rightarrow> Some v | None \<Rightarrow> dget b k)"
  by (simp add: dget_def map_add_def split: option.splits)

lemma dget_Nil [simp]: "dget [] k = None"
  by (simp add: dget_def)

lemma dget_notin: "k \<notin> fst ` set d \<Longrightarrow> dget d k = None"
  by (simp add: dget_def map_of_eq_None_iff)

lemma dget_pick: "dget (pick c names) k = (if k \<in> set names then dget c k else None)"
  by (induction names) (auto simp: dget_def split: option.splits)

lemma add_field_pick: "add_field c f [] = pick c [f]"
  by (simp add: add_field_def dset_def split: option.splits)

text \<open>The two structured fields, as the entries they add.\<close>

definition third_party_part :: "jdict \<Rightarrow> jdict" where
  "third_party_part c = (case dget c ''third_party_invite'' of
      Some (JObj t) \<Rightarrow> [(''third_party_invite'', JObj (pick t [''signed'']))] | _ \<Rightarrow> [])"

definition relates_part :: "jdict \<Rightarrow> jdict" where
  "relates_part c = (case dget c ''m.relates_to'' of
      Some (JObj r) \<Rightarrow> (let r' = pick r [''rel_type'', ''event_id'']
                        in if r' = [] then [] else [(''m.relates_to'', JObj r')])
    | _ \<Rightarrow> [])"

lemma keep_third_party_append:
  "''third_party_invite'' \<notin> fst ` set nc \<Longrightarrow> keep_third_party_invite c nc = nc @ third_party_part c"
  by (simp add: keep_third_party_invite_def third_party_part_def dset_fresh add_field_pick
      split: option.splits json.splits)

lemma keep_relates_append:
  "''m.relates_to'' \<notin> fst ` set nc \<Longrightarrow> keep_relates_to c nc = nc @ relates_part c"
  by (simp add: keep_relates_to_def relates_part_def dset_fresh add_fields_pick Let_def
      del: pick_simps split: option.splits json.splits)

text \<open>The plain fields that a redaction keeps, when it does not keep the whole content.\<close>

definition kept_names :: "room_version \<Rightarrow> json \<Rightarrow> string list" where
  "kept_names rv ty =
     (if ty = JStr EventTypes_Member then ''membership'' # (if restricted_join_rule_fix rv then [AUTHORISING_USER] else [])
      else if ty = JStr EventTypes_Create then (if implicit_room_creator rv then [] else [''creator''])
      else if ty = JStr EventTypes_JoinRules then ''join_rule'' # (if restricted_join_rule rv then [''allow''] else [])
      else if ty = JStr EventTypes_PowerLevels
      then power_level_fields @ (if updated_redaction_rules rv then [''invite''] else [])
      else if ty = JStr EventTypes_Aliases \<and> special_case_aliases_auth rv then [''aliases'']
      else if ty = JStr EventTypes_RoomHistoryVisibility then [''history_visibility'']
      else if ty = JStr EventTypes_Redaction \<and> updated_redaction_rules rv then [''redacts'']
      else [])"

lemma kept_names_fresh:
  "''third_party_invite'' \<notin> set (kept_names rv ty)" "''m.relates_to'' \<notin> set (kept_names rv ty)"
  by (auto simp: kept_names_def power_level_fields_def AUTHORISING_USER_def)

lemma keys_third_party_part: "fst ` set (third_party_part c) \<subseteq> {''third_party_invite''}"
  by (auto simp: third_party_part_def split: option.splits json.splits)

lemma keys_relates_part: "fst ` set (relates_part c) \<subseteq> {''m.relates_to''}"
  by (auto simp: relates_part_def Let_def split: option.splits json.splits if_splits)

lemma distinct_kept_names: "distinct (kept_names rv ty)"
  by (simp add: kept_names_def power_level_fields_def AUTHORISING_USER_def)

lemma add_fields_append:
  assumes "distinct (as @ bs)"
  shows "add_fields c bs (pick c as) = pick c (as @ bs)"
proof -
  have "set bs \<inter> fst ` set (pick c as) = {}" using assms keys_pick [of c as] by auto
  then show ?thesis using assms by (simp add: add_fields_pick)
qed

lemma kept_fields_shape:
  assumes "\<not> (ty = JStr EventTypes_Create \<and> updated_redaction_rules rv)"
  shows "kept_fields rv ty c = pick c (kept_names rv ty)
     @ (if ty = JStr EventTypes_Member \<and> updated_redaction_rules rv then third_party_part c else [])"
proof -
  have names: "add_fields c ns [] = pick c ns" if "distinct ns" for ns
    using add_fields_pick [OF that, of "[]" c] by simp
  have third: "keep_third_party_invite c (pick c (kept_names rv ty))
      = pick c (kept_names rv ty) @ third_party_part c"
    by (rule keep_third_party_append) (use keys_pick [of c "kept_names rv ty"] kept_names_fresh in blast)
  note simps = kept_fields_def kept_names_def Let_def names add_fields_append
  consider "ty = JStr EventTypes_Member" | "ty = JStr EventTypes_Create" | "ty = JStr EventTypes_JoinRules"
    | "ty = JStr EventTypes_PowerLevels"
    | "ty \<notin> JStr ` {EventTypes_Member, EventTypes_Create, EventTypes_JoinRules, EventTypes_PowerLevels}"
    by blast
  then show ?thesis
  proof cases
    case 1
    then have names': "pick c (kept_names rv ty)
        = (let nc = add_fields c [''membership''] []
           in if restricted_join_rule_fix rv then add_fields c [AUTHORISING_USER] nc else nc)"
      by (simp add: simps AUTHORISING_USER_def del: pick_simps pick_append)
    show ?thesis
      using 1 third unfolding names' by (simp add: kept_fields_def Let_def)
  next
    case 4
    then show ?thesis
      by (simp add: simps power_level_fields_def del: pick_simps pick_append)
  next
    case 5
    then show ?thesis by (auto simp: simps simp del: pick_simps(2) pick_append)
  qed (use assms in \<open>simp_all add: simps del: pick_simps(2) pick_append\<close>)
qed

lemma prune_content_shape:
  assumes "\<not> (ty = JStr EventTypes_Create \<and> updated_redaction_rules rv)"
  shows "prune_content rv ty c = kept_fields rv ty c
     @ (if msc3389_relation_redactions rv then relates_part c else [])"
proof -
  have "keep_relates_to c (kept_fields rv ty c) = kept_fields rv ty c @ relates_part c"
    unfolding kept_fields_shape [OF assms]
    by (rule keep_relates_append)
      (use keys_pick [of c "kept_names rv ty"] kept_names_fresh keys_third_party_part [of c] in auto)
  then show ?thesis by (simp add: prune_content_def)
qed

lemma third_party_again:
  assumes "dget d ''third_party_invite'' = dget (third_party_part c) ''third_party_invite''"
  shows "third_party_part d = third_party_part c"
proof -
  have "pick (pick t [''signed'']) [''signed''] = pick t [''signed'']" for t
    by (rule pick_cong) (simp add: dget_pick del: pick_simps)
  then show ?thesis
    using assms unfolding third_party_part_def
    by (auto simp: dget_def [of "[]"] dget_def [of "[_]"] simp del: pick_simps split: option.splits json.splits)
qed

lemma relates_again:
  assumes "dget d ''m.relates_to'' = dget (relates_part c) ''m.relates_to''"
  shows "relates_part d = relates_part c"
proof -
  have "pick (pick t [''rel_type'', ''event_id'']) [''rel_type'', ''event_id''] = pick t [''rel_type'', ''event_id'']" for t
    by (rule pick_cong) (simp add: dget_pick del: pick_simps)
  then show ?thesis
    using assms unfolding relates_part_def
    by (auto simp: dget_def [of "[]"] dget_def [of "[_]"] Let_def simp del: pick_simps
        split: option.splits json.splits if_splits)
qed

lemma dset_same: "dget d k = Some v \<Longrightarrow> dset d k v = d"
  unfolding dset_def dget_def by (induction d) (auto split: if_splits)

lemma prune_content_idem:
  assumes "\<not> (updated_redaction_rules rv \<and> msc3389_relation_redactions rv)"
  shows "prune_content rv ty (prune_content rv ty c) = prune_content rv ty c"
proof (cases "ty = JStr EventTypes_Create \<and> updated_redaction_rules rv")
  case True
  have "add_fields d [''creator''] d = d" for d
    by (auto simp: add_fields_def add_field_def dset_same split: option.splits)
  then show ?thesis using True assms by (simp add: prune_content_def kept_fields_def Let_def)
next
  case False
  let ?n = "kept_names rv ty"
  let ?t = "if ty = JStr EventTypes_Member \<and> updated_redaction_rules rv then third_party_part c else []"
  let ?r = "if msc3389_relation_redactions rv then relates_part c else []"
  note shape = prune_content_shape [OF False] kept_fields_shape [OF False]
  define p where "p = pick c ?n @ ?t @ ?r"
  have p: "prune_content rv ty c = p" unfolding shape p_def by simp
  have t_keys: "dget ?t k = None" if "k \<noteq> ''third_party_invite''" for k
    by (rule dget_notin) (use keys_third_party_part [of c] that in auto)
  have r_keys: "dget ?r k = None" if "k \<noteq> ''m.relates_to''" for k
    by (rule dget_notin) (use keys_relates_part [of c] that in auto)
  have other: "dget (third_party_part c) ''m.relates_to'' = None" "dget (relates_part c) ''third_party_invite'' = None"
    by (rule dget_notin, use keys_third_party_part [of c] keys_relates_part [of c] in auto)+
  have n_keys: "dget (pick c ?n) k = None" if "k \<in> {''third_party_invite'', ''m.relates_to''}" for k
    using that kept_names_fresh [of rv ty] by (auto simp: dget_pick)
  have "dget p k = dget c k" if k: "k \<in> set ?n" for k
  proof -
    have fresh: "k \<noteq> ''third_party_invite''" "k \<noteq> ''m.relates_to''" using k kept_names_fresh [of rv ty] by auto
    show ?thesis
      using t_keys [OF fresh(1)] r_keys [OF fresh(2)] k
      by (cases "dget c k") (simp_all only: p_def dget_append dget_pick if_True option.case)
  qed
  then have "pick p ?n = pick c ?n" by (rule pick_cong)
  moreover have "third_party_part p = third_party_part c" if "ty = JStr EventTypes_Member \<and> updated_redaction_rules rv"
    by (rule third_party_again)
      (use that n_keys other in
        \<open>auto simp: p_def dget_append split: option.splits\<close>)
  moreover have "relates_part p = relates_part c" if "msc3389_relation_redactions rv"
    by (rule relates_again)
      (use that n_keys other in
        \<open>auto simp: p_def dget_append split: option.splits\<close>)
  ultimately have "prune_content rv ty p = p" unfolding shape p_def [symmetric] by (simp add: p_def)
  then show ?thesis unfolding p .
qed

lemma map_of_filter_keys: "map_of (filter (\<lambda>(k, v). P k) d) k = (if P k then map_of d k else None)"
  by (induction d) auto

lemma filter_dset:
  "filter (\<lambda>(k, v). P k) (dset d k v) = (if P k then dset (filter (\<lambda>(k, v). P k) d) k v else filter (\<lambda>(k, v). P k) d)"
  unfolding dset_def by (induction d) auto

lemma dset_dset: "dset (dset d k v) k w = dset d k w"
  unfolding dset_def by (induction d) auto

lemma allowed_keys_facts:
  "''content'' \<in> set (allowed_keys rv ty)" "''unsigned'' \<notin> set (allowed_keys rv ty)"
  "''type'' \<in> set (allowed_keys rv ty)" "''age_ts'' \<notin> set (allowed_keys rv ty)"
  by (auto simp: allowed_keys_def)

text \<open>The parts of a pruned dictionary.\<close>

lemma prune_event_dictE:
  assumes "prune_event_dict rv d = Inr p"
  obtains ty c u where "dindex d ''type'' = Inr ty" and "dict_field d ''content'' = Inr c"
    and "p = dset (dset (filter (\<lambda>(k, v). k \<in> set (allowed_keys rv ty)) d) ''content''
               (JObj (prune_content rv ty c))) ''unsigned'' (JObj (pick u [''age_ts'', ''replaces_state'']))"
proof -
  have u: "add_fields u [''age_ts'', ''replaces_state''] [] = pick u [''age_ts'', ''replaces_state'']" for u
    using add_fields_pick [of "[''age_ts'', ''replaces_state'']" "[]" u] by (simp del: pick_simps(2))
  show thesis
    using assms that unfolding prune_event_dict_def
    by (auto simp: rbind_Inr_iff Let_def u simp del: pick_simps(2) split: if_splits)
qed

lemma prune_event_dict_idem:
  assumes "\<not> (updated_redaction_rules rv \<and> msc3389_relation_redactions rv)"
    and "prune_event_dict rv d = Inr p"
  shows "prune_event_dict rv p = Inr p"
proof -
  obtain ty c u where ty: "dindex d ''type'' = Inr ty" and c: "dict_field d ''content'' = Inr c"
    and p: "p = dset (dset (filter (\<lambda>(k, v). k \<in> set (allowed_keys rv ty)) d) ''content''
               (JObj (prune_content rv ty c))) ''unsigned'' (JObj (pick u [''age_ts'', ''replaces_state'']))"
    by (rule prune_event_dictE [OF assms(2)])
  let ?f = "filter (\<lambda>(k, v). k \<in> set (allowed_keys rv ty)) :: jdict \<Rightarrow> jdict"
  let ?us = "[''age_ts'', ''replaces_state'']"
  have ty': "dindex p ''type'' = Inr ty"
    using ty by (simp add: p dindex_def map_of_filter_keys allowed_keys_facts)
  have c': "dict_field p ''content'' = Inr (prune_content rv ty c)"
    by (simp add: p dict_field_def dindex_def del: pick_simps(2))
  have u': "dhas p ''unsigned''" "dict_field p ''unsigned'' = Inr (pick u ?us)"
    by (simp_all add: p dhas_def dict_field_def dindex_def del: pick_simps(2))
  have "pick (pick u ?us) ?us = pick u ?us" by (rule pick_cong) (simp add: dget_pick del: pick_simps)
  then have unsigned: "add_fields (pick u ?us) ?us [] = pick u ?us"
    using add_fields_pick [of ?us "[]" "pick u ?us"] by (simp del: pick_simps(2))
  have "?f p = dset (?f d) ''content'' (JObj (prune_content rv ty c))"
    by (simp add: p filter_dset allowed_keys_facts)
  then show ?thesis
    unfolding prune_event_dict_def
    by (simp add: ty' c' u' unsigned dset_dset prune_content_idem [OF assms(1)] del: pick_simps(2))
      (simp add: p dset_dset del: pick_simps(2))
qed

lemma known_versions_redaction:
  "rv \<in> set KNOWN_ROOM_VERSIONS \<Longrightarrow> \<not> (updated_redaction_rules rv \<and> msc3389_relation_redactions rv)"
  by (auto simp: KNOWN_ROOM_VERSIONS_def room_version_defs)

text \<open>
  Redacting an event twice is the same as redacting it once, in every known room version.
\<close>

theorem redaction_idempotent:
  assumes "rv \<in> set KNOWN_ROOM_VERSIONS" and "prune_event_dict rv d = Inr p"
  shows "prune_event_dict rv p = Inr p"
  using known_versions_redaction [OF assms(1)] assms(2) by (rule prune_event_dict_idem)

text \<open>
  C29: an event keeps its id when it is redacted: the reference hash is the hash of the redacted
  event, and the id of the early room versions is among the fields that are kept.
\<close>

theorem redaction_keeps_event_id:
  assumes "rv \<in> set KNOWN_ROOM_VERSIONS" and "prune_event_dict rv d = Inr p"
  shows "event_id_of hx rv p = event_id_of hx rv d"
proof -
  have idem: "prune_event_dict rv p = Inr p"
    by (rule prune_event_dict_idem [OF known_versions_redaction [OF assms(1)] assms(2)])
  obtain ty c u where p: "p = dset (dset (filter (\<lambda>(k, v). k \<in> set (allowed_keys rv ty)) d) ''content''
               (JObj (prune_content rv ty c))) ''unsigned'' (JObj (pick u [''age_ts'', ''replaces_state'']))"
    by (rule prune_event_dictE [OF assms(2)])
  have "''event_id'' \<in> set (allowed_keys rv ty)" by (simp add: allowed_keys_def)
  then have "dindex p ''event_id'' = dindex d ''event_id''"
    by (simp add: p dindex_def map_of_filter_keys)
  then show ?thesis
    by (simp add: event_id_of_def compute_event_reference_hash_def reference_input_def idem assms(2)
        split: event_format.splits)
qed

section \<open>Instances\<close>

definition sample_pdu :: jdict where
  "sample_pdu = [(''type'', JStr EventTypes_Member), (''sender'', JStr ''@a:s''), (''state_key'', JStr ''@a:s''),
     (''redacts'', JStr ''$x''),
     (''content'', JObj [(''displayname'', JStr ''A''), (''membership'', JStr ''join'')]),
     (''signatures'', JObj []), (''unsigned'', JObj [(''age_ts'', JInt 7), (''prev_content'', JObj [])])]"

definition sample_pruned_pdu :: jdict where
  "sample_pruned_pdu = [(''type'', JStr EventTypes_Member), (''sender'', JStr ''@a:s''),
     (''state_key'', JStr ''@a:s''), (''content'', JObj [(''membership'', JStr ''join'')]),
     (''signatures'', JObj []), (''unsigned'', JObj [(''age_ts'', JInt 7)])]"

definition sample_hash :: hash_ext where
  "sample_hash = \<lparr>hx_canonical_sha256 = concat \<circ> map fst, hx_base64 = id, hx_base64_urlsafe = id\<rparr>"

lemma sample_pruned: "prune_event_dict ROOM_VERSION_V11 sample_pdu = Inr sample_pruned_pdu"
  by code_simp

lemma v11_known: "ROOM_VERSION_V11 \<in> set KNOWN_ROOM_VERSIONS"
  by (simp add: KNOWN_ROOM_VERSIONS_def)

theorem redaction_idempotent_witness:
  "prune_event_dict ROOM_VERSION_V11 sample_pruned_pdu = Inr sample_pruned_pdu"
  by (rule redaction_idempotent [OF v11_known sample_pruned])

theorem redaction_keeps_event_id_witness:
  "event_id_of sample_hash ROOM_VERSION_V11 sample_pruned_pdu = event_id_of sample_hash ROOM_VERSION_V11 sample_pdu"
  by (rule redaction_keeps_event_id [OF v11_known sample_pruned])

end
