(* ===== verification/Visibility.thy ===== *)
theory Visibility
  imports Redaction
begin

text \<open>
  Who may see an event: \<open>synapse/visibility.py\<close>, with the decision about other servers that it
  calls (\<open>rust/src/events/filter.rs\<close>).

  An event comes with the parts of \<open>unsigned\<close> and \<open>internal_metadata\<close> that are read here. The
  reads of the database are fields of \<open>vis_store\<close>: the state after an event (which the code asks
  for with a filter on the entries it needs), the ignored users, the erased users, the retention
  policies, the settings of server admins. Logging is left out.
\<close>

section \<open>Data\<close>

definition HistoryVisibility_INVITED :: string where "HistoryVisibility_INVITED = ''invited''"
definition HistoryVisibility_JOINED :: string where "HistoryVisibility_JOINED = ''joined''"
definition HistoryVisibility_SHARED :: string where "HistoryVisibility_SHARED = ''shared''"
definition HistoryVisibility_WORLD_READABLE :: string where
  "HistoryVisibility_WORLD_READABLE = ''world_readable''"

definition EventTypes_Dummy :: string where "EventTypes_Dummy = ''org.matrix.dummy_event''"
definition EventTypes_CallInvite :: string where "EventTypes_CallInvite = ''m.call.invite''"

definition VISIBILITY_PRIORITY :: "string list" where
  "VISIBILITY_PRIORITY = [HistoryVisibility_WORLD_READABLE, HistoryVisibility_SHARED,
     HistoryVisibility_INVITED, HistoryVisibility_JOINED]"

definition MEMBERSHIP_PRIORITY :: "string list" where
  "MEMBERSHIP_PRIORITY = [Membership_JOIN, Membership_INVITE, Membership_KNOCK, Membership_LEAVE,
     Membership_BAN]"

definition HISTORY_VIS_KEY :: state_key where
  "HISTORY_VIS_KEY = (EventTypes_RoomHistoryVisibility, '''')"

record vevent =
  ve_event :: event
  ve_unsigned :: jdict
  ve_outlier :: bool
  ve_soft_failed :: bool
  ve_policy_server_spammy :: bool
  ve_sticky :: json

text \<open>\<open>prune_event\<close> with the \<open>unsigned\<close> part; the sticky field is not among the fields that are kept.\<close>

definition prune_vevent :: "vevent \<Rightarrow> vevent" where
  "prune_vevent v = v\<lparr>ve_event := prune_event (ve_event v),
     ve_unsigned := add_fields (ve_unsigned v) [''age_ts'', ''replaces_state''] [], ve_sticky := JNull\<rparr>"

record vis_store =
  vs_state_after :: "string \<Rightarrow> auth_map"
  vs_ignored_users :: "string \<Rightarrow> string list"
  vs_ignored_by :: "string \<Rightarrow> string list"
  vs_erased_users :: "string list"
  vs_max_lifetime :: "string \<Rightarrow> int option"
  vs_time_msec :: int
  vs_server_admins :: "string list"
  vs_return_soft_failed :: "string \<Rightarrow> bool"
  vs_return_spammy :: "string \<Rightarrow> bool"
  vs_msc4354_enabled :: bool
  vs_partial_state_rooms :: "string list"

section \<open>The checks\<close>

text \<open>\<open>xs.index(v)\<close>.\<close>

fun py_index :: "'a list \<Rightarrow> 'a \<Rightarrow> nat res" where
  "py_index [] v = Inl PyValueError"
| "py_index (x # xs) v = (if x = v then Inr 0 else rbind (py_index xs v) (\<lambda>i. Inr (Suc i)))"

definition get_effective_room_visibility_from_state :: "auth_map \<Rightarrow> string" where
  "get_effective_room_visibility_from_state state = (case state HISTORY_VIS_KEY of
      None \<Rightarrow> HistoryVisibility_SHARED
    | Some e \<Rightarrow> (case dget_default (ev_content e) ''history_visibility'' (JStr HistoryVisibility_SHARED) of
          JStr v \<Rightarrow> if v \<in> set VISIBILITY_PRIORITY then v else HistoryVisibility_SHARED
        | _ \<Rightarrow> HistoryVisibility_SHARED))"

text \<open>A JSON value as one of the given strings, or a default.\<close>

definition one_of :: "string list \<Rightarrow> string \<Rightarrow> json \<Rightarrow> string" where
  "one_of xs dflt v = (case v of JStr s \<Rightarrow> if s \<in> set xs then s else dflt | _ \<Rightarrow> dflt)"

text \<open>\<open>event.type == EventTypes.Member and event.state_key == user_id\<close>.\<close>

definition own_membership_event :: "string \<Rightarrow> event \<Rightarrow> bool res" where
  "own_membership_event user_id event =
     (if ev_type event = EventTypes_Member then rbind (state_key_of event) (\<lambda>k. Inr (k = user_id))
      else Inr False)"

text \<open>The rule for a membership, once it is known; the pair is \<open>_CheckMembershipReturn(allowed, joined)\<close>.\<close>

definition check_known_membership :: "json \<Rightarrow> string \<Rightarrow> bool \<Rightarrow> bool \<times> bool" where
  "check_known_membership membership visibility is_peeking =
     (if membership = JStr Membership_JOIN then (True, True)
      else if visibility = HistoryVisibility_JOINED then (False, False)
      else if visibility = HistoryVisibility_INVITED then (membership = JStr Membership_INVITE, False)
      else if visibility = HistoryVisibility_SHARED \<and> is_peeking then (False, False)
      else (True, False))"

definition membership_in_state :: "string \<Rightarrow> auth_map \<Rightarrow> json res" where
  "membership_in_state user_id state = (case state (EventTypes_Member, user_id) of
      Some e \<Rightarrow> membership_of e | None \<Rightarrow> Inr JNull)"

definition check_membership ::
    "string \<Rightarrow> vevent \<Rightarrow> string \<Rightarrow> auth_map \<Rightarrow> bool \<Rightarrow> (bool \<times> bool) res" where
  "check_membership user_id v visibility state is_peeking =
     rbind (own_membership_event user_id (ve_event v)) (\<lambda>own.
     if own then
       (let membership = one_of MEMBERSHIP_PRIORITY ''leave'' (dget_none (ev_content (ve_event v)) ''membership'')
        in rbind (dget_dict (ve_unsigned v) ''prev_content'') (\<lambda>prev_content.
           let prev_membership = one_of MEMBERSHIP_PRIORITY ''leave'' (dget_none prev_content ''membership'')
           in if membership = ''leave'' \<and> (prev_membership = ''join'' \<or> prev_membership = ''invite'')
              then Inr (True, False)
              else rbind (py_index MEMBERSHIP_PRIORITY membership) (\<lambda>new_priority.
                   rbind (py_index MEMBERSHIP_PRIORITY prev_membership) (\<lambda>old_priority.
                   Inr (check_known_membership
                          (JStr (if old_priority < new_priority then prev_membership else membership))
                          visibility is_peeking)))))
     else rbind (membership_in_state user_id state) (\<lambda>membership.
       Inr (check_known_membership membership visibility is_peeking)))"

text \<open>\<open>_check_filter_send_to_client\<close>: whether it returns \<open>DENIED\<close>.\<close>

definition filter_denied :: "vevent \<Rightarrow> int \<Rightarrow> int option \<Rightarrow> bool \<Rightarrow> bool" where
  "filter_denied v time_msec max_lifetime sender_ignored =
     (let event = ve_event v
      in ev_type event = EventTypes_Dummy
         \<or> \<not> is_state event \<and> sender_ignored
         \<or> ev_type event = EventTypes_Aliases
         \<or> \<not> is_state event \<and> (case max_lifetime of
              Some l \<Rightarrow> ev_origin_server_ts event < time_msec - l | None \<Rightarrow> False))"

text \<open>\<open>_check_history_visibility\<close>: whether it returns \<open>ALLOWED\<close>.\<close>

definition history_allowed :: "vevent \<Rightarrow> string \<Rightarrow> bool \<Rightarrow> bool res" where
  "history_allowed v visibility is_peeking =
     rbind (if ev_type (ve_event v) = EventTypes_RoomHistoryVisibility then
              rbind (dget_dict (ve_unsigned v) ''prev_content'') (\<lambda>prev_content.
              let prev_visibility = one_of VISIBILITY_PRIORITY HistoryVisibility_SHARED
                                      (dget_none prev_content ''history_visibility'')
              in rbind (py_index VISIBILITY_PRIORITY visibility) (\<lambda>new_priority.
                 rbind (py_index VISIBILITY_PRIORITY prev_visibility) (\<lambda>old_priority.
                 Inr (if old_priority < new_priority then prev_visibility else visibility))))
            else Inr visibility) (\<lambda>visibility.
     Inr (visibility = HistoryVisibility_SHARED \<and> \<not> is_peeking
          \<or> visibility = HistoryVisibility_WORLD_READABLE))"

record client_check =
  cc_user_id :: string
  cc_time_msec :: int
  cc_filter_send_to_client :: bool
  cc_is_peeking :: bool
  cc_always_include_ids :: "string list"

definition check_client_allowed_to_see_event ::
    "client_check \<Rightarrow> vevent \<Rightarrow> bool \<Rightarrow> int option \<Rightarrow> auth_map option \<Rightarrow> bool \<Rightarrow> vevent option res" where
  "check_client_allowed_to_see_event cc v sender_ignored max_lifetime state sender_erased =
     (if cc_filter_send_to_client cc \<and> filter_denied v (cc_time_msec cc) max_lifetime sender_ignored
      then Inr None
      else if ev_event_id (ve_event v) \<in> set (cc_always_include_ids cc) then Inr (Some v)
      else if ve_outlier v then
        rbind (own_membership_event (cc_user_id cc) (ve_event v)) (\<lambda>own.
          Inr (if own then Some v else None))
      else (case state of
          None \<Rightarrow> Inl PyException
        | Some st \<Rightarrow>
            let visibility = get_effective_room_visibility_from_state st
            in rbind (if sender_erased then Inr False
                      else history_allowed v visibility (cc_is_peeking cc)) (\<lambda>lax.
               if lax then Inr (Some v)
               else rbind (check_membership (cc_user_id cc) v visibility st (cc_is_peeking cc))
                 (\<lambda>(allowed, joined).
                    if \<not> allowed then Inr None
                    else Inr (Some (if sender_erased \<and> \<not> joined then prune_vevent v else v))))))"

section \<open>Filtering events for a client\<close>

text \<open>A state map restricted to the given entries.\<close>

definition restrict_state :: "state_key list \<Rightarrow> auth_map \<Rightarrow> auth_map" where
  "restrict_state types state k = (if k \<in> set types then state k else None)"

definition is_call_invite :: "vevent \<Rightarrow> bool" where
  "is_call_invite v = (ev_type (ve_event v) = EventTypes_CallInvite \<and> \<not> is_state (ve_event v))"

text \<open>The events that are considered: without the soft-failed ones, unless an admin wants them.\<close>

definition considered_events :: "vis_store \<Rightarrow> string \<Rightarrow> bool \<Rightarrow> vevent list \<Rightarrow> vevent list" where
  "considered_events st user_id filter_send_to_client events =
     (if filter_send_to_client \<and> user_id \<in> set (vs_server_admins st)
      then (if vs_return_soft_failed st user_id then events
            else if vs_return_spammy st user_id
            then filter (\<lambda>e. \<not> ve_soft_failed e \<or> ve_policy_server_spammy e) events
            else filter (\<lambda>e. \<not> ve_soft_failed e) events)
      else filter (\<lambda>e. \<not> ve_soft_failed e) events)"

definition client_state_types :: "string \<Rightarrow> vevent list \<Rightarrow> state_key list" where
  "client_state_types user_id events =
     [HISTORY_VIS_KEY, (EventTypes_Member, user_id)]
     @ (if list_ex is_call_invite (filter (\<lambda>e. \<not> ve_soft_failed e) events) then [JOIN_RULES_KEY] else [])"

definition STICKY_MAX_DURATION :: int where "STICKY_MAX_DURATION = 3600000"

definition sticky_duration :: "vevent \<Rightarrow> int option" where
  "sticky_duration v = (case ve_sticky v of
      JObj o' \<Rightarrow> (case dget o' ''duration_ms'' of
          Some (JInt n) \<Rightarrow> if n \<ge> 0 then Some (min n STICKY_MAX_DURATION) else None
        | _ \<Rightarrow> None)
    | _ \<Rightarrow> None)"

text \<open>The annotations of the copy that is returned.\<close>

definition annotate :: "vis_store \<Rightarrow> json \<Rightarrow> vevent \<Rightarrow> vevent" where
  "annotate st user_membership v =
     (let unsigned = dset (ve_unsigned v) ''membership'' user_membership;
          now_ms = vs_time_msec st
      in v\<lparr>ve_unsigned := (case (vs_msc4354_enabled st, sticky_duration v) of
            (True, Some d) \<Rightarrow>
              (let expires_at = min (ev_origin_server_ts (ve_event v)) now_ms + d
               in if d \<noteq> 0 \<and> expires_at > now_ms
                  then dset unsigned ''msc4354_sticky_duration_ttl_ms'' (JInt (expires_at - now_ms))
                  else unsigned)
          | _ \<Rightarrow> unsigned)\<rparr>)"

text \<open>The inner function \<open>allowed\<close>.\<close>

definition allowed_for_client ::
    "vis_store \<Rightarrow> client_check \<Rightarrow> state_key list \<Rightarrow> vevent \<Rightarrow> vevent option res" where
  "allowed_for_client st cc types v =
     (let event = ve_event v;
          state_after = (if ve_outlier v then None
                         else Some (restrict_state types (vs_state_after st (ev_event_id event))));
          user_id = cc_user_id cc
      in rbind (raise_if (\<not> cc_filter_send_to_client cc) PyNameError) (\<lambda>_.
         rbind (check_client_allowed_to_see_event cc v
                  (ev_sender event \<in> set (vs_ignored_users st user_id))
                  (vs_max_lifetime st (ev_room_id event)) state_after
                  (ev_sender event \<in> set (vs_erased_users st))) (\<lambda>filtered.
         case filtered of
           None \<Rightarrow> Inr None
         | Some f \<Rightarrow>
             rbind (if is_call_invite v then
                      (case state_after of
                         None \<Rightarrow> Inl PyAssertionError
                       | Some s \<Rightarrow> (case s JOIN_RULES_KEY of
                           Some jr \<Rightarrow> Inr (dget_none (ev_content jr) ''join_rule'' = JStr JoinRules_PUBLIC)
                         | None \<Rightarrow> Inr False))
                    else Inr False) (\<lambda>public_call.
             if public_call then Inr None
             else rbind (own_membership_event user_id event) (\<lambda>own.
                  rbind (if own then membership_of event
                         else (case state_after of
                             Some s \<Rightarrow> (case s (EventTypes_Member, user_id) of
                                 Some e \<Rightarrow> membership_of e | None \<Rightarrow> Inr (JStr Membership_LEAVE))
                           | None \<Rightarrow> Inl PyException)) (\<lambda>user_membership.
                  Inr (Some (annotate st user_membership f))))))))"

definition filter_and_transform_events_for_client ::
    "vis_store \<Rightarrow> client_check \<Rightarrow> vevent list \<Rightarrow> vevent list res" where
  "filter_and_transform_events_for_client st cc events =
     rbind (mapM_res (allowed_for_client st (cc\<lparr>cc_time_msec := vs_time_msec st\<rparr>)
                        (client_state_types (cc_user_id cc) events))
              (considered_events st (cc_user_id cc) (cc_filter_send_to_client cc) events))
       (\<lambda>rs. Inr (List.map_filter id rs))"

section \<open>Filtering clients for an event\<close>

definition get_state_map :: "auth_map \<Rightarrow> event \<Rightarrow> state_key list \<Rightarrow> auth_map" where
  "get_state_map prev_state event types =
     (case ev_state_key event of
        Some k \<Rightarrow> (restrict_state types prev_state)((ev_type event, k) \<mapsto> event)
      | None \<Rightarrow> restrict_state types prev_state)"

text \<open>\<open>[x for x in xs if await p(x)]\<close>.\<close>

fun filterM_res :: "('a \<Rightarrow> bool res) \<Rightarrow> 'a list \<Rightarrow> 'a list res" where
  "filterM_res p [] = Inr []"
| "filterM_res p (x # xs) = rbind (p x) (\<lambda>b. rbind (filterM_res p xs) (\<lambda>ys. Inr (if b then x # ys else ys)))"

definition filter_event_for_clients_with_state ::
    "vis_store \<Rightarrow> string list \<Rightarrow> vevent \<Rightarrow> auth_map \<Rightarrow> bool \<Rightarrow> bool \<Rightarrow> string list res" where
  "filter_event_for_clients_with_state st user_ids v prev_state is_peeking filter_send_to_client =
     (let event = ve_event v in
      if ve_soft_failed v then Inr []
      else if user_ids = [] then Inr []
      else (let allowed_user_ids =
              (if filter_send_to_client
               then filter (\<lambda>u. \<not> filter_denied v (vs_time_msec st) (vs_max_lifetime st (ev_room_id event))
                                  (u \<in> set (vs_ignored_by st (ev_sender event)))) (remdups user_ids)
               else remdups user_ids)
            in if ve_outlier v then
                 (if ev_type event = EventTypes_Member
                  then rbind (state_key_of event) (\<lambda>k. Inr (if k \<in> set allowed_user_ids then [k] else []))
                  else Inr [])
               else (let visibility = get_effective_room_visibility_from_state
                                        (get_state_map prev_state event [HISTORY_VIS_KEY])
                     in rbind (history_allowed v visibility is_peeking) (\<lambda>lax.
                        if lax then Inr allowed_user_ids
                        else (let state_map = get_state_map prev_state event
                                (map (\<lambda>u. (EventTypes_Member, u)) allowed_user_ids @ [HISTORY_VIS_KEY])
                              in filterM_res (\<lambda>u. rbind (check_membership u v visibility state_map is_peeking)
                                                    (\<lambda>(allowed, joined). Inr allowed)) allowed_user_ids)))))"

section \<open>Filtering events for a server\<close>

text \<open>The loop over the memberships of the target server.\<close>

fun server_in_room :: "string \<Rightarrow> string \<Rightarrow> (string \<times> json) list \<Rightarrow> bool res" where
  "server_in_room target_server_name history_visibility [] = Inr False"
| "server_in_room target_server_name history_visibility ((state_key, membership) # ms) =
     (if \<not> py_startswith state_key ''@'' then Inl PyValueError
      else (case split1 (CHR '':'') state_key of
          (_, None) \<Rightarrow> Inl PyValueError
        | (_, Some server_name) \<Rightarrow>
            if server_name \<noteq> target_server_name then Inl PyValueError
            else if membership = JStr Membership_INVITE
                    \<and> history_visibility = HistoryVisibility_INVITED then Inr True
            else if membership = JStr Membership_JOIN then Inr True
            else server_in_room target_server_name history_visibility ms))"

text \<open>A membership that is not a string cannot be passed to the function.\<close>

definition is_str_json :: "json \<Rightarrow> bool" where
  "is_str_json v = (case v of JStr _ \<Rightarrow> True | _ \<Rightarrow> False)"

definition event_visible_to_server ::
    "string \<Rightarrow> string \<Rightarrow> string \<Rightarrow> string list \<Rightarrow> bool \<Rightarrow> (string \<times> json) list \<Rightarrow> bool res" where
  "event_visible_to_server sender target_server_name history_visibility erased_senders
     partial_state_invisible memberships =
     (if \<not> list_all (is_str_json \<circ> snd) memberships then Inl PyTypeError
      else if sender \<in> set erased_senders then Inr False
      else if partial_state_invisible then Inr False
      else if history_visibility \<noteq> HistoryVisibility_INVITED
              \<and> history_visibility \<noteq> HistoryVisibility_JOINED then Inr True
      else server_in_room target_server_name history_visibility memberships)"

text \<open>
  The history visibility at an event: unlike for clients, any string is taken as it is. For an
  outlier the state is not known.
\<close>

definition event_to_history_vis :: "vis_store \<Rightarrow> vevent \<Rightarrow> string res" where
  "event_to_history_vis st v =
     (if ve_outlier v then Inr HistoryVisibility_SHARED
      else (case vs_state_after st (ev_event_id (ve_event v)) HISTORY_VIS_KEY of
          None \<Rightarrow> Inr HistoryVisibility_SHARED
        | Some e \<Rightarrow> (case dget_default (ev_content e) ''history_visibility'' (JStr HistoryVisibility_SHARED) of
              JStr s \<Rightarrow> Inr s
            | _ \<Rightarrow> Inl PyAssertionError)))"

text \<open>The inner function \<open>include\<close>: the part of the state key after the first colon is the server.\<close>

definition include_member :: "string \<Rightarrow> string \<Rightarrow> bool" where
  "include_member server_name state_key = (snd (split1 (CHR '':'') state_key) = Some server_name)"

text \<open>The memberships of a server, of the member events in the state after an event.\<close>

definition event_to_memberships :: "event list \<Rightarrow> string \<Rightarrow> (string \<times> json) list res" where
  "event_to_memberships member_events server_name =
     mapM_res (\<lambda>e. rbind (state_key_of e) (\<lambda>k. rbind (membership_of e) (\<lambda>m. Inr (k, m))))
       (filter (\<lambda>e. case ev_state_key e of Some k \<Rightarrow> include_member server_name k | None \<Rightarrow> False) member_events)"

text \<open>
  The whole treatment of one event. The code goes over all events once for each of the steps; which
  of the errors of several events is reported may differ.
\<close>

definition filter_event_for_server ::
    "vis_store \<Rightarrow> (string \<Rightarrow> event list) \<Rightarrow> string \<Rightarrow> string \<Rightarrow> bool \<Rightarrow> bool \<Rightarrow> bool \<Rightarrow> vevent \<Rightarrow> vevent list res" where
  "filter_event_for_server st members_at target_server_name local_server_name redact
     filter_out_erased_senders filter_out_remote_partial_state_events v =
     (let event = ve_event v in
      rbind (if filter_out_remote_partial_state_events
             then rbind (get_domain_from_id (ev_sender event)) (\<lambda>d.
                    Inr (d \<noteq> local_server_name \<and> ev_room_id event \<in> set (vs_partial_state_rooms st)))
             else Inr False) (\<lambda>partial_state_invisible.
      rbind (event_to_history_vis st v) (\<lambda>vis.
      rbind (if vis \<in> {HistoryVisibility_SHARED, HistoryVisibility_WORLD_READABLE} then Inr []
             else event_to_memberships (members_at (ev_event_id event)) target_server_name) (\<lambda>memberships.
      rbind (event_visible_to_server (ev_sender event) target_server_name vis
               (if filter_out_erased_senders then vs_erased_users st else []) partial_state_invisible
               memberships) (\<lambda>visible.
      Inr (if visible then [v] else if redact then [prune_vevent v] else []))))))"

definition filter_events_for_server ::
    "vis_store \<Rightarrow> (string \<Rightarrow> event list) \<Rightarrow> string \<Rightarrow> string \<Rightarrow> bool \<Rightarrow> bool \<Rightarrow> bool \<Rightarrow> vevent list \<Rightarrow> vevent list res" where
  "filter_events_for_server st members_at target_server_name local_server_name redact
     filter_out_erased_senders filter_out_remote_partial_state_events events =
     rbind (mapM_res (filter_event_for_server st members_at target_server_name local_server_name redact
              filter_out_erased_senders filter_out_remote_partial_state_events) events)
       (\<lambda>rs. Inr (concat rs))"

end
