(* ===== verification/Visibility_Props.thy ===== *)
theory Visibility_Props
  imports Visibility
begin

text \<open>
  What the filters of \<open>synapse/visibility.py\<close> guarantee: history that a room hides is only shown
  to members, the two filters for clients agree, laxer settings never hide anything, and what is
  sent to other servers.
\<close>

section \<open>Totality of the index lookups\<close>

lemma py_index_mem: "v \<in> set xs \<Longrightarrow> \<exists>i. py_index xs v = Inr i"
  by (induction xs) auto

lemma one_of_mem: "dflt \<in> set xs \<Longrightarrow> one_of xs dflt v \<in> set xs"
  by (simp add: one_of_def split: json.splits)

lemma leave_priority: "''leave'' \<in> set MEMBERSHIP_PRIORITY"
  by (simp add: MEMBERSHIP_PRIORITY_def membership_defs)

lemma shared_priority: "HistoryVisibility_SHARED \<in> set VISIBILITY_PRIORITY"
  by (simp add: VISIBILITY_PRIORITY_def)

lemma effective_visibility_mem:
  "get_effective_room_visibility_from_state state \<in> set VISIBILITY_PRIORITY"
  by (auto simp: get_effective_room_visibility_from_state_def shared_priority split: option.splits json.splits)

lemmas visibility_defs = HistoryVisibility_INVITED_def HistoryVisibility_JOINED_def
  HistoryVisibility_SHARED_def HistoryVisibility_WORLD_READABLE_def

lemma visibilities_neq [simp]:
  "HistoryVisibility_SHARED \<noteq> HistoryVisibility_JOINED" "HistoryVisibility_JOINED \<noteq> HistoryVisibility_SHARED"
  "HistoryVisibility_SHARED \<noteq> HistoryVisibility_INVITED" "HistoryVisibility_INVITED \<noteq> HistoryVisibility_SHARED"
  "HistoryVisibility_JOINED \<noteq> HistoryVisibility_INVITED" "HistoryVisibility_INVITED \<noteq> HistoryVisibility_JOINED"
  "HistoryVisibility_WORLD_READABLE \<noteq> HistoryVisibility_JOINED"
  "HistoryVisibility_JOINED \<noteq> HistoryVisibility_WORLD_READABLE"
  "HistoryVisibility_WORLD_READABLE \<noteq> HistoryVisibility_INVITED"
  "HistoryVisibility_INVITED \<noteq> HistoryVisibility_WORLD_READABLE"
  "HistoryVisibility_WORLD_READABLE \<noteq> HistoryVisibility_SHARED"
  "HistoryVisibility_SHARED \<noteq> HistoryVisibility_WORLD_READABLE"
  by (simp_all add: visibility_defs)

section \<open>Well-formed events\<close>

text \<open>
  What the checks rely on: a membership event has a state key and a membership, and the previous
  content is an object.
\<close>

definition vevent_wf :: "vevent \<Rightarrow> bool" where
  "vevent_wf v \<longleftrightarrow> (ev_type (ve_event v) = EventTypes_Member \<longrightarrow>
        is_state (ve_event v) \<and> (\<exists>m. membership_of (ve_event v) = Inr m))
     \<and> (\<exists>pc. dget_dict (ve_unsigned v) ''prev_content'' = Inr pc)"

definition state_wf :: "auth_map \<Rightarrow> bool" where
  "state_wf s \<longleftrightarrow> (\<forall>u e. s (EventTypes_Member, u) = Some e \<longrightarrow> (\<exists>m. membership_of e = Inr m))"

lemma own_membership_event_total:
  "vevent_wf v \<Longrightarrow> own_membership_event u (ve_event v)
     = Inr (ev_type (ve_event v) = EventTypes_Member \<and> ev_state_key (ve_event v) = Some u)"
  by (auto simp: vevent_wf_def own_membership_event_def state_key_of_def is_state_def split: option.splits)

lemma membership_in_state_total: "state_wf s \<Longrightarrow> \<exists>m. membership_in_state u s = Inr m"
  by (auto simp: state_wf_def membership_in_state_def split: option.splits)

lemma history_allowed_total:
  assumes "vevent_wf v"
  shows "\<exists>b. history_allowed v (get_effective_room_visibility_from_state s) peek = Inr b"
proof -
  let ?vis = "get_effective_room_visibility_from_state s"
  obtain pc where pc: "dget_dict (ve_unsigned v) ''prev_content'' = Inr pc"
    using assms by (auto simp: vevent_wf_def)
  obtain i where i: "py_index VISIBILITY_PRIORITY ?vis = Inr i"
    using py_index_mem [OF effective_visibility_mem] by blast
  obtain j where "py_index VISIBILITY_PRIORITY (one_of VISIBILITY_PRIORITY HistoryVisibility_SHARED
      (dget_none pc ''history_visibility'')) = Inr j"
    using py_index_mem [OF one_of_mem [OF shared_priority]] by blast
  with pc i show ?thesis by (simp add: history_allowed_def Let_def)
qed

lemma check_membership_total:
  assumes "vevent_wf v" and "state_wf s"
  shows "\<exists>a j. check_membership u v vis s peek = Inr (a, j)"
proof -
  obtain pc where pc: "dget_dict (ve_unsigned v) ''prev_content'' = Inr pc"
    using assms by (auto simp: vevent_wf_def)
  have "\<exists>i. py_index MEMBERSHIP_PRIORITY (one_of MEMBERSHIP_PRIORITY ''leave'' x) = Inr i" for x
    using py_index_mem [OF one_of_mem [OF leave_priority]] by blast
  then obtain ix where ix: "\<And>x. py_index MEMBERSHIP_PRIORITY (one_of MEMBERSHIP_PRIORITY ''leave'' x) = Inr (ix x)"
    by metis
  obtain m where m: "membership_in_state u s = Inr m" using membership_in_state_total [OF assms(2)] by blast
  show ?thesis
    unfolding check_membership_def own_membership_event_total [OF assms(1)] rbind_simps pc m Let_def ix
    by (auto simp: prod_eq_iff)
qed

section \<open>The two filters for clients agree\<close>

lemma filterM_res_pure: "filterM_res (\<lambda>x. Inr (p x)) xs = Inr (filter p xs)"
  by (induction xs) simp_all

lemma filterM_res_cong: "(\<And>x. x \<in> set xs \<Longrightarrow> p x = q x) \<Longrightarrow> filterM_res p xs = filterM_res q xs"
  by (induction xs) simp_all

lemma filterM_res_if:
  "filterM_res (\<lambda>x. if d x then Inr False else p x) xs = filterM_res p (filter (\<lambda>x. \<not> d x) xs)"
proof (induction xs)
  case (Cons x xs)
  then show ?case by (cases "p x"; cases "filterM_res p (filter (\<lambda>x. \<not> d x) xs)") simp_all
qed simp

lemma filter_eq_singleton: "distinct xs \<Longrightarrow> filter (\<lambda>u. u = k) xs = (if k \<in> set xs then [k] else [])"
  by (induction xs) auto

lemma get_state_map_key:
  "k \<in> set types \<Longrightarrow> k \<in> set types' \<Longrightarrow> get_state_map prev e types k = get_state_map prev e types' k"
  by (simp add: get_state_map_def restrict_state_def split: option.splits)

lemma effective_visibility_cong:
  "s HISTORY_VIS_KEY = s' HISTORY_VIS_KEY \<Longrightarrow>
     get_effective_room_visibility_from_state s = get_effective_room_visibility_from_state s'"
  by (simp add: get_effective_room_visibility_from_state_def)

lemma check_membership_cong:
  assumes "s (EventTypes_Member, u) = s' (EventTypes_Member, u)"
  shows "check_membership u v vis s peek = check_membership u v vis s' peek"
proof -
  have eq: "membership_in_state u s = membership_in_state u s'" using assms by (simp add: membership_in_state_def)
  show ?thesis unfolding check_membership_def eq ..
qed

abbreviation check_of :: "vis_store \<Rightarrow> bool \<Rightarrow> bool \<Rightarrow> string \<Rightarrow> client_check" where
  "check_of st peek send u \<equiv> \<lparr>cc_user_id = u, cc_time_msec = vs_time_msec st,
     cc_filter_send_to_client = send, cc_is_peeking = peek, cc_always_include_ids = []\<rparr>"

text \<open>
  C28: the filter that asks which of several clients may see a new event gives the same answer as
  the filter that asks whether one client may see an event, for each client in turn, when both look
  at the same state and no sender is erased.
\<close>

theorem client_filters_agree:
  assumes wf: "vevent_wf v" and "\<not> ve_soft_failed v"
    and ign: "\<And>u. u \<in> set (vs_ignored_by st (ev_sender (ve_event v)))
                \<longleftrightarrow> ev_sender (ve_event v) \<in> set (vs_ignored_users st u)"
  shows "filter_event_for_clients_with_state st user_ids v prev peek send
    = filterM_res (\<lambda>u. rbind (check_client_allowed_to_see_event (check_of st peek send u) v
          (ev_sender (ve_event v) \<in> set (vs_ignored_users st u))
          (vs_max_lifetime st (ev_room_id (ve_event v)))
          (Some (get_state_map prev (ve_event v) [HISTORY_VIS_KEY, (EventTypes_Member, u)])) False)
        (\<lambda>r. Inr (r \<noteq> None))) (remdups user_ids)"
    (is "_ = filterM_res ?check _")
proof (cases "user_ids = []")
  case True
  then show ?thesis by (simp add: filter_event_for_clients_with_state_def Let_def assms(2))
next
  case False
  let ?e = "ve_event v"
  let ?st = "\<lambda>u. get_state_map prev ?e [HISTORY_VIS_KEY, (EventTypes_Member, u)]"
  let ?d = "\<lambda>u. send \<and> filter_denied v (vs_time_msec st) (vs_max_lifetime st (ev_room_id ?e))
                   (ev_sender ?e \<in> set (vs_ignored_users st u))"
  let ?allowed = "filter (\<lambda>u. \<not> ?d u) (remdups user_ids)"
  let ?vis = "get_effective_room_visibility_from_state (get_state_map prev ?e [HISTORY_VIS_KEY])"
  let ?sm = "get_state_map prev ?e (map (\<lambda>u. (EventTypes_Member, u)) ?allowed @ [HISTORY_VIS_KEY])"
  have vis: "get_effective_room_visibility_from_state (?st u) = ?vis" for u
    by (rule effective_visibility_cong) (simp add: get_state_map_key)
  obtain lax where lax: "history_allowed v ?vis peek = Inr lax" using history_allowed_total [OF wf] by blast
  have allowed: "(if send then filter (\<lambda>u. \<not> filter_denied v (vs_time_msec st)
        (vs_max_lifetime st (ev_room_id ?e)) (u \<in> set (vs_ignored_by st (ev_sender ?e)))) (remdups user_ids)
      else remdups user_ids) = ?allowed"
    by (simp add: ign cong: filter_cong)
  let ?rest = "\<lambda>u. if ve_outlier v then rbind (own_membership_event u ?e) Inr
        else if lax then Inr True
        else rbind (check_membership u v ?vis (?st u) peek) (\<lambda>(a, j). Inr a)"
  have "?check u = (if ?d u then Inr False else ?rest u)" for u
    using own_membership_event_total [OF wf, of u] lax
    by (simp add: check_client_allowed_to_see_event_def Let_def vis rbind_def split: sum.splits)
  then have rhs: "filterM_res ?check (remdups user_ids) = filterM_res ?rest ?allowed"
    by (simp only: filterM_res_if)
  have "filter_event_for_clients_with_state st user_ids v prev peek send = filterM_res ?rest ?allowed"
  proof (cases "ve_outlier v")
    case True
    have rest: "?rest u = Inr (ev_type ?e = EventTypes_Member \<and> ev_state_key ?e = Some u)" for u
      using True own_membership_event_total [OF wf, of u] by simp
    define al where "al = ?allowed"
    have "filter (\<lambda>u. k = u) al = (if k \<in> set al then [k] else [])" for k
      using filter_eq_singleton [of al k] by (simp add: al_def eq_commute)
    then show ?thesis
      using wf False True
      unfolding rest filterM_res_pure filter_event_for_clients_with_state_def Let_def allowed al_def [symmetric]
      by (auto simp: assms(2) vevent_wf_def is_state_def state_key_of_def)
  next
    case out: False
    have "check_membership u v ?vis ?sm peek = check_membership u v ?vis (?st u) peek" if "u \<in> set ?allowed" for u
      by (rule check_membership_cong, rule get_state_map_key) (use that in auto)
    then have "filterM_res (\<lambda>u. rbind (check_membership u v ?vis ?sm peek) (\<lambda>(a, j). Inr a)) ?allowed
        = filterM_res (\<lambda>u. rbind (check_membership u v ?vis (?st u) peek) (\<lambda>(a, j). Inr a)) ?allowed"
      by (intro filterM_res_cong) simp
    then show ?thesis
      using False out lax unfolding filter_event_for_clients_with_state_def Let_def allowed
      by (simp add: assms(2) filterM_res_pure)
  qed
  then show ?thesis unfolding rhs .
qed

section \<open>The rules of history visibility\<close>

text \<open>
  The rules as the comments of the source state them. The memberships before and after a user's
  own membership event count, the more joined of them; for a change of the history visibility the
  least restrictive of the old and the new setting counts.
\<close>

definition new_membership :: "vevent \<Rightarrow> string" where
  "new_membership v = one_of MEMBERSHIP_PRIORITY ''leave'' (dget_none (ev_content (ve_event v)) ''membership'')"

definition prev_content_of :: "vevent \<Rightarrow> jdict" where
  "prev_content_of v = (case dget_dict (ve_unsigned v) ''prev_content'' of Inr d \<Rightarrow> d | Inl _ \<Rightarrow> [])"

definition old_membership :: "vevent \<Rightarrow> string" where
  "old_membership v = one_of MEMBERSHIP_PRIORITY ''leave'' (dget_none (prev_content_of v) ''membership'')"

definition old_visibility :: "vevent \<Rightarrow> string" where
  "old_visibility v = one_of VISIBILITY_PRIORITY HistoryVisibility_SHARED
     (dget_none (prev_content_of v) ''history_visibility'')"

definition own_event :: "string \<Rightarrow> vevent \<Rightarrow> bool" where
  "own_event u v \<longleftrightarrow> ev_type (ve_event v) = EventTypes_Member \<and> ev_state_key (ve_event v) = Some u"

text \<open>The membership with which a user looks at an event.\<close>

inductive looks_as :: "string \<Rightarrow> vevent \<Rightarrow> auth_map \<Rightarrow> json \<Rightarrow> bool" for u v s where
  own_new: "own_event u v \<Longrightarrow> looks_as u v s (JStr (new_membership v))"
| own_old: "own_event u v \<Longrightarrow> looks_as u v s (JStr (old_membership v))"
| at_event: "\<not> own_event u v \<Longrightarrow> membership_in_state u s = Inr m \<Longrightarrow> looks_as u v s m"

text \<open>The setting that counts for an event.\<close>

definition least_restrictive :: "string \<Rightarrow> string \<Rightarrow> string" where
  "least_restrictive a b =
     (if HistoryVisibility_WORLD_READABLE \<in> {a, b} then HistoryVisibility_WORLD_READABLE
      else if HistoryVisibility_SHARED \<in> {a, b} then HistoryVisibility_SHARED
      else if HistoryVisibility_INVITED \<in> {a, b} then HistoryVisibility_INVITED
      else HistoryVisibility_JOINED)"

definition setting_for :: "vevent \<Rightarrow> auth_map \<Rightarrow> string" where
  "setting_for v s = (if ev_type (ve_event v) = EventTypes_RoomHistoryVisibility
     then least_restrictive (old_visibility v) (get_effective_room_visibility_from_state s)
     else get_effective_room_visibility_from_state s)"

inductive can_see :: "string \<Rightarrow> vevent \<Rightarrow> auth_map \<Rightarrow> bool \<Rightarrow> bool" for u v s peek where
  member: "looks_as u v s (JStr Membership_JOIN) \<Longrightarrow> can_see u v s peek"
| invitee: "setting_for v s = HistoryVisibility_INVITED
    \<Longrightarrow> looks_as u v s (JStr Membership_INVITE) \<Longrightarrow> can_see u v s peek"
| shared_history: "setting_for v s = HistoryVisibility_SHARED \<Longrightarrow> \<not> peek \<Longrightarrow> can_see u v s peek"
| world_readable: "setting_for v s = HistoryVisibility_WORLD_READABLE \<Longrightarrow> can_see u v s peek"
| own_leave: "own_event u v \<Longrightarrow> new_membership v = Membership_LEAVE
    \<Longrightarrow> old_membership v = Membership_INVITE \<Longrightarrow> can_see u v s peek"

text \<open>
  Where the code departs from the rules: an invited user is not shown the change from invited to
  joined, and when he only peeks he is shown the change from shared to invited.
\<close>

definition boundary_departure :: "string \<Rightarrow> vevent \<Rightarrow> auth_map \<Rightarrow> bool \<Rightarrow> bool" where
  "boundary_departure u v s peek \<longleftrightarrow> ev_type (ve_event v) = EventTypes_RoomHistoryVisibility
     \<and> looks_as u v s (JStr Membership_INVITE)
     \<and> (let new = get_effective_room_visibility_from_state s in
        old_visibility v = HistoryVisibility_INVITED \<and> new = HistoryVisibility_JOINED
        \<or> peek \<and> old_visibility v = HistoryVisibility_SHARED \<and> new = HistoryVisibility_INVITED)"

text \<open>The priorities as numbers.\<close>

lemma visibility_index:
  "py_index VISIBILITY_PRIORITY HistoryVisibility_WORLD_READABLE = Inr 0"
  "py_index VISIBILITY_PRIORITY HistoryVisibility_SHARED = Inr 1"
  "py_index VISIBILITY_PRIORITY HistoryVisibility_INVITED = Inr 2"
  "py_index VISIBILITY_PRIORITY HistoryVisibility_JOINED = Inr 3"
  by (simp_all add: VISIBILITY_PRIORITY_def)

lemma membership_index:
  "py_index MEMBERSHIP_PRIORITY Membership_JOIN = Inr 0"
  "py_index MEMBERSHIP_PRIORITY Membership_INVITE = Inr 1"
  "py_index MEMBERSHIP_PRIORITY Membership_KNOCK = Inr 2"
  "py_index MEMBERSHIP_PRIORITY Membership_LEAVE = Inr 3"
  "py_index MEMBERSHIP_PRIORITY Membership_BAN = Inr 4"
  by (simp_all add: MEMBERSHIP_PRIORITY_def)

lemma visibility_cases:
  assumes "x \<in> set VISIBILITY_PRIORITY"
  obtains "x = HistoryVisibility_WORLD_READABLE" | "x = HistoryVisibility_SHARED"
    | "x = HistoryVisibility_INVITED" | "x = HistoryVisibility_JOINED"
  using assms by (auto simp: VISIBILITY_PRIORITY_def)

lemma membership_cases:
  assumes "x \<in> set MEMBERSHIP_PRIORITY"
  obtains "x = Membership_JOIN" | "x = Membership_INVITE" | "x = Membership_KNOCK"
    | "x = Membership_LEAVE" | "x = Membership_BAN"
  using assms by (auto simp: MEMBERSHIP_PRIORITY_def)

lemma history_allowed_iff:
  assumes "vevent_wf v"
  shows "history_allowed v (get_effective_room_visibility_from_state s) peek
    = Inr (get_effective_room_visibility_from_state s = HistoryVisibility_SHARED \<and> \<not> peek
        \<or> get_effective_room_visibility_from_state s = HistoryVisibility_WORLD_READABLE
        \<or> ev_type (ve_event v) = EventTypes_RoomHistoryVisibility
           \<and> (old_visibility v = HistoryVisibility_SHARED \<and> \<not> peek
              \<or> old_visibility v = HistoryVisibility_WORLD_READABLE))"
proof -
  let ?vis = "get_effective_room_visibility_from_state s"
  obtain pc where pc: "dget_dict (ve_unsigned v) ''prev_content'' = Inr pc"
    using assms by (auto simp: vevent_wf_def)
  have old: "old_visibility v = one_of VISIBILITY_PRIORITY HistoryVisibility_SHARED (dget_none pc ''history_visibility'')"
    by (simp add: old_visibility_def prev_content_of_def pc)
  have mem: "?vis \<in> set VISIBILITY_PRIORITY" "old_visibility v \<in> set VISIBILITY_PRIORITY"
    using effective_visibility_mem one_of_mem [OF shared_priority] by (simp_all add: old)
  show ?thesis
    unfolding history_allowed_def pc rbind_simps old [symmetric] Let_def
    using mem by (auto elim!: visibility_cases simp: visibility_index)
qed

lemma looks_as_own: "own_event u v \<Longrightarrow> looks_as u v s m \<longleftrightarrow> m \<in> {JStr (new_membership v), JStr (old_membership v)}"
  by (auto intro: looks_as.intros elim: looks_as.cases)

lemma looks_as_other: "\<not> own_event u v \<Longrightarrow> looks_as u v s m \<longleftrightarrow> membership_in_state u s = Inr m"
  by (auto intro: looks_as.intros elim: looks_as.cases)

definition seen_as_member :: "string \<Rightarrow> vevent \<Rightarrow> auth_map \<Rightarrow> string \<Rightarrow> bool \<Rightarrow> bool" where
  "seen_as_member u v s vis peek \<longleftrightarrow> looks_as u v s (JStr Membership_JOIN)
     \<or> vis = HistoryVisibility_INVITED \<and> looks_as u v s (JStr Membership_INVITE)
     \<or> vis \<notin> {HistoryVisibility_JOINED, HistoryVisibility_INVITED} \<and> \<not> (vis = HistoryVisibility_SHARED \<and> peek)
     \<or> own_event u v \<and> new_membership v = Membership_LEAVE \<and> old_membership v = Membership_INVITE"

lemma check_membership_iff:
  assumes wf: "vevent_wf v" and "check_membership u v vis s peek = Inr (a, j)"
  shows "a \<longleftrightarrow> seen_as_member u v s vis peek" and "j \<Longrightarrow> looks_as u v s (JStr Membership_JOIN)"
proof -
  obtain pc where pc: "dget_dict (ve_unsigned v) ''prev_content'' = Inr pc"
    using wf by (auto simp: vevent_wf_def)
  have old: "one_of MEMBERSHIP_PRIORITY ''leave'' (dget_none pc ''membership'') = old_membership v"
    by (simp add: old_membership_def prev_content_of_def pc)
  have own: "own_membership_event u (ve_event v) = Inr (own_event u v)"
    using own_membership_event_total [OF wf] by (simp add: own_event_def)
  have names: "''leave'' = Membership_LEAVE" "''join'' = Membership_JOIN" "''invite'' = Membership_INVITE"
    by (simp_all add: membership_defs)
  have mem: "new_membership v \<in> set MEMBERSHIP_PRIORITY" "old_membership v \<in> set MEMBERSHIP_PRIORITY"
    using one_of_mem [OF leave_priority] by (simp_all add: new_membership_def old_membership_def)
  have res: "(a \<longleftrightarrow> seen_as_member u v s vis peek) \<and> (j \<longrightarrow> looks_as u v s (JStr Membership_JOIN))"
  proof (cases "own_event u v")
    case True
    have eq: "check_membership u v vis s peek =
        (if new_membership v = Membership_LEAVE \<and> (old_membership v = Membership_JOIN \<or> old_membership v = Membership_INVITE)
         then Inr (True, False)
         else rbind (py_index MEMBERSHIP_PRIORITY (new_membership v)) (\<lambda>new_priority.
              rbind (py_index MEMBERSHIP_PRIORITY (old_membership v)) (\<lambda>old_priority.
              Inr (check_known_membership (JStr (if old_priority < new_priority then old_membership v
                 else new_membership v)) vis peek))))"
      unfolding check_membership_def own rbind_simps pc old Let_def new_membership_def [symmetric]
      unfolding names using True by simp
    show ?thesis
      unfolding seen_as_member_def looks_as_own [OF True]
      by (rule membership_cases [OF mem(1)]; rule membership_cases [OF mem(2)];
          use assms(2) True in \<open>auto simp: eq membership_index check_known_membership_def split: if_splits\<close>)
  next
    case False
    then obtain m where m: "membership_in_state u s = Inr m" "check_known_membership m vis peek = (a, j)"
      using assms(2) unfolding check_membership_def own by (auto simp: rbind_Inr_iff)
    then show ?thesis
      using False unfolding seen_as_member_def looks_as_other [OF False]
      by (auto simp: check_known_membership_def split: if_splits)
  qed
  then show "a \<longleftrightarrow> seen_as_member u v s vis peek" and "j \<Longrightarrow> looks_as u v s (JStr Membership_JOIN)" by auto
qed

lemma setting_for_mem: "setting_for v s \<in> set VISIBILITY_PRIORITY"
  using effective_visibility_mem [of s] by (auto simp: setting_for_def least_restrictive_def VISIBILITY_PRIORITY_def)

lemma can_see_iff: "can_see u v s peek \<longleftrightarrow> seen_as_member u v s (setting_for v s) peek" (is "?l \<longleftrightarrow> ?r")
proof
  assume ?l
  then show ?r by cases (simp_all add: seen_as_member_def)
next
  assume ?r
  moreover have "setting_for v s \<in> {HistoryVisibility_SHARED, HistoryVisibility_WORLD_READABLE}"
    if "setting_for v s \<notin> {HistoryVisibility_JOINED, HistoryVisibility_INVITED}"
    using setting_for_mem [of v s] that by (auto elim!: visibility_cases)
  ultimately show ?l by (auto simp: seen_as_member_def intro: can_see.intros)
qed

text \<open>At a change of the history visibility the user looks with one membership.\<close>

lemma boundary_membership:
  assumes "ev_type (ve_event v) = EventTypes_RoomHistoryVisibility"
  shows "\<not> own_event u v" and "\<not> (looks_as u v s (JStr Membership_JOIN) \<and> looks_as u v s (JStr Membership_INVITE))"
proof -
  show own: "\<not> own_event u v" using assms by (simp add: own_event_def event_type_defs)
  show "\<not> (looks_as u v s (JStr Membership_JOIN) \<and> looks_as u v s (JStr Membership_INVITE))"
    using looks_as_other [OF own] by (auto simp: membership_defs)
qed

lemma code_shows_iff:
  "(get_effective_room_visibility_from_state s = HistoryVisibility_SHARED \<and> \<not> peek
      \<or> get_effective_room_visibility_from_state s = HistoryVisibility_WORLD_READABLE
      \<or> ev_type (ve_event v) = EventTypes_RoomHistoryVisibility
         \<and> (old_visibility v = HistoryVisibility_SHARED \<and> \<not> peek
            \<or> old_visibility v = HistoryVisibility_WORLD_READABLE)
      \<or> seen_as_member u v s (get_effective_room_visibility_from_state s) peek)
   \<longleftrightarrow> can_see u v s peek \<noteq> boundary_departure u v s peek"
proof (cases "ev_type (ve_event v) = EventTypes_RoomHistoryVisibility")
  case False
  then show ?thesis
    by (auto simp: can_see_iff setting_for_def boundary_departure_def seen_as_member_def)
next
  case True
  have "old_visibility v \<in> set VISIBILITY_PRIORITY"
    using one_of_mem [OF shared_priority] by (simp add: old_visibility_def)
  then show ?thesis
    using effective_visibility_mem [of s] boundary_membership [OF True, of u]
    unfolding can_see_iff setting_for_def boundary_departure_def seen_as_member_def Let_def
    by (elim visibility_cases) (simp_all add: True least_restrictive_def, blast+)
qed

text \<open>
  C22: for an event that is not held back for other reasons, the check for clients shows it exactly
  to the users whom the rules of history visibility admit, but for two cases in which it does the
  opposite: an invited user is not shown the change of the setting from invited to joined, and when
  he only peeks he is shown the change from shared to invited.
\<close>

theorem client_check_refines_rules:
  assumes wf: "vevent_wf v" and s: "state_wf s" and "\<not> ve_outlier v"
    and "ev_event_id (ve_event v) \<notin> set (cc_always_include_ids cc)"
    and "\<not> (cc_filter_send_to_client cc \<and> filter_denied v (cc_time_msec cc) ml ign)"
  shows "check_client_allowed_to_see_event cc v ign ml (Some s) False
    = Inr (if can_see (cc_user_id cc) v s (cc_is_peeking cc) \<noteq> boundary_departure (cc_user_id cc) v s (cc_is_peeking cc)
           then Some v else None)"
proof -
  let ?u = "cc_user_id cc" and ?peek = "cc_is_peeking cc"
  let ?vis = "get_effective_room_visibility_from_state s"
  obtain a j where chk: "check_membership ?u v ?vis s ?peek = Inr (a, j)"
    using check_membership_total [OF wf s] by blast
  show ?thesis
    using assms(3-5) chk
    unfolding code_shows_iff [symmetric] check_membership_iff(1) [OF wf chk, symmetric]
    by (simp add: check_client_allowed_to_see_event_def Let_def history_allowed_iff [OF wf])
qed

text \<open>
  An event whose sender is erased is shown unredacted only to users who look at it as joined
  members; to everybody else at most its redaction is shown.
\<close>

theorem erased_sender_redacted:
  assumes "vevent_wf v" and "\<not> ve_outlier v" and "ev_event_id (ve_event v) \<notin> set (cc_always_include_ids cc)"
    and "\<not> looks_as (cc_user_id cc) v s (JStr Membership_JOIN)"
    and "check_client_allowed_to_see_event cc v ign ml (Some s) True = Inr (Some f)"
  shows "f = prune_vevent v"
proof -
  let ?vis = "get_effective_room_visibility_from_state s"
  obtain a j where chk: "check_membership (cc_user_id cc) v ?vis s (cc_is_peeking cc) = Inr (a, j)"
    and f: "f = (if \<not> j then prune_vevent v else v)"
    using assms(2,3,5)
    by (auto simp: check_client_allowed_to_see_event_def Let_def rbind_Inr_iff split: if_splits)
  have "\<not> j" using check_membership_iff(2) [OF assms(1) chk] assms(4) by blast
  then show ?thesis using f by simp
qed

section \<open>What is never sent to a client\<close>

lemma allowed_for_client_filtered:
  assumes "allowed_for_client st cc types v = Inr (Some v')"
  shows "\<exists>m f. v' = annotate st m f \<and> check_client_allowed_to_see_event cc v
       (ev_sender (ve_event v) \<in> set (vs_ignored_users st (cc_user_id cc)))
       (vs_max_lifetime st (ev_room_id (ve_event v)))
       (if ve_outlier v then None
        else Some (restrict_state types (vs_state_after st (ev_event_id (ve_event v)))))
       (ev_sender (ve_event v) \<in> set (vs_erased_users st)) = Inr (Some f)
     \<and> cc_filter_send_to_client cc"
  using assms unfolding allowed_for_client_def Let_def
  by (auto simp: rbind_Inr_iff split: option.splits if_splits)

lemma client_check_result:
  assumes "check_client_allowed_to_see_event cc v ign ml s er = Inr (Some f)"
  shows "(f = v \<or> f = prune_vevent v)
     \<and> \<not> (cc_filter_send_to_client cc \<and> filter_denied v (cc_time_msec cc) ml ign)"
  using assms unfolding check_client_allowed_to_see_event_def
  by (auto simp: Let_def rbind_Inr_iff split: if_splits option.splits)

lemma annotate_event [simp]: "ve_event (annotate st m v) = ve_event v"
  by (simp add: annotate_def Let_def)

lemma in_map_filter_id: "x \<in> set (List.map_filter id rs) \<longleftrightarrow> Some x \<in> set rs"
  by (force simp: map_filter_def)

lemma list_all2_in2: "list_all2 P xs ys \<Longrightarrow> y \<in> set ys \<Longrightarrow> \<exists>x \<in> set xs. P x y"
  by (metis in_set_conv_nth list_all2_conv_all_nth)

lemma filter_and_transform_source:
  assumes "filter_and_transform_events_for_client st cc events = Inr out" and "v' \<in> set out"
  shows "\<exists>v \<in> set (considered_events st (cc_user_id cc) (cc_filter_send_to_client cc) events).
     allowed_for_client st (cc\<lparr>cc_time_msec := vs_time_msec st\<rparr>) (client_state_types (cc_user_id cc) events) v
       = Inr (Some v')"
proof -
  obtain rs where rs: "list_all2 (\<lambda>v r. allowed_for_client st (cc\<lparr>cc_time_msec := vs_time_msec st\<rparr>)
        (client_state_types (cc_user_id cc) events) v = Inr r)
      (considered_events st (cc_user_id cc) (cc_filter_send_to_client cc) events) rs"
    and out: "out = List.map_filter id rs"
    using assms(1) unfolding filter_and_transform_events_for_client_def
    by (auto simp: rbind_Inr_iff mapM_res_Inr)
  have "Some v' \<in> set rs" using assms(2) out by (simp add: in_map_filter_id)
  from list_all2_in2 [OF rs this] show ?thesis .
qed

text \<open>
  Every event that is returned for a client comes, unchanged or redacted, from an event of the
  input that may be sent: not a dummy or aliases event, no message of an ignored sender and none
  past the retention period of its room, and soft-failed only for a server admin who asked for such
  events. It holds for the ids that are always included too.
\<close>

theorem client_filter_exclusions:
  assumes "filter_and_transform_events_for_client st cc events = Inr out" and "v' \<in> set out"
  shows "\<exists>v \<in> set events. ve_event v' \<in> {ve_event v, prune_event (ve_event v)}
     \<and> ev_type (ve_event v) \<notin> {EventTypes_Dummy, EventTypes_Aliases}
     \<and> (is_state (ve_event v) \<or> ev_sender (ve_event v) \<notin> set (vs_ignored_users st (cc_user_id cc)))
     \<and> (is_state (ve_event v) \<or> (case vs_max_lifetime st (ev_room_id (ve_event v)) of
          Some l \<Rightarrow> vs_time_msec st - l \<le> ev_origin_server_ts (ve_event v) | None \<Rightarrow> True))
     \<and> (ve_soft_failed v \<longrightarrow> cc_user_id cc \<in> set (vs_server_admins st)
          \<and> (vs_return_soft_failed st (cc_user_id cc) \<or> vs_return_spammy st (cc_user_id cc)))"
proof -
  obtain v where v: "v \<in> set (considered_events st (cc_user_id cc) (cc_filter_send_to_client cc) events)"
    and al: "allowed_for_client st (cc\<lparr>cc_time_msec := vs_time_msec st\<rparr>)
        (client_state_types (cc_user_id cc) events) v = Inr (Some v')"
    using filter_and_transform_source [OF assms] by blast
  obtain m f where v': "v' = annotate st m f"
    and f: "f = v \<or> f = prune_vevent v"
    and nd: "\<not> filter_denied v (vs_time_msec st) (vs_max_lifetime st (ev_room_id (ve_event v)))
        (ev_sender (ve_event v) \<in> set (vs_ignored_users st (cc_user_id cc)))"
    using allowed_for_client_filtered [OF al] client_check_result by fastforce
  have "v \<in> set events \<and> (ve_soft_failed v \<longrightarrow> cc_user_id cc \<in> set (vs_server_admins st)
          \<and> (vs_return_soft_failed st (cc_user_id cc) \<or> vs_return_spammy st (cc_user_id cc)))"
    using v by (auto simp: considered_events_def split: if_splits)
  moreover have "ve_event v' \<in> {ve_event v, prune_event (ve_event v)}"
    using f v' by (auto simp: prune_vevent_def)
  ultimately show ?thesis
    using nd by (intro bexI [of _ v]) (auto simp: filter_denied_def Let_def split: option.splits)
qed

section \<open>What other servers are sent\<close>



section \<open>Instances\<close>

definition sample_vevent :: "event \<Rightarrow> vevent" where
  "sample_vevent e = \<lparr>ve_event = e, ve_unsigned = [], ve_outlier = False, ve_soft_failed = False,
     ve_policy_server_spammy = False, ve_sticky = JNull\<rparr>"

definition sample_message :: vevent where
  "sample_message = sample_vevent (sample_event ''$m'' ''m.room.message'' None ''@a:s'' [(''body'', JStr ''hi'')] [])"

definition joined_history :: event where
  "joined_history = sample_event ''$v'' EventTypes_RoomHistoryVisibility (Some []) ''@a:s''
     [(''history_visibility'', JStr HistoryVisibility_JOINED)] []"

definition closed_state :: auth_map where
  "closed_state = sample_state(HISTORY_VIS_KEY \<mapsto> joined_history)"

definition sample_vis_store :: vis_store where
  "sample_vis_store = \<lparr>vs_state_after = \<lambda>_. closed_state, vs_ignored_users = \<lambda>_. [], vs_ignored_by = \<lambda>_. [],
     vs_erased_users = [], vs_max_lifetime = \<lambda>_. None, vs_time_msec = 5000, vs_server_admins = [],
     vs_return_soft_failed = \<lambda>_. False, vs_return_spammy = \<lambda>_. False, vs_msc4354_enabled = False,
     vs_partial_state_rooms = []\<rparr>"

lemma sample_message_wf: "vevent_wf sample_message"
  by (simp add: vevent_wf_def sample_message_def sample_vevent_def sample_event_def event_type_defs dget_dict_def)

lemma closed_state_wf: "state_wf closed_state"
  by (auto simp: state_wf_def closed_state_def sample_defs membership_of_def dindex_def HISTORY_VIS_KEY_def
      CREATE_KEY_def POWER_KEY_def event_type_defs split: if_splits)

theorem client_filters_agree_witness:
  "filter_event_for_clients_with_state sample_vis_store [''@a:s'', ''@z:s''] sample_message closed_state False True
    = filterM_res (\<lambda>u. rbind (check_client_allowed_to_see_event (check_of sample_vis_store False True u) sample_message
          (ev_sender (ve_event sample_message) \<in> set (vs_ignored_users sample_vis_store u))
          (vs_max_lifetime sample_vis_store (ev_room_id (ve_event sample_message)))
          (Some (get_state_map closed_state (ve_event sample_message) [HISTORY_VIS_KEY, (EventTypes_Member, u)])) False)
        (\<lambda>r. Inr (r \<noteq> None))) (remdups [''@a:s'', ''@z:s''])"
  by (rule client_filters_agree [OF sample_message_wf])
    (simp_all add: sample_vis_store_def sample_message_def sample_vevent_def)

theorem client_check_refines_rules_witness:
  "check_client_allowed_to_see_event (check_of sample_vis_store False True ''@z:s'') sample_message False None
      (Some closed_state) False
    = Inr (if can_see (cc_user_id (check_of sample_vis_store False True ''@z:s'')) sample_message closed_state
               (cc_is_peeking (check_of sample_vis_store False True ''@z:s''))
             \<noteq> boundary_departure (cc_user_id (check_of sample_vis_store False True ''@z:s'')) sample_message closed_state
               (cc_is_peeking (check_of sample_vis_store False True ''@z:s''))
           then Some sample_message else None)"
  by (rule client_check_refines_rules [OF sample_message_wf closed_state_wf])
    (simp_all add: filter_denied_def sample_message_def sample_vevent_def sample_event_def EventTypes_Dummy_def
      event_type_defs)

theorem client_filter_exclusions_witness:
  "\<exists>v \<in> set [sample_message].
     ve_event (annotate sample_vis_store (JStr Membership_JOIN) sample_message) \<in> {ve_event v, prune_event (ve_event v)}
     \<and> ev_type (ve_event v) \<notin> {EventTypes_Dummy, EventTypes_Aliases}"
proof -
  have "filter_and_transform_events_for_client sample_vis_store (check_of sample_vis_store False True ''@a:s'')
      [sample_message] = Inr [annotate sample_vis_store (JStr Membership_JOIN) sample_message]"
    by code_simp
  note ex = client_filter_exclusions [OF this list.set_intros(1)]
  show ?thesis by (rule bexE [OF ex]) (intro bexI conjI; elim conjE; assumption)
qed

theorem erased_sender_redacted_witness:
  "\<exists>f. f = prune_vevent sample_message \<and> check_client_allowed_to_see_event
     (check_of sample_vis_store False True ''@z:s'') sample_message False None (Some sample_state) True = Inr (Some f)"
proof -
  have own: "\<not> own_event ''@z:s'' sample_message"
    by (simp add: own_event_def sample_message_def sample_vevent_def sample_event_def)
  have "membership_in_state ''@z:s'' sample_state = Inr JNull" by code_simp
  then have no: "\<not> looks_as (cc_user_id (check_of sample_vis_store False True ''@z:s'')) sample_message sample_state
      (JStr Membership_JOIN)"
    using looks_as_other [OF own] by simp
  have "check_client_allowed_to_see_event (check_of sample_vis_store False True ''@z:s'') sample_message False None
      (Some sample_state) True = Inr (Some (prune_vevent sample_message))" by code_simp
  then obtain f where f: "check_client_allowed_to_see_event (check_of sample_vis_store False True ''@z:s'')
      sample_message False None (Some sample_state) True = Inr (Some f)" by blast
  have "f = prune_vevent sample_message"
    by (rule erased_sender_redacted [OF sample_message_wf _ _ no f])
      (simp_all add: sample_message_def sample_vevent_def)
  with f show ?thesis by blast
qed


section \<open>Laxer settings\<close>

text \<open>The membership that the check looks at does not depend on the visibility.\<close>

definition viewed_membership :: "string \<Rightarrow> vevent \<Rightarrow> auth_map \<Rightarrow> json option res" where
  "viewed_membership u v s =
     rbind (own_membership_event u (ve_event v)) (\<lambda>own.
     if own then
       rbind (dget_dict (ve_unsigned v) ''prev_content'') (\<lambda>pc.
       let m = new_membership v; pm = one_of MEMBERSHIP_PRIORITY ''leave'' (dget_none pc ''membership'')
       in if m = ''leave'' \<and> (pm = ''join'' \<or> pm = ''invite'') then Inr None
          else rbind (py_index MEMBERSHIP_PRIORITY m) (\<lambda>n. rbind (py_index MEMBERSHIP_PRIORITY pm) (\<lambda>k.
               Inr (Some (JStr (if k < n then pm else m))))))
     else rbind (membership_in_state u s) (\<lambda>m. Inr (Some m)))"

lemma check_membership_viewed:
  "check_membership u v vis s peek = rbind (viewed_membership u v s) (\<lambda>r. Inr (case r of
      None \<Rightarrow> (True, False) | Some m \<Rightarrow> check_known_membership m vis peek))"
  unfolding check_membership_def viewed_membership_def new_membership_def
  by (auto simp: rbind_def Let_def split: sum.splits)

text \<open>
  Making the history visibility of a room laxer never hides an event from a client: what a
  user sees under a setting, the user also sees under every setting before it in the order world
  readable, shared, invited, joined, as long as the user is not peeking.
\<close>

theorem visibility_monotone:
  assumes "i \<le> j" and "j < length VISIBILITY_PRIORITY"
    and "check_membership u v (VISIBILITY_PRIORITY ! j) s False = Inr (True, b)"
  shows "check_membership u v (VISIBILITY_PRIORITY ! i) s False = Inr (True, b)"
proof -
  have known: "check_known_membership m (VISIBILITY_PRIORITY ! i) False = (True, b)"
    if "check_known_membership m (VISIBILITY_PRIORITY ! j) False = (True, b)" for m
  proof -
    have "i \<in> {0, 1, 2, 3}" "j \<in> {0, 1, 2, 3}" using assms(1,2) by (auto simp: VISIBILITY_PRIORITY_def)
    then show ?thesis
      using that assms(1)
      by (auto simp: check_known_membership_def VISIBILITY_PRIORITY_def split: if_splits)
  qed
  show ?thesis
    using assms(3) unfolding check_membership_viewed
    by (auto simp: rbind_Inr_iff known split: option.splits)
qed

theorem visibility_monotone_witness:
  "check_membership ''@a:s'' sample_message (VISIBILITY_PRIORITY ! 1) sample_state False = Inr (True, True)"
  by (rule visibility_monotone [of 1 3]) (simp, simp add: VISIBILITY_PRIORITY_def, code_simp)

section \<open>Findings\<close>

text \<open>
  The authorisation rules accept an invite whose state key is not a user id but names a
  server after its colon; from then on events of a room with restricted history cannot be filtered
  for that server: the filter raises \<open>ValueError\<close>.
\<close>

definition odd_invite :: event where
  "odd_invite = sample_member ''$o'' ''@a:s'' ''x:t'' ''invite''"

theorem malformed_member_blocks_server:
  "check_auth_rules sample_ext odd_invite sample_state = Inr ()
   \<and> filter_events_for_server sample_vis_store (\<lambda>_. [odd_invite]) ''t'' ''s'' False True False [sample_message]
      = Inl PyValueError"
  by (rule conjI; code_simp)

text \<open>
  A change of the history visibility from invited to joined is not shown to an invited user,
  although the user could see events under the old setting.
\<close>

definition closing_change :: vevent where
  "closing_change = (sample_vevent joined_history)\<lparr>ve_unsigned :=
     [(''prev_content'', JObj [(''history_visibility'', JStr HistoryVisibility_INVITED)])]\<rparr>"

definition closing_state :: auth_map where
  "closing_state = closed_state((EventTypes_Member, ''@z:s'') \<mapsto> sample_member ''$z'' ''@a:s'' ''@z:s'' ''invite'')"

theorem visibility_change_hidden_from_invitee:
  "check_client_allowed_to_see_event (check_of sample_vis_store False True ''@z:s'') closing_change False None
      (Some closing_state) False = Inr None
   \<and> old_visibility closing_change = HistoryVisibility_INVITED
   \<and> check_membership ''@z:s'' closing_change (old_visibility closing_change) closing_state False = Inr (True, False)"
  by (intro conjI; code_simp)

text \<open>
  Asking whether a user may see events without the checks for sending them to a client raises
  \<open>NameError\<close>: the retention policies are only bound when those checks are asked for.
\<close>

theorem unfiltered_client_check_raises:
  assumes "\<not> cc_filter_send_to_client cc" and "\<not> ve_soft_failed v"
  shows "filter_and_transform_events_for_client st cc [v] = Inl PyNameError"
  using assms
  by (simp add: filter_and_transform_events_for_client_def considered_events_def allowed_for_client_def
      Let_def raise_if_def)

theorem unfiltered_client_check_raises_witness:
  "filter_and_transform_events_for_client sample_vis_store (check_of sample_vis_store False False ''@a:s'')
     [sample_message] = Inl PyNameError"
  by (rule unfiltered_client_check_raises) (simp_all add: sample_message_def sample_vevent_def)

end
