(* ===== verification/Event_Format.thy ===== *)
theory Event_Format
  imports Redaction
begin

text \<open>
  How events are shown to clients and checked on the way in: the rest of the pure functions of
  \<open>synapse/events/utils.py\<close>. Fields are selected by dotted paths (\<open>_split_field\<close>, \<open>_copy_field\<close>,
  \<open>only_fields\<close>), events are serialized for a requester (\<open>_serialize_event\<close> and the formats),
  stripped for invites, and values are checked against canonical JSON.

  A dictionary of the source is a value here. \<open>only_fields\<close> may share objects between its result
  and its argument; what it then writes into a shared object is the value that is there already.
  The regular expressions of the source are written out as scanners. The class
  \<open>EventClientSerializer\<close>, which adds redactions, relations and the additions of modules from
  the database, is not modelled.
\<close>

section \<open>Paths of fields\<close>

text \<open>\<open>re.sub(r"\\(.)", _escape_slash, s)\<close>: the dot does not match a newline.\<close>

fun unescape :: "string \<Rightarrow> string" where
  "unescape [] = []"
| "unescape [c] = [c]"
| "unescape (c # d # cs) =
     (if c = CHR 0x5C \<and> d \<noteq> CHR 0x0A
      then (if d = CHR 0x5C \<or> d = CHR ''.'' then d # unescape cs else c # d # unescape cs)
      else c # unescape (d # cs))"

text \<open>
  The matches of \<open>\\*\.\<close>: a dot with the backslashes right before it. \<open>n\<close> is the number of these
  backslashes, \<open>part\<close> the part since the last split, reversed; a match of odd length splits.
\<close>

fun split_scan :: "nat \<Rightarrow> string \<Rightarrow> string \<Rightarrow> string list" where
  "split_scan n part [] = [unescape (rev part)]"
| "split_scan n part (c # cs) =
     (if c = CHR ''.''
      then (if (n + 1) mod 2 = 0 then split_scan 0 (c # part) cs
            else unescape (rev part) # split_scan 0 [] cs)
      else if c = CHR 0x5C then split_scan (n + 1) (c # part) cs
      else split_scan 0 (c # part) cs)"

definition split_field :: "string \<Rightarrow> string list" where
  "split_field field = split_scan 0 [] field"

text \<open>The dictionary that a path leads to, through dictionaries only.\<close>

fun drill :: "jdict \<Rightarrow> string list \<Rightarrow> jdict option" where
  "drill d [] = Some d"
| "drill d (f # fs) = (case dget d f of Some (JObj e) \<Rightarrow> drill e fs | _ \<Rightarrow> None)"

text \<open>\<open>setdefault\<close> along the path, then the assignment.\<close>

fun set_path :: "jdict \<Rightarrow> string list \<Rightarrow> string \<Rightarrow> json \<Rightarrow> jdict res" where
  "set_path d [] k v = Inr (dset d k v)"
| "set_path d (f # fs) k v = (case dget d f of
      None \<Rightarrow> rbind (set_path [] fs k v) (\<lambda>e. Inr (dset d f (JObj e)))
    | Some (JObj e) \<Rightarrow> rbind (set_path e fs k v) (\<lambda>e'. Inr (dset d f (JObj e')))
    | Some _ \<Rightarrow> Inl (if fs = [] then PyTypeError else PyAttributeError))"

definition copy_field :: "jdict \<Rightarrow> string list \<Rightarrow> jdict \<Rightarrow> jdict res" where
  "copy_field src field dst =
     (if field = [] then Inr dst
      else (let key_to_move = last field; path = butlast field
            in case drill src path of
                 None \<Rightarrow> Inr dst
               | Some sub_dict \<Rightarrow> (case dget sub_dict key_to_move of
                     None \<Rightarrow> Inr dst
                   | Some v \<Rightarrow> set_path dst path key_to_move v)))"

definition only_fields :: "jdict \<Rightarrow> string list \<Rightarrow> jdict res" where
  "only_fields dictionary flds =
     (if flds = [] then Inr dictionary
      else foldM_res (\<lambda>f out. copy_field dictionary (split_field f) out) flds [])"

section \<open>Formats for clients\<close>

definition v2_drop_keys :: "string list" where
  "v2_drop_keys = [''auth_events'', ''prev_events'', ''hashes'', ''signatures'', ''depth'', ''origin'', ''prev_state'']"

definition format_event_for_client_v2 :: "jdict \<Rightarrow> jdict" where
  "format_event_for_client_v2 d = fold dpop v2_drop_keys d"

definition v1_copy_keys :: "string list" where
  "v1_copy_keys = [''age'', ''redacted_because'', ''replaces_state'', ''prev_content'', ''invite_room_state'',
     ''knock_room_state'']"

definition format_event_for_client_v1 :: "jdict \<Rightarrow> jdict res" where
  "format_event_for_client_v1 d =
     (let d = format_event_for_client_v2 d;
          d = (case dget_none d ''sender'' of JNull \<Rightarrow> d | s \<Rightarrow> dset d ''user_id'' s)
      in rbind (dict_field d ''unsigned'') (\<lambda>u. Inr (add_fields u v1_copy_keys d)))"

definition format_event_for_client_v2_without_room_id :: "jdict \<Rightarrow> jdict" where
  "format_event_for_client_v2_without_room_id d = dpop ''room_id'' (format_event_for_client_v2 d)"

datatype event_format_fun = FormatRaw | FormatV1 | FormatV2 | FormatV2WithoutRoomId

fun apply_format :: "event_format_fun \<Rightarrow> jdict \<Rightarrow> jdict res" where
  "apply_format FormatRaw d = Inr d"
| "apply_format FormatV1 d = format_event_for_client_v1 d"
| "apply_format FormatV2 d = Inr (format_event_for_client_v2 d)"
| "apply_format FormatV2WithoutRoomId d = Inr (format_event_for_client_v2_without_room_id d)"

record session =
  ss_user_id :: string
  ss_device_id :: "string option"
  ss_access_token_id :: "int option"
  ss_is_guest :: bool
  ss_app_service :: bool

record serialize_config =
  as_client_event :: bool
  sc_event_format :: event_format_fun
  sc_requester :: "session option"
  include_stripped_room_state :: bool
  include_admin_metadata :: bool

definition make_config_for_admin :: "serialize_config \<Rightarrow> serialize_config" where
  "make_config_for_admin c = c\<lparr>include_admin_metadata := True\<rparr>"

text \<open>An event with its dictionary and the parts of its internal metadata that are read.\<close>

record serial_event =
  sx_event :: event
  sx_dict :: jdict
  sx_txn_id :: "string option"
  sx_device_id :: "string option"
  sx_token_id :: "int option"
  sx_delay_id :: "string option"
  sx_soft_failed :: bool
  sx_policy_server_spammy :: bool

text \<open>Whether the transaction id is shown: the requester has the session that sent the event.\<close>

definition same_session :: "serial_event \<Rightarrow> session \<Rightarrow> bool" where
  "same_session e r = (case sx_device_id e of
      Some d \<Rightarrow> ss_device_id r = Some d
    | None \<Rightarrow> (sx_token_id e \<noteq> None \<and> ss_access_token_id r \<noteq> None \<and> sx_token_id e = ss_access_token_id r)
        \<or> ss_is_guest r \<or> ss_app_service r)"

text \<open>\<open>n - v\<close> for an integer and a JSON value.\<close>

fun minus_json :: "int \<Rightarrow> json \<Rightarrow> json res" where
  "minus_json n (JInt i) = Inr (JInt (n - i))"
| "minus_json n (JBool b) = Inr (JInt (n - (if b then 1 else 0)))"
| "minus_json n (JFloat r) = Inr (JFloat (of_int n - r))"
| "minus_json n (JInf b) = Inr (JInf (\<not> b))"
| "minus_json n _ = Inl PyTypeError"

text \<open>The fields of the internal metadata that only the sender, or its session, is shown.\<close>

definition session_fields :: "serial_event \<Rightarrow> serialize_config \<Rightarrow> jdict \<Rightarrow> jdict" where
  "session_fields e config u = (case sc_requester config of
      Some r \<Rightarrow>
        if ss_user_id r = ev_sender (sx_event e) then
          (let u = (case sx_txn_id e of
                 Some txn \<Rightarrow> if same_session e r then dset u ''transaction_id'' (JStr txn) else u
               | None \<Rightarrow> u)
           in case sx_delay_id e of
                Some delay \<Rightarrow> dset u ''org.matrix.msc4140.delay_id'' (JStr delay) | None \<Rightarrow> u)
        else u
    | None \<Rightarrow> u)"

definition serialize_unsigned :: "serial_event \<Rightarrow> int \<Rightarrow> serialize_config \<Rightarrow> jdict \<Rightarrow> jdict res" where
  "serialize_unsigned e time_now_ms config u =
     rbind (case dget u ''age_ts'' of
        None \<Rightarrow> Inr u
      | Some ts \<Rightarrow> rbind (minus_json time_now_ms ts) (\<lambda>age. Inr (dpop ''age_ts'' (dset u ''age'' age)))) (\<lambda>u.
     let u = session_fields e config u
     in Inr (if include_stripped_room_state config then u
             else dpop ''knock_room_state'' (dpop ''invite_room_state'' u)))"

text \<open>The field with the redacted event in the place that the other room versions have it.\<close>

definition copy_redacts :: "event \<Rightarrow> jdict \<Rightarrow> jdict res" where
  "copy_redacts event d =
     (if ev_type event = EventTypes_Redaction \<and> redacts_of event \<noteq> JNull
      then (if updated_redaction_rules (ev_room_version event) then Inr (dset d ''redacts'' (redacts_of event))
            else rbind (dict_field d ''content'') (\<lambda>c.
                   Inr (dset d ''content'' (JObj (dset c ''redacts'' (redacts_of event))))))
      else Inr d)"

definition admin_metadata :: "serial_event \<Rightarrow> jdict \<Rightarrow> jdict res" where
  "admin_metadata e d =
     rbind (if sx_soft_failed e
            then rbind (dict_field d ''unsigned'') (\<lambda>u.
              Inr (dset d ''unsigned'' (JObj (dset u ''io.element.synapse.soft_failed'' (JBool True)))))
            else Inr d) (\<lambda>d.
     if sx_policy_server_spammy e
     then rbind (dict_field d ''unsigned'') (\<lambda>u.
       Inr (dset d ''unsigned'' (JObj (dset u ''io.element.synapse.policy_server_spammy'' (JBool True)))))
     else Inr d)"

definition serialize_event :: "serial_event \<Rightarrow> int \<Rightarrow> serialize_config \<Rightarrow> jdict res" where
  "serialize_event e time_now_ms config =
     (let event = sx_event e; d = dset (sx_dict e) ''event_id'' (JStr (ev_event_id event))
      in rbind (dict_field d ''unsigned'') (\<lambda>u.
         rbind (serialize_unsigned e time_now_ms config u) (\<lambda>u.
         rbind (let d = dset d ''unsigned'' (JObj u)
                in if as_client_event config then apply_format (sc_event_format config) d else Inr d) (\<lambda>d.
         rbind (copy_redacts event
                 (if ev_type event = EventTypes_Create \<and> msc4291_room_ids_as_hashes (ev_room_version event)
                  then dset d ''room_id'' (JStr (ev_room_id event)) else d)) (\<lambda>d.
         if include_admin_metadata config then admin_metadata e d else Inr d)))))"

section \<open>Power levels and canonical JSON\<close>

definition copy_power_level_value_as_integer :: "json \<Rightarrow> jdict \<Rightarrow> string \<Rightarrow> jdict res" where
  "copy_power_level_value_as_integer old_value power_levels key = (case old_value of
      JInt i \<Rightarrow> Inr (dset power_levels key (JInt i))
    | JStr s \<Rightarrow> (case int_of_str s of
          Inr i \<Rightarrow> Inr (dset power_levels key (JInt i)) | Inl _ \<Rightarrow> Inl PyTypeError)
    | _ \<Rightarrow> Inl PyTypeError)"

definition copy_power_level_entry :: "string \<times> json \<Rightarrow> jdict \<Rightarrow> jdict res" where
  "copy_power_level_entry kv power_levels = (case snd kv of
      JObj d \<Rightarrow> rbind (foldM_res (\<lambda>(k1, v1) h. copy_power_level_value_as_integer v1 h k1) d [])
                  (\<lambda>h. Inr (dset power_levels (fst kv) (JObj h)))
    | v \<Rightarrow> copy_power_level_value_as_integer v power_levels (fst kv))"

definition copy_and_fixup_power_levels_contents :: "json \<Rightarrow> jdict res" where
  "copy_and_fixup_power_levels_contents old_power_levels = (case old_power_levels of
      JObj d \<Rightarrow> foldM_res copy_power_level_entry d []
    | _ \<Rightarrow> Inl PyTypeError)"

definition CANONICALJSON_MAX_INT :: int where "CANONICALJSON_MAX_INT = 2 ^ 53 - 1"
definition CANONICALJSON_MIN_INT :: int where "CANONICALJSON_MIN_INT = - CANONICALJSON_MAX_INT"

fun validate_canonicaljson :: "json \<Rightarrow> unit res" where
  "validate_canonicaljson (JInt i) =
     raise_if (i < CANONICALJSON_MIN_INT \<or> CANONICALJSON_MAX_INT < i) (SynapseError 400 BAD_JSON)"
| "validate_canonicaljson (JFloat r) = Inl (SynapseError 400 BAD_JSON)"
| "validate_canonicaljson (JInf b) = Inl (SynapseError 400 BAD_JSON)"
| "validate_canonicaljson (JObj d) = forM_res (\<lambda>kv. validate_canonicaljson (snd kv)) d"
| "validate_canonicaljson (JList xs) = forM_res validate_canonicaljson xs"
| "validate_canonicaljson _ = Inr ()"

text \<open>
  \<open>maybe_upsert_event_field\<close> on one container of an event; \<open>pdu_size\<close> is the length of the
  canonical JSON of the whole event as a function of that container.
\<close>

definition maybe_upsert_event_field :: "(jdict \<Rightarrow> nat) \<Rightarrow> jdict \<Rightarrow> string \<Rightarrow> json \<Rightarrow> bool \<times> jdict" where
  "maybe_upsert_event_field pdu_size container key value =
     (let container' = dset container key value
      in if pdu_size container' \<le> MAX_PDU_SIZE then (True, container')
         else (False, (case dget container key of
             Some old_value \<Rightarrow> dset container' key old_value
           | None \<Rightarrow> dpop key container')))"

section \<open>Stripped state\<close>

text \<open>\<open>strip_event\<close>; \<open>pdu_json\<close> is what \<open>event.get_pdu_json()\<close> returns.\<close>

definition strip_event :: "event \<Rightarrow> jdict \<Rightarrow> jdict res" where
  "strip_event event pdu_json =
     (if msc4291_room_ids_as_hashes (ev_room_version event) \<and> ev_type event = EventTypes_Create
         \<and> ev_state_key event = Some []
      then Inr pdu_json
      else rbind (state_key_of event) (\<lambda>k.
        Inr [(''type'', JStr (ev_type event)), (''state_key'', JStr k), (''content'', JObj (ev_content event)),
             (''sender'', JStr (ev_sender event))]))"

record stripped_state_event =
  st_type :: string
  st_state_key :: string
  st_sender :: string
  st_content :: jdict

definition parse_stripped_state_event :: "json \<Rightarrow> stripped_state_event option" where
  "parse_stripped_state_event raw = (case raw of
      JObj d \<Rightarrow> (case (dget d ''type'', dget d ''state_key'', dget d ''sender'', dget d ''content'') of
          (Some (JStr t), Some (JStr k), Some (JStr s), Some (JObj c)) \<Rightarrow>
            Some \<lparr>st_type = t, st_state_key = k, st_sender = s, st_content = c\<rparr>
        | _ \<Rightarrow> None)
    | _ \<Rightarrow> None)"

section \<open>Splitting a path undoes joining it\<close>

fun escape :: "string \<Rightarrow> string" where
  "escape [] = []"
| "escape (c # cs) = (if c = CHR 0x5C \<or> c = CHR ''.'' then CHR 0x5C # c # escape cs else c # escape cs)"

fun join_fields :: "string list \<Rightarrow> string" where
  "join_fields [] = []"
| "join_fields [p] = escape p"
| "join_fields (p # ps) = escape p @ CHR ''.'' # join_fields ps"

lemma unescape_escape: "unescape (escape p) = p"
proof (induction p)
  case (Cons c cs)
  show ?case
  proof (cases "c = CHR 0x5C \<or> c = CHR ''.''")
    case True
    then show ?thesis using Cons by auto
  next
    case False
    then show ?thesis using Cons by (cases "escape cs") auto
  qed
qed simp

text \<open>Scanning an escaped part consumes it and ends behind an even number of backslashes.\<close>

lemma split_scan_escape:
  assumes "n mod 2 = 0"
  shows "\<exists>m. m mod 2 = 0 \<and> split_scan n part (escape p @ rest) = split_scan m (rev (escape p) @ part) rest"
  using assms
proof (induction p arbitrary: n part)
  case (Cons c cs)
  consider "c = CHR 0x5C" | "c = CHR ''.''" | "c \<noteq> CHR 0x5C" "c \<noteq> CHR ''.''" by blast
  then show ?case
  proof cases
    case 1
    have "(n + 2) mod 2 = 0" using Cons.prems by simp
    from Cons.IH [OF this] show ?thesis using 1 by (auto simp: numeral_2_eq_2)
  next
    case 2
    from Cons.IH [of 0] show ?thesis using 2 Cons.prems by auto
  next
    case 3
    from Cons.IH [of 0] show ?thesis using 3 by auto
  qed
next
  case Nil
  then show ?case by (intro exI [of _ n]) simp
qed

lemma split_join_fields:
  assumes "names \<noteq> []"
  shows "split_field (join_fields names) = names"
proof -
  have "split_scan 0 [] (join_fields names) = names" using assms
  proof (induction names rule: join_fields.induct)
    case (2 p)
    obtain m where "split_scan 0 [] (escape p @ []) = split_scan m (rev (escape p) @ []) []"
      using split_scan_escape [of 0 "[]" p "[]"] by auto
    then show ?case by (simp add: unescape_escape)
  next
    case (3 p q ps)
    let ?rest = "CHR ''.'' # join_fields (q # ps)"
    have "\<exists>m. m mod 2 = 0 \<and> split_scan 0 [] (escape p @ ?rest) = split_scan m (rev (escape p) @ []) ?rest"
      by (rule split_scan_escape) simp
    then obtain m where m: "m mod 2 = 0" "split_scan 0 [] (escape p @ ?rest) = split_scan m (rev (escape p) @ []) ?rest"
      by (elim exE conjE)
    have "(m + 1) mod 2 \<noteq> 0" using m(1) by presburger
    then show ?case using m(2) 3 by (simp add: unescape_escape)
  qed simp
  then show ?thesis by (simp add: split_field_def)
qed

text \<open>
  C39: a path of field names, with dots and backslashes in the names escaped and the names joined by
  dots, is split into the same names again.
\<close>

theorem split_field_join:
  assumes "names \<noteq> []"
  shows "split_field (join_fields names) = names"
  using assms by (rule split_join_fields)

theorem split_field_join_witness:
  "split_field (join_fields [''content'', [CHR ''a'', CHR 0x5C, CHR ''.''], '''']) = [''content'', [CHR ''a'', CHR 0x5C, CHR ''.''], '''']"
  by (rule split_field_join) simp

section \<open>Selection of fields\<close>

definition field_at :: "jdict \<Rightarrow> string list \<Rightarrow> string \<Rightarrow> json option" where
  "field_at d path k = (case drill d path of Some e \<Rightarrow> dget e k | None \<Rightarrow> None)"

definition field_value :: "jdict \<Rightarrow> string list \<Rightarrow> json option" where
  "field_value d names = (if names = [] then None else field_at d (butlast names) (last names))"

text \<open>A dictionary that holds nothing but data of another one, with objects possibly cut down.\<close>

inductive below :: "jdict \<Rightarrow> jdict \<Rightarrow> bool" where
  belowI: "(\<And>k v. dget d k = Some v \<Longrightarrow> dget e k = Some v
      \<or> (\<exists>d' e'. v = JObj d' \<and> dget e k = Some (JObj e') \<and> below d' e')) \<Longrightarrow> below d e"

lemma below_refl: "below d d"
  by (rule belowI) simp

lemma below_Nil: "below [] e"
  by (rule belowI) simp

lemma below_get:
  assumes "below d e" and "dget d k = Some v"
  shows "dget e k = Some v \<or> (\<exists>d' e'. v = JObj d' \<and> dget e k = Some (JObj e') \<and> below d' e')"
  using assms by (cases rule: below.cases) blast

lemma field_at_Nil [simp]: "field_at d [] k = dget d k"
  by (simp add: field_at_def)

lemma field_at_Cons: "field_at d (f # fs) k = (case dget d f of Some (JObj e) \<Rightarrow> field_at e fs k | _ \<Rightarrow> None)"
  by (simp add: field_at_def split: option.splits json.splits)

lemma field_at_ConsE:
  assumes "field_at d (f # fs) k = Some w"
  obtains e where "dget d f = Some (JObj e)" and "field_at e fs k = Some w"
  using assms by (auto simp: field_at_Cons split: option.splits json.splits)

lemma set_path_same: "field_at d q k = Some w \<Longrightarrow> set_path d q k w = Inr d"
proof (induction q arbitrary: d)
  case (Cons f fs)
  then obtain e where "dget d f = Some (JObj e)" "field_at e fs k = Some w" by (elim field_at_ConsE)
  then show ?case using Cons.IH by (simp add: dset_same)
qed (simp add: dset_same)

lemma below_dset:
  assumes "below d e" and "dget e k = Some v \<or> (\<exists>d' e'. v = JObj d' \<and> dget e k = Some (JObj e') \<and> below d' e')"
  shows "below (dset d k v) e"
proof (rule belowI)
  fix j u
  assume u: "dget (dset d k v) j = Some u"
  show "dget e j = Some u \<or> (\<exists>d' e'. u = JObj d' \<and> dget e j = Some (JObj e') \<and> below d' e')"
  proof (cases "j = k")
    case True
    then show ?thesis using u assms(2) by (simp add: dget_dset)
  next
    case False
    then have "dget d j = Some u" using u by (simp add: dget_dset)
    then show ?thesis by (rule below_get [OF assms(1)])
  qed
qed

text \<open>Writing a field of the source at its place succeeds and keeps the result below the source.\<close>

lemma set_path_below:
  assumes "below out src" and "field_at src q k = Some w"
  shows "\<exists>out'. set_path out q k w = Inr out' \<and> below out' src"
  using assms
proof (induction q arbitrary: out src)
  case Nil
  then show ?case by (simp add: below_dset)
next
  case (Cons f fs)
  from Cons.prems(2) obtain es where es: "dget src f = Some (JObj es)" "field_at es fs k = Some w"
    by (elim field_at_ConsE)
  have step: "\<exists>out'. rbind (set_path d fs k w) (\<lambda>e'. Inr (dset out f (JObj e'))) = Inr out' \<and> below out' src"
    if sub: "below d es" for d
  proof -
    obtain e' where "set_path d fs k w = Inr e'" "below e' es" using Cons.IH [OF sub es(2)] by blast
    then show ?thesis using below_dset [OF Cons.prems(1), of f "JObj e'"] es(1) by auto
  qed
  show ?case
  proof (cases "dget out f")
    case None
    then show ?thesis using step [OF below_Nil] by simp
  next
    case (Some v)
    have "dget src f = Some v \<or> (\<exists>d' e'. v = JObj d' \<and> dget src f = Some (JObj e') \<and> below d' e')"
      by (rule below_get [OF Cons.prems(1) Some])
    then show ?thesis
    proof
      assume "dget src f = Some v"
      then have "v = JObj es" using es(1) by simp
      then show ?thesis using Some step [OF below_refl] by simp
    next
      assume "\<exists>d' e'. v = JObj d' \<and> dget src f = Some (JObj e') \<and> below d' e'"
      then obtain d' where "v = JObj d'" "below d' es" using es(1) by auto
      then show ?thesis using Some step [of d'] by simp
    qed
  qed
qed

lemma set_path_get:
  assumes "set_path out q k w = Inr out'"
  shows "field_at out' q k = Some w"
  using assms
proof (induction q arbitrary: out out')
  case (Cons f fs)
  obtain d e' where "set_path d fs k w = Inr e'" "out' = dset out f (JObj e')"
    using Cons.prems by (auto simp: rbind_Inr_iff split: option.splits json.splits)
  then show ?case using Cons.IH by (simp add: field_at_Cons dget_dset)
qed (auto simp: dget_dset)

text \<open>It keeps the fields that were written before.\<close>

lemma set_path_keeps:
  assumes "set_path out q k w = Inr out'" and "field_at src q k = Some w"
    and "field_at out p j = Some v" and "field_at src p j = Some v"
  shows "field_at out' p j = Some v"
  using assms
proof (induction q arbitrary: out src out' p)
  case Nil
  then show ?case by (cases p) (auto simp: dget_dset field_at_Cons split: if_splits)
next
  case (Cons f fs)
  from Cons.prems(2) obtain es where es: "dget src f = Some (JObj es)" "field_at es fs k = Some w"
    by (elim field_at_ConsE)
  show ?case
  proof (cases "(case p of [] \<Rightarrow> j | g # _ \<Rightarrow> g) = f")
    case False
    then have "dget out' (case p of [] \<Rightarrow> j | g # _ \<Rightarrow> g) = dget out (case p of [] \<Rightarrow> j | g # _ \<Rightarrow> g)"
      using Cons.prems(1) by (auto simp: rbind_Inr_iff dget_dset split: option.splits json.splits)
    then show ?thesis using Cons.prems(3) by (cases p) (simp_all add: field_at_Cons)
  next
    case True
    show ?thesis
    proof (cases p)
      case Nil
      then have "dget out f = Some (JObj es)" "v = JObj es" using True Cons.prems(3,4) es(1) by auto
      then show ?thesis
        using Cons.prems(1) Nil True set_path_same [OF es(2)] by (auto simp: dget_dset)
    next
      case p: (Cons g ps)
      then have g: "g = f" using True by simp
      obtain d where d: "dget out f = Some (JObj d)" "field_at d ps j = Some v"
        using Cons.prems(3) p g by (auto elim: field_at_ConsE)
      obtain e' where e': "set_path d fs k w = Inr e'" "out' = dset out f (JObj e')"
        using Cons.prems(1) d(1) by (auto simp: rbind_Inr_iff)
      have "field_at es ps j = Some v" using Cons.prems(4) p g es(1) by (simp add: field_at_Cons)
      then have "field_at e' ps j = Some v" by (rule Cons.IH [OF e'(1) es(2) d(2)])
      then show ?thesis using p g e'(2) by (simp add: field_at_Cons dget_dset)
    qed
  qed
qed


lemma copy_field_step:
  assumes "below out src"
  shows "\<exists>out'. copy_field src field out = Inr out' \<and> below out' src
    \<and> (field_value src field \<noteq> None \<longrightarrow> field_value out' field = field_value src field)
    \<and> (\<forall>g. field_value out g \<noteq> None \<longrightarrow> field_value out g = field_value src g \<longrightarrow> field_value out' g = field_value out g)"
proof (cases "field_value src field")
  case None
  then have "copy_field src field out = Inr out"
    by (auto simp: copy_field_def field_value_def field_at_def Let_def split: option.splits if_splits)
  then show ?thesis using None assms by simp
next
  case (Some w)
  then have ne: "field \<noteq> []" and w: "field_at src (butlast field) (last field) = Some w"
    by (auto simp: field_value_def split: if_splits)
  have eq: "copy_field src field out = set_path out (butlast field) (last field) w"
    using ne w by (auto simp: copy_field_def field_at_def Let_def split: option.splits)
  obtain out' where out': "set_path out (butlast field) (last field) w = Inr out'" "below out' src"
    using set_path_below [OF assms w] by (elim exE conjE)
  have "field_value out' field = Some w" using set_path_get [OF out'(1)] ne by (simp add: field_value_def)
  moreover have "field_value out' g = field_value out g"
    if "field_value out g \<noteq> None" "field_value out g = field_value src g" for g
    using that set_path_keeps [OF out'(1) w, of "butlast g" "last g"]
    by (auto simp: field_value_def split: if_splits)
  ultimately show ?thesis using eq out' Some by auto
qed

lemma copy_fields_fold:
  assumes "below out src"
  shows "\<exists>out'. foldM_res (\<lambda>f out. copy_field src (split_field f) out) flds out = Inr out' \<and> below out' src
    \<and> (\<forall>g. (g \<in> split_field ` set flds \<and> field_value src g \<noteq> None)
          \<or> (field_value out g \<noteq> None \<and> field_value out g = field_value src g)
        \<longrightarrow> field_value out' g = field_value src g)"
  using assms
proof (induction flds arbitrary: out)
  case (Cons f fs)
  obtain out1 where out1: "copy_field src (split_field f) out = Inr out1" "below out1 src"
      "field_value src (split_field f) \<noteq> None \<longrightarrow> field_value out1 (split_field f) = field_value src (split_field f)"
      "\<And>g. field_value out g \<noteq> None \<Longrightarrow> field_value out g = field_value src g \<Longrightarrow> field_value out1 g = field_value out g"
    using copy_field_step [OF Cons.prems, of "split_field f"] by blast
  obtain out2 where out2: "foldM_res (\<lambda>f out. copy_field src (split_field f) out) fs out1 = Inr out2"
      "below out2 src"
      "\<And>g. (g \<in> split_field ` set fs \<and> field_value src g \<noteq> None)
          \<or> (field_value out1 g \<noteq> None \<and> field_value out1 g = field_value src g)
        \<Longrightarrow> field_value out2 g = field_value src g"
    using Cons.IH [OF out1(2)] by blast
  have "field_value out2 g = field_value src g"
    if "(g \<in> split_field ` set (f # fs) \<and> field_value src g \<noteq> None)
          \<or> (field_value out g \<noteq> None \<and> field_value out g = field_value src g)" for g
  proof (rule out2(3))
    show "(g \<in> split_field ` set fs \<and> field_value src g \<noteq> None)
        \<or> (field_value out1 g \<noteq> None \<and> field_value out1 g = field_value src g)"
    proof (cases "field_value out g \<noteq> None \<and> field_value out g = field_value src g")
      case True
      then have "field_value out1 g = field_value out g" by (intro out1(4) [OF conjunct1 conjunct2])
      moreover have "field_value src g \<noteq> None" using True by metis
      ultimately show ?thesis using True by simp
    next
      case False
      then show ?thesis using that out1(3) by auto
    qed
  qed
  then show ?case using out1(1) out2(1,2) by auto
qed auto

lemma below_field_value: "below d e \<Longrightarrow> field_value e g = None \<Longrightarrow> field_value d g = None"
proof -
  have "field_at d p k \<noteq> None \<Longrightarrow> below d e \<Longrightarrow> field_at e p k \<noteq> None" for p k
  proof (induction p arbitrary: d e)
    case Nil
    then obtain v where "dget d k = Some v" by auto
    from below_get [OF Nil(2) this] show ?case by auto
  next
    case (Cons f fs)
    then obtain w where w: "field_at d (f # fs) k = Some w" by auto
    then obtain d1 where d1: "dget d f = Some (JObj d1)" "field_at d1 fs k = Some w" by (elim field_at_ConsE)
    from below_get [OF Cons.prems(2) d1(1)] obtain e1 where "dget e f = Some (JObj e1)" "below d1 e1"
      using below_refl by auto
    then show ?case using Cons.IH [of d1 e1] d1(2) by (simp add: field_at_Cons)
  qed
  then show "below d e \<Longrightarrow> field_value e g = None \<Longrightarrow> field_value d g = None"
    by (metis field_value_def)
qed

text \<open>One path leads to the other or on from it.\<close>

definition on_path :: "string list \<Rightarrow> string list \<Rightarrow> bool" where
  "on_path p q \<longleftrightarrow> (\<exists>r. q = p @ r) \<or> (\<exists>r. p = q @ r)"

lemma on_path_Nil [simp]: "on_path [] q" "on_path p []"
  by (simp_all add: on_path_def)

lemma on_path_Cons [simp]: "on_path (x # p) (x # q) = on_path p q"
  by (simp add: on_path_def)

text \<open>Writing a field creates nothing but the way to it and what it holds.\<close>

lemma set_path_only:
  assumes "set_path out q k w = Inr out'" and "field_at out' p j \<noteq> None"
  shows "field_at out p j \<noteq> None \<or> on_path (p @ [j]) (q @ [k])"
  using assms
proof (induction q arbitrary: out out' p)
  case Nil
  then show ?case by (cases p) (auto simp: field_at_Cons dget_dset split: if_splits)
next
  case (Cons f fs)
  obtain d e' where d: "set_path d fs k w = Inr e'" "out' = dset out f (JObj e')"
      "dget out f = None \<and> d = [] \<or> dget out f = Some (JObj d)"
    using Cons.prems(1) by (auto simp: rbind_Inr_iff split: option.splits json.splits)
  show ?case
  proof (cases p)
    case Nil
    then show ?thesis using Cons.prems(2) d(2) by (auto simp: dget_dset split: if_splits)
  next
    case p: (Cons g ps)
    show ?thesis
    proof (cases "g = f")
      case True
      then have "field_at e' ps j \<noteq> None" using Cons.prems(2) d(2) p by (simp add: field_at_Cons dget_dset)
      from Cons.IH [OF d(1) this] have "field_at d ps j \<noteq> None \<or> on_path (ps @ [j]) (fs @ [k])" .
      moreover have "field_at ([] :: jdict) ps j = None" by (cases ps) (simp_all add: field_at_Cons dget_def)
      ultimately show ?thesis using d(3) p True by (auto simp: field_at_Cons)
    next
      case False
      then show ?thesis using Cons.prems(2) d(2) p by (simp add: field_at_Cons dget_dset)
    qed
  qed
qed

lemma copy_field_only:
  assumes "copy_field src field out = Inr out'" and "field_value out' g \<noteq> None"
  shows "field_value out g \<noteq> None \<or> field_value src field \<noteq> None \<and> on_path g field"
proof (cases "field_value src field")
  case None
  then have "out' = out"
    using assms(1) by (auto simp: copy_field_def field_value_def field_at_def Let_def split: option.splits if_splits)
  then show ?thesis using assms(2) by simp
next
  case (Some w)
  then have ne: "field \<noteq> []" and w: "field_at src (butlast field) (last field) = Some w"
    by (auto simp: field_value_def split: if_splits)
  have "set_path out (butlast field) (last field) w = Inr out'"
    using assms(1) ne w by (auto simp: copy_field_def field_at_def Let_def split: option.splits)
  from set_path_only [OF this, of "butlast g" "last g"] show ?thesis
    using assms(2) ne Some by (auto simp: field_value_def split: if_splits)
qed

lemma copy_fields_only:
  assumes "foldM_res (\<lambda>f out. copy_field src (split_field f) out) flds out = Inr out'" and "field_value out' g \<noteq> None"
  shows "field_value out g \<noteq> None
    \<or> (\<exists>f \<in> set flds. field_value src (split_field f) \<noteq> None \<and> on_path g (split_field f))"
  using assms
proof (induction flds arbitrary: out)
  case (Cons f fs)
  then obtain out1 where out1: "copy_field src (split_field f) out = Inr out1"
      "foldM_res (\<lambda>f out. copy_field src (split_field f) out) fs out1 = Inr out'"
    by (auto simp: rbind_Inr_iff)
  from Cons.IH [OF out1(2) Cons.prems(2)] show ?case using copy_field_only [OF out1(1), of g] by auto
qed simp

lemma field_value_empty: "field_value [] g = None"
  by (cases "butlast g") (simp_all add: field_value_def field_at_Cons dget_def)

text \<open>
  C38: selecting fields never fails, and selects exactly the requested fields, whichever paths overlap
  and in whichever order they are given. At every requested path the result has the value that the
  event has there, or none if the event has none; it holds nothing that the event does not hold at
  the same place; and every path that the result has leads to a requested field that the event has,
  or lies within one.
\<close>

theorem only_fields_correct:
  assumes "flds \<noteq> []"
  shows "\<exists>out. only_fields d flds = Inr out \<and> below out d
    \<and> (\<forall>f \<in> set flds. field_value out (split_field f) = field_value d (split_field f))
    \<and> (\<forall>g. field_value out g \<noteq> None \<longrightarrow>
         (\<exists>f \<in> set flds. field_value d (split_field f) \<noteq> None \<and> on_path g (split_field f)))"
proof -
  obtain out where out: "foldM_res (\<lambda>f out. copy_field d (split_field f) out) flds [] = Inr out" "below out d"
      "\<And>g. g \<in> split_field ` set flds \<Longrightarrow> field_value d g \<noteq> None \<Longrightarrow> field_value out g = field_value d g"
    using copy_fields_fold [OF below_Nil, of d flds] by blast
  have "field_value out (split_field f) = field_value d (split_field f)" if f: "f \<in> set flds" for f
  proof (cases "field_value d (split_field f) = None")
    case True
    then show ?thesis using below_field_value [OF out(2)] by simp
  next
    case False
    then show ?thesis using out(3) f by simp
  qed
  moreover have "\<exists>f \<in> set flds. field_value d (split_field f) \<noteq> None \<and> on_path g (split_field f)"
    if "field_value out g \<noteq> None" for g
    using copy_fields_only [OF out(1) that] by (simp add: field_value_empty)
  moreover have "only_fields d flds = Inr out" using out(1) assms by (simp add: only_fields_def)
  ultimately show ?thesis using out(2) by blast
qed

theorem only_fields_correct_witness:
  "\<exists>out. only_fields [(''content'', JObj [(''a'', JInt 1), (''b'', JInt 2)])] [''content.a'', ''type''] = Inr out
    \<and> field_value out [''content'', ''a''] = Some (JInt 1) \<and> field_value out [''content'', ''b''] = None"
proof -
  let ?d = "[(''content'', JObj [(''a'', JInt 1), (''b'', JInt 2)])]"
  have sp: "split_field ''content.a'' = [''content'', ''a'']" "split_field ''type'' = [''type'']" by code_simp+
  have "field_value ?d [''content'', ''a''] = Some (JInt 1)" by code_simp
  moreover have "\<not> on_path [''content'', ''b''] [''content'', ''a'']" "\<not> on_path [''content'', ''b''] [''type'']"
    by (auto simp: on_path_def)
  moreover obtain out where "only_fields ?d [''content.a'', ''type''] = Inr out"
      "\<forall>f \<in> set [''content.a'', ''type'']. field_value out (split_field f) = field_value ?d (split_field f)"
      "\<forall>g. field_value out g \<noteq> None \<longrightarrow>
         (\<exists>f \<in> set [''content.a'', ''type'']. field_value ?d (split_field f) \<noteq> None \<and> on_path g (split_field f))"
    using only_fields_correct [of "[''content.a'', ''type'']" ?d] by auto
  ultimately show ?thesis using sp by (intro exI [of _ out]) force
qed

section \<open>Power levels after a fix-up\<close>

text \<open>What the fix-up makes of one value: a number becomes or stays an integer.\<close>

definition fixed_level :: "json \<Rightarrow> json \<Rightarrow> bool" where
  "fixed_level v w \<longleftrightarrow> v \<noteq> JNull \<and> (\<exists>i. py_int v = Inr i \<and> w = JInt i)"

definition fixed_dict :: "(json \<Rightarrow> json \<Rightarrow> bool) \<Rightarrow> jdict \<Rightarrow> jdict \<Rightarrow> bool" where
  "fixed_dict R d e \<longleftrightarrow> (\<forall>k. rel_option R (dget d k) (dget e k))"

definition fixed_entry :: "json \<Rightarrow> json \<Rightarrow> bool" where
  "fixed_entry v w \<longleftrightarrow> fixed_level v w \<or> (\<exists>a b. v = JObj a \<and> w = JObj b \<and> fixed_dict fixed_level a b)"

lemma copy_level_Inr:
  assumes "copy_power_level_value_as_integer v h k = Inr h'"
  shows "\<exists>w. fixed_level v w \<and> h' = dset h k w"
  using assms by (auto simp: copy_power_level_value_as_integer_def fixed_level_def split: json.splits sum.splits)

lemma fold_fixed_dict:
  assumes "foldM_res f xs s = Inr t" and "distinct (map fst xs)"
    and step: "\<And>k v s s'. (k, v) \<in> set xs \<Longrightarrow> f (k, v) s = Inr s' \<Longrightarrow> \<exists>w. R v w \<and> s' = dset s k w"
  shows "(\<forall>k. k \<notin> fst ` set xs \<longrightarrow> dget t k = dget s k)
    \<and> (\<forall>k v. dget xs k = Some v \<longrightarrow> (\<exists>w. dget t k = Some w \<and> R v w))"
  using assms
proof (induction xs arbitrary: s)
  case (Cons x xs)
  obtain k v where x: "x = (k, v)" by (cases x)
  obtain s1 where s1: "f (k, v) s = Inr s1" "foldM_res f xs s1 = Inr t"
    using Cons.prems(1) x by (auto simp: rbind_Inr_iff)
  obtain w where w: "R v w" "s1 = dset s k w" using Cons.prems(3) [OF _ s1(1)] x by auto
  have IH: "\<And>j. j \<notin> fst ` set xs \<Longrightarrow> dget t j = dget s1 j"
      "\<And>j u. dget xs j = Some u \<Longrightarrow> \<exists>w. dget t j = Some w \<and> R u w"
    using Cons.IH [OF s1(2)] Cons.prems(2,3) by auto
  have "dget t k = Some w" using IH(1) [of k] Cons.prems(2) x w(2) by (simp add: dget_dset)
  moreover have "dget (x # xs) j = (if j = k then Some v else dget xs j)" for j
    by (simp add: x dget_def)
  ultimately show ?case using IH w x by (auto simp: dget_dset)
qed (simp add: dget_def)

lemma fold_fixed_dict_Nil:
  assumes "foldM_res f xs [] = Inr t" and "distinct (map fst xs)"
    and step: "\<And>k v s s'. (k, v) \<in> set xs \<Longrightarrow> f (k, v) s = Inr s' \<Longrightarrow> \<exists>w. R v w \<and> s' = dset s k w"
  shows "fixed_dict R xs t"
proof -
  have F: "(\<forall>k. k \<notin> fst ` set xs \<longrightarrow> dget t k = dget [] k)
      \<and> (\<forall>k v. dget xs k = Some v \<longrightarrow> (\<exists>w. dget t k = Some w \<and> R v w))"
    by (rule fold_fixed_dict [OF assms(1,2) step])
  show ?thesis unfolding fixed_dict_def
  proof
    fix k
    show "rel_option R (dget xs k) (dget t k)"
    proof (cases "dget xs k")
      case None
      then have "k \<notin> fst ` set xs" by (simp add: dget_def map_of_eq_None_iff)
      then show ?thesis using F None by simp
    next
      case (Some v)
      then obtain w where "dget t k = Some w" "R v w" using F by blast
      then show ?thesis using Some by simp
    qed
  qed
qed

definition dict_keys_distinct :: "json \<Rightarrow> bool" where
  "dict_keys_distinct v = (case v of JObj d \<Rightarrow> distinct (map fst d) | _ \<Rightarrow> True)"

lemma copy_entry_Inr:
  assumes "copy_power_level_entry (k, v) s = Inr s'" and "dict_keys_distinct v"
  shows "\<exists>w. fixed_entry v w \<and> s' = dset s k w"
proof (cases "\<exists>d. v = JObj d")
  case True
  then obtain d where d: "v = JObj d" by blast
  obtain h where h: "foldM_res (\<lambda>(k1, v1) h. copy_power_level_value_as_integer v1 h k1) d [] = Inr h"
      "s' = dset s k (JObj h)"
    using assms(1) d by (auto simp: copy_power_level_entry_def rbind_Inr_iff)
  have "distinct (map fst d)" using assms(2) d by (simp add: dict_keys_distinct_def)
  with h(1) have "fixed_dict fixed_level d h"
    by (rule fold_fixed_dict_Nil) (use copy_level_Inr in auto)
  then show ?thesis using d h(2) by (auto simp: fixed_entry_def)
next
  case False
  then have "copy_power_level_value_as_integer v s k = Inr s'"
    using assms(1) by (simp add: copy_power_level_entry_def split: json.splits)
  then show ?thesis using copy_level_Inr [of v s k s'] unfolding fixed_entry_def by blast
qed

lemma fixup_fixed:
  assumes "copy_and_fixup_power_levels_contents (JObj d) = Inr d'"
    and "distinct (map fst d)" and "list_all (\<lambda>kv. dict_keys_distinct (snd kv)) d"
  shows "fixed_dict fixed_entry d d'"
proof -
  have "foldM_res copy_power_level_entry d [] = Inr d'"
    using assms(1) by (simp add: copy_and_fixup_power_levels_contents_def)
  then show ?thesis
    by (rule fold_fixed_dict_Nil [OF _ assms(2)]) (use copy_entry_Inr assms(3) in \<open>fastforce simp: list_all_iff\<close>)
qed


lemma fixed_dictD:
  assumes "fixed_dict R d e"
  shows "dget d k = None \<and> dget e k = None \<or> (\<exists>v w. dget d k = Some v \<and> dget e k = Some w \<and> R v w)"
proof -
  have "rel_option R (dget d k) (dget e k)" using assms by (simp add: fixed_dict_def)
  then show ?thesis by (cases rule: option.rel_cases) auto
qed

lemma fixed_entry_facts:
  assumes "fixed_entry v w"
  shows "v \<noteq> JNull" "w \<noteq> JNull" "py_int w = py_int v"
  using assms by (auto simp: fixed_entry_def fixed_level_def)

lemma fixed_default:
  assumes "fixed_dict fixed_entry d d'" and "dflt \<noteq> JNull"
  shows "dget_default d k dflt \<noteq> JNull" "dget_default d' k dflt \<noteq> JNull"
    "py_int (dget_default d' k dflt) = py_int (dget_default d k dflt)"
  using fixed_dictD [OF assms(1), of k] assms(2) fixed_entry_facts by (auto simp: dget_default_def dget_def)

lemma fixed_named:
  assumes "fixed_dict fixed_entry d d'"
  shows "dget_none d' k = JNull \<longleftrightarrow> dget_none d k = JNull" "py_int (dget_none d' k) = py_int (dget_none d k)"
  using fixed_dictD [OF assms, of k] fixed_entry_facts by (auto simp: dget_none_def dget_def)

lemma fixed_sub_dict:
  assumes "fixed_dict fixed_entry d d'"
  shows "(\<exists>e. dget_dict d k = Inl e \<and> dget_dict d' k = Inl e)
    \<or> (\<exists>a b. dget_dict d k = Inr a \<and> dget_dict d' k = Inr b \<and> fixed_dict fixed_entry a b)"
proof -
  have mono: "fixed_dict fixed_level a b \<Longrightarrow> fixed_dict fixed_entry a b" for a b
    unfolding fixed_dict_def by (metis fixed_entry_def option.rel_mono_strong)
  have Nil: "fixed_dict fixed_entry [] []" by (simp add: fixed_dict_def)
  show ?thesis
    using fixed_dictD [OF assms, of k]
  proof (elim disjE exE conjE)
    fix v w
    assume vw: "dget d k = Some v" "dget d' k = Some w" "fixed_entry v w"
    then consider "fixed_level v w" | a b where "v = JObj a" "w = JObj b" "fixed_dict fixed_level a b"
      by (auto simp: fixed_entry_def)
    then show ?thesis
      by cases (use vw mono in \<open>auto simp: dget_dict_def dget_def fixed_level_def split: json.splits\<close>)
  qed (auto simp: dget_dict_def dget_def Nil)
qed

text \<open>
  When the content of a power levels event is copied with strings turned into integers, every
  level that the authorisation rules read from it stays as it was: that of each user, each named
  level and the level for sending each type of event.
\<close>

theorem fixup_keeps_levels:
  assumes "copy_and_fixup_power_levels_contents (JObj d) = Inr d'"
    and "distinct (map fst d)" and "list_all (\<lambda>kv. dict_keys_distinct (snd kv)) d"
  shows "get_user_power_level u (am(POWER_KEY \<mapsto> e\<lparr>ev_content := d'\<rparr>))
      = get_user_power_level u (am(POWER_KEY \<mapsto> e\<lparr>ev_content := d\<rparr>))
    \<and> get_named_level (am(POWER_KEY \<mapsto> e\<lparr>ev_content := d'\<rparr>)) name dflt
      = get_named_level (am(POWER_KEY \<mapsto> e\<lparr>ev_content := d\<rparr>)) name dflt
    \<and> get_send_level ty sk (Some (e\<lparr>ev_content := d'\<rparr>)) = get_send_level ty sk (Some (e\<lparr>ev_content := d\<rparr>))"
proof -
  note F = fixup_fixed [OF assms]
  note D = fixed_default [OF F] fixed_named [OF F]
  have K: "CREATE_KEY \<noteq> POWER_KEY" by code_simp
  have pl: "get_power_level_event (am(POWER_KEY \<mapsto> x)) = Some x" for x
    by (simp add: get_power_level_event_def)
  have con: "ev_content (e\<lparr>ev_content := x\<rparr>) = x" for x by simp
  have "rbind (dget_dict d' ''users'') (\<lambda>us. let l = dget_none us u;
        l = (if l = JNull then dget_default d' ''users_default'' (JInt 0) else l)
      in if l = JNull then Inr 0 else py_int l)
    = rbind (dget_dict d ''users'') (\<lambda>us. let l = dget_none us u;
        l = (if l = JNull then dget_default d ''users_default'' (JInt 0) else l)
      in if l = JNull then Inr 0 else py_int l)"
    using fixed_sub_dict [OF F, of "''users''"] D(1-3) [of "JInt 0" "''users_default''"]
    by (auto simp: fixed_named Let_def)
  then have "get_user_power_level u (am(POWER_KEY \<mapsto> e\<lparr>ev_content := d'\<rparr>))
      = get_user_power_level u (am(POWER_KEY \<mapsto> e\<lparr>ev_content := d\<rparr>))"
    unfolding get_user_power_level_def pl option.case con fun_upd_other [OF K] by (simp only:)
  moreover have "get_named_level (am(POWER_KEY \<mapsto> e\<lparr>ev_content := d'\<rparr>)) name dflt
      = get_named_level (am(POWER_KEY \<mapsto> e\<lparr>ev_content := d\<rparr>)) name dflt"
    by (simp add: get_named_level_def get_power_level_event_def D(4,5))
  moreover have "get_send_level ty sk (Some (e\<lparr>ev_content := d'\<rparr>)) = get_send_level ty sk (Some (e\<lparr>ev_content := d\<rparr>))"
    using fixed_sub_dict [OF F, of "''events''"] D(3) [of "JInt 50"] D(3) [of "JInt 0"]
    by (auto simp: get_send_level_def fixed_named Let_def)
  ultimately show ?thesis by blast
qed


theorem fixup_keeps_levels_witness:
  "get_user_power_level ''@b:s'' (sample_state_v11(POWER_KEY \<mapsto> sample_event ''$p'' ''m.room.power_levels'' (Some []) ''@a:s''
      [(''users'', JObj [(''@b:s'', JInt 7)])] []))
   = get_user_power_level ''@b:s'' (sample_state_v11(POWER_KEY \<mapsto> sample_event ''$p'' ''m.room.power_levels'' (Some []) ''@a:s''
      [(''users'', JObj [(''@b:s'', JStr '' 7'')])] []))"
proof -
  have *: "copy_and_fixup_power_levels_contents (JObj [(''users'', JObj [(''@b:s'', JStr '' 7'')])])
      = Inr [(''users'', JObj [(''@b:s'', JInt 7)])]"
    "distinct (map fst [(''users'', JObj [(''@b:s'', JStr '' 7'')])])"
    "list_all (\<lambda>kv. dict_keys_distinct (snd kv)) [(''users'', JObj [(''@b:s'', JStr '' 7'')])]"
    by code_simp+
  show ?thesis
    using fixup_keeps_levels [OF *, of "''@b:s''" sample_state_v11
        "sample_event ''$p'' ''m.room.power_levels'' (Some []) ''@a:s'' [] []"]
    by (simp add: sample_event_def)
qed

section \<open>What a serialized event shows\<close>

lemma dget_dpop: "dget (dpop k d) j = (if j = k then None else dget d j)"
  by (simp add: dpop_def dget_def delete_conv')

lemma dget_fold_dpop: "dget (fold dpop ks d) j = (if j \<in> set ks then None else dget d j)"
  by (induction ks arbitrary: d) (simp_all add: dget_dpop)

lemma dget_format_v2: "dget (format_event_for_client_v2 d) j = (if j \<in> set v2_drop_keys then None else dget d j)"
  by (simp add: format_event_for_client_v2_def dget_fold_dpop)

lemma apply_format_facts:
  assumes "apply_format f d = Inr d'"
  shows "dget d' ''unsigned'' = dget d ''unsigned''"
    and "f \<noteq> FormatRaw \<Longrightarrow> k \<in> set v2_drop_keys \<Longrightarrow> dget d' k = None"
proof -
  have v1: "dget d' j = dget (format_event_for_client_v2 d) j"
    if "format_event_for_client_v1 d = Inr d'" "j \<notin> set v1_copy_keys" "j \<noteq> ''user_id''" for j
    using that by (auto simp: format_event_for_client_v1_def rbind_Inr_iff Let_def dget_add_fields dget_dset
        split: json.splits if_splits)
  have ks: "''unsigned'' \<notin> set v2_drop_keys" "''unsigned'' \<notin> set v1_copy_keys"
      "list_all (\<lambda>k. k \<notin> set v1_copy_keys \<and> k \<noteq> ''user_id'') v2_drop_keys"
    by code_simp+
  show "dget d' ''unsigned'' = dget d ''unsigned''"
    using assms ks v1 [of "''unsigned''"]
    by (cases f) (auto simp: dget_format_v2 dget_dpop format_event_for_client_v2_without_room_id_def)
  show "dget d' k = None" if "f \<noteq> FormatRaw" "k \<in> set v2_drop_keys"
    using assms ks that v1 [of k]
    by (cases f) (auto simp: dget_format_v2 dget_dpop format_event_for_client_v2_without_room_id_def list_all_iff)
qed

lemma session_fields_transaction_id:
  assumes "dget u ''transaction_id'' = None" and "dget (session_fields e c u) ''transaction_id'' = Some v"
  shows "\<exists>r. sc_requester c = Some r \<and> ss_user_id r = ev_sender (sx_event e) \<and> same_session e r
    \<and> map_option JStr (sx_txn_id e) = Some v"
  using assms by (auto simp: session_fields_def Let_def dget_dset split: option.splits if_splits)

lemma serialize_unsignedE:
  assumes "serialize_unsigned e now c u = Inr u'"
  obtains u1 where "dget u1 ''transaction_id'' = dget u ''transaction_id''"
    and "u' = (if include_stripped_room_state c then session_fields e c u1
               else dpop ''knock_room_state'' (dpop ''invite_room_state'' (session_fields e c u1)))"
proof -
  obtain u1 where u1: "(case dget u ''age_ts'' of
        None \<Rightarrow> Inr u
      | Some ts \<Rightarrow> rbind (minus_json now ts) (\<lambda>age. Inr (dpop ''age_ts'' (dset u ''age'' age)))) = Inr u1"
      "u' = (if include_stripped_room_state c then session_fields e c u1
               else dpop ''knock_room_state'' (dpop ''invite_room_state'' (session_fields e c u1)))"
    using assms unfolding serialize_unsigned_def Let_def rbind_Inr_iff by blast
  have "dget u1 ''transaction_id'' = dget u ''transaction_id''"
    using u1(1) by (auto simp: rbind_Inr_iff dget_dset dget_dpop split: option.splits)
  then show thesis using u1(2) by (rule that)
qed

lemma serialize_unsigned_facts:
  assumes "serialize_unsigned e now c u = Inr u'"
  shows "dget u ''transaction_id'' = None \<Longrightarrow> dget u' ''transaction_id'' = Some v \<Longrightarrow>
      \<exists>r. sc_requester c = Some r \<and> ss_user_id r = ev_sender (sx_event e) \<and> same_session e r
        \<and> map_option JStr (sx_txn_id e) = Some v"
    and "\<not> include_stripped_room_state c \<Longrightarrow> dget u' ''invite_room_state'' = None \<and> dget u' ''knock_room_state'' = None"
proof -
  obtain u1 where u1: "dget u1 ''transaction_id'' = dget u ''transaction_id''"
      "u' = (if include_stripped_room_state c then session_fields e c u1
               else dpop ''knock_room_state'' (dpop ''invite_room_state'' (session_fields e c u1)))"
    using assms by (rule serialize_unsignedE)
  show "\<exists>r. sc_requester c = Some r \<and> ss_user_id r = ev_sender (sx_event e) \<and> same_session e r
        \<and> map_option JStr (sx_txn_id e) = Some v"
    if "dget u ''transaction_id'' = None" "dget u' ''transaction_id'' = Some v"
  proof (rule session_fields_transaction_id)
    show "dget u1 ''transaction_id'' = None" using u1(1) that(1) by simp
    show "dget (session_fields e c u1) ''transaction_id'' = Some v"
      using u1(2) that(2) by (simp add: dget_dpop split: if_splits)
  qed
  show "\<not> include_stripped_room_state c \<Longrightarrow> dget u' ''invite_room_state'' = None \<and> dget u' ''knock_room_state'' = None"
    using u1(2) by (simp add: dget_dpop)
qed

lemma copy_redacts_keeps:
  "copy_redacts ev d = Inr d' \<Longrightarrow> k \<noteq> ''redacts'' \<Longrightarrow> k \<noteq> ''content'' \<Longrightarrow> dget d' k = dget d k"
  by (auto simp: copy_redacts_def rbind_Inr_iff dget_dset split: if_splits)

lemma dict_field_Inr: "dict_field d k = Inr u \<longleftrightarrow> dget d k = Some (JObj u)"
  by (auto simp: dict_field_def dindex_def dget_def rbind_Inr_iff split: option.splits json.splits)

lemma admin_metadata_keeps:
  assumes "admin_metadata e d = Inr d'"
  shows "k \<noteq> ''unsigned'' \<Longrightarrow> dget d' k = dget d k"
    and "dget d' ''unsigned'' = Some (JObj u') \<Longrightarrow> j \<noteq> ''io.element.synapse.soft_failed'' \<Longrightarrow>
      j \<noteq> ''io.element.synapse.policy_server_spammy'' \<Longrightarrow> \<exists>u. dget d ''unsigned'' = Some (JObj u) \<and> dget u' j = dget u j"
  using assms by (auto simp: admin_metadata_def rbind_Inr_iff dict_field_Inr dget_dset split: if_splits)

lemma serialize_eventE:
  assumes "serialize_event e now c = Inr d" and "dict_field d ''unsigned'' = Inr u"
    and "dict_field (sx_dict e) ''unsigned'' = Inr u0"
  obtains u1 where "serialize_unsigned e now c u0 = Inr u1"
    and "dget u ''transaction_id'' = dget u1 ''transaction_id''"
    and "dget u ''invite_room_state'' = dget u1 ''invite_room_state''"
    and "dget u ''knock_room_state'' = dget u1 ''knock_room_state''"
    and "as_client_event c \<and> sc_event_format c \<noteq> FormatRaw \<longrightarrow> (\<forall>k \<in> set v2_drop_keys. dget d k = None)"
proof -
  let ?d0 = "dset (sx_dict e) ''event_id'' (JStr (ev_event_id (sx_event e)))"
  have "dict_field ?d0 ''unsigned'' = Inr u0" using assms(3) by (simp add: dict_field_Inr dget_dset)
  then obtain u1 d1 d2 where S: "serialize_unsigned e now c u0 = Inr u1"
      "(if as_client_event c then apply_format (sc_event_format c) (dset ?d0 ''unsigned'' (JObj u1))
        else Inr (dset ?d0 ''unsigned'' (JObj u1))) = Inr d1"
      "copy_redacts (sx_event e)
        (if ev_type (sx_event e) = EventTypes_Create \<and> msc4291_room_ids_as_hashes (ev_room_version (sx_event e))
         then dset d1 ''room_id'' (JStr (ev_room_id (sx_event e))) else d1) = Inr d2"
      "(if include_admin_metadata c then admin_metadata e d2 else Inr d2) = Inr d"
    using assms(1) unfolding serialize_event_def Let_def by (auto simp: rbind_Inr_iff)
  have d2: "dget d2 k = dget d1 k" if "k \<notin> {''redacts'', ''content'', ''room_id''}" for k
    using copy_redacts_keeps [OF S(3), of k] that by (simp add: dget_dset split: if_splits)
  have d1: "dget d1 ''unsigned'' = Some (JObj u1)"
    using S(2) apply_format_facts(1) by (auto simp: dget_dset split: if_splits)
  have u: "dget u j = dget u1 j"
    if "j \<notin> {''io.element.synapse.soft_failed'', ''io.element.synapse.policy_server_spammy''}" for j
    using S(4) assms(2) d1 d2 [of "''unsigned''"] that admin_metadata_keeps(2) [of e d2 d u j]
    by (auto simp: dict_field_Inr split: if_splits)
  have "\<forall>k \<in> set v2_drop_keys. dget d k = None" if cl: "as_client_event c \<and> sc_event_format c \<noteq> FormatRaw"
  proof
    fix k
    assume k: "k \<in> set v2_drop_keys"
    have "list_all (\<lambda>k. k \<notin> {''redacts'', ''content'', ''room_id'', ''unsigned''}) v2_drop_keys" by code_simp
    then have ne: "k \<notin> {''redacts'', ''content'', ''room_id'', ''unsigned''}" using k unfolding list_all_iff by (rule bspec)
    have "dget d1 k = None" using S(2) cl apply_format_facts(2) [OF _ _ k] by simp
    then show "dget d k = None"
      using S(4) d2 [of k] ne admin_metadata_keeps(1) [of e d2 d k] by (auto split: if_splits)
  qed
  then show thesis using S(1) u by (intro that [of u1]) simp_all
qed

text \<open>
  What a serialized event shows of the session and the room. The transaction id is there only for
  a requester who is the sender and has the session the event was sent from; the stripped room
  state only if it is asked for; and no client format contains the fields for servers.
\<close>

theorem serialized_event_discloses:
  assumes "serialize_event e now c = Inr d" and "dict_field d ''unsigned'' = Inr u"
    and "dict_field (sx_dict e) ''unsigned'' = Inr u0" and "dget u0 ''transaction_id'' = None"
  shows "(dhas u ''transaction_id'' \<longrightarrow> (\<exists>r. sc_requester c = Some r \<and> ss_user_id r = ev_sender (sx_event e)
        \<and> same_session e r \<and> map_option JStr (sx_txn_id e) = dget u ''transaction_id''))
    \<and> (\<not> include_stripped_room_state c \<longrightarrow> \<not> dhas u ''invite_room_state'' \<and> \<not> dhas u ''knock_room_state'')
    \<and> (as_client_event c \<and> sc_event_format c \<noteq> FormatRaw \<longrightarrow> (\<forall>k \<in> set v2_drop_keys. \<not> dhas d k))"
proof -
  obtain u1 where u1: "serialize_unsigned e now c u0 = Inr u1"
      "dget u ''transaction_id'' = dget u1 ''transaction_id''"
      "dget u ''invite_room_state'' = dget u1 ''invite_room_state''"
      "dget u ''knock_room_state'' = dget u1 ''knock_room_state''"
      "as_client_event c \<and> sc_event_format c \<noteq> FormatRaw \<longrightarrow> (\<forall>k \<in> set v2_drop_keys. dget d k = None)"
    using assms(1-3) by (rule serialize_eventE)
  have has: "dhas x k \<longleftrightarrow> dget x k \<noteq> None" for x :: jdict and k by (simp add: dhas_def dget_def)
  have "\<exists>r. sc_requester c = Some r \<and> ss_user_id r = ev_sender (sx_event e)
        \<and> same_session e r \<and> map_option JStr (sx_txn_id e) = dget u ''transaction_id''"
    if "dget u ''transaction_id'' \<noteq> None"
  proof -
    from that obtain v where v: "dget u ''transaction_id'' = Some v" by blast
    then have "dget u1 ''transaction_id'' = Some v" using u1(2) by simp
    from serialize_unsigned_facts(1) [OF u1(1) assms(4) this] show ?thesis unfolding v .
  qed
  then show ?thesis using serialize_unsigned_facts(2) [OF u1(1)] u1(3-5) unfolding has by simp
qed


theorem serialized_event_discloses_witness:
  "\<exists>d u. serialize_event \<lparr>sx_event = sample_event ''$m'' ''m.room.message'' None ''@a:s'' [] [],
        sx_dict = [(''unsigned'', JObj []), (''depth'', JInt 3)], sx_txn_id = Some ''t1'', sx_device_id = Some ''D1'',
        sx_token_id = None, sx_delay_id = None, sx_soft_failed = False, sx_policy_server_spammy = False\<rparr> 5
      \<lparr>as_client_event = True, sc_event_format = FormatV2,
        sc_requester = Some \<lparr>ss_user_id = ''@a:s'', ss_device_id = Some ''D2'', ss_access_token_id = None,
          ss_is_guest = False, ss_app_service = False\<rparr>,
        include_stripped_room_state = False, include_admin_metadata = False\<rparr> = Inr d
    \<and> dict_field d ''unsigned'' = Inr u \<and> \<not> dhas u ''transaction_id'' \<and> \<not> dhas d ''depth''"
proof -
  let ?e = "\<lparr>sx_event = sample_event ''$m'' ''m.room.message'' None ''@a:s'' [] [],
        sx_dict = [(''unsigned'', JObj []), (''depth'', JInt 3)], sx_txn_id = Some ''t1'', sx_device_id = Some ''D1'',
        sx_token_id = None, sx_delay_id = None, sx_soft_failed = False, sx_policy_server_spammy = False\<rparr>"
  let ?c = "\<lparr>as_client_event = True, sc_event_format = FormatV2,
        sc_requester = Some \<lparr>ss_user_id = ''@a:s'', ss_device_id = Some ''D2'', ss_access_token_id = None,
          ss_is_guest = False, ss_app_service = False\<rparr>,
        include_stripped_room_state = False, include_admin_metadata = False\<rparr>"
  have S: "serialize_event ?e 5 ?c = Inr [(''unsigned'', JObj []), (''event_id'', JStr ''$m'')]"
    and U: "dict_field [(''unsigned'', JObj []), (''event_id'', JStr ''$m'')] ''unsigned'' = Inr []"
    and U0: "dict_field (sx_dict ?e) ''unsigned'' = Inr []" and T: "dget [] ''transaction_id'' = (None :: json option)"
    and R: "\<not> same_session ?e (the (sc_requester ?c))" and D: "''depth'' \<in> set v2_drop_keys"
    by code_simp+
  show ?thesis
    using serialized_event_discloses [OF S U U0 T] S U R D by auto
qed

end
