(* ===== verification/Push_Rules.thy ===== *)
theory Push_Rules
  imports Event_Format
begin

text \<open>
  Push rules: what decides whether an event notifies a user. The rules and their evaluation are
  written in Rust (\<open>rust/src/push/mod.rs\<close>, \<open>base_rules.rs\<close>, \<open>evaluator.rs\<close>, \<open>utils.rs\<close>), the
  tables they are kept in and the flattening of an event in Python
  (\<open>storage/databases/main/push_rule.py\<close>, \<open>push/bulk_push_rule_evaluator.py\<close>).

  The regular expressions that globs are compiled to belong to the crate \<open>regex\<close>: they are the
  record \<open>regex_lib\<close>, with the escaping of a literal and the search for a pattern, \<open>None\<close> when the
  pattern cannot be compiled. An error of the evaluator (\<open>Err\<close>) is \<open>None\<close>. A push rule keeps its
  conditions and actions as JSON in the database, where \<open>from_db\<close> parses them.
\<close>

section \<open>Rules\<close>

datatype simple_json = SStr string | SInt int | SBool bool | SNull
datatype flat_value = FArray "simple_json list" | FValue simple_json

datatype event_match_pattern_type = UserId | UserLocalpart

datatype condition =
    EventMatch string string
  | EventMatchType string event_match_pattern_type
  | EventPropertyIs string simple_json
  | RelatedEventMatch string "bool option" "string option" "string option"
  | RelatedEventMatchType string "bool option" string event_match_pattern_type
  | EventPropertyContains string simple_json
  | ExactEventPropertyContainsType string event_match_pattern_type
  | ContainsDisplayName
  | RoomMemberCount "string option"
  | SenderNotificationPermission string
  | RoomVersionSupports string
  | Msc4306ThreadSubscription bool
  | UnknownCondition json

datatype action = Notify | SetTweak string "json option" json | DontNotify | Coalesce | UnknownAction json

record push_rule =
  pr_rule_id :: string
  pr_priority_class :: int
  pr_conditions :: "condition list"
  pr_actions :: "action list"
  pr_default :: bool
  pr_default_enabled :: bool

definition HIGHLIGHT_ACTION :: action where "HIGHLIGHT_ACTION = SetTweak ''highlight'' None JNull"
definition HIGHLIGHT_FALSE_ACTION :: action where
  "HIGHLIGHT_FALSE_ACTION = SetTweak ''highlight'' (Some (JBool False)) JNull"
definition SOUND_ACTION :: action where "SOUND_ACTION = SetTweak ''sound'' (Some (JStr ''default'')) JNull"
definition RING_ACTION :: action where "RING_ACTION = SetTweak ''sound'' (Some (JStr ''ring'')) JNull"

definition base_rule :: "string \<Rightarrow> int \<Rightarrow> condition list \<Rightarrow> action list \<Rightarrow> bool \<Rightarrow> push_rule" where
  "base_rule rule_id cls conds acts enabled = \<lparr>pr_rule_id = rule_id, pr_priority_class = cls,
     pr_conditions = conds, pr_actions = acts, pr_default = True, pr_default_enabled = enabled\<rparr>"

definition BASE_PREPEND_OVERRIDE_RULES :: "push_rule list" where
  "BASE_PREPEND_OVERRIDE_RULES =
    [base_rule ''global/override/.m.rule.master'' 5
       []
       [] False]"

definition BASE_APPEND_OVERRIDE_RULES :: "push_rule list" where
  "BASE_APPEND_OVERRIDE_RULES =
    [base_rule ''global/override/.org.matrix.msc4028.encrypted_event'' 5
       [EventMatch ''type'' ''m.room.encrypted'']
       [Notify] True,
     base_rule ''global/override/.m.rule.suppress_notices'' 5
       [EventMatch ''content.msgtype'' ''m.notice'']
       [] True,
     base_rule ''global/override/.m.rule.invite_for_me'' 5
       [EventMatch ''type'' ''m.room.member'', EventMatch ''content.membership'' ''invite'', EventMatchType ''state_key'' UserId]
       [Notify, HIGHLIGHT_FALSE_ACTION, SOUND_ACTION] True,
     base_rule ''global/override/.m.rule.member_event'' 5
       [EventMatch ''type'' ''m.room.member'']
       [] True,
     base_rule ''global/override/.im.nheko.msc3664.reply'' 5
       [RelatedEventMatchType ''m.in_reply_to'' None ''sender'' UserId]
       [Notify, HIGHLIGHT_ACTION, SOUND_ACTION] True,
     base_rule ''global/override/.m.rule.is_user_mention'' 5
       [ExactEventPropertyContainsType (''content.m'' @ CHR 0x5C # ''.mentions.user_ids'') UserId]
       [Notify, HIGHLIGHT_ACTION, SOUND_ACTION] True,
     base_rule ''global/override/.m.rule.contains_display_name'' 5
       [ContainsDisplayName]
       [Notify, HIGHLIGHT_ACTION, SOUND_ACTION] True,
     base_rule ''global/override/.m.rule.is_room_mention'' 5
       [EventPropertyIs (''content.m'' @ CHR 0x5C # ''.mentions.room'') (SBool True), SenderNotificationPermission ''room'']
       [Notify, HIGHLIGHT_ACTION] True,
     base_rule ''global/override/.m.rule.roomnotif'' 5
       [SenderNotificationPermission ''room'', EventMatch ''content.body'' ''@room'']
       [Notify, HIGHLIGHT_ACTION] True,
     base_rule ''global/override/.m.rule.tombstone'' 5
       [EventMatch ''type'' ''m.room.tombstone'', EventMatch ''state_key'' '''']
       [Notify, HIGHLIGHT_ACTION] True,
     base_rule ''global/override/.m.rule.reaction'' 5
       [EventMatch ''type'' ''m.reaction'']
       [] True,
     base_rule ''global/override/.m.rule.room.server_acl'' 5
       [EventMatch ''type'' ''m.room.server_acl'', EventMatch ''state_key'' '''']
       [] True,
     base_rule ''global/override/.m.rule.suppress_edits'' 5
       [EventPropertyIs (''content.m'' @ CHR 0x5C # ''.relates_to.rel_type'') (SStr ''m.replace'')]
       [] True,
     base_rule ''global/override/.org.matrix.msc3930.rule.poll_response'' 5
       [EventMatch ''type'' ''org.matrix.msc3381.poll.response'']
       [] True]"

definition BASE_APPEND_CONTENT_RULES :: "push_rule list" where
  "BASE_APPEND_CONTENT_RULES =
    [base_rule ''global/content/.m.rule.contains_user_name'' 4
       [EventMatchType ''content.body'' UserLocalpart]
       [Notify, HIGHLIGHT_ACTION, SOUND_ACTION] False]"

definition BASE_APPEND_POSTCONTENT_RULES :: "push_rule list" where
  "BASE_APPEND_POSTCONTENT_RULES =
    [base_rule ''global/postcontent/.io.element.msc4306.rule.unsubscribed_thread'' 6
       [Msc4306ThreadSubscription False]
       [] True,
     base_rule ''global/postcontent/.io.element.msc4306.rule.subscribed_thread'' 6
       [Msc4306ThreadSubscription True]
       [Notify, SOUND_ACTION] True]"

definition BASE_APPEND_UNDERRIDE_RULES :: "push_rule list" where
  "BASE_APPEND_UNDERRIDE_RULES =
    [base_rule ''global/underride/.m.rule.call'' 1
       [EventMatch ''type'' ''m.call.invite'']
       [Notify, RING_ACTION, HIGHLIGHT_FALSE_ACTION] True,
     base_rule ''global/underride/.m.rule.encrypted_room_one_to_one'' 1
       [EventMatch ''type'' ''m.room.encrypted'', RoomMemberCount (Some ''2'')]
       [Notify, SOUND_ACTION, HIGHLIGHT_FALSE_ACTION] True,
     base_rule ''global/underride/.m.rule.room_one_to_one'' 1
       [EventMatch ''type'' ''m.room.message'', RoomMemberCount (Some ''2'')]
       [Notify, SOUND_ACTION, HIGHLIGHT_FALSE_ACTION] True,
     base_rule ''global/underride/.org.matrix.msc3933.rule.extensible.encrypted_room_one_to_one'' 1
       [EventMatch ''type'' ''org.matrix.msc1767.encrypted'', RoomMemberCount (Some ''2''), RoomVersionSupports ''org.matrix.msc3932.extensible_events'']
       [Notify, SOUND_ACTION, HIGHLIGHT_FALSE_ACTION] True,
     base_rule ''global/underride/.org.matrix.msc3933.rule.extensible.message.room_one_to_one'' 1
       [EventMatch ''type'' ''org.matrix.msc1767.message'', RoomMemberCount (Some ''2''), RoomVersionSupports ''org.matrix.msc3932.extensible_events'']
       [Notify, SOUND_ACTION, HIGHLIGHT_FALSE_ACTION] True,
     base_rule ''global/underride/.org.matrix.msc3933.rule.extensible.file.room_one_to_one'' 1
       [EventMatch ''type'' ''org.matrix.msc1767.file'', RoomMemberCount (Some ''2''), RoomVersionSupports ''org.matrix.msc3932.extensible_events'']
       [Notify, SOUND_ACTION, HIGHLIGHT_FALSE_ACTION] True,
     base_rule ''global/underride/.org.matrix.msc3933.rule.extensible.image.room_one_to_one'' 1
       [EventMatch ''type'' ''org.matrix.msc1767.image'', RoomMemberCount (Some ''2''), RoomVersionSupports ''org.matrix.msc3932.extensible_events'']
       [Notify, SOUND_ACTION, HIGHLIGHT_FALSE_ACTION] True,
     base_rule ''global/underride/.org.matrix.msc3933.rule.extensible.video.room_one_to_one'' 1
       [EventMatch ''type'' ''org.matrix.msc1767.video'', RoomMemberCount (Some ''2''), RoomVersionSupports ''org.matrix.msc3932.extensible_events'']
       [Notify, SOUND_ACTION, HIGHLIGHT_FALSE_ACTION] True,
     base_rule ''global/underride/.org.matrix.msc3933.rule.extensible.audio.room_one_to_one'' 1
       [EventMatch ''type'' ''org.matrix.msc1767.audio'', RoomMemberCount (Some ''2''), RoomVersionSupports ''org.matrix.msc3932.extensible_events'']
       [Notify, SOUND_ACTION, HIGHLIGHT_FALSE_ACTION] True,
     base_rule ''global/underride/.m.rule.message'' 1
       [EventMatch ''type'' ''m.room.message'']
       [Notify, HIGHLIGHT_FALSE_ACTION] True,
     base_rule ''global/underride/.m.rule.encrypted'' 1
       [EventMatch ''type'' ''m.room.encrypted'']
       [Notify, HIGHLIGHT_FALSE_ACTION] True,
     base_rule ''global/underride/.org.matrix.msc1767.rule.extensible.encrypted'' 1
       [EventMatch ''type'' ''m.encrypted'', RoomVersionSupports ''org.matrix.msc3932.extensible_events'']
       [Notify, HIGHLIGHT_FALSE_ACTION] True,
     base_rule ''global/underride/.org.matrix.msc1767.rule.extensible.message'' 1
       [EventMatch ''type'' ''m.message'', RoomVersionSupports ''org.matrix.msc3932.extensible_events'']
       [Notify, HIGHLIGHT_FALSE_ACTION] True,
     base_rule ''global/underride/.org.matrix.msc1767.rule.extensible.file'' 1
       [EventMatch ''type'' ''m.file'', RoomVersionSupports ''org.matrix.msc3932.extensible_events'']
       [Notify, HIGHLIGHT_FALSE_ACTION] True,
     base_rule ''global/underride/.org.matrix.msc1767.rule.extensible.image'' 1
       [EventMatch ''type'' ''m.image'', RoomVersionSupports ''org.matrix.msc3932.extensible_events'']
       [Notify, HIGHLIGHT_FALSE_ACTION] True,
     base_rule ''global/underride/.org.matrix.msc1767.rule.extensible.video'' 1
       [EventMatch ''type'' ''m.video'', RoomVersionSupports ''org.matrix.msc3932.extensible_events'']
       [Notify, HIGHLIGHT_FALSE_ACTION] True,
     base_rule ''global/underride/.org.matrix.msc1767.rule.extensible.audio'' 1
       [EventMatch ''type'' ''m.audio'', RoomVersionSupports ''org.matrix.msc3932.extensible_events'']
       [Notify, HIGHLIGHT_FALSE_ACTION] True,
     base_rule ''global/underride/.im.vector.jitsi'' 1
       [EventMatch ''type'' ''im.vector.modular.widgets'', EventMatch ''content.type'' ''jitsi'', EventMatch ''state_key'' ''*'']
       [Notify, HIGHLIGHT_FALSE_ACTION] True,
     base_rule ''global/underride/.org.matrix.msc3930.rule.poll_start_one_to_one'' 1
       [RoomMemberCount (Some ''2''), EventMatch ''type'' ''org.matrix.msc3381.poll.start'']
       [Notify, SOUND_ACTION] True,
     base_rule ''global/underride/.org.matrix.msc3930.rule.poll_start'' 1
       [EventMatch ''type'' ''org.matrix.msc3381.poll.start'']
       [Notify] True,
     base_rule ''global/underride/.org.matrix.msc3930.rule.poll_end_one_to_one'' 1
       [RoomMemberCount (Some ''2''), EventMatch ''type'' ''org.matrix.msc3381.poll.end'']
       [Notify, SOUND_ACTION] True,
     base_rule ''global/underride/.org.matrix.msc3930.rule.poll_end'' 1
       [EventMatch ''type'' ''org.matrix.msc3381.poll.end'']
       [Notify] True]"

definition BASE_RULES_BY_ID :: "string \<Rightarrow> push_rule option" where
  "BASE_RULES_BY_ID rule_id = find (\<lambda>r. pr_rule_id r = rule_id)
     (BASE_PREPEND_OVERRIDE_RULES @ BASE_APPEND_OVERRIDE_RULES @ BASE_APPEND_CONTENT_RULES
      @ BASE_APPEND_POSTCONTENT_RULES @ BASE_APPEND_UNDERRIDE_RULES)"

section \<open>Rules from the database\<close>

definition i64 :: "int \<Rightarrow> bool" where
  "i64 i = (- (2 ^ 63) \<le> i \<and> i < 2 ^ 63)"

fun parse_simple :: "json \<Rightarrow> simple_json option" where
  "parse_simple (JStr s) = Some (SStr s)"
| "parse_simple (JInt i) = (if i64 i then Some (SInt i) else None)"
| "parse_simple (JBool b) = Some (SBool b)"
| "parse_simple JNull = Some SNull"
| "parse_simple _ = None"

text \<open>A field of type \<open>String\<close>, and one of type \<open>Option\<close>: absent, null or well typed.\<close>

definition str_field :: "jdict \<Rightarrow> string \<Rightarrow> string option" where
  "str_field d k = (case dget d k of Some (JStr s) \<Rightarrow> Some s | _ \<Rightarrow> None)"

definition opt_str_field :: "jdict \<Rightarrow> string \<Rightarrow> string option option" where
  "opt_str_field d k = (case dget d k of
     None \<Rightarrow> Some None | Some JNull \<Rightarrow> Some None | Some (JStr s) \<Rightarrow> Some (Some s) | Some _ \<Rightarrow> None)"

definition opt_bool_field :: "jdict \<Rightarrow> string \<Rightarrow> bool option option" where
  "opt_bool_field d k = (case dget d k of
     None \<Rightarrow> Some None | Some JNull \<Rightarrow> Some None | Some (JBool b) \<Rightarrow> Some (Some b) | Some _ \<Rightarrow> None)"

definition parse_property :: "(string \<Rightarrow> simple_json \<Rightarrow> condition) \<Rightarrow> jdict \<Rightarrow> condition option" where
  "parse_property f d = (case (str_field d ''key'', Option.bind (dget d ''value'') parse_simple) of
     (Some k, Some v) \<Rightarrow> Some (f k v) | _ \<Rightarrow> None)"

text \<open>\<open>KnownCondition\<close> from a JSON object, by its \<open>kind\<close>.\<close>

definition parse_known :: "jdict \<Rightarrow> condition option" where
  "parse_known d = (case str_field d ''kind'' of
      None \<Rightarrow> None
    | Some kind \<Rightarrow>
        if kind = ''event_match'' then
          (case (str_field d ''key'', str_field d ''pattern'') of
             (Some k, Some p) \<Rightarrow> Some (EventMatch k p) | _ \<Rightarrow> None)
        else if kind = ''event_property_is'' then parse_property EventPropertyIs d
        else if kind = ''im.nheko.msc3664.related_event_match'' then
          (case (str_field d ''rel_type'', opt_bool_field d ''include_fallbacks'',
                 opt_str_field d ''key'', opt_str_field d ''pattern'') of
             (Some r, Some f, Some k, Some p) \<Rightarrow> Some (RelatedEventMatch r f k p) | _ \<Rightarrow> None)
        else if kind = ''event_property_contains'' then parse_property EventPropertyContains d
        else if kind = ''contains_display_name'' then Some ContainsDisplayName
        else if kind = ''room_member_count'' then map_option RoomMemberCount (opt_str_field d ''is'')
        else if kind = ''sender_notification_permission'' then
          map_option SenderNotificationPermission (str_field d ''key'')
        else if kind = ''org.matrix.msc3931.room_version_supports'' then
          map_option RoomVersionSupports (str_field d ''feature'')
        else if kind = ''io.element.msc4306.thread_subscription'' then
          (case dget d ''subscribed'' of Some (JBool b) \<Rightarrow> Some (Msc4306ThreadSubscription b) | _ \<Rightarrow> None)
        else None)"

definition parse_condition :: "json \<Rightarrow> condition" where
  "parse_condition v = (case v of
      JObj d \<Rightarrow> (case parse_known d of Some c \<Rightarrow> c | None \<Rightarrow> UnknownCondition v)
    | _ \<Rightarrow> UnknownCondition v)"

definition parse_action :: "json \<Rightarrow> action option" where
  "parse_action v = (case v of
      JStr s \<Rightarrow> if s = ''dont_notify'' then Some DontNotify
                else if s = ''notify'' then Some Notify
                else if s = ''coalesce'' then Some Coalesce else None
    | JObj d \<Rightarrow> (case str_field d ''set_tweak'' of
          Some t \<Rightarrow> Some (SetTweak t (case dget d ''value'' of Some JNull \<Rightarrow> None | x \<Rightarrow> x)
                           (JObj (dpop ''value'' (dpop ''set_tweak'' d))))
        | None \<Rightarrow> Some (UnknownAction v))
    | _ \<Rightarrow> Some (UnknownAction v))"

definition from_db :: "string \<Rightarrow> int \<Rightarrow> json list \<Rightarrow> json list \<Rightarrow> push_rule res" where
  "from_db rule_id priority_class conditions actions =
     (if list_all (\<lambda>a. parse_action a \<noteq> None) actions
      then Inr \<lparr>pr_rule_id = rule_id, pr_priority_class = priority_class,
        pr_conditions = map parse_condition conditions, pr_actions = map (the \<circ> parse_action) actions,
        pr_default = False, pr_default_enabled = True\<rparr>
      else Inl PyRuntimeError)"

section \<open>The rules of a user, in the order of evaluation\<close>

record push_rules =
  overridden_base_rules :: "(string \<times> push_rule) list"
  override_rules :: "push_rule list"
  content_rules :: "push_rule list"
  room_rules :: "push_rule list"
  sender_rules :: "push_rule list"
  underride_rules :: "push_rule list"

definition new_push_rules :: "push_rule list \<Rightarrow> push_rules" where
  "new_push_rules rules =
     (let own = filter (\<lambda>r. BASE_RULES_BY_ID (pr_rule_id r) = None) rules;
          of_class = (\<lambda>c. filter (\<lambda>r. pr_priority_class r = c) own)
      in \<lparr>overridden_base_rules = fold (\<lambda>r m. case BASE_RULES_BY_ID (pr_rule_id r) of
              Some o' \<Rightarrow> dset m (pr_rule_id r) (o'\<lparr>pr_actions := pr_actions r\<rparr>) | None \<Rightarrow> m) rules [],
          override_rules = of_class 5, content_rules = of_class 4, room_rules = of_class 3,
          sender_rules = of_class 2, underride_rules = of_class 1\<rparr>)"

definition push_rules_iter :: "push_rules \<Rightarrow> push_rule list" where
  "push_rules_iter p =
     map (\<lambda>rule. case dget (overridden_base_rules p) (pr_rule_id rule) of Some o' \<Rightarrow> o' | None \<Rightarrow> rule)
       (BASE_PREPEND_OVERRIDE_RULES @ override_rules p @ BASE_APPEND_OVERRIDE_RULES
        @ content_rules p @ BASE_APPEND_CONTENT_RULES @ BASE_APPEND_POSTCONTENT_RULES
        @ room_rules p @ sender_rules p @ underride_rules p @ BASE_APPEND_UNDERRIDE_RULES)"

record push_flags =
  msc1767_enabled :: bool
  msc3381_polls_enabled :: bool
  msc3664_enabled :: bool
  msc4028_push_encrypted_events :: bool
  msc4210_enabled :: bool
  msc4306_enabled :: bool

record filtered_push_rules =
  fp_rules :: push_rules
  fp_enabled_map :: "(string \<times> bool) list"
  fp_flags :: push_flags

fun starts_with :: "string \<Rightarrow> string \<Rightarrow> bool" where
  "starts_with [] s = True"
| "starts_with (p # ps) [] = False"
| "starts_with (p # ps) (c # cs) = (p = c \<and> starts_with ps cs)"

fun str_contains :: "string \<Rightarrow> string \<Rightarrow> bool" where
  "str_contains part [] = (part = [])"
| "str_contains part (c # cs) = (starts_with part (c # cs) \<or> str_contains part cs)"

definition LEGACY_MENTION_RULES :: "string list" where
  "LEGACY_MENTION_RULES = [''global/override/.m.rule.contains_display_name'',
     ''global/content/.m.rule.contains_user_name'', ''global/override/.m.rule.roomnotif'']"

definition rule_available :: "push_flags \<Rightarrow> string \<Rightarrow> bool" where
  "rule_available f rule_id =
     (if \<not> msc1767_enabled f
         \<and> (str_contains ''org.matrix.msc1767'' rule_id \<or> str_contains ''org.matrix.msc3933'' rule_id) then False
      else if \<not> msc3664_enabled f \<and> rule_id = ''global/override/.im.nheko.msc3664.reply'' then False
      else if \<not> msc3381_polls_enabled f \<and> str_contains ''org.matrix.msc3930'' rule_id then False
      else if \<not> msc4028_push_encrypted_events f
         \<and> rule_id = ''global/override/.org.matrix.msc4028.encrypted_event'' then False
      else if msc4210_enabled f \<and> rule_id \<in> set LEGACY_MENTION_RULES then False
      else if \<not> msc4306_enabled f \<and> str_contains ''/.io.element.msc4306.rule.'' rule_id then False
      else True)"

definition filtered_iter :: "filtered_push_rules \<Rightarrow> (push_rule \<times> bool) list" where
  "filtered_iter p =
     map (\<lambda>r. (r, case dget (fp_enabled_map p) (pr_rule_id r) of Some b \<Rightarrow> b | None \<Rightarrow> pr_default_enabled r))
       (filter (\<lambda>r. rule_available (fp_flags p) (pr_rule_id r)) (push_rules_iter (fp_rules p)))"

section \<open>Globs\<close>

text \<open>\<open>to_lowercase\<close> on the code points up to U+00FF.\<close>

definition lower_char :: "char \<Rightarrow> char" where
  "lower_char c = (let n = (of_char c :: nat) in
     if (65 \<le> n \<and> n \<le> 90) \<or> (192 \<le> n \<and> n \<le> 222 \<and> n \<noteq> 215) then char_of (n + 32) else c)"

definition lower :: "string \<Rightarrow> string" where
  "lower s = map lower_char s"

record regex_lib =
  rx_escape :: "string \<Rightarrow> string"
  rx_is_match :: "string \<Rightarrow> string \<Rightarrow> bool option"

datatype glob_match_type = Whole | Word

definition is_wildcard :: "char \<Rightarrow> bool" where
  "is_wildcard c = (c = CHR ''*'' \<or> c = CHR ''?'')"

fun nat_digits :: "nat \<Rightarrow> string" where
  "nat_digits n = (if n < 10 then [char_of (48 + n)] else nat_digits (n div 10) @ [char_of (48 + n mod 10)])"

declare nat_digits.simps [simp del]

text \<open>The runs of \<open>([^\?\*]*)([\?\*]*)\<close>, each translated.\<close>

definition wildcard_chunk :: "string \<Rightarrow> string" where
  "wildcard_chunk ws =
     (if ws = [] then []
      else (let n = nat_digits (length (filter (\<lambda>c. c = CHR ''?'') ws))
            in if CHR ''*'' \<in> set ws then ''.{'' @ n @ '',}'' else ''.{'' @ n @ ''}''))"

function glob_chunks :: "regex_lib \<Rightarrow> string \<Rightarrow> string" where
  "glob_chunks rx glob =
     (if glob = [] then []
      else rx_escape rx (takeWhile (\<lambda>c. \<not> is_wildcard c) glob)
        @ wildcard_chunk (takeWhile is_wildcard (dropWhile (\<lambda>c. \<not> is_wildcard c) glob))
        @ glob_chunks rx (dropWhile is_wildcard (dropWhile (\<lambda>c. \<not> is_wildcard c) glob)))"
  by pat_completeness auto
termination
proof (relation "measure (length \<circ> snd)")
  fix rx :: regex_lib and glob :: string
  let ?rest = "dropWhile (\<lambda>c. \<not> is_wildcard c) glob"
  assume ne: "glob \<noteq> []"
  show "((rx, dropWhile is_wildcard ?rest), rx, glob) \<in> measure (length \<circ> snd)"
  proof (cases "is_wildcard (hd glob)")
    case True
    then have "length (dropWhile is_wildcard ?rest) < length glob"
      using ne by (cases glob) (auto simp: le_imp_less_Suc length_dropWhile_le)
    then show ?thesis by simp
  next
    case False
    then have "length ?rest < length glob"
      using ne by (cases glob) (auto simp: le_imp_less_Suc length_dropWhile_le)
    then show ?thesis using length_dropWhile_le [of is_wildcard ?rest] by simp
  qed
qed simp

declare glob_chunks.simps [simp del]

definition glob_to_regex :: "regex_lib \<Rightarrow> string \<Rightarrow> glob_match_type \<Rightarrow> string" where
  "glob_to_regex rx glob match_type = (case match_type of
      Whole \<Rightarrow> CHR 0x5C # ''A'' @ glob_chunks rx glob @ CHR 0x5C # ''z''
    | Word \<Rightarrow> ''(?:^|'' @ CHR 0x5C # ''b|'' @ CHR 0x5C # ''W)'' @ glob_chunks rx glob
        @ ''(?:'' @ CHR 0x5C # ''b|'' @ CHR 0x5C # ''W|$)'')"

text \<open>\<open>get_glob_matcher\<close> and \<open>is_match\<close>.\<close>

definition glob_match :: "regex_lib \<Rightarrow> string \<Rightarrow> glob_match_type \<Rightarrow> string \<Rightarrow> bool option" where
  "glob_match rx glob match_type haystack =
     (let h = lower haystack in
      if list_ex is_wildcard glob then rx_is_match rx (glob_to_regex rx glob match_type) h
      else if match_type = Whole then Some (lower glob = h)
      else if \<not> str_contains (lower glob) h then Some False
      else rx_is_match rx (glob_to_regex rx (lower glob) Word) h)"

section \<open>Evaluation\<close>

type_synonym flat_event = "(string \<times> flat_value) list"

record evaluator =
  pe_flattened_keys :: flat_event
  pe_has_mentions :: bool
  pe_room_member_count :: int
  pe_notification_power_levels :: "(string \<times> int) list"
  pe_sender_power_level :: "int option"
  pe_related_events :: "(string \<times> flat_event) list"
  pe_related_event_match_enabled :: bool
  pe_room_version_feature_flags :: "string list"
  pe_msc3931_enabled :: bool
  pe_msc4210_enabled :: bool
  pe_msc4306_enabled :: bool

definition pe_body :: "evaluator \<Rightarrow> string" where
  "pe_body e = (case dget (pe_flattened_keys e) ''content.body'' of Some (FValue (SStr s)) \<Rightarrow> s | _ \<Rightarrow> [])"

definition get_localpart_from_id :: "string \<Rightarrow> string option" where
  "get_localpart_from_id i = (case split1 (CHR '':'') i of
      (_, None) \<Rightarrow> None
    | (localpart, Some _) \<Rightarrow> if localpart = [] then None else Some (tl localpart))"

definition user_pattern :: "event_match_pattern_type \<Rightarrow> string \<Rightarrow> string option" where
  "user_pattern t user_id = (case t of UserId \<Rightarrow> Some user_id | UserLocalpart \<Rightarrow> get_localpart_from_id user_id)"

definition match_event_match :: "regex_lib \<Rightarrow> flat_event \<Rightarrow> string \<Rightarrow> string \<Rightarrow> bool option" where
  "match_event_match rx flat key pat = (case dget flat key of
      Some (FValue (SStr haystack)) \<Rightarrow>
        glob_match rx pat (if key = ''content.body'' then Word else Whole) haystack
    | _ \<Rightarrow> Some False)"

definition match_event_property_is :: "flat_event \<Rightarrow> string \<Rightarrow> simple_json \<Rightarrow> bool" where
  "match_event_property_is flat key v = (dget flat key = Some (FValue v))"

definition match_event_property_contains :: "flat_event \<Rightarrow> string \<Rightarrow> simple_json \<Rightarrow> bool" where
  "match_event_property_contains flat key v =
     (case dget flat key of Some (FArray vs) \<Rightarrow> v \<in> set vs | _ \<Rightarrow> False)"

definition match_related_event_match ::
  "regex_lib \<Rightarrow> evaluator \<Rightarrow> string \<Rightarrow> bool option \<Rightarrow> string option \<Rightarrow> string option \<Rightarrow> bool option" where
  "match_related_event_match rx e rel_type include_fallbacks key pat =
     (if \<not> pe_related_event_match_enabled e then Some False
      else (case dget (pe_related_events e) rel_type of
          None \<Rightarrow> Some False
        | Some event \<Rightarrow>
            if include_fallbacks \<noteq> Some True \<and> dhas event ''im.vector.is_falling_back'' then Some False
            else (case (key, pat) of
                (None, _) \<Rightarrow> Some True
              | (Some _, None) \<Rightarrow> Some False
              | (Some k, Some p) \<Rightarrow> match_event_match rx event k p)))"

text \<open>\<open>^([=<>]*)([0-9]+)$\<close>, then the number as a \<open>u64\<close>.\<close>

definition match_member_count :: "evaluator \<Rightarrow> string \<Rightarrow> bool option" where
  "match_member_count e is_clause =
     (let ineq = takeWhile (\<lambda>c. c \<in> set ''=<>'') is_clause;
          num = dropWhile (\<lambda>c. c \<in> set ''=<>'') is_clause;
          n = pe_room_member_count e
      in if num = [] \<or> \<not> list_all (\<lambda>c. c \<in> set ''0123456789'') num then None
         else (let rhs = foldl (\<lambda>acc c. 10 * acc + (int (of_char c) - 48)) 0 num
               in if 2 ^ 64 \<le> rhs then None
                  else Some (if ineq = [] \<or> ineq = ''=='' then n = rhs
                             else if ineq = ''<'' then n < rhs
                             else if ineq = ''>'' then n > rhs
                             else if ineq = ''>='' then n \<ge> rhs
                             else if ineq = ''<='' then n \<le> rhs else False)))"

definition EXTENSIBLE_EVENTS :: string where "EXTENSIBLE_EVENTS = ''org.matrix.msc3932.extensible_events''"

text \<open>\<open>if let Some(user_id) = user_id\<close>, otherwise the condition does not match.\<close>

definition with_pattern :: "event_match_pattern_type \<Rightarrow> string option \<Rightarrow> (string \<Rightarrow> bool option) \<Rightarrow> bool option" where
  "with_pattern t user_id f = (case user_id of
      None \<Rightarrow> Some False
    | Some u \<Rightarrow> (case user_pattern t u of None \<Rightarrow> None | Some p \<Rightarrow> f p))"

fun match_condition ::
  "regex_lib \<Rightarrow> evaluator \<Rightarrow> string option \<Rightarrow> string option \<Rightarrow> bool option \<Rightarrow> condition \<Rightarrow> bool option" where
  "match_condition rx e u dn ts (UnknownCondition v) = Some False"
| "match_condition rx e u dn ts (EventMatch k p) = match_event_match rx (pe_flattened_keys e) k p"
| "match_condition rx e u dn ts (EventMatchType k t) =
     with_pattern t u (match_event_match rx (pe_flattened_keys e) k)"
| "match_condition rx e u dn ts (EventPropertyIs k v) =
     Some (match_event_property_is (pe_flattened_keys e) k v)"
| "match_condition rx e u dn ts (RelatedEventMatch r f k p) = match_related_event_match rx e r f k p"
| "match_condition rx e u dn ts (RelatedEventMatchType r f k t) =
     with_pattern t u (\<lambda>p. match_related_event_match rx e r f (Some k) (Some p))"
| "match_condition rx e u dn ts (EventPropertyContains k v) =
     Some (match_event_property_contains (pe_flattened_keys e) k v)"
| "match_condition rx e u dn ts (ExactEventPropertyContainsType k t) =
     with_pattern t u (\<lambda>p. Some (match_event_property_contains (pe_flattened_keys e) k (SStr p)))"
| "match_condition rx e u dn ts ContainsDisplayName = (case dn of
      Some name \<Rightarrow> if name \<noteq> [] then glob_match rx name Word (pe_body e) else Some False
    | None \<Rightarrow> Some False)"
| "match_condition rx e u dn ts (RoomMemberCount is_clause) = (case is_clause of
      Some i \<Rightarrow> match_member_count e i | None \<Rightarrow> Some False)"
| "match_condition rx e u dn ts (SenderNotificationPermission key) =
     Some (case pe_sender_power_level e of
        Some l \<Rightarrow> dget_default (pe_notification_power_levels e) key 50 \<le> l | None \<Rightarrow> False)"
| "match_condition rx e u dn ts (RoomVersionSupports feature) =
     Some (pe_msc3931_enabled e \<and> feature = EXTENSIBLE_EVENTS
       \<and> feature \<in> set (pe_room_version_feature_flags e))"
| "match_condition rx e u dn ts (Msc4306ThreadSubscription subscribed) =
     Some (pe_msc4306_enabled e \<and> ts = Some subscribed)"

definition SAFE_EXTENSIBLE_EVENTS_RULE_IDS :: "string list" where
  "SAFE_EXTENSIBLE_EVENTS_RULE_IDS = [''global/override/.m.rule.master'',
     ''global/override/.m.rule.roomnotif'', ''global/content/.m.rule.contains_user_name'']"

definition is_rver_condition :: "condition \<Rightarrow> bool" where
  "is_rver_condition c = (case c of RoomVersionSupports _ \<Rightarrow> True | _ \<Rightarrow> False)"

text \<open>Whether the loop stops at a rule.\<close>

definition rule_applies ::
  "regex_lib \<Rightarrow> evaluator \<Rightarrow> string option \<Rightarrow> string option \<Rightarrow> bool option \<Rightarrow> push_rule \<Rightarrow> bool" where
  "rule_applies rx e u dn ts r =
     (\<not> ((pe_has_mentions e \<or> pe_msc4210_enabled e) \<and> pr_rule_id r \<in> set LEGACY_MENTION_RULES)
      \<and> list_all (\<lambda>c. match_condition rx e u dn ts c = Some True) (pr_conditions r)
      \<and> (list_ex is_rver_condition (pr_conditions r)
         \<or> pr_rule_id r \<in> set SAFE_EXTENSIBLE_EVENTS_RULE_IDS
         \<or> EXTENSIBLE_EVENTS \<notin> set (pe_room_version_feature_flags e)))"

definition effective_actions :: "push_rule \<Rightarrow> action list" where
  "effective_actions r = filter (\<lambda>a. a \<noteq> DontNotify \<and> a \<noteq> Coalesce) (pr_actions r)"

fun run_rules ::
  "regex_lib \<Rightarrow> evaluator \<Rightarrow> string option \<Rightarrow> string option \<Rightarrow> bool option \<Rightarrow> (push_rule \<times> bool) list \<Rightarrow> action list" where
  "run_rules rx e u dn ts [] = []"
| "run_rules rx e u dn ts ((r, enabled) # rs) =
     (if enabled \<and> rule_applies rx e u dn ts r then effective_actions r else run_rules rx e u dn ts rs)"

definition run_evaluator ::
  "regex_lib \<Rightarrow> evaluator \<Rightarrow> filtered_push_rules \<Rightarrow> string option \<Rightarrow> string option \<Rightarrow> bool option \<Rightarrow> action list" where
  "run_evaluator rx e p user_id display_name thread_state =
     run_rules rx e user_id display_name thread_state (filtered_iter p)"

end
