(* ===== verification/Push_Store.thy ===== *)
theory Push_Store
  imports Push_Rules
begin

text \<open>
  The tables of push rules (\<open>storage/databases/main/push_rule.py\<close>): the rules that a user has added,
  each with a class and a priority within its class, whether a rule is enabled, and the stream of
  changes. Conditions and actions are kept as the JSON they encode. \<open>None\<close> and the empty string are
  both falsy for \<open>before\<close> and \<open>after\<close>. The cache of \<open>get_push_rules_for_user\<close> is left out: every
  change of a user's rules goes through \<open>_insert_push_rules_update_txn\<close>, which invalidates it.
\<close>

record push_row =
  prow_user :: string
  prow_rule_id :: string
  prow_class :: int
  prow_priority :: int
  prow_conditions :: "json list"
  prow_actions :: "json list"

record push_db =
  push_rows :: "push_row list"
  push_enable :: "((string \<times> string) \<times> bool) list"
  push_stream :: "(string \<times> string \<times> string) list"

section \<open>Operations\<close>

definition is_row :: "string \<Rightarrow> string \<Rightarrow> push_row \<Rightarrow> bool" where
  "is_row user_id rule_id r = (prow_user r = user_id \<and> prow_rule_id r = rule_id)"

definition in_class :: "string \<Rightarrow> int \<Rightarrow> push_row \<Rightarrow> bool" where
  "in_class user_id cls r = (prow_user r = user_id \<and> prow_class r = cls)"

definition find_row :: "push_db \<Rightarrow> string \<Rightarrow> string \<Rightarrow> push_row option" where
  "find_row db user_id rule_id = find (is_row user_id rule_id) (push_rows db)"

definition insert_push_rules_update :: "string \<Rightarrow> string \<Rightarrow> string \<Rightarrow> push_db \<Rightarrow> push_db" where
  "insert_push_rules_update user_id rule_id op db =
     db\<lparr>push_stream := push_stream db @ [(user_id, rule_id, op)]\<rparr>"

definition upsert_rows :: "push_row \<Rightarrow> push_row list \<Rightarrow> push_row list" where
  "upsert_rows n rows =
     (if list_ex (is_row (prow_user n) (prow_rule_id n)) rows
      then map (\<lambda>r. if is_row (prow_user n) (prow_rule_id n) r then n else r) rows
      else rows @ [n])"

definition upsert_push_rule_txn :: "push_row \<Rightarrow> bool \<Rightarrow> push_db \<Rightarrow> push_db" where
  "upsert_push_rule_txn n update_stream db =
     (let key = (prow_user n, prow_rule_id n);
          db = db\<lparr>push_rows := upsert_rows n (push_rows db)\<rparr>;
          db = (if update_stream then insert_push_rules_update (prow_user n) (prow_rule_id n) ''ADD'' db else db)
      in if dhas (push_enable db) key then db
         else db\<lparr>push_enable := push_enable db @ [(key, True)]\<rparr>)"

definition add_push_rule_highest_priority_txn ::
  "string \<Rightarrow> string \<Rightarrow> int \<Rightarrow> json list \<Rightarrow> json list \<Rightarrow> push_db \<Rightarrow> push_db" where
  "add_push_rule_highest_priority_txn user_id rule_id cls conditions actions db =
     (let prios = map prow_priority (filter (in_class user_id cls) (push_rows db));
          new_prio = (if prios = [] then 0 else fold max (tl prios) (hd prios) + 1)
      in upsert_push_rule_txn \<lparr>prow_user = user_id, prow_rule_id = rule_id, prow_class = cls,
           prow_priority = new_prio, prow_conditions = conditions, prow_actions = actions\<rparr> True db)"

definition shift_row :: "string \<Rightarrow> int \<Rightarrow> int \<Rightarrow> push_row \<Rightarrow> push_row" where
  "shift_row user_id cls prio r =
     (if in_class user_id cls r \<and> prio \<le> prow_priority r then r\<lparr>prow_priority := prow_priority r + 1\<rparr> else r)"

definition add_push_rule_relative_txn ::
  "string \<Rightarrow> string \<Rightarrow> int \<Rightarrow> json list \<Rightarrow> json list \<Rightarrow> string \<Rightarrow> string \<Rightarrow> push_db \<Rightarrow> push_db res" where
  "add_push_rule_relative_txn user_id rule_id cls conditions actions before after db =
     (case find_row db user_id (if before \<noteq> [] then before else after) of
        None \<Rightarrow> Inl RuleNotFoundException
      | Some base \<Rightarrow>
          if prow_class base \<noteq> cls then Inl InconsistentRuleException
          else (let new_rule_priority = (if before \<noteq> [] then prow_priority base + 1 else prow_priority base);
                    db = db\<lparr>push_rows := map (shift_row user_id cls new_rule_priority) (push_rows db)\<rparr>
                in Inr (upsert_push_rule_txn \<lparr>prow_user = user_id, prow_rule_id = rule_id, prow_class = cls,
                     prow_priority = new_rule_priority, prow_conditions = conditions,
                     prow_actions = actions\<rparr> True db)))"

definition add_push_rule ::
  "bool \<Rightarrow> string \<Rightarrow> string \<Rightarrow> int \<Rightarrow> json list \<Rightarrow> json list \<Rightarrow> string \<Rightarrow> string \<Rightarrow> push_db \<Rightarrow> push_db res" where
  "add_push_rule is_push_writer user_id rule_id cls conditions actions before after db =
     (if \<not> is_push_writer then Inl PyException
      else if before \<noteq> [] \<or> after \<noteq> []
      then add_push_rule_relative_txn user_id rule_id cls conditions actions before after db
      else Inr (add_push_rule_highest_priority_txn user_id rule_id cls conditions actions db))"

definition delete_push_rule :: "bool \<Rightarrow> string \<Rightarrow> string \<Rightarrow> push_db \<Rightarrow> push_db res" where
  "delete_push_rule is_push_writer user_id rule_id db =
     (if \<not> is_push_writer then Inl PyException
      else (case find_row db user_id rule_id of
          None \<Rightarrow> Inl (SynapseError 404 NOT_FOUND)
        | Some _ \<Rightarrow> Inr (insert_push_rules_update user_id rule_id ''DELETE''
            (db\<lparr>push_rows := filter (\<lambda>r. \<not> is_row user_id rule_id r) (push_rows db),
                push_enable := AList.delete (user_id, rule_id) (push_enable db)\<rparr>))))"

definition set_push_rule_enabled :: "bool \<Rightarrow> string \<Rightarrow> string \<Rightarrow> bool \<Rightarrow> bool \<Rightarrow> push_db \<Rightarrow> push_db res" where
  "set_push_rule_enabled is_push_writer user_id rule_id enabled is_default_rule db =
     (if \<not> is_push_writer then Inl PyException
      else if \<not> is_default_rule \<and> find_row db user_id rule_id = None then Inl RuleNotFoundException
      else Inr (insert_push_rules_update user_id rule_id (if enabled then ''ENABLE'' else ''DISABLE'')
        (db\<lparr>push_enable := dset (push_enable db) (user_id, rule_id) enabled\<rparr>)))"

definition set_push_rule_actions ::
  "bool \<Rightarrow> string \<Rightarrow> string \<Rightarrow> json list \<Rightarrow> bool \<Rightarrow> push_db \<Rightarrow> push_db res" where
  "set_push_rule_actions is_push_writer user_id rule_id actions is_default_rule db =
     (if \<not> is_push_writer then Inl PyException
      else rbind (if is_default_rule
          then Inr (upsert_push_rule_txn \<lparr>prow_user = user_id, prow_rule_id = rule_id, prow_class = -1,
                 prow_priority = 1, prow_conditions = [], prow_actions = actions\<rparr> False db)
          else (case find_row db user_id rule_id of
              None \<Rightarrow> Inl RuleNotFoundException
            | Some _ \<Rightarrow> Inr (db\<lparr>push_rows := map (\<lambda>r. if is_row user_id rule_id r
                  then r\<lparr>prow_actions := actions\<rparr> else r) (push_rows db)\<rparr>))) (\<lambda>db.
        Inr (insert_push_rules_update user_id rule_id ''ACTIONS'' db)))"

definition load_rules :: "push_row list \<Rightarrow> (string \<times> bool) list \<Rightarrow> push_flags \<Rightarrow> filtered_push_rules res" where
  "load_rules rawrules enabled_map flags =
     rbind (mapM_res (\<lambda>r. from_db (prow_rule_id r) (prow_class r) (prow_conditions r) (prow_actions r)) rawrules)
       (\<lambda>ruleslist. Inr \<lparr>fp_rules = new_push_rules ruleslist, fp_enabled_map = enabled_map, fp_flags = flags\<rparr>)"

definition get_push_rules_enabled_for_user :: "push_db \<Rightarrow> string \<Rightarrow> (string \<times> bool) list" where
  "get_push_rules_enabled_for_user db user_id =
     fold (\<lambda>((u, rule_id), b) m. if u = user_id then dset m rule_id b else m) (push_enable db) []"

definition sorted_rows :: "push_db \<Rightarrow> string \<Rightarrow> push_row list" where
  "sorted_rows db user_id =
     sort_key (\<lambda>r. (- prow_class r, - prow_priority r)) (filter (\<lambda>r. prow_user r = user_id) (push_rows db))"

definition get_push_rules_for_user :: "push_flags \<Rightarrow> push_db \<Rightarrow> string \<Rightarrow> filtered_push_rules res" where
  "get_push_rules_for_user flags db user_id =
     load_rules (sorted_rows db user_id) (get_push_rules_enabled_for_user db user_id) flags"

section \<open>The order of the rules of a class\<close>

text \<open>The rules of a class in the order of evaluation.\<close>

definition class_rows :: "push_db \<Rightarrow> string \<Rightarrow> int \<Rightarrow> push_row list" where
  "class_rows db u c = sort_key (\<lambda>r. - prow_priority r) (filter (in_class u c) (push_rows db))"

definition class_order :: "push_db \<Rightarrow> string \<Rightarrow> int \<Rightarrow> string list" where
  "class_order db u c = map prow_rule_id (class_rows db u c)"

text \<open>A user has a rule once, and within a class no two rules have the same priority.\<close>

definition push_db_wf :: "push_db \<Rightarrow> bool" where
  "push_db_wf db \<longleftrightarrow> distinct (map (\<lambda>r. (prow_user r, prow_rule_id r)) (push_rows db))
     \<and> (\<forall>r \<in> set (push_rows db). \<forall>s \<in> set (push_rows db). 0 < prow_class r \<longrightarrow> prow_class r = prow_class s \<longrightarrow>
          prow_user r = prow_user s \<longrightarrow> prow_priority r = prow_priority s \<longrightarrow> r = s)"

text \<open>The specification: where a rule goes in a list of rules.\<close>

fun insert_before :: "string \<Rightarrow> string \<Rightarrow> string list \<Rightarrow> string list" where
  "insert_before b r [] = []"
| "insert_before b r (x # xs) = (if x = b then r # x # xs else x # insert_before b r xs)"

fun insert_after :: "string \<Rightarrow> string \<Rightarrow> string list \<Rightarrow> string list" where
  "insert_after a r [] = []"
| "insert_after a r (x # xs) = (if x = a then x # r # xs else x # insert_after a r xs)"

lemma insert_before_split: "b \<notin> set xs \<Longrightarrow> insert_before b r (xs @ b # ys) = xs @ r # b # ys"
  by (induction xs) auto

lemma insert_after_split: "a \<notin> set xs \<Longrightarrow> insert_after a r (xs @ a # ys) = xs @ a # r # ys"
  by (induction xs) auto

lemma filter_single: "distinct zs \<Longrightarrow> k \<in> set zs \<Longrightarrow> filter (\<lambda>x. x = k) zs = [k]"
  by (induction zs) (auto simp: filter_empty_conv)

text \<open>A list that is sorted without ties is the result of sorting any permutation of it.\<close>

lemma sort_key_eqI:
  fixes f :: "'a \<Rightarrow> int"
  assumes "mset xs = mset ys" and "sorted_wrt (<) (map f ys)"
  shows "sort_key f xs = ys"
proof (rule properties_for_sort_key)
  show "mset ys = mset xs" using assms(1) by simp
  show "sorted (map f ys)" using assms(2) strict_sorted_imp_sorted by blast
  fix k
  assume k: "k \<in> set ys"
  have inj: "inj_on f (set ys)" and d: "distinct ys"
    using assms(2) by (simp_all add: strict_sorted_iff distinct_map)
  have dx: "distinct xs" and sx: "set xs = set ys"
    using assms(1) d mset_eq_imp_distinct_iff by (blast, metis assms(1) mset_eq_setD)
  have one: "filter (\<lambda>x. f k = f x) zs = [k]" if "distinct zs" "set zs = set ys" for zs
  proof -
    have "filter (\<lambda>x. f k = f x) zs = filter (\<lambda>x. x = k) zs"
      by (rule filter_cong) (use that k inj in \<open>auto dest: inj_onD\<close>)
    then show ?thesis using that k by (simp add: filter_single)
  qed
  show "filter (\<lambda>x. f k = f x) ys = filter (\<lambda>x. f k = f x) xs"
    using one [of ys] one [of xs] d dx sx by simp
qed

lemma wf_distinct_rows: "push_db_wf db \<Longrightarrow> distinct (push_rows db)"
  by (simp add: push_db_wf_def distinct_map)

lemma wf_same_row:
  "push_db_wf db \<Longrightarrow> r \<in> set (push_rows db) \<Longrightarrow> s \<in> set (push_rows db) \<Longrightarrow> is_row u i r \<Longrightarrow> is_row u i s \<Longrightarrow> r = s"
  by (auto simp: push_db_wf_def is_row_def distinct_map inj_on_def)

lemma strict_sort_rows:
  assumes "push_db_wf db" and "0 < c"
  shows "sorted_wrt (<) (map (\<lambda>r. - prow_priority r) (sort_key (\<lambda>r. - prow_priority r)
    (filter (\<lambda>r. in_class u c r \<and> P r) (push_rows db))))"
proof -
  let ?f = "\<lambda>r. - prow_priority r" and ?xs = "filter (\<lambda>r. in_class u c r \<and> P r) (push_rows db)"
  have "inj_on ?f (set ?xs)"
    using assms unfolding push_db_wf_def in_class_def by (intro inj_onI) auto
  moreover have "distinct (sort_key ?f ?xs)" using wf_distinct_rows [OF assms(1)] by simp
  ultimately show ?thesis by (simp add: strict_sorted_iff distinct_map)
qed

text \<open>An upsert puts the row in the place of the old one.\<close>

lemma mset_upsert_rows:
  assumes "distinct (map (\<lambda>r. (prow_user r, prow_rule_id r)) rows)"
  shows "mset (upsert_rows n rows)
    = add_mset n (mset (filter (\<lambda>r. \<not> is_row (prow_user n) (prow_rule_id n) r) rows))"
proof (cases "list_ex (is_row (prow_user n) (prow_rule_id n)) rows")
  case True
  then obtain xs r ys where rows: "rows = xs @ r # ys" and r: "is_row (prow_user n) (prow_rule_id n) r"
    by (auto simp: list_ex_iff dest!: split_list)
  have other: "\<forall>q \<in> set xs \<union> set ys. \<not> is_row (prow_user n) (prow_rule_id n) q"
    using assms r by (force simp: rows is_row_def image_iff)
  have id: "map (\<lambda>q. if is_row (prow_user n) (prow_rule_id n) q then n else q) zs = zs"
      "filter (\<lambda>q. \<not> is_row (prow_user n) (prow_rule_id n) q) zs = zs"
    if "set zs \<subseteq> set xs \<union> set ys" for zs
    using that other by (auto intro!: map_idI filter_True)
  show ?thesis using True r id [of xs] id [of ys] by (simp add: upsert_rows_def rows)
next
  case False
  then have "filter (\<lambda>q. \<not> is_row (prow_user n) (prow_rule_id n) q) rows = rows"
    by (auto simp: list_ex_iff intro!: filter_True)
  then show ?thesis using False by (simp add: upsert_rows_def)
qed

lemma mset_filter_upsert_rows:
  assumes "distinct (map (\<lambda>r. (prow_user r, prow_rule_id r)) rows)"
  shows "mset (filter P (upsert_rows n rows)) = (if P n then {#n#} else {#})
    + mset (filter (\<lambda>r. P r \<and> \<not> is_row (prow_user n) (prow_rule_id n) r) rows)"
proof -
  have "mset (filter P (upsert_rows n rows)) = filter_mset P (mset (upsert_rows n rows))" by simp
  also have "\<dots> = (if P n then {#n#} else {#})
      + mset (filter P (filter (\<lambda>r. \<not> is_row (prow_user n) (prow_rule_id n) r) rows))"
    unfolding mset_upsert_rows [OF assms] by (simp flip: mset_filter)
  finally show ?thesis by (simp only: filter_filter conj_commute)
qed

lemma shift_row_simps [simp]:
  "prow_user (shift_row u c t r) = prow_user r" "prow_rule_id (shift_row u c t r) = prow_rule_id r"
  "prow_class (shift_row u c t r) = prow_class r"
  by (simp_all add: shift_row_def)

lemma shift_row_tests [simp]:
  "is_row v i (shift_row u c t r) = is_row v i r" "in_class v d (shift_row u c t r) = in_class v d r"
  by (simp_all add: is_row_def in_class_def)

lemma shift_keys: "map (\<lambda>r. (prow_user r, prow_rule_id r)) (map (shift_row u c t) rows)
    = map (\<lambda>r. (prow_user r, prow_rule_id r)) rows"
  by simp

text \<open>
  The heart of both ways to add a rule: the rows of the class split at the new priority \<open>t\<close>, those
  above are moved up by one, and the new rule goes in between.
\<close>

lemma sorted_insert_at:
  assumes "sorted_wrt (<) (map (\<lambda>r. - prow_priority r) (A @ B))"
    and "\<forall>r \<in> set A. in_class u c r \<and> t \<le> prow_priority r" and "\<forall>r \<in> set B. prow_priority r < t"
    and "prow_priority n = t"
  shows "sorted_wrt (<) (map (\<lambda>r. - prow_priority r) (map (shift_row u c t) A @ n # B))"
proof -
  have A: "map (\<lambda>r. - prow_priority r) (map (shift_row u c t) A) = map (\<lambda>x. x - 1) (map (\<lambda>r. - prow_priority r) A)"
    using assms(2) by (simp add: shift_row_def)
  have "sorted_wrt (<) (map (\<lambda>r. - prow_priority r) (map (shift_row u c t) A))"
    using assms(1) unfolding A by (simp add: sorted_wrt_map sorted_wrt_append)
  moreover have "\<forall>r \<in> set A. t < prow_priority (shift_row u c t r)"
    using assms(2) by (auto simp: shift_row_def)
  ultimately show ?thesis using assms(1,3,4) by (fastforce simp: sorted_wrt_append sorted_wrt_map)
qed

lemma class_rows_insert:
  assumes wf: "push_db_wf db" and c: "0 < c"
    and n: "prow_user n = u" "prow_class n = c" "prow_priority n = t"
    and S: "sort_key (\<lambda>r. - prow_priority r)
        (filter (\<lambda>r. in_class u c r \<and> \<not> is_row u (prow_rule_id n) r) (push_rows db)) = A @ B"
    and A: "\<forall>r \<in> set A. t \<le> prow_priority r" and B: "\<forall>r \<in> set B. prow_priority r < t"
    and db': "push_rows db' = upsert_rows n (map (shift_row u c t) (push_rows db))"
  shows "class_rows db' u c = map (shift_row u c t) A @ n # B"
  unfolding class_rows_def
proof (rule sort_key_eqI)
  let ?C = "filter (\<lambda>r. in_class u c r \<and> \<not> is_row u (prow_rule_id n) r) (push_rows db)"
  have cls: "in_class u c r" if "r \<in> set A \<union> set B" for r
  proof -
    have "set (A @ B) = set ?C" unfolding S [symmetric] by simp
    then show ?thesis using that by auto
  qed
  have "sorted_wrt (<) (map (\<lambda>r. - prow_priority r) (A @ B))"
    unfolding S [symmetric] by (rule strict_sort_rows [OF wf c])
  then show "sorted_wrt (<) (map (\<lambda>r. - prow_priority r) (map (shift_row u c t) A @ n # B))"
    by (rule sorted_insert_at) (use A B cls n in auto)
  have AB: "mset ?C = mset A + mset B" using arg_cong [OF S, of mset] by simp
  have Bid: "map (shift_row u c t) B = B" using B by (auto simp: shift_row_def intro!: map_idI)
  have keys: "distinct (map (\<lambda>r. (prow_user r, prow_rule_id r)) (map (shift_row u c t) (push_rows db)))"
    using wf unfolding push_db_wf_def shift_keys by simp
  have "mset (filter (in_class u c) (push_rows db'))
      = {#n#} + mset (filter (\<lambda>r. in_class u c r \<and> \<not> is_row u (prow_rule_id n) r) (map (shift_row u c t) (push_rows db)))"
    unfolding db' mset_filter_upsert_rows [OF keys] using n by (simp add: in_class_def [of _ _ n] del: mset_filter)
  also have "\<dots> = add_mset n (mset (map (shift_row u c t) ?C))"
    by (simp add: filter_map o_def del: mset_filter)
  also have "\<dots> = add_mset n (image_mset (shift_row u c t) (mset A + mset B))" by (simp only: mset_map AB)
  also have "\<dots> = mset (map (shift_row u c t) A @ n # B)"
    using arg_cong [OF Bid, of mset] by simp
  finally show "mset (filter (in_class u c) (push_rows db')) = mset (map (shift_row u c t) A @ n # B)" .
qed

lemma removeAll_class_order:
  "removeAll i (class_order db u c) = map prow_rule_id (sort_key (\<lambda>r. - prow_priority r)
     (filter (\<lambda>r. in_class u c r \<and> \<not> is_row u i r) (push_rows db)))"
proof -
  have "removeAll i (class_order db u c)
      = map prow_rule_id (filter (\<lambda>r. i \<noteq> prow_rule_id r) (class_rows db u c))"
    by (simp add: class_order_def removeAll_filter_not_eq filter_map o_def)
  also have "filter (\<lambda>r. i \<noteq> prow_rule_id r) (class_rows db u c)
      = sort_key (\<lambda>r. - prow_priority r) (filter (\<lambda>r. i \<noteq> prow_rule_id r) (filter (in_class u c) (push_rows db)))"
    by (simp only: class_rows_def filter_sort)
  also have "filter (\<lambda>r. i \<noteq> prow_rule_id r) (filter (in_class u c) (push_rows db))
      = filter (\<lambda>r. in_class u c r \<and> \<not> is_row u i r) (push_rows db)"
    unfolding filter_filter by (rule filter_cong) (auto simp: in_class_def is_row_def)
  finally show ?thesis .
qed

text \<open>The highest priority of a class.\<close>

lemma fold_max: "x \<in> set (p # ps) \<Longrightarrow> x \<le> fold max ps (p :: int)"
proof (induction ps arbitrary: p x)
  case (Cons q ps)
  have top: "max q p \<le> fold max ps (max q p)" by (rule Cons.IH) simp
  show ?case
  proof (cases "x \<in> set ps")
    case True
    then show ?thesis using Cons.IH [of x "max q p"] by simp
  next
    case False
    then have "x \<le> max q p" using Cons.prems by auto
    then have "x \<le> fold max ps (max q p)" using top by (rule order_trans)
    then show ?thesis by simp
  qed
qed simp

lemma shift_above: "\<forall>r \<in> set rows. prow_user r = u \<longrightarrow> prow_class r = c \<longrightarrow> prow_priority r < t \<Longrightarrow>
    map (shift_row u c t) rows = rows"
  by (rule map_idI) (auto simp: shift_row_def in_class_def)

text \<open>What a call of \<open>add_push_rule\<close> writes: the new row at a priority that splits the class.\<close>

definition adds_at :: "push_db \<Rightarrow> string \<Rightarrow> int \<Rightarrow> push_row \<Rightarrow> push_db \<Rightarrow> bool" where
  "adds_at db u c n db' \<longleftrightarrow> prow_user n = u \<and> prow_class n = c
     \<and> push_rows db' = upsert_rows n (map (shift_row u c (prow_priority n)) (push_rows db))"

lemma upsert_txn_rows [simp]: "push_rows (upsert_push_rule_txn n b db) = upsert_rows n (push_rows db)"
  by (simp add: upsert_push_rule_txn_def insert_push_rules_update_def Let_def)

lemma add_highest_adds:
  fixes db db' u i c conds acts
  defines "db' \<equiv> add_push_rule_highest_priority_txn u i c conds acts db"
  obtains n where "adds_at db u c n db'" "prow_rule_id n = i" "prow_conditions n = conds" "prow_actions n = acts"
    "\<forall>r \<in> set (push_rows db). in_class u c r \<longrightarrow> prow_priority r < prow_priority n"
proof -
  define prios where "prios = map prow_priority (filter (in_class u c) (push_rows db))"
  define t where "t = (if prios = [] then 0 else fold max (tl prios) (hd prios) + 1)"
  define n where "n = \<lparr>prow_user = u, prow_rule_id = i, prow_class = c, prow_priority = t,
    prow_conditions = conds, prow_actions = acts\<rparr>"
  have lt: "prow_priority r < t" if "r \<in> set (push_rows db)" "in_class u c r" for r
  proof -
    have "prow_priority r \<in> set prios" using that by (simp add: prios_def)
    then have "prios \<noteq> []" "prow_priority r \<le> fold max (tl prios) (hd prios)"
      using fold_max [of "prow_priority r" "hd prios" "tl prios"] by (cases prios; simp)+
    then show ?thesis by (simp add: t_def)
  qed
  have "map (shift_row u c t) (push_rows db) = push_rows db"
    by (rule shift_above) (use lt in \<open>auto simp: in_class_def\<close>)
  then have "adds_at db u c n db'"
    by (simp add: adds_at_def n_def db'_def add_push_rule_highest_priority_txn_def prios_def t_def Let_def)
  then show thesis using that lt by (auto simp: n_def)
qed

lemma add_relative_adds:
  assumes "add_push_rule_relative_txn u i c conds acts before after db = Inr db'"
  obtains n base where "adds_at db u c n db'" "prow_rule_id n = i"
    "find_row db u (if before \<noteq> [] then before else after) = Some base" "prow_class base = c"
    "prow_priority n = (if before \<noteq> [] then prow_priority base + 1 else prow_priority base)"
proof -
  obtain base where base: "find_row db u (if before \<noteq> [] then before else after) = Some base"
    using assms by (auto simp: add_push_rule_relative_txn_def split: option.splits)
  then have c: "prow_class base = c"
    using assms by (auto simp: add_push_rule_relative_txn_def split: if_splits)
  define t where "t = (if before \<noteq> [] then prow_priority base + 1 else prow_priority base)"
  define n where "n = \<lparr>prow_user = u, prow_rule_id = i, prow_class = c, prow_priority = t,
    prow_conditions = conds, prow_actions = acts\<rparr>"
  have "adds_at db u c n db'"
    using assms base c unfolding add_push_rule_relative_txn_def Let_def
    by (auto simp: adds_at_def n_def t_def)
  then show thesis using that [of n base] base c by (simp add: n_def t_def)
qed

lemma find_row_Some: "find_row db u i = Some r \<Longrightarrow> r \<in> set (push_rows db) \<and> is_row u i r"
  by (auto simp: find_row_def find_Some_iff)

text \<open>The class after adding, from any split of the rest of the class at the new priority.\<close>

lemma class_order_adds:
  assumes wf: "push_db_wf db" and c: "0 < c" and ad: "adds_at db u c n db'"
    and S: "sort_key (\<lambda>r. - prow_priority r)
        (filter (\<lambda>r. in_class u c r \<and> \<not> is_row u (prow_rule_id n) r) (push_rows db)) = A @ B"
    and AB: "\<forall>r \<in> set A. prow_priority n \<le> prow_priority r" "\<forall>r \<in> set B. prow_priority r < prow_priority n"
  shows "class_order db' u c = map prow_rule_id A @ prow_rule_id n # map prow_rule_id B"
proof -
  have "class_rows db' u c = map (shift_row u c (prow_priority n)) A @ n # B"
    by (rule class_rows_insert [OF wf c _ _ refl S AB]) (use ad in \<open>auto simp: adds_at_def\<close>)
  then show ?thesis by (simp add: class_order_def)
qed

lemma class_order_relative:
  assumes wf: "push_db_wf db" and c: "0 < c"
    and ad: "add_push_rule_relative_txn u i c conds acts before after db = Inr db'"
    and ne: "before \<noteq> i" "after \<noteq> i"
  shows "class_order db' u c = (if before \<noteq> [] then insert_before before i (removeAll i (class_order db u c))
     else insert_after after i (removeAll i (class_order db u c)))"
proof -
  obtain n base where n: "adds_at db u c n db'" "prow_rule_id n = i"
      "find_row db u (if before \<noteq> [] then before else after) = Some base" "prow_class base = c"
      "prow_priority n = (if before \<noteq> [] then prow_priority base + 1 else prow_priority base)"
    using ad by (rule add_relative_adds)
  let ?C = "filter (\<lambda>r. in_class u c r \<and> \<not> is_row u i r) (push_rows db)"
  let ?S = "sort_key (\<lambda>r. - prow_priority r) ?C"
  have base: "base \<in> set (push_rows db)" "is_row u (if before \<noteq> [] then before else after) base"
    using find_row_Some [OF n(3)] by auto
  have "base \<in> set ?S" using base n(4) ne by (auto simp: in_class_def is_row_def split: if_splits)
  then obtain L1 L2 where S: "?S = L1 @ base # L2" by (meson split_list)
  have "sorted_wrt (<) (map (\<lambda>r. - prow_priority r) (L1 @ base # L2))"
    unfolding S [symmetric] by (rule strict_sort_rows [OF wf c])
  then have lt: "\<forall>r \<in> set L1. prow_priority base < prow_priority r" "\<forall>r \<in> set L2. prow_priority r < prow_priority base"
    by (auto simp: sorted_wrt_append)
  have ids: "prow_rule_id base \<notin> set (map prow_rule_id L1)"
  proof
    assume "prow_rule_id base \<in> set (map prow_rule_id L1)"
    then obtain r where r: "r \<in> set L1" "prow_rule_id r = prow_rule_id base" by auto
    then have "r \<in> set ?C" using S by (metis in_set_conv_decomp set_sort Un_iff set_append)
    then have "r = base" using wf_same_row [OF wf _ base(1), of r u "prow_rule_id base"] base r
      by (auto simp: in_class_def is_row_def)
    then show False using lt r(1) by auto
  qed
  have rest: "removeAll i (class_order db u c) = map prow_rule_id L1 @ prow_rule_id base # map prow_rule_id L2"
    by (simp add: removeAll_class_order S)
  have b: "prow_rule_id base = (if before \<noteq> [] then before else after)" using base(2) by (simp add: is_row_def)
  show ?thesis
  proof (cases "before = []")
    case False
    have "class_order db' u c = map prow_rule_id L1 @ prow_rule_id n # map prow_rule_id (base # L2)"
      by (rule class_order_adds [OF wf c n(1)]) (use S lt n(2,5) False in \<open>auto simp: add1_zle_eq\<close>)
    then show ?thesis using False b ids n(2) rest by (simp add: insert_before_split)
  next
    case True
    have "class_order db' u c = map prow_rule_id (L1 @ [base]) @ prow_rule_id n # map prow_rule_id L2"
      by (rule class_order_adds [OF wf c n(1)]) (use S lt n(2,5) True in auto)
    then show ?thesis using True b ids n(2) rest by (simp add: insert_after_split)
  qed
qed

text \<open>
  C27: adding a push rule changes the order of evaluation of its class as the API promises: the rule
  comes right before or right after the rule that is named, otherwise before all others; the
  others keep their order, and if the rule was there already it is moved.
\<close>

theorem add_push_rule_order:
  assumes "push_db_wf db" and "0 < c" and "before \<noteq> i" and "after \<noteq> i"
    and "add_push_rule is_push_writer u i c conds acts before after db = Inr db'"
  shows "class_order db' u c = (let others = removeAll i (class_order db u c) in
     if before \<noteq> [] then insert_before before i others
     else if after \<noteq> [] then insert_after after i others else i # others)"
proof (cases "before = [] \<and> after = []")
  case True
  then have db': "db' = add_push_rule_highest_priority_txn u i c conds acts db"
    using assms(5) by (simp add: add_push_rule_def split: if_splits)
  obtain n where n: "adds_at db u c n db'" "prow_rule_id n = i" "prow_conditions n = conds" "prow_actions n = acts"
      "\<forall>r \<in> set (push_rows db). in_class u c r \<longrightarrow> prow_priority r < prow_priority n"
    unfolding db' by (rule add_highest_adds)
  let ?S = "sort_key (\<lambda>r. - prow_priority r) (filter (\<lambda>r. in_class u c r \<and> \<not> is_row u i r) (push_rows db))"
  have "class_order db' u c = prow_rule_id n # map prow_rule_id ?S"
    using class_order_adds [OF assms(1,2) n(1), of "[]" ?S] n(2,5) by simp
  then show ?thesis using True n(2) by (simp add: removeAll_class_order)
next
  case False
  then have "add_push_rule_relative_txn u i c conds acts before after db = Inr db'"
    using assms(5) by (auto simp: add_push_rule_def split: if_splits)
  from class_order_relative [OF assms(1,2) this assms(3,4)] show ?thesis using False by (auto simp: Let_def)
qed

definition sample_push_db :: push_db where
  "sample_push_db = \<lparr>push_rows = [
      \<lparr>prow_user = ''@a:s'', prow_rule_id = ''global/room/x'', prow_class = 3, prow_priority = 0,
        prow_conditions = [], prow_actions = []\<rparr>,
      \<lparr>prow_user = ''@a:s'', prow_rule_id = ''global/room/y'', prow_class = 3, prow_priority = 1,
        prow_conditions = [], prow_actions = []\<rparr>],
     push_enable = [], push_stream = []\<rparr>"

lemma sample_push_db_wf: "push_db_wf sample_push_db"
  by (simp add: push_db_wf_def sample_push_db_def)

theorem add_push_rule_order_witness:
  "\<exists>db'. add_push_rule True ''@a:s'' ''global/room/z'' 3 [] [] [] ''global/room/y'' sample_push_db = Inr db'
    \<and> class_order db' ''@a:s'' 3 = [''global/room/y'', ''global/room/z'', ''global/room/x'']"
proof -
  have "\<exists>db'. add_push_rule True ''@a:s'' ''global/room/z'' 3 [] [] [] ''global/room/y'' sample_push_db = Inr db'"
    by (simp add: add_push_rule_def add_push_rule_relative_txn_def find_row_def is_row_def sample_push_db_def)
  then obtain db' where db': "add_push_rule True ''@a:s'' ''global/room/z'' 3 [] [] [] ''global/room/y'' sample_push_db = Inr db'"
    by blast
  have o: "class_order sample_push_db ''@a:s'' 3 = [''global/room/y'', ''global/room/x'']"
    by (simp add: class_order_def class_rows_def sample_push_db_def in_class_def)
  from add_push_rule_order [OF sample_push_db_wf _ _ _ db'] show ?thesis using db' o by (simp add: Let_def)
qed

section \<open>The tables stay well formed\<close>

lemma set_upsert_rows:
  "distinct (map (\<lambda>r. (prow_user r, prow_rule_id r)) rows) \<Longrightarrow>
   set (upsert_rows n rows) = insert n {r \<in> set rows. \<not> is_row (prow_user n) (prow_rule_id n) r}"
  using arg_cong [OF mset_upsert_rows, of rows set_mset n] by auto

lemma distinct_upsert_rows:
  assumes "distinct (map (\<lambda>r. (prow_user r, prow_rule_id r)) rows)"
  shows "distinct (map (\<lambda>r. (prow_user r, prow_rule_id r)) (upsert_rows n rows))"
proof -
  let ?k = "\<lambda>r. (prow_user r, prow_rule_id r)"
  let ?o = "filter (\<lambda>r. \<not> is_row (prow_user n) (prow_rule_id n) r) rows"
  have "mset (map ?k (upsert_rows n rows)) = mset (map ?k (n # ?o))"
    using arg_cong [OF mset_upsert_rows [OF assms, of n], of "image_mset ?k"] by simp
  moreover have "distinct (map ?k (n # ?o))"
    using assms by (auto simp: is_row_def distinct_map_filter)
  ultimately show ?thesis using mset_eq_imp_distinct_iff [of "map ?k (upsert_rows n rows)" "map ?k (n # ?o)"] by (simp only:)
qed

text \<open>Adding a row at a priority that no row of its class has after the shift.\<close>

lemma wf_adds:
  assumes wf: "push_db_wf db" and ad: "adds_at db u c n db'"
  shows "push_db_wf db'"
proof -
  let ?s = "shift_row u c (prow_priority n)"
  have keys: "distinct (map (\<lambda>r. (prow_user r, prow_rule_id r)) (map ?s (push_rows db)))"
    using wf unfolding push_db_wf_def shift_keys by simp
  have nu: "prow_user n = u" "prow_class n = c" using ad by (auto simp: adds_at_def)
  have rows: "push_rows db' = upsert_rows n (map ?s (push_rows db))" using ad by (simp add: adds_at_def)
  have free: "prow_priority (?s r) \<noteq> prow_priority n" if "in_class u c r" for r
    using that by (simp add: shift_row_def)
  have inj: "?s r = ?s q"
    if "r \<in> set (push_rows db)" "q \<in> set (push_rows db)" "0 < prow_class r" "prow_class r = prow_class q"
      "prow_user r = prow_user q" "prow_priority (?s r) = prow_priority (?s q)" for r q
  proof -
    have "prow_priority r = prow_priority q"
      using that(4-6) by (auto simp: shift_row_def in_class_def split: if_splits)
    then have "r = q" using wf that unfolding push_db_wf_def by blast
    then show ?thesis by simp
  qed
  have set': "set (push_rows db') = insert n {r \<in> ?s ` set (push_rows db). \<not> is_row u (prow_rule_id n) r}"
    unfolding rows set_upsert_rows [OF keys] nu by simp
  have "r = q"
    if rq: "r \<in> set (push_rows db')" "q \<in> set (push_rows db')" "0 < prow_class r" "prow_class r = prow_class q"
      "prow_user r = prow_user q" "prow_priority r = prow_priority q" for r q
  proof -
    have old: "prow_priority q' \<noteq> prow_priority n"
      if "q' \<in> ?s ` set (push_rows db)" "prow_class q' = c" "prow_user q' = u" for q'
    proof -
      obtain x where x: "q' = ?s x" using \<open>q' \<in> ?s ` set (push_rows db)\<close> by auto
      then have "in_class u c x" using that(2,3) by (simp add: in_class_def)
      then show ?thesis unfolding x by (rule free)
    qed
    consider "r = n" "q = n" | "r = n" "q \<in> ?s ` set (push_rows db)" | "q = n" "r \<in> ?s ` set (push_rows db)"
      | "r \<in> ?s ` set (push_rows db)" "q \<in> ?s ` set (push_rows db)"
      using rq(1,2) unfolding set' by blast
    then show ?thesis
    proof cases
      case 2
      then show ?thesis using old [of q] rq(4-6) nu by simp
    next
      case 3
      then show ?thesis using old [of r] rq(4-6) nu by simp
    next
      case 4
      then show ?thesis using inj rq(3-6) by auto
    qed simp
  qed
  moreover have "distinct (map (\<lambda>r. (prow_user r, prow_rule_id r)) (push_rows db'))"
    unfolding rows by (rule distinct_upsert_rows [OF keys])
  ultimately show ?thesis unfolding push_db_wf_def by blast
qed

lemma wf_sub_rows:
  "push_db_wf db \<Longrightarrow> push_rows db' = filter P (push_rows db) \<Longrightarrow> push_db_wf db'"
  by (auto simp: push_db_wf_def distinct_map_filter)

lemma wf_map_rows:
  assumes wf: "push_db_wf db" and rows: "push_rows db' = map f (push_rows db)"
    and f: "\<And>r. prow_user (f r) = prow_user r" "\<And>r. prow_rule_id (f r) = prow_rule_id r"
      "\<And>r. prow_class (f r) = prow_class r" "\<And>r. prow_priority (f r) = prow_priority r"
  shows "push_db_wf db'"
  using wf unfolding push_db_wf_def rows by (auto simp: f o_def)

lemma wf_default_actions:
  assumes wf: "push_db_wf db" and n: "prow_class n \<le> 0"
  shows "push_db_wf (upsert_push_rule_txn n b db)"
proof -
  have keys: "distinct (map (\<lambda>r. (prow_user r, prow_rule_id r)) (push_rows db))"
    using wf by (simp add: push_db_wf_def)
  show ?thesis
    using wf n distinct_upsert_rows [OF keys, of n] unfolding push_db_wf_def
    by (auto simp: set_upsert_rows [OF keys])
qed

lemma update_keeps_rows [simp]: "push_rows (insert_push_rules_update u i op db) = push_rows db"
  by (simp add: insert_push_rules_update_def)

lemma wf_cong: "push_rows db = push_rows db' \<Longrightarrow> push_db_wf db = push_db_wf db'"
  by (simp add: push_db_wf_def)

text \<open>
  No change of the push rules, by any of the five operations, gives a user a rule twice or two
  rules of a class the same priority. The order of evaluation is therefore never left to the
  database.
\<close>

theorem push_db_wf_preserved:
  assumes "push_db_wf db"
    and "db' \<in> {d. add_push_rule w u i c conds acts before after db = Inr d
        \<or> delete_push_rule w u i db = Inr d \<or> set_push_rule_enabled w u i en dflt db = Inr d
        \<or> set_push_rule_actions w u i acts dflt db = Inr d}"
  shows "push_db_wf db'"
proof -
  have add: ?thesis if a: "add_push_rule w u i c conds acts before after db = Inr db'"
  proof (cases "before = [] \<and> after = []")
    case True
    then have db': "db' = add_push_rule_highest_priority_txn u i c conds acts db"
      using a by (simp add: add_push_rule_def split: if_splits)
    obtain n where "adds_at db u c n db'" unfolding db' by (rule add_highest_adds)
    then show ?thesis by (rule wf_adds [OF assms(1)])
  next
    case False
    then have "add_push_rule_relative_txn u i c conds acts before after db = Inr db'"
      using a by (auto simp: add_push_rule_def split: if_splits)
    then obtain n where "adds_at db u c n db'" by (rule add_relative_adds)
    then show ?thesis by (rule wf_adds [OF assms(1)])
  qed
  have del: ?thesis if "delete_push_rule w u i db = Inr db'"
    by (rule wf_sub_rows [OF assms(1), of _ "\<lambda>r. \<not> is_row u i r"])
      (use that in \<open>auto simp: delete_push_rule_def split: if_splits option.splits\<close>)
  have en: ?thesis if "set_push_rule_enabled w u i en dflt db = Inr db'"
    by (rule wf_sub_rows [OF assms(1), of _ "\<lambda>_. True"])
      (use that in \<open>auto simp: set_push_rule_enabled_def split: if_splits\<close>)
  have act: ?thesis if a: "set_push_rule_actions w u i acts dflt db = Inr db'"
  proof (cases dflt)
    case True
    then obtain n b where "push_rows db' = push_rows (upsert_push_rule_txn n b db)" "prow_class n \<le> 0"
      using a that by (fastforce simp: set_push_rule_actions_def split: if_splits)
    then show ?thesis using wf_default_actions [OF assms(1)] wf_cong by blast
  next
    case False
    show ?thesis
      by (rule wf_map_rows [OF assms(1), of _ "\<lambda>r. if is_row u i r then r\<lparr>prow_actions := acts\<rparr> else r"])
        (use a False in \<open>auto simp: set_push_rule_actions_def rbind_Inr_iff split: if_splits option.splits\<close>)
  qed
  show ?thesis using assms(2) add del en act by blast
qed

theorem push_db_wf_preserved_witness:
  "\<exists>db'. set_push_rule_enabled True ''@a:s'' ''global/room/x'' False False sample_push_db = Inr db' \<and> push_db_wf db'"
proof -
  have "\<exists>db'. set_push_rule_enabled True ''@a:s'' ''global/room/x'' False False sample_push_db = Inr db'"
    by (simp add: set_push_rule_enabled_def find_row_def is_row_def sample_push_db_def)
  then obtain db' where db': "set_push_rule_enabled True ''@a:s'' ''global/room/x'' False False sample_push_db = Inr db'"
    by blast
  have "push_db_wf db'"
    by (rule push_db_wf_preserved [OF sample_push_db_wf, of db' True "''@a:s''" "''global/room/x''" 3 "[]" "[]" "[]" "[]" False False])
      (simp add: db')
  then show ?thesis using db' by blast
qed

section \<open>From the table to the evaluation\<close>

text \<open>The rule that a row is parsed to.\<close>

definition rule_of :: "push_row \<Rightarrow> push_rule" where
  "rule_of r = \<lparr>pr_rule_id = prow_rule_id r, pr_priority_class = prow_class r,
     pr_conditions = map parse_condition (prow_conditions r), pr_actions = map (the \<circ> parse_action) (prow_actions r),
     pr_default = False, pr_default_enabled = True\<rparr>"

lemma load_rules_Inr:
  assumes "load_rules rows m flags = Inr p"
  shows "p = \<lparr>fp_rules = new_push_rules (map rule_of rows), fp_enabled_map = m, fp_flags = flags\<rparr>"
proof -
  have "mapM_res (\<lambda>r. from_db (prow_rule_id r) (prow_class r) (prow_conditions r) (prow_actions r)) rows = Inr rl
      \<Longrightarrow> rl = map rule_of rows" for rl
    by (induction rows arbitrary: rl) (auto simp: rbind_Inr_iff from_db_def rule_of_def split: if_splits)
  then show ?thesis using assms by (auto simp: load_rules_def rbind_Inr_iff)
qed

lemma insort_key_pair:
  "\<forall>z \<in> set (y # zs). f z = c \<Longrightarrow> insort_key (\<lambda>r. (f r, g r)) y zs = insort_key g y zs"
  by (induction zs) auto

lemma sort_key_pair: "\<forall>r \<in> set ys. f r = c \<Longrightarrow> sort_key (\<lambda>r. (f r, g r)) ys = sort_key g ys"
proof (induction ys)
  case (Cons y ys)
  then have "insort_key (\<lambda>r. (f r, g r)) y (sort_key g ys) = insort_key g y (sort_key g ys)"
    by (intro insort_key_pair) auto
  then show ?case using Cons by simp
qed simp

lemma filter_sorted_rows: "filter (\<lambda>r. prow_class r = c) (sorted_rows db u) = class_rows db u c"
proof -
  have "filter (\<lambda>r. prow_class r = c) (sorted_rows db u)
      = sort_key (\<lambda>r. (- prow_class r, - prow_priority r)) (filter (in_class u c) (push_rows db))"
    unfolding sorted_rows_def filter_sort filter_filter
    by (rule arg_cong [where f = "sort_key _"], rule filter_cong) (auto simp: in_class_def)
  also have "\<dots> = class_rows db u c"
    unfolding class_rows_def by (rule sort_key_pair [where c = "- c"]) (auto simp: in_class_def)
  finally show ?thesis .
qed

text \<open>The rules of a class that a user added himself, in the order of the class.\<close>

lemma own_rules:
  "filter (\<lambda>r. pr_priority_class r = c) (filter (\<lambda>r. BASE_RULES_BY_ID (pr_rule_id r) = None) (map rule_of (sorted_rows db u)))
   = map rule_of (filter (\<lambda>r. BASE_RULES_BY_ID (prow_rule_id r) = None) (class_rows db u c))"
  unfolding filter_sorted_rows [symmetric]
  by (simp add: filter_map o_def rule_of_def conj_commute)

text \<open>An overridden base rule is the base rule with other actions.\<close>

lemma overridden_from_base:
  assumes "dget (overridden_base_rules (new_push_rules rules)) i = Some q"
  shows "\<exists>b a. BASE_RULES_BY_ID i = Some b \<and> q = b\<lparr>pr_actions := a\<rparr>"
proof -
  let ?f = "\<lambda>r m. case BASE_RULES_BY_ID (pr_rule_id r) of
      Some o' \<Rightarrow> dset m (pr_rule_id r) (o'\<lparr>pr_actions := pr_actions r\<rparr>) | None \<Rightarrow> m"
  let ?P = "\<lambda>m. \<forall>i q. dget m i = Some q \<longrightarrow> (\<exists>b a. BASE_RULES_BY_ID i = Some b \<and> q = b\<lparr>pr_actions := a\<rparr>)"
  have "?P m \<Longrightarrow> ?P (fold ?f rules m)" for m
  proof (induction rules arbitrary: m)
    case (Cons r rs)
    have "?P (?f r m)" using Cons.prems by (auto simp: dget_dset split: option.splits)
    from Cons.IH [OF this] show ?case by simp
  qed simp
  from this [of "[]"] show ?thesis using assms by (simp add: new_push_rules_def Let_def)
qed

lemma overridden_only_base:
  "BASE_RULES_BY_ID i = None \<Longrightarrow> dget (overridden_base_rules (new_push_rules rules)) i = None"
  using overridden_from_base [of rules i] by (cases "dget (overridden_base_rules (new_push_rules rules)) i") auto

lemma add_highest_first:
  assumes "push_db_wf db" and "0 < c" and "add_push_rule True u i c conds acts [] [] db = Inr db'"
  obtains n rest where "class_rows db' u c = n # rest" "prow_rule_id n = i" "prow_class n = c"
    "prow_conditions n = conds" "prow_actions n = acts"
proof -
  have db': "db' = add_push_rule_highest_priority_txn u i c conds acts db"
    using assms(3) by (simp add: add_push_rule_def)
  obtain n where n: "adds_at db u c n db'" "prow_rule_id n = i" "prow_conditions n = conds" "prow_actions n = acts"
      "\<forall>r \<in> set (push_rows db). in_class u c r \<longrightarrow> prow_priority r < prow_priority n"
    unfolding db' by (rule add_highest_adds)
  let ?S = "sort_key (\<lambda>r. - prow_priority r) (filter (\<lambda>r. in_class u c r \<and> \<not> is_row u i r) (push_rows db))"
  have "class_rows db' u c = map (shift_row u c (prow_priority n)) [] @ n # ?S"
    by (rule class_rows_insert [OF assms(1,2) _ _ refl]) (use n in \<open>auto simp: adds_at_def\<close>)
  then show thesis using n by (intro that [of n ?S]) (auto simp: adds_at_def)
qed

end
