(* ===== verification/Stories.thy ===== *)
theory Stories
  imports Module_Api Coroutine Push_Store
begin

text \<open>
  The module \<open>stories_membership\<close> (\<open>modules/stories_membership/_logic.py\<close> and \<open>__init__.py\<close>): two
  users who share a direct chat are invited into each other's hidden story room, with push rules
  that silence the room but for the stories themselves, and stories that have expired are redacted.

  The API of the homeserver is the record \<open>stories\<close>, whose functions may raise and may change the
  world \<open>'w\<close>. What the module reads from the database is the record \<open>stories_tables\<close>: a row of
  \<open>event_json\<close> is the content of the event, \<open>None\<close> where it cannot be parsed. A room id that comes
  from account data is a JSON value; \<open>so_str\<close> is how a value that is no string is formatted into
  one. The order of a Python set is that of insertion here. Logging, \<open>sleep(0)\<close> and the scheduling
  of the background processes are left out.
\<close>

section \<open>\<open>_logic.py\<close>\<close>

definition STORIES_TAG :: string where "STORIES_TAG = ''com.liza.stories''"
definition STORY_CONTENT_KEY :: string where "STORY_CONTENT_KEY = ''com.liza.story''"
definition LEGACY_STORIES_ROOM_NAME :: string where "LEGACY_STORIES_ROOM_NAME = ''Stories''"
definition STORIES_ROOM_NAME_PREFIX :: string where "STORIES_ROOM_NAME_PREFIX = ''Stories - ''"
definition STORY_NOTIFY_RULE_NAME_PREFIX :: string where
  "STORY_NOTIFY_RULE_NAME_PREFIX = ''com.liza.story_notify.''"

definition story_notify_rule_name :: "string \<Rightarrow> string" where
  "story_notify_rule_name room_id = STORY_NOTIFY_RULE_NAME_PREFIX @ room_id"

definition story_notify_rule_id :: "string \<Rightarrow> string" where
  "story_notify_rule_id room_id = ''global/override/'' @ story_notify_rule_name room_id"

definition is_local_room :: "string \<Rightarrow> string \<Rightarrow> bool" where
  "is_local_room room_id server_name = (snd (split1 (CHR '':'') room_id) = Some server_name)"

text \<open>\<open>tuple(sorted((owner, other)))\<close>.\<close>

definition sorted_pair :: "string \<Rightarrow> string \<Rightarrow> string \<times> string" where
  "sorted_pair a b = (if a \<le> b then (a, b) else (b, a))"

definition dm_pairs_from_direct :: "string \<Rightarrow> jdict \<Rightarrow> (string \<times> string) list" where
  "dm_pairs_from_direct owner direct_content = remdups (map (sorted_pair owner \<circ> fst) direct_content)"

definition is_direct_membership_join :: "string \<Rightarrow> jdict \<Rightarrow> bool \<Rightarrow> bool" where
  "is_direct_membership_join event_type content is_direct_room =
     (event_type = ''m.room.member'' \<and> is_direct_room \<and> dget_none content ''membership'' = JStr ''join'')"

definition is_direct_membership_leave :: "string \<Rightarrow> jdict \<Rightarrow> bool \<Rightarrow> bool" where
  "is_direct_membership_leave event_type content is_direct_room =
     (event_type = ''m.room.member'' \<and> is_direct_room
      \<and> dget_none content ''membership'' \<in> {JStr ''leave'', JStr ''ban''})"

text \<open>\<open>user_id.split(":", 1)[1]\<close>.\<close>

definition server_name_of :: "string \<Rightarrow> string res" where
  "server_name_of user_id = (case snd (split1 (CHR '':'') user_id) of None \<Rightarrow> Inl PyIndexError | Some h \<Rightarrow> Inr h)"

definition is_local_user :: "string \<Rightarrow> string \<Rightarrow> bool" where
  "is_local_user user_id server_name = (snd (split1 (CHR '':'') user_id) = Some server_name)"

definition localpart_of :: "string \<Rightarrow> string" where
  "localpart_of user_id = lstrip_at (fst (split1 (CHR '':'') user_id))"

definition is_reachable_server :: "string \<Rightarrow> string \<Rightarrow> string list option \<Rightarrow> bool" where
  "is_reachable_server user_id server_name whitelist = (case server_name_of user_id of
      Inl _ \<Rightarrow> False
    | Inr host \<Rightarrow> if host = server_name then True
        else (case whitelist of None \<Rightarrow> True | Some w \<Rightarrow> host \<in> set w))"

definition stories_room_name :: "string \<Rightarrow> string" where
  "stories_room_name owner_user_id = STORIES_ROOM_NAME_PREFIX @ localpart_of owner_user_id"

text \<open>\<open>isinstance(expires, int)\<close> holds of a bool, which is compared as 0 or 1.\<close>

definition story_is_expired :: "jdict \<Rightarrow> int \<Rightarrow> bool" where
  "story_is_expired event_content now_ms = (case dget_none event_content STORY_CONTENT_KEY of
      JObj story \<Rightarrow> (case dget_none story ''expires_ts'' of
          JInt expires \<Rightarrow> expires < now_ms
        | JBool b \<Rightarrow> (if b then 1 else 0) < now_ms
        | _ \<Rightarrow> False)
    | _ \<Rightarrow> False)"

definition is_hidden_room :: "jdict option \<Rightarrow> jdict option \<Rightarrow> bool" where
  "is_hidden_room create_content topology_content = (case topology_content of
      Some t \<Rightarrow> dget_none t ''hidden'' = JBool True
    | None \<Rightarrow> (case create_content of
        None \<Rightarrow> False
      | Some c \<Rightarrow> dget_none c STORIES_TAG = JBool True \<or> dget_none c ''com.liza.chat.type'' = JStr ''stories''))"

section \<open>The API and the tables\<close>

record stories_tables =
  tb_create :: "(string \<times> string \<times> jdict option) list"
  tb_topology :: "(string \<times> jdict option) list"
  tb_name :: "(string \<times> jdict option) list"
  tb_members :: "(string \<times> string \<times> string) list"
  tb_direct :: "(string \<times> json option) list"
  tb_local_membership :: "(string \<times> string \<times> string) list"
  tb_messages :: "(string \<times> string \<times> string \<times> jdict option) list"
  tb_redacts :: "string list"

record 'w stories =
  so_server_name :: string
  so_ai_bot_localparts :: "string list"
  so_has_store :: bool
  so_federation_whitelist :: "string list option"
  so_str :: "json \<Rightarrow> string"
  so_get_global :: "string \<Rightarrow> string \<Rightarrow> 'w \<Rightarrow> jdict option res"
  so_put_global :: "string \<Rightarrow> string \<Rightarrow> jdict \<Rightarrow> 'w \<Rightarrow> unit res \<times> 'w"
  so_create_room :: "string \<Rightarrow> jdict \<Rightarrow> 'w \<Rightarrow> string res \<times> 'w"
  so_update_room_membership ::
    "string \<Rightarrow> string \<Rightarrow> json \<Rightarrow> string \<Rightarrow> string list option \<Rightarrow> 'w \<Rightarrow> unit res \<times> 'w"
  so_send_event :: "send_request \<Rightarrow> 'w \<Rightarrow> string res \<times> 'w"
  so_push_rule_exists :: "string \<Rightarrow> string \<Rightarrow> 'w \<Rightarrow> bool res"
  so_add_push_rule :: "string \<Rightarrow> string \<Rightarrow> int \<Rightarrow> json list \<Rightarrow> json list \<Rightarrow> 'w \<Rightarrow> unit res \<times> 'w"
  so_tables :: "'w \<Rightarrow> stories_tables res"

definition so_is_mine :: "'w stories \<Rightarrow> string \<Rightarrow> bool" where
  "so_is_mine x user_id = (snd (split1 (CHR '':'') user_id) = Some (so_server_name x))"

text \<open>A read of the world.\<close>

definition sread :: "('w \<Rightarrow> 'a res) \<Rightarrow> ('w, 'a) co" where
  "sread f w = (f w, w)"

definition room_str :: "'w stories \<Rightarrow> json \<Rightarrow> string" where
  "room_str x room_id = (case room_id of JStr s \<Rightarrow> s | v \<Rightarrow> so_str x v)"

record stories_config =
  cleanup_interval_minutes :: int
  story_ttl_hours :: int
  ai_bot_localparts :: "string list"

text \<open>\<open>list(...)\<close> of the names is taken of a list of strings.\<close>

definition stories_parse_config :: "jdict \<Rightarrow> stories_config res" where
  "stories_parse_config config =
     rbind (py_int (dget_default config ''cleanup_interval_minutes'' (JInt 30))) (\<lambda>i.
     rbind (py_int (dget_default config ''story_ttl_hours'' (JInt 24))) (\<lambda>t.
     rbind (case dget config ''ai_bot_localparts'' of
        None \<Rightarrow> Inr [''liza'', ''gpt'', ''deepseek'']
      | Some (JList xs) \<Rightarrow> mapM_res (\<lambda>v. case v of JStr s \<Rightarrow> Inr s | _ \<Rightarrow> Inl PyTypeError) xs
      | Some _ \<Rightarrow> Inl PyTypeError) (\<lambda>ls.
     Inr \<lparr>cleanup_interval_minutes = i, story_ttl_hours = t, ai_bot_localparts = ls\<rparr>)))"

section \<open>Story rooms and their members\<close>

definition stories_room_config :: "string \<Rightarrow> jdict" where
  "stories_room_config user_id =
     [(''preset'', JStr ''private_chat''), (''name'', JStr (stories_room_name user_id)),
      (''visibility'', JStr ''private''),
      (''creation_content'', JObj [(''com.liza.stories'', JBool True), (''com.liza.chat.type'', JStr ''stories'')]),
      (''power_level_content_override'', JObj [(''events'', JObj [(''com.liza.chat.topology'', JInt 100)])]),
      (''initial_state'', JList [JObj [(''type'', JStr ''com.liza.chat.topology''), (''state_key'', JStr []),
         (''content'', JObj [(''hidden'', JBool True)])]])]"

definition ensure_stories_room :: "'w stories \<Rightarrow> string \<Rightarrow> ('w, json) co" where
  "ensure_stories_room x user_id =
     cbind (sread (so_get_global x user_id STORIES_TAG)) (\<lambda>existing.
     let known = (case existing of None \<Rightarrow> JNull | Some d \<Rightarrow> dget_none d ''room_id'') in
     if py_truthy known then cret known
     else cbind (so_create_room x user_id (stories_room_config user_id)) (\<lambda>room_id.
          cbind (so_put_global x user_id STORIES_TAG [(''room_id'', JStr room_id)]) (\<lambda>_.
          cret (JStr room_id))))"

definition is_ai_user :: "'w stories \<Rightarrow> string \<Rightarrow> ('w, bool) co" where
  "is_ai_user x user_id =
     (if lstrip_at (fst (split1 (CHR '':'') user_id)) \<in> set (so_ai_bot_localparts x) then cret True
      else if \<not> so_is_mine x user_id then cret False
      else ccatch (cbind (sread (so_get_global x user_id ''com.liza.user_role'')) (\<lambda>data.
             cret (case data of None \<Rightarrow> False | Some d \<Rightarrow> dget_none d ''role'' = JStr ''ai'')))
           (cret False))"

definition mute_room_conditions :: "json \<Rightarrow> json list" where
  "mute_room_conditions room_id = [JObj [(''kind'', JStr ''event_match''), (''key'', JStr ''room_id''), (''pattern'', room_id)]]"

definition mute_room_for_local_user :: "'w stories \<Rightarrow> string \<Rightarrow> json \<Rightarrow> ('w, unit) co" where
  "mute_room_for_local_user x user_id room_id =
     (let rule_id = ''global/room/'' @ room_str x room_id in
      if \<not> so_has_store x then cret ()
      else ccatch (cbind (sread (so_push_rule_exists x user_id rule_id)) (\<lambda>existing.
             if existing then cret ()
             else so_add_push_rule x user_id rule_id 3 (mute_room_conditions room_id) [JStr ''dont_notify'']))
           (cret ()))"

definition story_conditions :: "json \<Rightarrow> json list" where
  "story_conditions room_id =
     [JObj [(''kind'', JStr ''event_match''), (''key'', JStr ''type''), (''pattern'', JStr ''m.room.message'')],
      JObj [(''kind'', JStr ''event_match''), (''key'', JStr ''room_id''), (''pattern'', room_id)]]"

definition story_actions :: "json list" where
  "story_actions = [JStr ''notify'', JObj [(''set_tweak'', JStr ''sound''), (''value'', JStr ''default'')]]"

definition ensure_story_notify_rule :: "'w stories \<Rightarrow> string \<Rightarrow> json \<Rightarrow> ('w, unit) co" where
  "ensure_story_notify_rule x user_id room_id =
     (let rule_id = story_notify_rule_id (room_str x room_id) in
      if \<not> so_has_store x then cret ()
      else ccatch (cbind (sread (so_push_rule_exists x user_id rule_id)) (\<lambda>existing.
             if existing then cret ()
             else so_add_push_rule x user_id rule_id 5 (story_conditions room_id) story_actions))
           (cret ()))"

definition invite_into_owner_room :: "'w stories \<Rightarrow> string \<Rightarrow> string \<Rightarrow> ('w, unit) co" where
  "invite_into_owner_room x owner guest =
     (if \<not> so_is_mine x owner then cret ()
      else cbind (ensure_stories_room x owner) (\<lambda>room_id.
        cbind (cres (if so_is_mine x guest then Inr None else rbind (server_name_of guest) (\<lambda>h. Inr (Some [h])))) (\<lambda>remote_hosts.
        cbind (if so_is_mine x guest
               then cbind (mute_room_for_local_user x guest room_id) (\<lambda>_.
                      ensure_story_notify_rule x guest room_id)
               else cret ()) (\<lambda>_.
        ccatch (so_update_room_membership x owner guest room_id ''invite'' remote_hosts) (cret ())))))"

definition subscribe_pair :: "'w stories \<Rightarrow> string \<Rightarrow> string \<Rightarrow> ('w, unit) co" where
  "subscribe_pair x user_a user_b =
     cbind (is_ai_user x user_a) (\<lambda>ai_a.
     cbind (if ai_a then cret True else is_ai_user x user_b) (\<lambda>ai.
     if ai then cret ()
     else cbind (invite_into_owner_room x user_a user_b) (\<lambda>_. invite_into_owner_room x user_b user_a)))"

definition leave_owner_room :: "'w stories \<Rightarrow> string \<Rightarrow> string \<Rightarrow> ('w, unit) co" where
  "leave_owner_room x owner guest w =
     (if \<not> so_is_mine x owner then (Inr (), w)
      else (case so_get_global x owner STORIES_TAG w of
          Inl _ \<Rightarrow> (Inr (), w)
        | Inr data \<Rightarrow>
            (let room_id = (case data of None \<Rightarrow> JNull | Some d \<Rightarrow> dget_none d ''room_id'')
             in if \<not> py_truthy room_id then (Inr (), w)
                else ccatch (so_update_room_membership x owner guest room_id ''leave'' None) (cret ()) w)))"

definition unsubscribe_pair :: "'w stories \<Rightarrow> string \<Rightarrow> string \<Rightarrow> ('w, unit) co" where
  "unsubscribe_pair x user_a user_b =
     cbind (leave_owner_room x user_a user_b) (\<lambda>_. leave_owner_room x user_b user_a)"

section \<open>Events\<close>

definition state_content :: "room_state \<Rightarrow> string \<Rightarrow> jdict option" where
  "state_content state_events t = map_option ev_content (map_of state_events (t, []))"

definition event_room_is_hidden :: "room_state \<Rightarrow> bool" where
  "event_room_is_hidden state_events =
     is_hidden_room (state_content state_events ''m.room.create'') (state_content state_events ''com.liza.chat.topology'')"

definition room_is_direct :: "room_state \<Rightarrow> bool" where
  "room_is_direct state_events = (length (filter (\<lambda>((t, k), e). t = ''m.room.member'') state_events) \<le> 2)"

definition other_members :: "room_state \<Rightarrow> string \<Rightarrow> string list" where
  "other_members state_events exclude =
     map (\<lambda>((t, k), e). k) (filter (\<lambda>((t, k), e). t = ''m.room.member'' \<and> k \<noteq> exclude
        \<and> dget_none (ev_content e) ''membership'' = JStr ''join'') state_events)"

text \<open>
  What \<open>get_global\<close> returns has gone through \<open>freeze\<close> (\<open>util/frozenutils.py\<close>): a dictionary has become an
  \<open>immutabledict\<close>, which is a mapping but no subclass of \<open>dict\<close>, and a list a tuple.
\<close>

datatype py_kind = KDict | KImmutabledict | KList | KTuple | KOther

definition frozen_kind :: "json \<Rightarrow> py_kind" where
  "frozen_kind v = (case v of JObj _ \<Rightarrow> KImmutabledict | JList _ \<Rightarrow> KTuple | _ \<Rightarrow> KOther)"

definition isinstance_dict :: "py_kind \<Rightarrow> bool" where "isinstance_dict k = (k = KDict)"
definition isinstance_list :: "py_kind \<Rightarrow> bool" where "isinstance_list k = (k = KList)"

definition room_is_registered_dm :: "'w stories \<Rightarrow> string \<Rightarrow> string \<Rightarrow> 'w \<Rightarrow> bool" where
  "room_is_registered_dm x user_id room_id w =
     (room_id \<noteq> [] \<and> so_is_mine x user_id
      \<and> (case so_get_global x user_id ''m.direct'' w of
           Inr (Some direct) \<Rightarrow> isinstance_dict (frozen_kind (JObj direct))
             \<and> list_ex (\<lambda>(k, rooms). isinstance_list (frozen_kind rooms)
                  \<and> (case rooms of JList rs \<Rightarrow> JStr room_id \<in> set rs | _ \<Rightarrow> False)) direct
         | _ \<Rightarrow> False))"

definition stories_on_new_event :: "'w stories \<Rightarrow> event \<Rightarrow> room_state \<Rightarrow> ('w, unit) co" where
  "stories_on_new_event x event state_events w =
     (let content = ev_content event;
          is_direct = py_truthy (dget_none content ''is_direct'') \<or> room_is_direct state_events
      in if event_room_is_hidden state_events then (Inr (), w)
         else if is_direct_membership_join (ev_type event) content is_direct then
           cbind (cres (state_key_of event)) (\<lambda>joined_user.
             cfor (other_members state_events joined_user) (subscribe_pair x joined_user)) w
         else if is_direct_membership_leave (ev_type event) content is_direct then
           cbind (cres (state_key_of event)) (\<lambda>left_user w.
             if \<not> room_is_registered_dm x left_user (ev_room_id event) w then (Inr (), w)
             else cfor (other_members state_events left_user) (unsubscribe_pair x left_user) w) w
         else (Inr (), w))"

section \<open>Background processes\<close>

definition find_stories_room_members :: "stories_tables \<Rightarrow> (string \<times> string \<times> string) list" where
  "find_stories_room_members t =
     (let create_contents = fold (\<lambda>(room, sndr, c) m. case c of Some d \<Rightarrow> dset m room (d, sndr) | None \<Rightarrow> m) (tb_create t) [];
          topology_contents = fold (\<lambda>(room, c) m. case c of Some d \<Rightarrow> dset m room d | None \<Rightarrow> m)
            (filter (\<lambda>(room, c). dhas create_contents room) (tb_topology t)) [];
          hidden_rooms = map (\<lambda>(room, d, sndr). (room, sndr))
            (filter (\<lambda>(room, d, sndr). is_hidden_room (Some d) (dget topology_contents room)) create_contents)
      in List.map_filter (\<lambda>(room, user, m). if m \<in> {''join'', ''invite''}
           then map_option (\<lambda>creator. (room, user, creator)) (dget hidden_rooms room) else None) (tb_members t))"

definition mute_existing_stories_rooms :: "'w stories \<Rightarrow> ('w, unit) co" where
  "mute_existing_stories_rooms x w =
     (if \<not> so_has_store x then (Inr (), w)
      else (case so_tables x w of
          Inl _ \<Rightarrow> (Inr (), w)
        | Inr t \<Rightarrow> cfor (find_stories_room_members t) (\<lambda>(room, user, creator).
            if user = creator \<or> \<not> so_is_mine x user then cret ()
            else cbind (mute_room_for_local_user x user (JStr room)) (\<lambda>_. ensure_story_notify_rule x user (JStr room))) w))"

definition is_stories_create :: "jdict \<Rightarrow> bool" where
  "is_stories_create content = py_truthy (dget_none content ''com.liza.stories'')"

definition find_stories_rooms_to_rename :: "stories_tables \<Rightarrow> (string \<times> json \<times> string) list" where
  "find_stories_rooms_to_rename t =
     (let stories_rooms = fold (\<lambda>(room, sndr, c) m. case c of
            Some d \<Rightarrow> if is_stories_create d then dset m room sndr else m | None \<Rightarrow> m) (tb_create t) [];
          current_names = fold (\<lambda>(room, c) m. case c of Some d \<Rightarrow> dset m room (dget_none d ''name'') | None \<Rightarrow> m)
            (filter (\<lambda>(room, c). dhas stories_rooms room) (tb_name t)) []
      in List.map_filter (\<lambda>(room, creator).
           let name = dget_default current_names room JNull
           in if name = JNull \<or> name = JStr LEGACY_STORIES_ROOM_NAME then Some (room, name, creator) else None)
         stories_rooms)"

definition rename_request :: "string \<Rightarrow> string \<Rightarrow> send_request" where
  "rename_request room creator = \<lparr>sd_type = ''m.room.name'', sd_room_id = JStr room, sd_sender = creator,
     sd_state_key = Some [], sd_redacts = None, sd_content = [(''name'', JStr (stories_room_name creator))]\<rparr>"

text \<open>A request in its own \<open>try\<close>.\<close>

definition try_request :: "'w stories \<Rightarrow> send_request \<Rightarrow> ('w, unit) co" where
  "try_request x req = ccatch (cbind (so_send_event x req) (\<lambda>_. cret ())) (cret ())"

definition rename_existing_stories_rooms :: "'w stories \<Rightarrow> ('w, unit) co" where
  "rename_existing_stories_rooms x w = (case so_tables x w of
      Inl _ \<Rightarrow> (Inr (), w)
    | Inr t \<Rightarrow> cfor (find_stories_rooms_to_rename t) (\<lambda>(room, name, creator).
        try_request x (rename_request room creator)) w)"

text \<open>The rooms that \<open>m.direct\<close> lists for the other user of a pair.\<close>

definition direct_rooms :: "jdict \<Rightarrow> string \<Rightarrow> string list" where
  "direct_rooms mapping other = (case dget mapping other of
      Some (JList rs) \<Rightarrow> List.map_filter (\<lambda>r. case r of JStr s \<Rightarrow> Some s | _ \<Rightarrow> None) rs
    | _ \<Rightarrow> [])"

definition pair_is_live :: "stories_tables \<Rightarrow> string \<Rightarrow> string \<Rightarrow> jdict \<Rightarrow> string \<times> string \<Rightarrow> bool" where
  "pair_is_live t server_name user_id mapping pair =
     (let local_members = filter (\<lambda>u. is_local_user u server_name) [fst pair, snd pair];
          other = (if snd pair = user_id then fst pair else snd pair);
          rooms = direct_rooms mapping other
      in local_members \<noteq> [] \<and> rooms \<noteq> []
         \<and> list_ex (\<lambda>(u, r, m). m = ''join'' \<and> u \<in> set local_members \<and> r \<in> set rooms) (tb_local_membership t))"

definition find_dm_pairs :: "stories_tables \<Rightarrow> string \<Rightarrow> (string \<times> string) list" where
  "find_dm_pairs t server_name = remdups (concat (map (\<lambda>(user_id, c). case c of
      Some (JObj mapping) \<Rightarrow> filter (pair_is_live t server_name user_id mapping) (dm_pairs_from_direct user_id mapping)
    | _ \<Rightarrow> []) (tb_direct t)))"

definition backfill_existing_dms :: "'w stories \<Rightarrow> ('w, unit) co" where
  "backfill_existing_dms x w = (case so_tables x w of
      Inl _ \<Rightarrow> (Inr (), w)
    | Inr t \<Rightarrow> cfor (filter (\<lambda>(a, b). is_reachable_server a (so_server_name x) (so_federation_whitelist x)
                              \<and> is_reachable_server b (so_server_name x) (so_federation_whitelist x))
                 (find_dm_pairs t (so_server_name x)))
               (\<lambda>(a, b). ccatch (subscribe_pair x a b) (cret ())) w)"

definition find_expired_stories :: "stories_tables \<Rightarrow> int \<Rightarrow> (string \<times> string \<times> string) list" where
  "find_expired_stories t now_ms =
     (let stories_rooms = List.map_filter (\<lambda>(room, sndr, c). case c of
            Some d \<Rightarrow> if is_stories_create d then Some room else None | None \<Rightarrow> None) (tb_create t)
      in List.map_filter (\<lambda>(room, event_id, sndr, c). case c of
           Some d \<Rightarrow> if room \<in> set stories_rooms \<and> event_id \<notin> set (tb_redacts t) \<and> story_is_expired d now_ms
                     then Some (room, event_id, sndr) else None
         | None \<Rightarrow> None) (tb_messages t))"

definition redact_request :: "string \<Rightarrow> string \<Rightarrow> string \<Rightarrow> send_request" where
  "redact_request room event_id sndr = \<lparr>sd_type = ''m.room.redaction'', sd_room_id = JStr room, sd_sender = sndr,
     sd_state_key = None, sd_redacts = Some event_id, sd_content = []\<rparr>"

definition cleanup_round_with_now :: "'w stories \<Rightarrow> int \<Rightarrow> ('w, unit) co" where
  "cleanup_round_with_now x now_ms w = (case so_tables x w of
      Inl _ \<Rightarrow> (Inr (), w)
    | Inr t \<Rightarrow> cfor (find_expired_stories t now_ms) (\<lambda>(room, event_id, sndr).
        try_request x (redact_request room event_id sndr)) w)"

end
