(* ===== verification/Push_Bulk.thy ===== *)
theory Push_Bulk
  imports Push_Store Visibility
begin

text \<open>
  \<open>push/bulk_push_rule_evaluator.py\<close>: which users an event notifies. The module decides whose
  rules are run, flattens the event, runs the rules and stages the actions of those users who may
  see the event. The reads of the database are the record \<open>push_env\<close>; \<open>pv_prev_state\<close> is the state
  before the event, with the events of the batch that is persisted.

  \<open>_get_power_levels_and_sender_level\<close> collects all auth events when the room has no power levels;
  only the create event is read of them, and only that is modelled. The integers that it writes into
  the power levels of the room are kept for this event only.
\<close>

section \<open>Flattening an event\<close>

definition str_replace :: "char \<Rightarrow> string \<Rightarrow> string \<Rightarrow> string" where
  "str_replace c r s = concat (map (\<lambda>x. if x = c then r else [x]) s)"

definition escape_key :: "string \<Rightarrow> string" where
  "escape_key key = str_replace (CHR ''.'') [CHR 0x5C, CHR ''.''] (str_replace (CHR 0x5C) [CHR 0x5C, CHR 0x5C] key)"

fun join_dots :: "string list \<Rightarrow> string" where
  "join_dots [] = []"
| "join_dots [p] = p"
| "join_dots (p # ps) = p @ CHR ''.'' # join_dots ps"

fun is_simple_value :: "json \<Rightarrow> bool" where
  "is_simple_value (JBool _) = True"
| "is_simple_value (JStr _) = True"
| "is_simple_value (JInt _) = True"
| "is_simple_value JNull = True"
| "is_simple_value _ = False"

text \<open>The dictionary that is flattened, below the keys \<open>prefix\<close>; \<open>result\<close> is extended.\<close>

function flatten_dict :: "string list \<Rightarrow> jdict \<Rightarrow> jdict \<Rightarrow> jdict" where
  "flatten_dict prefix [] result = result"
| "flatten_dict prefix ((key, value) # items) result =
     (let path = prefix @ [escape_key key]
      in flatten_dict prefix items (case value of
           JList vs \<Rightarrow> dset result (join_dots path) (JList (filter is_simple_value vs))
         | JObj d \<Rightarrow> flatten_dict path d result
         | v \<Rightarrow> if is_simple_value v then dset result (join_dots path) v else result))"
  by pat_completeness auto
termination
  by (relation "measure (\<lambda>(p, d, r). size (JObj d))") auto

text \<open>The first plain text representation of extensible events.\<close>

fun markup_text :: "json list \<Rightarrow> string" where
  "markup_text [] = []"
| "markup_text (JObj rep # reps) =
     (if dget_default rep ''mimetype'' (JStr ''text/plain'') = JStr ''text/plain''
      then (case dget rep ''body'' of Some (JStr t) \<Rightarrow> lower t | _ \<Rightarrow> markup_text reps)
      else markup_text reps)"
| "markup_text (_ # reps) = []"

definition flatten_event :: "room_version \<Rightarrow> jdict \<Rightarrow> jdict res" where
  "flatten_event rv d =
     (let result = flatten_dict [] d []
      in if EXTENSIBLE_EVENTS \<in> set (msc3931_push_features rv) then
           rbind (case dget_none d ''content'' of JObj c \<Rightarrow> Inr c | _ \<Rightarrow> Inl PyAttributeError) (\<lambda>c.
             case dget_none c (if take 19 (rv_identifier rv) = ''org.matrix.msc1767.''
                               then ''org.matrix.msc1767.markup'' else ''m.markup'') of
               JList reps \<Rightarrow> Inr (dset result ''content.body'' (JStr (markup_text reps)))
             | _ \<Rightarrow> Inr result)
         else Inr result)"

text \<open>A value that crosses into the evaluator: integers are 64 bits wide.\<close>

definition extract_value :: "json \<Rightarrow> flat_value res" where
  "extract_value v = (case v of
      JList vs \<Rightarrow> (if list_all (\<lambda>x. parse_simple x \<noteq> None) vs
                    then Inr (FArray (map (the \<circ> parse_simple) vs)) else Inl PyTypeError)
    | _ \<Rightarrow> (case parse_simple v of Some s \<Rightarrow> Inr (FValue s) | None \<Rightarrow> Inl PyTypeError))"

definition extract_flat :: "jdict \<Rightarrow> flat_event res" where
  "extract_flat d = mapM_res (\<lambda>(k, v). rbind (extract_value v) (\<lambda>f. Inr (k, f))) d"

section \<open>Relations and the unread count\<close>

record event_relation =
  rel_parent_id :: string
  rel_type :: string
  aggregation_key :: "string option"

definition RelationTypes_ANNOTATION :: string where "RelationTypes_ANNOTATION = ''m.annotation''"
definition RelationTypes_REPLACE :: string where "RelationTypes_REPLACE = ''m.replace''"
definition RelationTypes_THREAD :: string where "RelationTypes_THREAD = ''m.thread''"
definition MAIN_TIMELINE :: string where "MAIN_TIMELINE = ''main''"

definition relation_from_event :: "event \<Rightarrow> event_relation option" where
  "relation_from_event event = (case dget_none (ev_content event) ''m.relates_to'' of
      JObj relation \<Rightarrow>
        (if relation = [] then None
         else (case (dget_none relation ''rel_type'', dget_none relation ''event_id'') of
             (JStr t, JStr parent_id) \<Rightarrow> Some \<lparr>rel_parent_id = parent_id, rel_type = t,
               aggregation_key = (if t = RelationTypes_ANNOTATION
                 then (case dget_none relation ''key'' of JStr k \<Rightarrow> Some k | _ \<Rightarrow> None) else None)\<rparr>
           | _ \<Rightarrow> None))
    | _ \<Rightarrow> None)"

definition STATE_EVENT_TYPES_TO_MARK_UNREAD :: "string list" where
  "STATE_EVENT_TYPES_TO_MARK_UNREAD = [''m.room.topic'', ''m.room.name'', ''m.room.avatar'', ''m.room.tombstone'']"

record push_event =
  pv_vevent :: vevent
  pv_dict :: jdict
  pv_rejected :: bool
  pv_out_of_band :: bool
  pv_prev_state :: auth_map

definition pv_event :: "push_event \<Rightarrow> event" where
  "pv_event p = ve_event (pv_vevent p)"

definition should_count_as_unread :: "push_event \<Rightarrow> bool" where
  "should_count_as_unread p =
     (let event = pv_event p in
      if pv_rejected p \<or> ve_soft_failed (pv_vevent p) then False
      else if \<not> is_state event \<and> ev_type event = ''m.room.message''
              \<and> dget_none (ev_content event) ''msgtype'' = JStr ''m.notice'' then False
      else if (case relation_from_event event of Some r \<Rightarrow> rel_type r = RelationTypes_REPLACE | None \<Rightarrow> False) then False
      else if (case dget_none (ev_content event) ''body'' of JStr b \<Rightarrow> b \<noteq> [] | _ \<Rightarrow> False) then True
      else if is_state event \<and> ev_type event \<in> set STATE_EVENT_TYPES_TO_MARK_UNREAD then True
      else \<not> is_state event \<and> ev_type event = ''m.room.encrypted'')"

section \<open>Whose rules are run\<close>

text \<open>The first create event of the stripped state of an invite decides.\<close>

fun hidden_by_stripped :: "json list \<Rightarrow> bool" where
  "hidden_by_stripped [] = False"
| "hidden_by_stripped (raw # room_state) =
     (case parse_stripped_state_event raw of
        Some st \<Rightarrow>
          if st_type st = EventTypes_Create
          then dget_none (st_content st) ''com.liza.stories'' = JBool True
               \<or> dget_none (st_content st) ''com.liza.chat.type'' = JStr ''stories''
          else hidden_by_stripped room_state
      | None \<Rightarrow> hidden_by_stripped room_state)"

definition invite_targets_hidden_room :: "push_event \<Rightarrow> bool" where
  "invite_targets_hidden_room p = (case dget_none (ve_unsigned (pv_vevent p)) ''invite_room_state'' of
      JList room_state \<Rightarrow> hidden_by_stripped room_state | _ \<Rightarrow> False)"

record push_env =
  pn_hostname :: string
  pn_enable_push :: bool
  pn_rooms_to_exclude :: "string list"
  pn_msc2654_enabled :: bool
  pn_flags :: push_flags
  pn_user_in_room :: "string \<Rightarrow> string \<Rightarrow> bool"
  pn_local_users_in_room :: "string \<Rightarrow> string list"
  pn_appservice_user :: "string \<Rightarrow> bool"
  pn_invite_allowed :: "string \<Rightarrow> string \<Rightarrow> bool"
  pn_push_db :: push_db
  pn_member_count :: "string \<Rightarrow> int"
  pn_display_name :: "string \<Rightarrow> string \<Rightarrow> string option"
  pn_thread_of :: "string \<Rightarrow> string"
  pn_thread_subscribers :: "string \<Rightarrow> string \<Rightarrow> string list"
  pn_event_dict :: "string \<Rightarrow> (room_version \<times> jdict) option"
  pn_vis_store :: vis_store

definition pn_is_mine_id :: "push_env \<Rightarrow> string \<Rightarrow> bool" where
  "pn_is_mine_id n u = (snd (split1 (CHR '':'') u) = Some (pn_hostname n))"

text \<open>The local users who may need to be notified, or \<open>None\<close> where the source returns \<open>{}\<close> early.\<close>

definition push_candidates :: "push_env \<Rightarrow> push_event \<Rightarrow> string list option res" where
  "push_candidates n p =
     (let event = pv_event p in
      rbind (if ev_type event = EventTypes_Member
             then rbind (state_key_of event) (\<lambda>k.
               Inr (if ev_sender event \<noteq> k \<and> pn_is_mine_id n k \<and> pn_user_in_room n k (ev_room_id event)
                    then [k] else []))
             else Inr (pn_local_users_in_room n (ev_room_id event))) (\<lambda>local_users.
      let local_users = filter (\<lambda>u. \<not> pn_appservice_user n u) local_users in
      if is_state event \<and> ev_type event = EventTypes_Member then
        rbind (membership_of event) (\<lambda>m.
        if m = JStr Membership_INVITE then
          rbind (state_key_of event) (\<lambda>invited.
          if \<not> pn_invite_allowed n invited (ev_sender event) then Inr None
          else if ev_sender event \<in> set (vs_ignored_users (pn_vis_store n) invited) then Inr None
          else if invite_targets_hidden_room p then Inr None
          else Inr (Some (if pn_is_mine_id n invited \<and> invited \<notin> set local_users
                          then local_users @ [invited] else local_users)))
        else Inr (Some local_users))
      else Inr (Some local_users)))"

definition get_rules_for_event :: "push_env \<Rightarrow> push_event \<Rightarrow> (string \<times> filtered_push_rules) list res" where
  "get_rules_for_event n p = rbind (push_candidates n p) (\<lambda>c. case c of
      None \<Rightarrow> Inr []
    | Some local_users \<Rightarrow> mapM_res (\<lambda>u.
        rbind (get_push_rules_for_user (pn_flags n) (pn_push_db n) u) (\<lambda>r. Inr (u, r))) (remdups local_users))"

section \<open>The evaluator of an event\<close>

definition get_power_levels_and_sender_level :: "push_event \<Rightarrow> (jdict \<times> int option) res" where
  "get_power_levels_and_sender_level p =
     (let event = pv_event p; is_create = ev_type event = EventTypes_Create \<and> ev_state_key event = Some [] in
      if ve_outlier (pv_vevent p) then Inr ([], None)
      else rbind (auth_types_for_event (ev_room_version event) event) (\<lambda>event_types.
        let prev = (\<lambda>k. if k \<in> set event_types then pv_prev_state p k else None);
            pl_event = prev POWER_KEY
        in rbind (if is_create then Inr event
                  else (case prev CREATE_KEY of Some c \<Rightarrow> Inr c | None \<Rightarrow> Inl PyAssertionError)) (\<lambda>create.
           let auth_events = (\<lambda>k. if k = POWER_KEY then pl_event else if k = CREATE_KEY then Some create else None)
           in rbind (get_user_power_level (ev_sender event) auth_events) (\<lambda>sender_level.
              Inr (case pl_event of Some e \<Rightarrow> ev_content e | None \<Rightarrow> [], Some sender_level)))))"

definition related_events :: "push_env \<Rightarrow> event \<Rightarrow> (string \<times> jdict) list res" where
  "related_events n event =
     (if \<not> msc3664_enabled (pn_flags n) then Inr []
      else rbind (dget_dict (ev_content event) ''m.relates_to'') (\<lambda>rel.
        let flat = (\<lambda>i. case i of
              JStr e \<Rightarrow> (case pn_event_dict n e of
                  Some (rv, d) \<Rightarrow> rbind (flatten_event rv d) (\<lambda>f. Inr (Some f)) | None \<Rightarrow> Inr None)
            | _ \<Rightarrow> Inr None);
            put = (\<lambda>t f m. case f of Some d \<Rightarrow> dset m t d | None \<Rightarrow> m)
        in rbind (case dget_none rel ''rel_type'' of
             JStr t \<Rightarrow> rbind (flat (dget_none rel ''event_id'')) (\<lambda>f. Inr (put t f []))
           | JNull \<Rightarrow> Inr []
           | _ \<Rightarrow> rbind (flat (dget_none rel ''event_id'')) (\<lambda>f. if f = None then Inr [] else Inl PyTypeError)) (\<lambda>m.
           rbind (dget_dict rel ''m.in_reply_to'') (\<lambda>reply.
           rbind (flat (dget_none reply ''event_id'')) (\<lambda>f.
           Inr (put ''m.in_reply_to'' (map_option (\<lambda>d.
             if dget_none rel ''rel_type'' = JStr RelationTypes_THREAD \<and> py_truthy (dget_none rel ''is_falling_back'')
             then dset d ''im.vector.is_falling_back'' (JStr []) else d) f) m))))))"

text \<open>
  The levels for notifications: in rooms without integer power levels every value is read with
  \<open>int\<close> and dropped if that fails with a type or value error.
\<close>

definition fix_notification_level :: "string \<times> json \<Rightarrow> jdict \<Rightarrow> jdict res" where
  "fix_notification_level kv m = (case py_int (snd kv) of
      Inr i \<Rightarrow> Inr (m @ [(fst kv, JInt i)])
    | Inl e \<Rightarrow> if e = PyTypeError \<or> e = PyValueError then Inr m else Inl e)"

definition notification_levels :: "room_version \<Rightarrow> jdict \<Rightarrow> jdict res" where
  "notification_levels rv power_levels =
     rbind (case dget power_levels ''notifications'' of
        None \<Rightarrow> Inr [] | Some (JObj d) \<Rightarrow> Inr d
      | Some _ \<Rightarrow> Inl (if enforce_int_power_levels rv then PyTypeError else PyAttributeError)) (\<lambda>d.
     if enforce_int_power_levels rv then Inr d else foldM_res fix_notification_level d [])"

definition extract_levels :: "jdict \<Rightarrow> (string \<times> int) list res" where
  "extract_levels d = mapM_res (\<lambda>(k, v). case v of
      JInt i \<Rightarrow> if i64 i then Inr (k, i) else Inl PyOverflowError
    | JBool b \<Rightarrow> Inr (k, if b then 1 else 0)
    | _ \<Rightarrow> Inl PyTypeError) d"

definition new_evaluator ::
  "push_env \<Rightarrow> push_event \<Rightarrow> jdict \<Rightarrow> int option \<Rightarrow> (string \<times> jdict) list \<Rightarrow> evaluator res" where
  "new_evaluator n p power_levels sender_power_level related =
     (let event = pv_event p; rv = ev_room_version event in
      rbind (notification_levels rv power_levels) (\<lambda>levels.
      rbind (flatten_event rv (pv_dict p)) (\<lambda>flat.
      rbind (extract_flat flat) (\<lambda>flattened_keys.
      rbind (case sender_power_level of Some l \<Rightarrow> raise_if (\<not> i64 l) PyOverflowError | None \<Rightarrow> Inr ()) (\<lambda>_.
      rbind (extract_levels levels) (\<lambda>levels.
      rbind (mapM_res (\<lambda>(t, d). rbind (extract_flat d) (\<lambda>f. Inr (t, f))) related) (\<lambda>related.
      Inr \<lparr>pe_flattened_keys = flattened_keys, pe_has_mentions = dhas (ev_content event) ''m.mentions'',
           pe_room_member_count = pn_member_count n (ev_room_id event), pe_notification_power_levels = levels,
           pe_sender_power_level = sender_power_level, pe_related_events = related,
           pe_related_event_match_enabled = msc3664_enabled (pn_flags n),
           pe_room_version_feature_flags = msc3931_push_features rv,
           pe_msc3931_enabled = msc1767_enabled (pn_flags n), pe_msc4210_enabled = msc4210_enabled (pn_flags n),
           pe_msc4306_enabled = msc4306_enabled (pn_flags n)\<rparr>)))))))"

section \<open>The actions of an event\<close>

definition thread_id_of :: "push_env \<Rightarrow> event \<Rightarrow> string" where
  "thread_id_of n event = (case relation_from_event event of
      None \<Rightarrow> MAIN_TIMELINE
    | Some r \<Rightarrow> if rel_type r = RelationTypes_THREAD then rel_parent_id r else pn_thread_of n (rel_parent_id r))"

text \<open>The name in a membership event is taken for its target, who may not have joined.\<close>

definition member_display_name :: "event \<Rightarrow> string \<Rightarrow> string option" where
  "member_display_name event uid =
     (if ev_type event = EventTypes_Member \<and> ev_state_key event = Some uid
      then (case dget_none (ev_content event) ''displayname'' of JStr s \<Rightarrow> Some s | _ \<Rightarrow> None)
      else None)"

definition display_name_for :: "push_env \<Rightarrow> event \<Rightarrow> string \<Rightarrow> string option" where
  "display_name_for n event uid = (case pn_display_name n (ev_room_id event) uid of
      Some name \<Rightarrow> if name \<noteq> [] then Some name else member_display_name event uid
    | None \<Rightarrow> member_display_name event uid)"

text \<open>The loop over the users; \<open>actions_by_user\<close> is a dictionary.\<close>

definition user_actions ::
  "regex_lib \<Rightarrow> push_env \<Rightarrow> event \<Rightarrow> evaluator \<Rightarrow> bool \<Rightarrow> string list option
   \<Rightarrow> string \<times> filtered_push_rules \<Rightarrow> (string \<times> action list) list \<Rightarrow> (string \<times> action list) list" where
  "user_actions rx n event ev count_as_unread subscribers ur m = (case ur of (uid, rules) \<Rightarrow>
     if ev_sender event = uid then m
     else (let m = (if count_as_unread then dset m uid [] else m);
               actions = run_evaluator rx ev rules (Some uid) (display_name_for n event uid)
                 (map_option (\<lambda>subs. uid \<in> set subs) subscribers)
           in if Notify \<in> set actions then dset m uid actions else m))"

record staged_push =
  sp_event_id :: string
  sp_actions :: "(string \<times> action list) list"
  sp_count_as_unread :: bool
  sp_thread_id :: string

definition is_notifiable :: "push_event \<Rightarrow> bool" where
  "is_notifiable p = (\<not> ve_outlier (pv_vevent p) \<or> pv_out_of_band p)"

definition action_for_event_by_user :: "regex_lib \<Rightarrow> push_env \<Rightarrow> push_event \<Rightarrow> staged_push option res" where
  "action_for_event_by_user rx n p =
     (let event = pv_event p in
      if \<not> is_notifiable p \<or> ev_room_id event \<in> set (pn_rooms_to_exclude n) then Inr None
      else (let count_as_unread = pn_msc2654_enabled n \<and> should_count_as_unread p in
        rbind (get_rules_for_event n p) (\<lambda>rules_by_user.
        if rules_by_user = [] then Inr None
        else rbind (get_power_levels_and_sender_level p) (\<lambda>(power_levels, sender_power_level).
          rbind (related_events n event) (\<lambda>related.
          rbind (new_evaluator n p power_levels sender_power_level related) (\<lambda>ev.
          let thread_id = thread_id_of n event;
              subscribers = (if msc4306_enabled (pn_flags n) \<and> thread_id \<noteq> MAIN_TIMELINE
                             then Some (pn_thread_subscribers n (ev_room_id event) thread_id) else None);
              actions_by_user = fold (user_actions rx n event ev count_as_unread subscribers) rules_by_user []
          in if actions_by_user = [] then Inr None
             else rbind (filter_event_for_clients_with_state (pn_vis_store n) (map fst actions_by_user)
                    (pv_vevent p) (pv_prev_state p) False True) (\<lambda>visible.
               let kept = filter (\<lambda>ua. fst ua \<in> set visible) actions_by_user
               in Inr (if kept = [] then None
                       else Some \<lparr>sp_event_id = ev_event_id event, sp_actions = kept,
                         sp_count_as_unread = count_as_unread, sp_thread_id = thread_id\<rparr>))))))))"

text \<open>The events of a batch, in order.\<close>

definition action_for_events_by_user :: "regex_lib \<Rightarrow> push_env \<Rightarrow> push_event list \<Rightarrow> staged_push list res" where
  "action_for_events_by_user rx n ps =
     (if \<not> pn_enable_push n then Inr []
      else foldM_res (\<lambda>p acc. rbind (action_for_event_by_user rx n p) (\<lambda>s.
        Inr (case s of Some x \<Rightarrow> acc @ [x] | None \<Rightarrow> acc))) ps [])"

end
