(* ===== verification/Push_Props.thy ===== *)
theory Push_Props
  imports Push_Bulk Visibility_Props
begin

text \<open>
  What the push rules guarantee: flattening an event agrees with looking up the fields by their
  paths, the master rule silences everything, nobody is notified of an event that he sent or may
  not see, and invites from ignored users or into story rooms stay silent.
\<close>

section \<open>Flattening and paths\<close>

lemma escape_key_eq: "escape_key key = escape key"
  unfolding escape_key_def str_replace_def by (induction key) auto

lemma join_dots_escape: "join_dots (map escape names) = join_fields names"
  by (induction names rule: join_fields.induct) simp_all

lemma join_fields_inj: "a \<noteq> [] \<Longrightarrow> b \<noteq> [] \<Longrightarrow> join_fields a = join_fields b \<longleftrightarrow> a = b"
  using split_join_fields by metis

fun keys_distinct :: "json \<Rightarrow> bool" where
  "keys_distinct (JObj d) = (distinct (map fst d) \<and> list_all (\<lambda>kv. keys_distinct (snd kv)) d)"
| "keys_distinct _ = True"

text \<open>What the flattened event keeps of a value.\<close>

definition flat_view :: "json \<Rightarrow> json option" where
  "flat_view v = (case v of
      JList vs \<Rightarrow> Some (JList (filter is_simple_value vs))
    | _ \<Rightarrow> if is_simple_value v then Some v else None)"

definition flat_at :: "jdict \<Rightarrow> string list \<Rightarrow> json option" where
  "flat_at d names = Option.bind (field_value d names) flat_view"

lemma field_value_Nil [simp]: "field_value d [] = None"
  by (simp add: field_value_def)

lemma field_value_single: "field_value d [k] = dget d k"
  by (simp add: field_value_def)

lemma field_value_Cons:
  "rest \<noteq> [] \<Longrightarrow> field_value d (k # rest) = (case dget d k of Some (JObj e) \<Rightarrow> field_value e rest | _ \<Rightarrow> None)"
  by (auto simp: field_value_def field_at_Cons split: option.splits json.splits)

lemma flat_at_Cons:
  "flat_at d (k # rest) = (case dget d k of
      None \<Rightarrow> None
    | Some v \<Rightarrow> if rest = [] then flat_view v else (case v of JObj e \<Rightarrow> flat_at e rest | _ \<Rightarrow> None))"
  by (cases "rest = []")
    (simp_all add: flat_at_def field_value_single field_value_Cons split: option.splits json.splits)

lemma flat_at_Nil [simp]: "flat_at d [] = None"
  by (simp add: flat_at_def)

text \<open>The part of a path below a prefix, looked up in a dictionary.\<close>

definition flat_below :: "jdict \<Rightarrow> string list \<Rightarrow> string list \<Rightarrow> json option" where
  "flat_below d pre names = (if take (length pre) names = pre then flat_at d (drop (length pre) names) else None)"

text \<open>What one item of a dictionary contributes.\<close>

definition flat_item :: "string \<Rightarrow> json \<Rightarrow> string list \<Rightarrow> string list \<Rightarrow> json option" where
  "flat_item key v pre names = (if names = pre @ [key] then flat_view v
     else (case v of JObj e \<Rightarrow> flat_below e (pre @ [key]) names | _ \<Rightarrow> None))"

lemma take_eq_iff: "take (length pre) names = pre \<longleftrightarrow> (\<exists>rest. names = pre @ rest)"
  by (metis append_eq_conv_conj append_take_drop_id)

lemma flat_below_append [simp]: "flat_below d pre (pre @ rest) = flat_at d rest"
  by (simp add: flat_below_def)

lemma flat_below_other: "\<nexists>rest. names = pre @ rest \<Longrightarrow> flat_below d pre names = None"
  unfolding flat_below_def take_eq_iff by simp

lemma flat_item_append:
  "flat_item key v pre (pre @ k # rest) = (if k = key then flat_at [(key, v)] (key # rest) else None)"
proof -
  have "flat_below e (pre @ [key]) (pre @ k # rest) = (if k = key then flat_at e rest else None)" for e
  proof (cases "k = key")
    case True
    then show ?thesis using flat_below_append [of e "pre @ [key]" rest] by simp
  next
    case False
    then show ?thesis by (simp add: flat_below_other)
  qed
  then show ?thesis
    by (auto simp: flat_item_def flat_at_Cons dget_def flat_view_def split: json.splits)
qed

lemma flat_below_Cons:
  assumes "distinct (map fst ((key, v) # items))"
  shows "flat_below ((key, v) # items) pre names = (case flat_below items pre names of
     Some w \<Rightarrow> Some w | None \<Rightarrow> flat_item key v pre names)"
proof (cases "\<exists>rest. names = pre @ rest")
  case False
  moreover have "flat_item key v pre names = None"
    using False by (auto simp: flat_item_def flat_below_other split: json.splits)
  ultimately show ?thesis by (simp add: flat_below_other)
next
  case True
  then obtain rest where names: "names = pre @ rest" by blast
  show ?thesis
  proof (cases rest)
    case Nil
    then show ?thesis using names by (auto simp: flat_item_def flat_below_other flat_below_def [of _ pre] split: json.splits)
  next
    case (Cons k ks)
    have "dget items key = None" using assms by (simp add: dget_def map_of_eq_None_iff)
    then show ?thesis
      unfolding names Cons flat_below_append flat_item_append
      by (auto simp: flat_at_Cons dget_def split: option.splits)
  qed
qed

lemma flatten_dict_lookup:
  assumes "names \<noteq> []" and "keys_distinct (JObj d)"
  shows "dget (flatten_dict (map escape pre) d result) (join_fields names)
    = (case flat_below d pre names of Some v \<Rightarrow> Some v | None \<Rightarrow> dget result (join_fields names))"
  using assms(2)
proof (induction "map escape pre" d result arbitrary: pre rule: flatten_dict.induct)
  case (1 result)
  then show ?case by (cases "drop (length pre) names") (simp_all add: flat_below_def flat_at_Cons dget_def)
next
  case (2 key v items result)
  let ?path = "map escape pre @ [escape_key key]"
  let ?result = "case v of
           JList vs \<Rightarrow> dset result (join_dots ?path) (JList (filter is_simple_value vs))
         | JObj d \<Rightarrow> flatten_dict ?path d result
         | w \<Rightarrow> if is_simple_value w then dset result (join_dots ?path) w else result"
  have path: "?path = map escape (pre @ [key])" by (simp add: escape_key_eq)
  have item: "dget ?result (join_fields names) = (case flat_item key v pre names of
      Some w \<Rightarrow> Some w | None \<Rightarrow> dget result (join_fields names))"
  proof (cases "\<exists>e. v = JObj e")
    case True
    then obtain e where e: "v = JObj e" by blast
    have "dget (flatten_dict (map escape (pre @ [key])) e result) (join_fields names)
        = (case flat_below e (pre @ [key]) names of Some w \<Rightarrow> Some w | None \<Rightarrow> dget result (join_fields names))"
      using 2(1) [OF path [symmetric] e] 2(3) e by simp
    moreover have "flat_item key v pre names = flat_below e (pre @ [key]) names"
      using e by (simp add: flat_item_def flat_view_def flat_below_def)
    ultimately show ?thesis using e path by simp
  next
    case False
    have K: "join_fields names = join_dots ?path \<longleftrightarrow> names = pre @ [key]"
      unfolding path join_dots_escape using assms(1) by (rule join_fields_inj) simp
    show ?thesis using False
      by (cases v) (auto simp: flat_item_def flat_view_def dget_dset K [symmetric])
  qed
  have "dget (flatten_dict (map escape pre) items ?result) (join_fields names)
      = (case flat_below items pre names of Some w \<Rightarrow> Some w | None \<Rightarrow> dget ?result (join_fields names))"
    using 2(2) [OF refl refl] 2(3) by simp
  also have "\<dots> = (case flat_below ((key, v) # items) pre names of
      Some w \<Rightarrow> Some w | None \<Rightarrow> dget result (join_fields names))"
    using 2(3) unfolding item by (simp add: flat_below_Cons split: option.splits)
  finally show ?case by (simp add: Let_def)
qed

text \<open>
  C36: the flattened event that push rules are matched against has, under the escaped and dotted name
  of a path, exactly the value that the event has at that path, if it is a string, an integer, a
  boolean, null or a list of those, and nothing else. No two paths share a name, so a dot or a
  backslash in a key cannot make one field pass for another.
\<close>

theorem flatten_agrees_with_paths:
  assumes "keys_distinct (JObj d)" and "names \<noteq> []"
  shows "dget (flatten_dict [] d []) (join_fields names) = Option.bind (field_value d names) flat_view"
  using flatten_dict_lookup [OF assms(2,1), of "[]" "[]"]
  by (simp add: flat_below_def flat_at_def split: option.splits)

theorem flatten_agrees_with_paths_witness:
  "dget (flatten_dict [] [(''content'', JObj [(''a.b'', JStr ''x''), (''a'', JObj [(''b'', JInt 1)])])] [])
     (join_fields [''content'', ''a.b'']) = Some (JStr ''x'')"
proof -
  have k: "keys_distinct (JObj [(''content'', JObj [(''a.b'', JStr ''x''), (''a'', JObj [(''b'', JInt 1)])])])"
    by simp
  have v: "Option.bind (field_value [(''content'', JObj [(''a.b'', JStr ''x''), (''a'', JObj [(''b'', JInt 1)])])]
      [''content'', ''a.b'']) flat_view = Some (JStr ''x'')" by code_simp
  show ?thesis using flatten_agrees_with_paths [OF k, of "[''content'', ''a.b'']"] unfolding v by simp
qed

section \<open>Who is notified\<close>

text \<open>The entry that the loop adds for a user.\<close>

definition push_entry ::
  "regex_lib \<Rightarrow> push_env \<Rightarrow> event \<Rightarrow> evaluator \<Rightarrow> bool \<Rightarrow> string list option
   \<Rightarrow> string \<times> filtered_push_rules \<Rightarrow> (string \<times> action list) list" where
  "push_entry rx n event ev cnt subs ur = (case ur of (uid, rules) \<Rightarrow>
     let actions = run_evaluator rx ev rules (Some uid) (display_name_for n event uid)
           (map_option (\<lambda>subs. uid \<in> set subs) subs)
     in if ev_sender event = uid then []
        else if Notify \<in> set actions then [(uid, actions)]
        else if cnt then [(uid, [])] else [])"

lemma dset_last: "k \<notin> fst ` set d \<Longrightarrow> dset (d @ [(k, v)]) k w = d @ [(k, w)]"
  unfolding dset_def by (induction d) auto

lemma user_actions_entry:
  assumes "fst ur \<notin> fst ` set m"
  shows "user_actions rx n event ev cnt subs ur m = m @ push_entry rx n event ev cnt subs ur"
proof -
  obtain uid rules where ur: "ur = (uid, rules)" by (cases ur)
  then show ?thesis
    using assms by (simp add: user_actions_def push_entry_def Let_def dset_fresh dset_last)
qed

lemma push_entry_user: "(u, a) \<in> set (push_entry rx n event ev cnt subs ur) \<Longrightarrow> u = fst ur"
  by (cases ur) (auto simp: push_entry_def Let_def split: if_splits)

lemma disjoint_extend: "A \<subseteq> {x} \<Longrightarrow> M = B \<union> A \<Longrightarrow> x \<notin> C \<Longrightarrow> B \<inter> C = {} \<Longrightarrow> M \<inter> C = {}"
  by blast

lemma in_push_entries:
  "(u, a) \<in> set (concat (map (push_entry rx n event ev cnt subs) rs))
   \<longleftrightarrow> (\<exists>r. (u, r) \<in> set rs \<and> (u, a) \<in> set (push_entry rx n event ev cnt subs (u, r)))"
proof
  assume "(u, a) \<in> set (concat (map (push_entry rx n event ev cnt subs) rs))"
  then obtain ur where ur: "ur \<in> set rs" "(u, a) \<in> set (push_entry rx n event ev cnt subs ur)" by auto
  from push_entry_user [OF ur(2)] have "ur = (u, snd ur)" by simp
  then show "\<exists>r. (u, r) \<in> set rs \<and> (u, a) \<in> set (push_entry rx n event ev cnt subs (u, r))" using ur by metis
qed force

lemma fold_user_actions:
  assumes "distinct (map fst rs)" and "fst ` set m \<inter> fst ` set rs = {}"
  shows "fold (user_actions rx n event ev cnt subs) rs m = m @ concat (map (push_entry rx n event ev cnt subs) rs)"
  using assms
proof (induction rs arbitrary: m)
  case (Cons r rs)
  let ?m = "m @ push_entry rx n event ev cnt subs r"
  have "fst ` set (push_entry rx n event ev cnt subs r) \<subseteq> {fst r}"
    by (auto dest: push_entry_user)
  moreover have "fst ` set ?m = fst ` set m \<union> fst ` set (push_entry rx n event ev cnt subs r)"
    by (simp add: image_Un)
  moreover have "fst r \<notin> fst ` set rs" "fst ` set m \<inter> fst ` set rs = {}"
    using Cons.prems by auto
  ultimately have "fst ` set ?m \<inter> fst ` set rs = {}" by (rule disjoint_extend)
  then have "fold (user_actions rx n event ev cnt subs) rs ?m = ?m @ concat (map (push_entry rx n event ev cnt subs) rs)"
    using Cons by simp
  then show ?case using Cons.prems(2) user_actions_entry [of r m] by simp
qed simp

lemma rules_for_candidates:
  assumes "get_rules_for_event n p = Inr rs"
  shows "distinct (map fst rs)"
    and "(u, rules) \<in> set rs \<longleftrightarrow> (\<exists>cands. push_candidates n p = Inr (Some cands) \<and> u \<in> set cands)
      \<and> get_push_rules_for_user (pn_flags n) (pn_push_db n) u = Inr rules"
proof -
  let ?f = "\<lambda>u. rbind (get_push_rules_for_user (pn_flags n) (pn_push_db n) u) (\<lambda>r. Inr (u, r))"
  have m: "mapM_res ?f us = Inr xs \<Longrightarrow> map fst xs = us
      \<and> (\<forall>u r. (u, r) \<in> set xs \<longleftrightarrow> u \<in> set us \<and> get_push_rules_for_user (pn_flags n) (pn_push_db n) u = Inr r)" for us xs
  proof (induction us arbitrary: xs)
    case (Cons v us)
    then obtain r ys where "get_push_rules_for_user (pn_flags n) (pn_push_db n) v = Inr r" "mapM_res ?f us = Inr ys"
        "xs = (v, r) # ys"
      by (auto simp: rbind_Inr_iff)
    then show ?case using Cons.IH [of ys] by auto
  qed simp
  obtain c where c: "push_candidates n p = Inr c" using assms by (auto simp: get_rules_for_event_def rbind_Inr_iff)
  have "distinct (map fst rs) \<and> ((u, rules) \<in> set rs \<longleftrightarrow> (\<exists>cands. push_candidates n p = Inr (Some cands) \<and> u \<in> set cands)
      \<and> get_push_rules_for_user (pn_flags n) (pn_push_db n) u = Inr rules)"
  proof (cases c)
    case None
    then show ?thesis using assms c by (simp add: get_rules_for_event_def)
  next
    case (Some cands)
    then have "mapM_res ?f (remdups cands) = Inr rs" using assms c by (simp add: get_rules_for_event_def)
    from m [OF this] show ?thesis using Some c by auto
  qed
  then show "distinct (map fst rs)"
    and "(u, rules) \<in> set rs \<longleftrightarrow> (\<exists>cands. push_candidates n p = Inr (Some cands) \<and> u \<in> set cands)
      \<and> get_push_rules_for_user (pn_flags n) (pn_push_db n) u = Inr rules"
    by blast+
qed

text \<open>The evaluator of an event, with what it knows of the room.\<close>

definition event_evaluator :: "push_env \<Rightarrow> push_event \<Rightarrow> evaluator res" where
  "event_evaluator n p = rbind (get_power_levels_and_sender_level p) (\<lambda>(power_levels, sender_power_level).
     rbind (related_events n (pv_event p)) (\<lambda>related. new_evaluator n p power_levels sender_power_level related))"

text \<open>Whether a user is subscribed to the thread of an event, where this is asked for.\<close>

definition thread_state :: "push_env \<Rightarrow> event \<Rightarrow> string \<Rightarrow> bool option" where
  "thread_state n event u = (let t = thread_id_of n event in
     if msc4306_enabled (pn_flags n) \<and> t \<noteq> MAIN_TIMELINE
     then Some (u \<in> set (pn_thread_subscribers n (ev_room_id event) t)) else None)"

text \<open>
  What is due to a user: he is a candidate and not the sender, and the actions are those of the
  first of his push rules that applies, if they notify him; otherwise none, if the event counts as
  unread.
\<close>

definition push_due :: "regex_lib \<Rightarrow> push_env \<Rightarrow> push_event \<Rightarrow> evaluator \<Rightarrow> string \<Rightarrow> action list \<Rightarrow> bool" where
  "push_due rx n p ev u a \<longleftrightarrow> (\<exists>cands rules. push_candidates n p = Inr (Some cands) \<and> u \<in> set cands
     \<and> u \<noteq> ev_sender (pv_event p) \<and> get_push_rules_for_user (pn_flags n) (pn_push_db n) u = Inr rules
     \<and> (let actions = run_evaluator rx ev rules (Some u) (display_name_for n (pv_event p) u) (thread_state n (pv_event p) u)
        in if Notify \<in> set actions then a = actions
           else a = [] \<and> pn_msc2654_enabled n \<and> should_count_as_unread p))"

lemma entries_due:
  assumes "get_rules_for_event n p = Inr rs"
  shows "(u, a) \<in> set (concat (map (push_entry rx n (pv_event p) ev (pn_msc2654_enabled n \<and> should_count_as_unread p)
      (if msc4306_enabled (pn_flags n) \<and> thread_id_of n (pv_event p) \<noteq> MAIN_TIMELINE
       then Some (pn_thread_subscribers n (ev_room_id (pv_event p)) (thread_id_of n (pv_event p))) else None)) rs))
    \<longleftrightarrow> push_due rx n p ev u a"
proof -
  let ?cnt = "pn_msc2654_enabled n \<and> should_count_as_unread p"
  let ?subs = "if msc4306_enabled (pn_flags n) \<and> thread_id_of n (pv_event p) \<noteq> MAIN_TIMELINE
    then Some (pn_thread_subscribers n (ev_room_id (pv_event p)) (thread_id_of n (pv_event p))) else None"
  let ?acts = "\<lambda>r. run_evaluator rx ev r (Some u) (display_name_for n (pv_event p) u) (thread_state n (pv_event p) u)"
  have ts: "map_option (\<lambda>subs. u \<in> set subs) ?subs = thread_state n (pv_event p) u"
    by (simp add: thread_state_def Let_def)
  have one: "(u, a) \<in> set (push_entry rx n (pv_event p) ev ?cnt ?subs (u, r))
      \<longleftrightarrow> u \<noteq> ev_sender (pv_event p) \<and> (if Notify \<in> set (?acts r) then a = ?acts r else a = [] \<and> ?cnt)" for r
    unfolding push_entry_def prod.case ts Let_def by auto
  have "(u, a) \<in> set (concat (map (push_entry rx n (pv_event p) ev ?cnt ?subs) rs))
      \<longleftrightarrow> (\<exists>r. (u, r) \<in> set rs \<and> (u, a) \<in> set (push_entry rx n (pv_event p) ev ?cnt ?subs (u, r)))"
    by (rule in_push_entries)
  also have "\<dots> \<longleftrightarrow> push_due rx n p ev u a"
    unfolding one rules_for_candidates(2) [OF assms] push_due_def Let_def by blast
  finally show ?thesis .
qed

text \<open>The pushes that an evaluation stages.\<close>

definition staged_actions :: "staged_push option \<Rightarrow> (string \<times> action list) list" where
  "staged_actions r = (case r of None \<Rightarrow> [] | Some s \<Rightarrow> sp_actions s)"

text \<open>
  C24: an event is staged for exactly the users to whom a push is due by their own push rules, or an
  entry in the unread count, and who may see the event, each with the actions of his rules. Nobody
  else is notified, nobody of them is left out, and the visibility is asked for exactly the users
  to whom something is due.
\<close>

theorem push_exactly_to_viewers:
  assumes "action_for_event_by_user rx n p = Inr r" and "is_notifiable p"
    and "ev_room_id (pv_event p) \<notin> set (pn_rooms_to_exclude n)"
    and "get_rules_for_event n p = Inr rs" and "rs \<noteq> []"
  shows "\<exists>ev us visible. event_evaluator n p = Inr ev \<and> (\<forall>u. u \<in> set us \<longleftrightarrow> (\<exists>a. push_due rx n p ev u a))
    \<and> (us = [] \<or> filter_event_for_clients_with_state (pn_vis_store n) us (pv_vevent p) (pv_prev_state p) False True = Inr visible)
    \<and> (\<forall>u a. (u, a) \<in> set (staged_actions r) \<longleftrightarrow> push_due rx n p ev u a \<and> u \<in> set visible)"
proof -
  let ?cnt = "pn_msc2654_enabled n \<and> should_count_as_unread p"
  let ?subs = "if msc4306_enabled (pn_flags n) \<and> thread_id_of n (pv_event p) \<noteq> MAIN_TIMELINE
    then Some (pn_thread_subscribers n (ev_room_id (pv_event p)) (thread_id_of n (pv_event p))) else None"
  obtain ev where ev: "event_evaluator n p = Inr ev"
      "rbind (if fold (user_actions rx n (pv_event p) ev ?cnt ?subs) rs [] = [] then Inr None
         else rbind (filter_event_for_clients_with_state (pn_vis_store n)
             (map fst (fold (user_actions rx n (pv_event p) ev ?cnt ?subs) rs [])) (pv_vevent p) (pv_prev_state p) False True)
           (\<lambda>visible. let kept = filter (\<lambda>ua. fst ua \<in> set visible) (fold (user_actions rx n (pv_event p) ev ?cnt ?subs) rs [])
             in Inr (if kept = [] then None else Some \<lparr>sp_event_id = ev_event_id (pv_event p), sp_actions = kept,
                 sp_count_as_unread = ?cnt, sp_thread_id = thread_id_of n (pv_event p)\<rparr>))) Inr = Inr r"
    using assms unfolding action_for_event_by_user_def event_evaluator_def Let_def
    by (auto simp: rbind_Inr_iff split: prod.splits)
  define entries where "entries = concat (map (push_entry rx n (pv_event p) ev ?cnt ?subs) rs)"
  have fold: "fold (user_actions rx n (pv_event p) ev ?cnt ?subs) rs [] = entries"
    using fold_user_actions [OF rules_for_candidates(1) [OF assms(4)], of "[]"] by (simp add: entries_def)
  have due: "(u, a) \<in> set entries \<longleftrightarrow> push_due rx n p ev u a" for u a
    unfolding entries_def by (rule entries_due [OF assms(4)])
  have us: "u \<in> set (map fst entries) \<longleftrightarrow> (\<exists>a. push_due rx n p ev u a)" for u
    using due by force
  obtain visible where vis: "entries = [] \<or> filter_event_for_clients_with_state (pn_vis_store n) (map fst entries)
        (pv_vevent p) (pv_prev_state p) False True = Inr visible"
      "staged_actions r = filter (\<lambda>ua. fst ua \<in> set visible) entries"
  proof (cases "entries = []")
    case True
    then have "r = None" using ev(2) by (simp add: fold)
    then show ?thesis using True by (intro that) (simp_all add: staged_actions_def)
  next
    case False
    then show ?thesis using ev(2) that unfolding fold
      by (auto simp: rbind_Inr_iff staged_actions_def Let_def split: if_splits)
  qed
  have "(u, a) \<in> set (staged_actions r) \<longleftrightarrow> push_due rx n p ev u a \<and> u \<in> set visible" for u a
    unfolding vis(2) using due by auto
  then show ?thesis using ev(1) us vis(1) by (intro exI [of _ ev] exI [of _ "map fst entries"] exI [of _ visible]) simp
qed

text \<open>
  C37: an invite notifies nobody if the invited user's invite rules do not allow it, he ignores the
  sender, or the stripped state that comes with it shows a story room.
\<close>

theorem unwanted_invite_silent:
  assumes "ev_type (pv_event p) = EventTypes_Member" and "ev_state_key (pv_event p) = Some k"
    and "membership_of (pv_event p) = Inr (JStr Membership_INVITE)"
    and "\<not> pn_invite_allowed n k (ev_sender (pv_event p))
      \<or> ev_sender (pv_event p) \<in> set (vs_ignored_users (pn_vis_store n) k) \<or> invite_targets_hidden_room p"
  shows "action_for_event_by_user rx n p = Inr None"
proof -
  have "push_candidates n p = Inr None"
    using assms by (auto simp: push_candidates_def state_key_of_def is_state_def Let_def)
  then have "get_rules_for_event n p = Inr []" by (simp add: get_rules_for_event_def)
  then show ?thesis by (simp add: action_for_event_by_user_def Let_def)
qed

section \<open>The master rule\<close>

definition MASTER :: string where "MASTER = ''global/override/.m.rule.master''"

lemma master_available: "rule_available f MASTER"
proof -
  have "\<not> str_contains ''org.matrix.msc1767'' MASTER" "\<not> str_contains ''org.matrix.msc3933'' MASTER"
      "\<not> str_contains ''org.matrix.msc3930'' MASTER" "\<not> str_contains ''/.io.element.msc4306.rule.'' MASTER"
      "MASTER \<notin> set LEGACY_MENTION_RULES" "MASTER \<noteq> ''global/override/.im.nheko.msc3664.reply''"
      "MASTER \<noteq> ''global/override/.org.matrix.msc4028.encrypted_event''"
    by code_simp+
  then show ?thesis by (simp add: rule_available_def)
qed

lemma master_applies: "pr_rule_id r = MASTER \<Longrightarrow> pr_conditions r = [] \<Longrightarrow> rule_applies rx e u dn ts r"
proof -
  have "MASTER \<notin> set LEGACY_MENTION_RULES" "MASTER \<in> set SAFE_EXTENSIBLE_EVENTS_RULE_IDS" by code_simp+
  then show "pr_rule_id r = MASTER \<Longrightarrow> pr_conditions r = [] \<Longrightarrow> rule_applies rx e u dn ts r"
    by (simp add: rule_applies_def)
qed

text \<open>The rules of a user, behind the master rule.\<close>

lemma filtered_iter_master:
  assumes "dget (overridden_base_rules (fp_rules p)) MASTER = None"
  obtains rest where "filtered_iter p
    = (base_rule MASTER 5 [] [] False, dget_default (fp_enabled_map p) MASTER False) # rest"
proof -
  have B: "BASE_PREPEND_OVERRIDE_RULES = [base_rule MASTER 5 [] [] False]"
    by (simp add: BASE_PREPEND_OVERRIDE_RULES_def MASTER_def)
  have [simp]: "pr_rule_id (base_rule MASTER 5 [] [] False) = MASTER"
      "pr_default_enabled (base_rule MASTER 5 [] [] False) = False"
    by (simp_all add: base_rule_def)
  have "\<exists>rest. filtered_iter p
      = (base_rule MASTER 5 [] [] False, dget_default (fp_enabled_map p) MASTER False) # rest"
    using assms by (simp add: filtered_iter_def push_rules_iter_def B master_available dget_default_def dget_def
        cong: option.case_cong)
  then show thesis using that by blast
qed

text \<open>
  A user who has switched the master rule on, and has not given it actions of its own, is
  notified of nothing, whatever other rules he has.
\<close>

theorem master_rule_silences:
  assumes "dget (fp_enabled_map p) MASTER = Some True"
    and "dget (overridden_base_rules (fp_rules p)) MASTER = None"
  shows "run_evaluator rx e p u dn ts = []"
proof -
  obtain rest where "filtered_iter p
      = (base_rule MASTER 5 [] [] False, dget_default (fp_enabled_map p) MASTER False) # rest"
    using assms(2) by (rule filtered_iter_master)
  moreover have "dget_default (fp_enabled_map p) MASTER False = True"
    using assms(1) by (simp add: dget_default_def dget_def)
  moreover have "rule_applies rx e u dn ts (base_rule MASTER 5 [] [] False)"
    by (rule master_applies) (simp_all add: base_rule_def)
  ultimately show ?thesis by (simp add: run_evaluator_def effective_actions_def base_rule_def)
qed

section \<open>Examples\<close>

definition no_flags :: push_flags where
  "no_flags = \<lparr>msc1767_enabled = False, msc3381_polls_enabled = False, msc3664_enabled = False,
     msc4028_push_encrypted_events = False, msc4210_enabled = False, msc4306_enabled = False\<rparr>"

definition sample_regex :: regex_lib where
  "sample_regex = \<lparr>rx_escape = id, rx_is_match = (\<lambda>_ _. Some False)\<rparr>"

definition empty_push_db :: push_db where
  "empty_push_db = \<lparr>push_rows = [], push_enable = [], push_stream = []\<rparr>"

definition sample_push_env :: push_env where
  "sample_push_env = \<lparr>pn_hostname = ''s'', pn_enable_push = True, pn_rooms_to_exclude = [], pn_msc2654_enabled = False,
     pn_flags = no_flags, pn_user_in_room = (\<lambda>_ _. True), pn_local_users_in_room = (\<lambda>_. [''@a:s'', ''@b:s'']),
     pn_appservice_user = (\<lambda>_. False), pn_invite_allowed = (\<lambda>_ _. True), pn_push_db = empty_push_db,
     pn_member_count = (\<lambda>_. 3), pn_display_name = (\<lambda>_ _. None), pn_thread_of = (\<lambda>_. MAIN_TIMELINE),
     pn_thread_subscribers = (\<lambda>_ _. []), pn_event_dict = (\<lambda>_. None), pn_vis_store = sample_vis_store\<rparr>"

definition sample_push_event :: "event \<Rightarrow> jdict \<Rightarrow> jdict \<Rightarrow> push_event" where
  "sample_push_event e d u = \<lparr>pv_vevent = (sample_vevent e)\<lparr>ve_unsigned := u\<rparr>, pv_dict = d, pv_rejected = False,
     pv_out_of_band = False, pv_prev_state = sample_state\<rparr>"

definition sample_push_message :: "jdict \<Rightarrow> push_event" where
  "sample_push_message c = sample_push_event (sample_event ''$m'' ''m.room.message'' None ''@a:s'' c [])
     [(''type'', JStr ''m.room.message''), (''sender'', JStr ''@a:s''), (''content'', JObj c)] []"

lemma sample_push_result:
  "action_for_event_by_user sample_regex sample_push_env (sample_push_message [(''body'', JStr ''hi'')])
   = Inr (Some \<lparr>sp_event_id = ''$m'', sp_actions = [(''@b:s'', [Notify, HIGHLIGHT_FALSE_ACTION])],
       sp_count_as_unread = False, sp_thread_id = ''main''\<rparr>)"
  by code_simp

theorem push_exactly_to_viewers_witness:
  "\<exists>ev. event_evaluator sample_push_env (sample_push_message [(''body'', JStr ''hi'')]) = Inr ev
    \<and> push_due sample_regex sample_push_env (sample_push_message [(''body'', JStr ''hi'')]) ev ''@b:s'' [Notify, HIGHLIGHT_FALSE_ACTION]
    \<and> (\<forall>a. \<not> push_due sample_regex sample_push_env (sample_push_message [(''body'', JStr ''hi'')]) ev ''@a:s'' a)"
proof -
  let ?p = "sample_push_message [(''body'', JStr ''hi'')]"
  have n: "is_notifiable ?p" "ev_room_id (pv_event ?p) \<notin> set (pn_rooms_to_exclude sample_push_env)" by code_simp+
  have "case get_rules_for_event sample_push_env ?p of Inr rs \<Rightarrow> rs \<noteq> [] | Inl _ \<Rightarrow> False" by code_simp
  then obtain rs where rs: "get_rules_for_event sample_push_env ?p = Inr rs" "rs \<noteq> []" by (auto split: sum.splits)
  have sender: "ev_sender (pv_event ?p) = ''@a:s''" by code_simp
  let ?s = "\<lparr>sp_event_id = ''$m'', sp_actions = [(''@b:s'', [Notify, HIGHLIGHT_FALSE_ACTION])],
     sp_count_as_unread = False, sp_thread_id = ''main''\<rparr>"
  obtain ev us visible where ev: "event_evaluator sample_push_env ?p = Inr ev"
      "\<forall>u a. (u, a) \<in> set (staged_actions (Some ?s)) \<longleftrightarrow> push_due sample_regex sample_push_env ?p ev u a \<and> u \<in> set visible"
    using push_exactly_to_viewers [OF sample_push_result n rs] by blast
  have due: "push_due sample_regex sample_push_env ?p ev ''@b:s'' [Notify, HIGHLIGHT_FALSE_ACTION]"
    using ev(2) [rule_format, of "''@b:s''" "[Notify, HIGHLIGHT_FALSE_ACTION]"] by (simp add: staged_actions_def)
  have "\<not> push_due sample_regex sample_push_env ?p ev ''@a:s'' a" for a by (simp add: push_due_def sender)
  then show ?thesis using ev(1) due by blast
qed

definition sample_story_invite :: push_event where
  "sample_story_invite = sample_push_event
     (sample_event ''$i'' EventTypes_Member (Some ''@b:s'') ''@a:s'' [(''membership'', JStr ''invite'')] []) []
     [(''invite_room_state'', JList [JObj [(''type'', JStr ''m.room.create''), (''state_key'', JStr []),
        (''sender'', JStr ''@a:s''), (''content'', JObj [(''com.liza.stories'', JBool True)])]])]"

theorem unwanted_invite_silent_witness:
  "action_for_event_by_user sample_regex sample_push_env sample_story_invite = Inr None"
proof (rule unwanted_invite_silent)
  show "ev_type (pv_event sample_story_invite) = EventTypes_Member"
      "ev_state_key (pv_event sample_story_invite) = Some ''@b:s''"
      "membership_of (pv_event sample_story_invite) = Inr (JStr Membership_INVITE)"
    by code_simp+
  have "invite_targets_hidden_room sample_story_invite" by code_simp
  then show "\<not> pn_invite_allowed sample_push_env ''@b:s'' (ev_sender (pv_event sample_story_invite))
      \<or> ev_sender (pv_event sample_story_invite) \<in> set (vs_ignored_users (pn_vis_store sample_push_env) ''@b:s'')
      \<or> invite_targets_hidden_room sample_story_invite" by blast
qed

definition master_on :: filtered_push_rules where
  "master_on = \<lparr>fp_rules = new_push_rules [], fp_enabled_map = [(MASTER, True)], fp_flags = no_flags\<rparr>"

theorem master_rule_silences_witness:
  "run_evaluator sample_regex e master_on (Some ''@b:s'') None None = []"
proof (rule master_rule_silences)
  show "dget (fp_enabled_map master_on) MASTER = Some True"
      "dget (overridden_base_rules (fp_rules master_on)) MASTER = None"
    by (simp_all add: master_on_def dget_def new_push_rules_def)
qed

section \<open>Large integers\<close>

text \<open>
  An event with an integer that does not fit into 64 bits cannot be evaluated: handing it to the
  evaluator raises a type error, and the event is not processed. Flattening keeps integers of any
  size, and before room version 6 the format of events does not bound them.
\<close>

theorem large_integer_breaks_push:
  "action_for_event_by_user sample_regex sample_push_env
     (sample_push_event ((sample_event ''$m'' ''m.room.message'' None ''@a:s'' [(''n'', JInt (2 ^ 63))] [])
        \<lparr>ev_room_version := ROOM_VERSION_V5\<rparr>)
       [(''type'', JStr ''m.room.message''), (''content'', JObj [(''n'', JInt (2 ^ 63))])] []) = Inl PyTypeError
   \<and> \<not> strict_canonicaljson ROOM_VERSION_V5"
proof
  show "\<not> strict_canonicaljson ROOM_VERSION_V5" by code_simp
  show "action_for_event_by_user sample_regex sample_push_env
     (sample_push_event ((sample_event ''$m'' ''m.room.message'' None ''@a:s'' [(''n'', JInt (2 ^ 63))] [])
        \<lparr>ev_room_version := ROOM_VERSION_V5\<rparr>)
       [(''type'', JStr ''m.room.message''), (''content'', JObj [(''n'', JInt (2 ^ 63))])] []) = Inl PyTypeError"
    by code_simp
qed

end
