(* ===== verification/Stories_Props.thy ===== *)
theory Stories_Props
  imports Stories Push_Props
begin

text \<open>
  What the story rooms promise, together with the push rules: a new story notifies the viewer, the
  rest of the room does not. Also two places where the module does not do what its comments say: the
  mute of a story room does not silence the invite into it, and leaving a direct chat removes nobody
  from a story room.
\<close>

section \<open>The module on the tables of push rules\<close>

text \<open>What the module relies on of the store of push rules.\<close>

locale push_backend =
  fixes x :: "'w stories" and rules_of :: "'w \<Rightarrow> push_db" and put :: "push_db \<Rightarrow> 'w \<Rightarrow> 'w"
  assumes has_store: "so_has_store x"
    and exists: "so_push_rule_exists x u i w = Inr (find_row (rules_of w) u i \<noteq> None)"
    and adds: "so_add_push_rule x u i c conds acts w = (case add_push_rule True u i c conds acts [] [] (rules_of w) of
      Inl e \<Rightarrow> (Inl e, w) | Inr db \<Rightarrow> (Inr (), put db w))"
    and rules_put: "rules_of (put db w) = db"
begin

lemma ensure_adds:
  assumes "find_row (rules_of w) u (story_notify_rule_id room) = None"
  shows "add_push_rule True u (story_notify_rule_id room) 5 (story_conditions (JStr room)) story_actions [] []
      (rules_of w) = Inr (rules_of (snd (ensure_story_notify_rule x u (JStr room) w)))"
  using assms has_store
  by (simp add: ensure_story_notify_rule_def Let_def room_str_def ccatch_def cbind_def sread_def exists adds rules_put
      add_push_rule_def)

lemma mute_adds:
  assumes "find_row (rules_of w) u (''global/room/'' @ room) = None"
  shows "add_push_rule True u (''global/room/'' @ room) 3 (mute_room_conditions (JStr room)) [JStr ''dont_notify''] [] []
      (rules_of w) = Inr (rules_of (snd (mute_room_for_local_user x u (JStr room) w)))"
  using assms has_store
  by (simp add: mute_room_for_local_user_def Let_def room_str_def ccatch_def cbind_def sread_def exists adds rules_put
      add_push_rule_def)

text \<open>A second call finds the rule and changes nothing.\<close>

lemma ensure_again:
  "find_row (rules_of w) u (story_notify_rule_id room) \<noteq> None \<Longrightarrow>
   ensure_story_notify_rule x u (JStr room) w = (Inr (), w)"
  using has_store
  by (simp add: ensure_story_notify_rule_def Let_def room_str_def ccatch_def cbind_def sread_def exists cret_def)

end

text \<open>The API with the modelled store in the place of its push rules.\<close>

definition with_push_db :: "'w stories \<Rightarrow> ('w \<times> push_db) stories" where
  "with_push_db x = \<lparr>so_server_name = so_server_name x, so_ai_bot_localparts = so_ai_bot_localparts x,
     so_has_store = True, so_federation_whitelist = so_federation_whitelist x, so_str = so_str x,
     so_get_global = (\<lambda>u t s. so_get_global x u t (fst s)),
     so_put_global = (\<lambda>u t d s. map_prod id (\<lambda>w. (w, snd s)) (so_put_global x u t d (fst s))),
     so_create_room = (\<lambda>u d s. map_prod id (\<lambda>w. (w, snd s)) (so_create_room x u d (fst s))),
     so_update_room_membership =
       (\<lambda>a b r m h s. map_prod id (\<lambda>w. (w, snd s)) (so_update_room_membership x a b r m h (fst s))),
     so_send_event = (\<lambda>q s. map_prod id (\<lambda>w. (w, snd s)) (so_send_event x q (fst s))),
     so_push_rule_exists = (\<lambda>u i s. Inr (find_row (snd s) u i \<noteq> None)),
     so_add_push_rule = (\<lambda>u i c conds acts s. case add_push_rule True u i c conds acts [] [] (snd s) of
        Inl e \<Rightarrow> (Inl e, s) | Inr db \<Rightarrow> (Inr (), (fst s, db))),
     so_tables = (\<lambda>s. so_tables x (fst s))\<rparr>"

interpretation pb: push_backend "with_push_db x" snd "\<lambda>db s. (fst s, db)"
  by unfold_locales (simp_all add: with_push_db_def)

section \<open>A story notifies\<close>

definition ALL_BASE_RULES :: "push_rule list" where
  "ALL_BASE_RULES = BASE_PREPEND_OVERRIDE_RULES @ BASE_APPEND_OVERRIDE_RULES @ BASE_APPEND_CONTENT_RULES
     @ BASE_APPEND_POSTCONTENT_RULES @ BASE_APPEND_UNDERRIDE_RULES"

lemma starts_with_append: "starts_with p (p @ s)"
  by (induction p) auto

lemma not_base:
  assumes "list_all (\<lambda>r. \<not> starts_with p (pr_rule_id r)) ALL_BASE_RULES"
  shows "BASE_RULES_BY_ID (p @ s) = None"
proof -
  have "\<not> (\<exists>r. r \<in> set ALL_BASE_RULES \<and> pr_rule_id r = p @ s)"
  proof
    assume "\<exists>r. r \<in> set ALL_BASE_RULES \<and> pr_rule_id r = p @ s"
    then obtain r where "r \<in> set ALL_BASE_RULES" "starts_with p (pr_rule_id r)" using starts_with_append by metis
    then show False using assms by (simp add: list_all_iff)
  qed
  then show ?thesis by (simp add: BASE_RULES_BY_ID_def ALL_BASE_RULES_def [symmetric] find_None_iff del: append_assoc)
qed

lemma story_rule_not_base: "BASE_RULES_BY_ID (story_notify_rule_id room) = None"
proof -
  have "list_all (\<lambda>r. \<not> starts_with ''global/override/com.liza.story_notify.'' (pr_rule_id r)) ALL_BASE_RULES"
    by code_simp
  from not_base [OF this, of room] show ?thesis
    by (simp add: story_notify_rule_id_def story_notify_rule_name_def STORY_NOTIFY_RULE_NAME_PREFIX_def)
qed

lemma story_rule_not_legacy: "story_notify_rule_id room \<notin> set LEGACY_MENTION_RULES"
  by (simp add: LEGACY_MENTION_RULES_def story_notify_rule_id_def story_notify_rule_name_def
      STORY_NOTIFY_RULE_NAME_PREFIX_def)

lemma parse_story_conditions:
  "map parse_condition (story_conditions (JStr room))
   = [EventMatch ''type'' ''m.room.message'', EventMatch ''room_id'' room]"
  by (simp add: story_conditions_def parse_condition_def parse_known_def str_field_def dget_def)

lemma parse_story_actions:
  "map (the \<circ> parse_action) story_actions = [Notify, SetTweak ''sound'' (Some (JStr ''default'')) (JObj [])]"
  by (simp add: story_actions_def parse_action_def str_field_def dget_def dpop_def)

lemma match_exact:
  assumes "dget flat k = Some (FValue (SStr s))" and "k \<noteq> ''content.body''" and "\<not> list_ex is_wildcard s"
  shows "match_event_match rx flat k s = Some True"
  using assms by (simp add: match_event_match_def glob_match_def Let_def)

text \<open>Rules that are switched off or do not apply are passed over.\<close>

lemma run_rules_skip:
  "\<forall>(r, b) \<in> set xs. \<not> (b \<and> rule_applies rx e u dn ts r) \<Longrightarrow> run_rules rx e u dn ts (xs @ ys) = run_rules rx e u dn ts ys"
  by (induction xs) auto

text \<open>The rules up to one of the user's own override rules.\<close>

lemma run_override:
  assumes ov: "override_rules (fp_rules p) = pre @ r # rest"
    and base: "\<forall>q \<in> set (r # pre). BASE_RULES_BY_ID (pr_rule_id q) = None"
    and rules: "fp_rules p = new_push_rules rl"
    and master: "dget (fp_enabled_map p) MASTER \<noteq> Some True"
    and skip: "\<forall>q \<in> set pre. dget (fp_enabled_map p) (pr_rule_id q) = Some False \<or> \<not> rule_applies rx e u dn ts q"
    and av: "rule_available (fp_flags p) (pr_rule_id r)" and en: "dget_default (fp_enabled_map p) (pr_rule_id r) (pr_default_enabled r)"
    and ap: "rule_applies rx e u dn ts r"
  shows "run_evaluator rx e p u dn ts = effective_actions r"
proof -
  define ovr where "ovr = (\<lambda>rule. case dget (overridden_base_rules (fp_rules p)) (pr_rule_id rule) of Some o' \<Rightarrow> o' | None \<Rightarrow> rule)"
  define tag where "tag = (\<lambda>r :: push_rule. (r, case dget (fp_enabled_map p) (pr_rule_id r) of Some b \<Rightarrow> b | None \<Rightarrow> pr_default_enabled r))"
  define m where "m = ovr (base_rule MASTER 5 [] [] False)"
  have id: "ovr q = q" if "q \<in> set (r # pre)" for q
  proof -
    have "BASE_RULES_BY_ID (pr_rule_id q) = None" using base that by blast
    from overridden_only_base [OF this] show ?thesis by (simp add: ovr_def rules)
  qed
  obtain tail where "push_rules_iter (fp_rules p) = m # map ovr pre @ ovr r # tail"
    by (simp add: push_rules_iter_def ov BASE_PREPEND_OVERRIDE_RULES_def m_def ovr_def MASTER_def)
  moreover have "map ovr pre = pre" using id by (auto intro: map_idI)
  ultimately have iter: "push_rules_iter (fp_rules p) = (m # pre) @ r # tail" using id [of r] by simp
  have base_m: "BASE_RULES_BY_ID MASTER = Some (base_rule MASTER 5 [] [] False)"
    by (simp add: BASE_RULES_BY_ID_def BASE_PREPEND_OVERRIDE_RULES_def MASTER_def base_rule_def)
  have m: "pr_rule_id m = MASTER" "\<not> pr_default_enabled m"
  proof -
    have "m = base_rule MASTER 5 [] [] False \<or> (\<exists>a. m = (base_rule MASTER 5 [] [] False)\<lparr>pr_actions := a\<rparr>)"
    proof (cases "dget (overridden_base_rules (fp_rules p)) MASTER")
      case None
      then show ?thesis by (simp add: m_def ovr_def base_rule_def)
    next
      case (Some q)
      then show ?thesis
        using overridden_from_base [of rl MASTER q] base_m by (auto simp: m_def ovr_def rules base_rule_def)
    qed
    then show "pr_rule_id m = MASTER" "\<not> pr_default_enabled m" by (auto simp: base_rule_def)
  qed
  have "\<not> snd (tag m)" using master m by (auto simp: tag_def split: option.splits)
  then have off: "\<forall>q \<in> set (m # pre). \<not> (snd (tag q) \<and> rule_applies rx e u dn ts q)"
    using skip by (auto simp: tag_def split: option.splits)
  have on: "tag r = (r, True)" using en by (auto simp: tag_def dget_default_def dget_def split: option.splits)
  let ?av = "filter (\<lambda>r. rule_available (fp_flags p) (pr_rule_id r))"
  have "filtered_iter p = map tag (?av ((m # pre) @ r # tail))"
    by (simp only: filtered_iter_def iter tag_def)
  then have "filtered_iter p = map tag (?av (m # pre)) @ (r, True) # map tag (?av tail)"
    using av by (simp only: filter_append map_append filter.simps list.map on if_True)
  then have "run_evaluator rx e p u dn ts = run_rules rx e u dn ts ((r, True) # map tag (?av tail))"
    unfolding run_evaluator_def
    by (simp only: run_rules_skip) (rule run_rules_skip, use off in \<open>auto simp: tag_def\<close>)
  then show ?thesis using ap by simp
qed

section \<open>Later changes of the push rules\<close>

text \<open>A call that changes the push rules of a user; a call that raises changes nothing.\<close>

datatype push_op =
    AddRule string string int "json list" "json list" string string
  | DeleteRule string string
  | EnableRule string string bool bool
  | SetActions string string "json list" bool

fun apply_op :: "push_op \<Rightarrow> push_db \<Rightarrow> push_db res" where
  "apply_op (AddRule u i c conds acts before after) db = add_push_rule True u i c conds acts before after db"
| "apply_op (DeleteRule u i) db = delete_push_rule True u i db"
| "apply_op (EnableRule u i b dflt) db = set_push_rule_enabled True u i b dflt db"
| "apply_op (SetActions u i acts dflt) db = set_push_rule_actions True u i acts dflt db"

definition do_op :: "push_op \<Rightarrow> push_db \<Rightarrow> push_db" where
  "do_op op db = (case apply_op op db of Inl _ \<Rightarrow> db | Inr db' \<Rightarrow> db')"

text \<open>The call is about another rule, or only switches this one on or off.\<close>

fun spares :: "string \<Rightarrow> string \<Rightarrow> push_op \<Rightarrow> bool" where
  "spares u i (AddRule v j _ _ _ _ _) = ((v, j) \<noteq> (u, i))"
| "spares u i (DeleteRule v j) = ((v, j) \<noteq> (u, i))"
| "spares u i (EnableRule v j _ _) = True"
| "spares u i (SetActions v j _ _) = ((v, j) \<noteq> (u, i))"

definition has_rule :: "string \<Rightarrow> string \<Rightarrow> int \<Rightarrow> json list \<Rightarrow> json list \<Rightarrow> push_db \<Rightarrow> bool" where
  "has_rule u i c conds acts db \<longleftrightarrow> (\<exists>r \<in> set (push_rows db). is_row u i r \<and> prow_class r = c
     \<and> prow_conditions r = conds \<and> prow_actions r = acts)"

lemma wf_do_op:
  assumes "push_db_wf db"
  shows "push_db_wf (do_op op db)"
proof (cases "apply_op op db")
  case (Inr db')
  have "push_db_wf db'"
  proof (cases op)
    case (AddRule u i c conds acts b a)
    show ?thesis
      by (rule push_db_wf_preserved [OF assms, where w = True and u = u and i = i and c = c and conds = conds
          and acts = acts and before = b and after = a and en = True and dflt = True])
        (use Inr AddRule in simp)
  next
    case (DeleteRule u i)
    show ?thesis
      by (rule push_db_wf_preserved [OF assms, where w = True and u = u and i = i and c = 1 and conds = "[]"
          and acts = "[]" and before = "[]" and after = "[]" and en = True and dflt = True])
        (use Inr DeleteRule in simp)
  next
    case (EnableRule u i b d)
    show ?thesis
      by (rule push_db_wf_preserved [OF assms, where w = True and u = u and i = i and c = 1 and conds = "[]"
          and acts = "[]" and before = "[]" and after = "[]" and en = b and dflt = d])
        (use Inr EnableRule in simp)
  next
    case (SetActions u i as d)
    show ?thesis
      by (rule push_db_wf_preserved [OF assms, where w = True and u = u and i = i and c = 1 and conds = "[]"
          and acts = as and before = "[]" and after = "[]" and en = True and dflt = d])
        (use Inr SetActions in simp)
  qed
  then show ?thesis by (simp add: do_op_def Inr)
qed (simp add: do_op_def assms)

lemma adds_has_rule:
  assumes "push_db_wf db" and "adds_at db v d n db'" and "(v, prow_rule_id n) \<noteq> (u, i)" and "has_rule u i c conds acts db"
  shows "has_rule u i c conds acts db'"
proof -
  let ?s = "shift_row v d (prow_priority n)"
  obtain r where r: "r \<in> set (push_rows db)" "is_row u i r" "prow_class r = c" "prow_conditions r = conds" "prow_actions r = acts"
    using assms(4) by (auto simp: has_rule_def)
  have keys: "distinct (map (\<lambda>r. (prow_user r, prow_rule_id r)) (map ?s (push_rows db)))"
    using assms(1) unfolding push_db_wf_def shift_keys by simp
  have "\<not> is_row (prow_user n) (prow_rule_id n) (?s r)"
    using assms(2,3) r(2) by (auto simp: adds_at_def is_row_def)
  then have "?s r \<in> set (push_rows db')"
    using assms(2) r(1) by (simp add: adds_at_def set_upsert_rows [OF keys])
  moreover have "prow_conditions (?s r) = conds" "prow_actions (?s r) = acts"
    using r(4,5) by (simp_all add: shift_row_def)
  ultimately show ?thesis using r(2,3) by (auto simp: has_rule_def intro!: bexI [of _ "?s r"])
qed

lemma add_highest_has_rule:
  assumes "push_db_wf db" and "add_push_rule True u i 5 conds acts [] [] db = Inr db'"
  shows "has_rule u i 5 conds acts db'"
proof -
  obtain n rest where n: "class_rows db' u 5 = n # rest" "prow_rule_id n = i" "prow_class n = 5"
    "prow_conditions n = conds" "prow_actions n = acts"
    using add_highest_first [OF assms(1) _ assms(2)] by auto
  have "n \<in> set (class_rows db' u 5)" by (simp add: n(1))
  then have "n \<in> set (push_rows db')" "is_row u i n" using n(2) by (simp_all add: class_rows_def in_class_def is_row_def)
  then show ?thesis using n(3-5) by (auto simp: has_rule_def)
qed

lemma op_has_rule:
  assumes wf: "push_db_wf db" and sp: "spares u i op" and has: "has_rule u i c conds acts db"
  shows "has_rule u i c conds acts (do_op op db)"
proof (cases "apply_op op db")
  case (Inr db')
  have "has_rule u i c conds acts db'"
  proof (cases op)
    case (AddRule v j d cs as b a)
    then have add: "add_push_rule True v j d cs as b a db = Inr db'" using Inr by simp
    obtain n where "adds_at db v d n db'" "prow_rule_id n = j"
    proof (cases "b = [] \<and> a = []")
      case True
      then have "db' = add_push_rule_highest_priority_txn v j d cs as db" using add by (simp add: add_push_rule_def)
      then show thesis using that add_highest_adds by metis
    next
      case False
      then have "add_push_rule_relative_txn v j d cs as b a db = Inr db'" using add by (auto simp: add_push_rule_def)
      then show thesis using that by (rule add_relative_adds)
    qed
    then show ?thesis using adds_has_rule [OF wf _ _ has] sp AddRule by auto
  next
    case (DeleteRule v j)
    then show ?thesis
      using Inr sp has by (force simp: delete_push_rule_def has_rule_def is_row_def split: option.splits)
  next
    case (EnableRule v j b dflt)
    then show ?thesis using Inr has by (auto simp: set_push_rule_enabled_def has_rule_def split: if_splits)
  next
    case (SetActions v j as dflt)
    have keys: "distinct (map (\<lambda>r. (prow_user r, prow_rule_id r)) (push_rows db))"
      using wf by (simp add: push_db_wf_def)
    show ?thesis
    proof (cases dflt)
      case True
      then show ?thesis
        using Inr sp has SetActions by (auto simp: set_push_rule_actions_def has_rule_def set_upsert_rows [OF keys] is_row_def)
    next
      case False
      then have rows: "push_rows db' = map (\<lambda>r. if is_row v j r then r\<lparr>prow_actions := as\<rparr> else r) (push_rows db)"
        using Inr SetActions by (auto simp: set_push_rule_actions_def rbind_Inr_iff split: option.splits)
      show ?thesis
        using sp has SetActions by (force simp: has_rule_def rows is_row_def)
    qed
  qed
  then show ?thesis by (simp add: do_op_def Inr)
qed (simp add: do_op_def has)

lemma ops_keep_rule:
  assumes "push_db_wf db" and "\<forall>op \<in> set ops. spares u i op" and "has_rule u i c conds acts db"
  shows "push_db_wf (fold do_op ops db) \<and> has_rule u i c conds acts (fold do_op ops db)"
  using assms by (induction ops arbitrary: db) (auto simp: wf_do_op op_has_rule)

text \<open>The class of a rule splits at it.\<close>

lemma class_rows_at_rule:
  assumes "push_db_wf db" and "has_rule u i c conds acts db"
  obtains n rest where "class_rows db u c = takeWhile (\<lambda>r. prow_rule_id r \<noteq> i) (class_rows db u c) @ n # rest"
    and "prow_rule_id n = i" and "prow_class n = c" and "prow_conditions n = conds" and "prow_actions n = acts"
proof -
  obtain r where r: "r \<in> set (push_rows db)" "is_row u i r" "prow_class r = c" "prow_conditions r = conds" "prow_actions r = acts"
    using assms(2) by (auto simp: has_rule_def)
  let ?P = "\<lambda>r. prow_rule_id r \<noteq> i"
  have sets: "set (class_rows db u c) = {q \<in> set (push_rows db). in_class u c q}" by (simp add: class_rows_def)
  then have "r \<in> set (class_rows db u c)" using r by (simp add: in_class_def is_row_def)
  then have "dropWhile ?P (class_rows db u c) \<noteq> []" using r(2) by (auto simp: is_row_def)
  then obtain n rest where d: "dropWhile ?P (class_rows db u c) = n # rest" by (meson neq_Nil_conv)
  then have id: "prow_rule_id n = i" using hd_dropWhile [of ?P "class_rows db u c"] by simp
  have "n \<in> set (class_rows db u c)" using d by (metis list.set_intros(1) set_dropWhileD)
  then have "n \<in> set (push_rows db)" "is_row u i n" using sets id by (auto simp: in_class_def is_row_def)
  then have "n = r" using wf_same_row [OF assms(1) _ r(1) _ r(2)] by blast
  moreover have "class_rows db u c = takeWhile ?P (class_rows db u c) @ n # rest"
    using d takeWhile_dropWhile_id [of ?P "class_rows db u c"] by simp
  ultimately show thesis using that r id by blast
qed

text \<open>
  C25: after the module has set up the push rule for stories of a room, and after any changes of
  other push rules and any switching on and off, a message in that room, that is a story, notifies the
  viewer with a sound. What can silence it: the master rule, the rule itself switched off, and an
  override rule of the viewer that stands before it, is switched on and applies to the message. (A
  rule that is added later without a place goes before all others of its class.)
\<close>

theorem story_rule_notifies:
  assumes wf: "push_db_wf db" and new: "find_row db u (story_notify_rule_id room) = None"
    and ops: "\<forall>op \<in> set ops. spares u (story_notify_rule_id room) op"
    and db': "db' = fold do_op ops (snd (snd (ensure_story_notify_rule (with_push_db x) u (JStr room) (w, db))))"
    and load: "get_push_rules_for_user flags db' u = Inr p"
    and master: "dget (fp_enabled_map p) MASTER \<noteq> Some True"
    and on: "dget (fp_enabled_map p) (story_notify_rule_id room) \<noteq> Some False"
    and before: "\<forall>r \<in> set (takeWhile (\<lambda>r. prow_rule_id r \<noteq> story_notify_rule_id room) (class_rows db' u 5)).
      dget (fp_enabled_map p) (prow_rule_id r) = Some False \<or> \<not> rule_applies rx e (Some u) dn ts (rule_of r)"
    and av: "rule_available flags (story_notify_rule_id room)" and plain: "\<not> list_ex is_wildcard room"
    and ev: "dget (pe_flattened_keys e) ''type'' = Some (FValue (SStr ''m.room.message''))"
      "dget (pe_flattened_keys e) ''room_id'' = Some (FValue (SStr room))"
      "EXTENSIBLE_EVENTS \<notin> set (pe_room_version_feature_flags e)"
  shows "run_evaluator rx e p (Some u) dn ts = [Notify, SetTweak ''sound'' (Some (JStr ''default'')) (JObj [])]"
proof -
  let ?i = "story_notify_rule_id room"
  let ?db = "snd (snd (ensure_story_notify_rule (with_push_db x) u (JStr room) (w, db)))"
  have added: "add_push_rule True u ?i 5 (story_conditions (JStr room)) story_actions [] [] db = Inr ?db"
    using pb.ensure_adds [of "(w, db)" u room x] new by simp
  have wf1: "push_db_wf ?db"
    using wf_do_op [OF wf, of "AddRule u ?i 5 (story_conditions (JStr room)) story_actions [] []"] added
    by (simp add: do_op_def)
  have "has_rule u ?i 5 (story_conditions (JStr room)) story_actions ?db"
    using add_highest_has_rule [OF wf added] by simp
  then have kept: "push_db_wf db'" "has_rule u ?i 5 (story_conditions (JStr room)) story_actions db'"
    using ops_keep_rule [OF wf1 ops] by (simp_all add: db')
  let ?pre = "takeWhile (\<lambda>r. prow_rule_id r \<noteq> ?i) (class_rows db' u 5)"
  obtain n rest where n: "class_rows db' u 5 = ?pre @ n # rest" "prow_rule_id n = ?i" "prow_class n = 5"
      "prow_conditions n = story_conditions (JStr room)" "prow_actions n = story_actions"
    using kept by (rule class_rows_at_rule)
  have p: "p = \<lparr>fp_rules = new_push_rules (map rule_of (sorted_rows db' u)),
      fp_enabled_map = get_push_rules_enabled_for_user db' u, fp_flags = flags\<rparr>"
    using load unfolding get_push_rules_for_user_def by (rule load_rules_Inr)
  let ?own = "filter (\<lambda>r. BASE_RULES_BY_ID (prow_rule_id r) = None)"
  have "override_rules (fp_rules p) = map rule_of (?own (class_rows db' u 5))"
    using own_rules [of 5 db' u] by (simp add: p new_push_rules_def Let_def)
  also have "\<dots> = map rule_of (?own (?pre @ n # rest))" using n(1) by argo
  finally have ov: "override_rules (fp_rules p) = map rule_of (?own ?pre) @ rule_of n # map rule_of (?own rest)"
    by (simp add: n(2) story_rule_not_base)
  have r: "pr_rule_id (rule_of n) = ?i" "pr_conditions (rule_of n) = [EventMatch ''type'' ''m.room.message'', EventMatch ''room_id'' room]"
      "pr_actions (rule_of n) = [Notify, SetTweak ''sound'' (Some (JStr ''default'')) (JObj [])]" "pr_default_enabled (rule_of n)"
    by (simp_all add: rule_of_def n(2-5) parse_story_conditions parse_story_actions del: map_map)
  have "\<not> list_ex is_wildcard ''m.room.message''" by (simp add: is_wildcard_def)
  then have ap: "rule_applies rx e (Some u) dn ts (rule_of n)"
    using ev plain by (simp add: rule_applies_def r story_rule_not_legacy match_exact)
  have id: "pr_rule_id (rule_of q) = prow_rule_id q" for q by (simp add: rule_of_def)
  have "run_evaluator rx e p (Some u) dn ts = effective_actions (rule_of n)"
  proof (rule run_override [OF ov _ _ master _ _ _ ap])
    show "\<forall>q \<in> set (rule_of n # map rule_of (?own ?pre)). BASE_RULES_BY_ID (pr_rule_id q) = None"
      by (auto simp: id n(2) story_rule_not_base)
    show "fp_rules p = new_push_rules (map rule_of (sorted_rows db' u))" by (simp add: p)
    show "\<forall>q \<in> set (map rule_of (?own ?pre)). dget (fp_enabled_map p) (pr_rule_id q) = Some False
        \<or> \<not> rule_applies rx e (Some u) dn ts q"
      using before by (auto simp: id)
    show "rule_available (fp_flags p) (pr_rule_id (rule_of n))" using av by (simp add: p r)
    show "dget_default (fp_enabled_map p) (pr_rule_id (rule_of n)) (pr_default_enabled (rule_of n))"
      using on r(4) by (auto simp: r(1) dget_default_def dget_def split: option.splits)
  qed
  then show ?thesis by (simp add: effective_actions_def r(3))
qed

definition sample_stories :: "unit stories" where
  "sample_stories = \<lparr>so_server_name = ''s'', so_ai_bot_localparts = [''liza''], so_has_store = True,
     so_federation_whitelist = None, so_str = (\<lambda>_. []),
     so_get_global = (\<lambda>u t w. Inr (if t = ''m.direct'' then Some [(''@b:t'', JList [JStr ''!dm:s''])]
        else Some [(''room_id'', JStr ''!st:s'')])),
     so_put_global = (\<lambda>u t d w. (Inr (), w)), so_create_room = (\<lambda>u d w. (Inr ''!new:s'', w)),
     so_update_room_membership = (\<lambda>a b r m h w. (Inr (), w)), so_send_event = (\<lambda>q w. (Inr ''$e'', w)),
     so_push_rule_exists = (\<lambda>u i w. Inr False), so_add_push_rule = (\<lambda>u i c cs as w. (Inr (), w)),
     so_tables = (\<lambda>w. Inl PyException)\<rparr>"

definition story_evaluator :: "string \<Rightarrow> string \<Rightarrow> (string \<times> flat_value) list \<Rightarrow> evaluator" where
  "story_evaluator t room rest = \<lparr>pe_flattened_keys = (''type'', FValue (SStr t)) # (''room_id'', FValue (SStr room)) # rest,
     pe_has_mentions = False, pe_room_member_count = 3, pe_notification_power_levels = [],
     pe_sender_power_level = Some 100, pe_related_events = [], pe_related_event_match_enabled = False,
     pe_room_version_feature_flags = [], pe_msc3931_enabled = False, pe_msc4210_enabled = False,
     pe_msc4306_enabled = False\<rparr>"

text \<open>
  The viewer later adds an override rule for another room, which goes before the rule for stories,
  mutes the story room, and switches the rule for stories off and on again.
\<close>

definition viewer_ops :: "push_op list" where
  "viewer_ops = [AddRule ''@b:s'' ''global/override/own'' 5 (mute_room_conditions (JStr ''!other:s'')) [JStr ''dont_notify''] [] [],
     AddRule ''@b:s'' ''global/room/!r:s'' 3 (mute_room_conditions (JStr ''!r:s'')) [JStr ''dont_notify''] [] [],
     EnableRule ''@b:s'' (story_notify_rule_id ''!r:s'') False False, EnableRule ''@b:s'' (story_notify_rule_id ''!r:s'') True False]"

definition viewer_db :: push_db where
  "viewer_db = fold do_op viewer_ops
     (snd (snd (ensure_story_notify_rule (with_push_db sample_stories) ''@b:s'' (JStr ''!r:s'') ((), empty_push_db))))"

lemma viewer_loads:
  "case get_push_rules_for_user no_flags viewer_db ''@b:s'' of
     Inr p \<Rightarrow> dget (fp_enabled_map p) MASTER \<noteq> Some True \<and> dget (fp_enabled_map p) (story_notify_rule_id ''!r:s'') \<noteq> Some False
   | Inl _ \<Rightarrow> False"
  by code_simp

theorem story_rule_notifies_witness:
  "\<exists>p. get_push_rules_for_user no_flags viewer_db ''@b:s'' = Inr p
    \<and> run_evaluator sample_regex (story_evaluator ''m.room.message'' ''!r:s'' []) p (Some ''@b:s'') None None
      = [Notify, SetTweak ''sound'' (Some (JStr ''default'')) (JObj [])]"
proof -
  obtain p where p: "get_push_rules_for_user no_flags viewer_db ''@b:s'' = Inr p"
      "dget (fp_enabled_map p) MASTER \<noteq> Some True" "dget (fp_enabled_map p) (story_notify_rule_id ''!r:s'') \<noteq> Some False"
    using viewer_loads by (auto split: sum.splits)
  have "run_evaluator sample_regex (story_evaluator ''m.room.message'' ''!r:s'' []) p (Some ''@b:s'') None None
      = [Notify, SetTweak ''sound'' (Some (JStr ''default'')) (JObj [])]"
  proof (rule story_rule_notifies [OF _ _ _ viewer_db_def p])
    show "push_db_wf empty_push_db" by (simp add: push_db_wf_def empty_push_db_def)
    show "find_row empty_push_db ''@b:s'' (story_notify_rule_id ''!r:s'') = None" by (simp add: find_row_def empty_push_db_def)
    have "list_all (spares ''@b:s'' (story_notify_rule_id ''!r:s'')) viewer_ops" by code_simp
    then show "\<forall>op \<in> set viewer_ops. spares ''@b:s'' (story_notify_rule_id ''!r:s'') op" by (simp add: list_all_iff)
    have "list_all (\<lambda>r. \<not> rule_applies sample_regex (story_evaluator ''m.room.message'' ''!r:s'' []) (Some ''@b:s'') None None (rule_of r))
        (takeWhile (\<lambda>r. prow_rule_id r \<noteq> story_notify_rule_id ''!r:s'') (class_rows viewer_db ''@b:s'' 5))" by code_simp
    then show "\<forall>r \<in> set (takeWhile (\<lambda>r. prow_rule_id r \<noteq> story_notify_rule_id ''!r:s'') (class_rows viewer_db ''@b:s'' 5)).
        dget (fp_enabled_map p) (prow_rule_id r) = Some False
        \<or> \<not> rule_applies sample_regex (story_evaluator ''m.room.message'' ''!r:s'' []) (Some ''@b:s'') None None (rule_of r)"
      by (simp add: list_all_iff)
    show "rule_available no_flags (story_notify_rule_id ''!r:s'')" by code_simp
    show "\<not> list_ex is_wildcard ''!r:s''" by (simp add: is_wildcard_def)
  qed (simp_all add: story_evaluator_def dget_def)
  then show ?thesis using p(1) by blast
qed

section \<open>What the mute does not silence\<close>

text \<open>
  The rule that mutes a room does not silence the invite into it: the base rule for invites is an
  override and comes first, so the viewer is notified with a sound although the room was muted
  before he was invited.
\<close>

theorem room_mute_leaves_invites:
  "let db = snd (snd (mute_room_for_local_user (with_push_db sample_stories) ''@b:s'' (JStr ''!r:s'') ((), empty_push_db)))
   in find_row db ''@b:s'' ''global/room/!r:s'' \<noteq> None
      \<and> (case get_push_rules_for_user no_flags db ''@b:s'' of
           Inr p \<Rightarrow> run_evaluator sample_regex (story_evaluator ''m.room.member'' ''!r:s''
               [(''content.membership'', FValue (SStr ''invite'')), (''state_key'', FValue (SStr ''@b:s''))])
               p (Some ''@b:s'') None None = [Notify, HIGHLIGHT_FALSE_ACTION, SOUND_ACTION]
         | Inl _ \<Rightarrow> False)"
  by code_simp

section \<open>Leaving a direct chat\<close>

text \<open>
  C40: leaving or being banned from a chat never removes anybody from a story room. Account data that
  a module reads is frozen: its dictionaries are no \<open>dict\<close> and its lists no \<open>list\<close>, and the test that
  the chat is a registered direct chat asks for both. So the hook does nothing, whatever \<open>m.direct\<close>
  holds, on the server of the leaver and on that of the other.
\<close>

theorem leave_never_unsubscribes:
  assumes "ev_type ev = ''m.room.member''" and "ev_state_key ev = Some leaver"
    and "dget_none (ev_content ev) ''membership'' \<in> {JStr ''leave'', JStr ''ban''}"
  shows "stories_on_new_event x ev st w = (Inr (), w)"
proof -
  have "\<not> room_is_registered_dm x leaver r w'" for r w'
    by (auto simp: room_is_registered_dm_def isinstance_dict_def frozen_kind_def split: sum.splits option.splits)
  then show ?thesis
    using assms
    by (auto simp: stories_on_new_event_def is_direct_membership_join_def Let_def cbind_def cres_def state_key_of_def)
qed

text \<open>A direct chat that both users have registered is left.\<close>

definition dm_left :: event where
  "dm_left = sample_event ''$l'' ''m.room.member'' (Some ''@a:s'') ''@a:s'' [(''membership'', JStr ''leave'')] []"

theorem leave_never_unsubscribes_witness:
  "stories_on_new_event sample_stories dm_left
     [((''m.room.member'', ''@a:s''), dm_left),
      ((''m.room.member'', ''@b:t''), sample_event ''$j'' ''m.room.member'' (Some ''@b:t'') ''@b:t'' [(''membership'', JStr ''join'')] [])]
     () = (Inr (), ())
   \<and> so_get_global sample_stories ''@a:s'' ''m.direct'' () = Inr (Some [(''@b:t'', JList [JStr ''!dm:s''])])"
proof
  show "stories_on_new_event sample_stories dm_left
     [((''m.room.member'', ''@a:s''), dm_left),
      ((''m.room.member'', ''@b:t''), sample_event ''$j'' ''m.room.member'' (Some ''@b:t'') ''@b:t'' [(''membership'', JStr ''join'')] [])]
     () = (Inr (), ())"
    by (rule leave_never_unsubscribes) (simp_all add: dm_left_def sample_event_def dget_none_def)
qed (simp add: sample_stories_def)

end
