(* ===== verification/Sync_Gate.thy ===== *)
theory Sync_Gate
  imports Stories
begin

text \<open>
  The gate of hidden rooms: the module \<open>chat_topology_sync_gate\<close> (\<open>__init__.py\<close>, \<open>_storage.py\<close>,
  \<open>_version_gate_client.py\<close>), the endpoint by which a device reports its build
  (\<open>rest/client/chat_topology.py\<close>) and the patch of \<open>/sync\<close> that leaves hidden rooms out for devices
  that are too old (\<open>handlers/sync.py\<close>, from line 1950).

  The state of the module is the record \<open>gate\<close>: its two tables and its two caches. What it reads of
  the homeserver is the record \<open>gate_world\<close>: who is joined to which room, and the content of the
  topology and creation events of a room. The service that knows the smallest build for each
  platform is a function from addresses to answers, \<open>None\<close> where the request fails; the clock is an
  argument. The schema of the tables, logging and the constructor's registration are left out.
\<close>

section \<open>Thresholds (\<open>_version_gate_client.py\<close>)\<close>

definition BUNDLES_BY_PLATFORM :: "(string \<times> string list) list" where
  "BUNDLES_BY_PLATFORM =
     [(''ios'', [''ru.prodamus.liza'', ''com.prodamus.laba.liza'']),
      (''macos'', [''ru.prodamus.liza'', ''com.prodamus.laba.liza''])]"

record thresholds =
  th_base_url :: string
  th_ttl_seconds :: int
  th_platforms :: "string list"
  th_cache :: "(string \<times> json) list"
  th_cache_ts :: "(string \<times> rat) list"

definition rstrip_slash :: "string \<Rightarrow> string" where
  "rstrip_slash s = rev (dropWhile (\<lambda>c. c = CHR ''/'') (rev s))"

definition new_thresholds :: "string \<Rightarrow> int \<Rightarrow> string list \<Rightarrow> thresholds" where
  "new_thresholds base_url ttl platforms =
     \<lparr>th_base_url = rstrip_slash base_url, th_ttl_seconds = ttl, th_platforms = platforms,
      th_cache = [], th_cache_ts = []\<rparr>"

text \<open>The addresses that are asked in turn; the characters of a bundle id are not encoded.\<close>

definition gate_urls :: "thresholds \<Rightarrow> string \<Rightarrow> string list" where
  "gate_urls t platform =
     (let url = th_base_url t @ ''/version/'' @ platform
      in case dget BUNDLES_BY_PLATFORM platform of
           Some bundles \<Rightarrow> map (\<lambda>b. url @ ''?bundle='' @ b) bundles
         | None \<Rightarrow> [url])"

fun first_answer :: "(string \<Rightarrow> jdict option) \<Rightarrow> string list \<Rightarrow> jdict option" where
  "first_answer http [] = None"
| "first_answer http (u # us) = (case http u of Some d \<Rightarrow> Some d | None \<Rightarrow> first_answer http us)"

definition get_min_build ::
    "(string \<Rightarrow> jdict option) \<Rightarrow> rat \<Rightarrow> string \<Rightarrow> thresholds \<Rightarrow> json \<times> thresholds" where
  "get_min_build http now platform t =
     (if platform \<notin> set (th_platforms t) then (JNull, t)
      else if (case dget (th_cache_ts t) platform of
                 Some last_fetch \<Rightarrow> now - last_fetch < of_int (th_ttl_seconds t) | None \<Rightarrow> False)
      then (dget_none (th_cache t) platform, t)
      else (case first_answer http (gate_urls t platform) of
          None \<Rightarrow> (dget_none (th_cache t) platform, t)
        | Some d \<Rightarrow> (let threshold = dget_none d ''min_stories_build''
                     in (threshold, t\<lparr>th_cache := dset (th_cache t) platform threshold,
                                      th_cache_ts := dset (th_cache_ts t) platform now\<rparr>))))"

definition refresh_if_stale :: "(string \<Rightarrow> jdict option) \<Rightarrow> rat \<Rightarrow> thresholds \<Rightarrow> thresholds" where
  "refresh_if_stale http now t = fold (\<lambda>p t. snd (get_min_build http now p t)) (th_platforms t) t"

section \<open>Capabilities, hidden rooms and markers (\<open>_storage.py\<close>)\<close>

record capability =
  cap_user_id :: string
  cap_platform :: string
  cap_build :: int

definition upsert_capability ::
    "string \<Rightarrow> capability \<Rightarrow> (string \<times> capability) list \<Rightarrow> bool \<times> (string \<times> capability) list" where
  "upsert_capability device_id c table =
     ((case dget table device_id of None \<Rightarrow> True | Some old \<Rightarrow> cap_build c > cap_build old),
      dset table device_id c)"

definition get_capability :: "(string \<times> capability) list \<Rightarrow> string \<Rightarrow> capability option" where
  "get_capability table device_id = dget table device_id"

record gate_world =
  gw_joined :: "(string \<times> string) list"
  gw_topology :: "string \<Rightarrow> jdict option"
  gw_create :: "string \<Rightarrow> jdict option"

definition rooms_for_user :: "gate_world \<Rightarrow> string \<Rightarrow> string list" where
  "rooms_for_user w user_id = remdups (map snd (filter (\<lambda>m. fst m = user_id) (gw_joined w)))"

definition room_hidden :: "gate_world \<Rightarrow> string \<Rightarrow> bool" where
  "room_hidden w room_id = (case gw_topology w room_id of
      Some content \<Rightarrow> dget_none content ''hidden'' = JBool True
    | None \<Rightarrow> (case gw_create w room_id of
          None \<Rightarrow> False
        | Some creation_content \<Rightarrow> dget_none creation_content ''com.liza.stories'' = JBool True
            \<or> dget_none creation_content ''com.liza.chat.type'' = JStr ''stories''))"

text \<open>
  The search for the hidden rooms of a user gives way at every \<open>await\<close>: before the list of rooms is
  read, and before the state of each room is read. A search under way waits for one of the two, with
  the rooms still to be read and those found so far; \<open>lookup_next\<close> is what it does when it goes on,
  up to its next \<open>await\<close> or to its end, where the result is put into the cache. (The creation event of a
  room never changes, so the two reads of one room are one step.)
\<close>

datatype lookup =
    WantRooms string
  | WantState string "string list" "string list"

type_synonym hidden_cache = "(string \<times> string list) list"

definition lookup_continue :: "string \<Rightarrow> string list \<Rightarrow> string list \<Rightarrow> hidden_cache \<Rightarrow> (lookup + string list) \<times> hidden_cache" where
  "lookup_continue user_id todo hidden cache =
     (if todo = [] then (Inr hidden, dset cache user_id hidden) else (Inl (WantState user_id todo hidden), cache))"

fun lookup_next :: "gate_world \<Rightarrow> lookup \<Rightarrow> hidden_cache \<Rightarrow> (lookup + string list) \<times> hidden_cache" where
  "lookup_next w (WantRooms user_id) cache = lookup_continue user_id (rooms_for_user w user_id) [] cache"
| "lookup_next w (WantState user_id [] hidden) cache = lookup_continue user_id [] hidden cache"
| "lookup_next w (WantState user_id (room_id # todo) hidden) cache =
     lookup_continue user_id todo (if room_hidden w room_id then hidden @ [room_id] else hidden) cache"

text \<open>
  The search as a whole, when nothing comes between its steps: \<open>Sync_Gate_Runs\<close> shows that the steps
  compose to it, and interleaves them.
\<close>

definition get_hidden_room_ids_for_user ::
    "gate_world \<Rightarrow> string \<Rightarrow> hidden_cache \<Rightarrow> string list \<times> hidden_cache" where
  "get_hidden_room_ids_for_user w user_id cache = (case dget cache user_id of
      Some cached \<Rightarrow> (cached, cache)
    | None \<Rightarrow> (let hidden = filter (room_hidden w) (rooms_for_user w user_id)
               in (hidden, dset cache user_id hidden)))"

definition invalidate_user :: "string \<Rightarrow> (string \<times> string list) list \<Rightarrow> (string \<times> string list) list" where
  "invalidate_user user_id cache = AList.delete user_id cache"

definition mark :: "string \<Rightarrow> string list \<Rightarrow> string list" where
  "mark device_id marks = (if device_id \<in> set marks then marks else marks @ [device_id])"

definition consume :: "string \<Rightarrow> string list \<Rightarrow> bool \<times> string list" where
  "consume device_id marks = (device_id \<in> set marks, filter (\<lambda>d. d \<noteq> device_id) marks)"

section \<open>The module (\<open>__init__.py\<close>)\<close>

definition KNOWN_PLATFORMS :: "string list" where
  "KNOWN_PLATFORMS = [''ios'', ''macos'', ''android'', ''windows'', ''web'']"

record gate =
  gt_enabled :: bool
  gt_thresholds :: "thresholds option"
  gt_capabilities :: "(string \<times> capability) list"
  gt_marks :: "string list"
  gt_hidden_cache :: "(string \<times> string list) list"

text \<open>The module as its constructor makes it; an empty address counts as none.\<close>

definition new_gate :: "bool \<Rightarrow> string option \<Rightarrow> int \<Rightarrow> gate" where
  "new_gate enabled base_url ttl =
     \<lparr>gt_enabled = enabled,
      gt_thresholds = (case base_url of
          Some (c # cs) \<Rightarrow> Some (new_thresholds (c # cs) ttl KNOWN_PLATFORMS) | _ \<Rightarrow> None),
      gt_capabilities = [], gt_marks = [], gt_hidden_cache = []\<rparr>"

text \<open>\<open>build >= min_build\<close> for an integer and a JSON value; the flag of \<open>JInf\<close> says that it is
  negative.\<close>

fun ge_json :: "int \<Rightarrow> json \<Rightarrow> bool res" where
  "ge_json n (JInt i) = Inr (n \<ge> i)"
| "ge_json n (JBool b) = Inr (n \<ge> (if b then 1 else 0))"
| "ge_json n (JFloat r) = Inr (of_int n \<ge> r)"
| "ge_json n (JInf neg) = Inr neg"
| "ge_json n _ = Inl PyTypeError"

definition device_passed_gate ::
    "(string \<Rightarrow> jdict option) \<Rightarrow> rat \<Rightarrow> string \<Rightarrow> gate \<Rightarrow> bool res \<times> gate" where
  "device_passed_gate http now device_id g =
     (if \<not> gt_enabled g then (Inr False, g)
      else (case gt_thresholds g of
          None \<Rightarrow> (Inr False, g)
        | Some t \<Rightarrow> (case get_capability (gt_capabilities g) device_id of
              None \<Rightarrow> (Inr False, g)
            | Some c \<Rightarrow> (case get_min_build http now (cap_platform c) t of
                  (min_build, t') \<Rightarrow>
                    (if min_build = JNull then Inr False else ge_json (cap_build c) min_build,
                     g\<lparr>gt_thresholds := Some t'\<rparr>)))))"

text \<open>The hook after an event; \<open>state_events\<close> are the contents of the state events of its room.\<close>

definition gate_on_new_event :: "string \<Rightarrow> ((string \<times> string) \<times> jdict) list \<Rightarrow> gate \<Rightarrow> gate" where
  "gate_on_new_event event_type state_events g =
     (if event_type \<noteq> ''com.liza.chat.topology'' then g
      else g\<lparr>gt_hidden_cache := fold (\<lambda>((t, member_id), content) cache.
             if t = ''m.room.member'' \<and> dget_none content ''membership'' = JStr ''join''
             then invalidate_user member_id cache else cache) state_events (gt_hidden_cache g)\<rparr>)"

section \<open>The endpoint and the patch of sync\<close>

text \<open>\<open>on_PUT\<close>; \<open>None\<close> is a homeserver without the module.\<close>

definition put_capabilities ::
    "(string \<Rightarrow> jdict option) \<Rightarrow> rat \<Rightarrow> string option \<Rightarrow> string \<Rightarrow> string \<Rightarrow> string \<Rightarrow> int \<Rightarrow> gate option
      \<Rightarrow> unit res \<times> gate option" where
  "put_capabilities http now requester_device user_id device_id platform build m =
     (if requester_device \<noteq> Some device_id then (Inl (SynapseError 403 FORBIDDEN), m)
      else if platform \<notin> set KNOWN_PLATFORMS then (Inl (SynapseError 400 INVALID_PARAM), m)
      else (case m of
          None \<Rightarrow> (Inr (), None)
        | Some g \<Rightarrow>
            (case upsert_capability device_id
                    \<lparr>cap_user_id = user_id, cap_platform = platform, cap_build = build\<rparr> (gt_capabilities g) of
               (increased, table) \<Rightarrow>
                 (let g = g\<lparr>gt_capabilities := table\<rparr>
                  in if \<not> increased then (Inr (), Some g)
                     else (case device_passed_gate http now device_id g of
                         (Inl e, g) \<Rightarrow> (Inl e, Some g)
                       | (Inr passed, g) \<Rightarrow>
                           (Inr (), Some (if passed then g\<lparr>gt_marks := mark device_id (gt_marks g)\<rparr> else g)))))))"

text \<open>The rooms that the gate excludes from a sync.\<close>

definition gate_exclusions ::
    "(string \<Rightarrow> jdict option) \<Rightarrow> rat \<Rightarrow> gate_world \<Rightarrow> string \<Rightarrow> string option \<Rightarrow> gate
      \<Rightarrow> string list res \<times> gate" where
  "gate_exclusions http now w user_id device_id g =
     (case (case device_id of Some d \<Rightarrow> device_passed_gate http now d g | None \<Rightarrow> (Inr False, g)) of
        (Inl e, g) \<Rightarrow> (Inl e, g)
      | (Inr True, g) \<Rightarrow> (Inr [], g)
      | (Inr False, g) \<Rightarrow> (case get_hidden_room_ids_for_user w user_id (gt_hidden_cache g) of
            (hidden, cache) \<Rightarrow> (Inr hidden, g\<lparr>gt_hidden_cache := cache\<rparr>)))"

text \<open>The rooms that are sent with their full state to a device that has just passed the gate.\<close>

definition gate_forced ::
    "gate_world \<Rightarrow> string \<Rightarrow> string option \<Rightarrow> bool \<Rightarrow> gate \<Rightarrow> string list \<times> gate" where
  "gate_forced w user_id device_id since g = (case device_id of
      Some d \<Rightarrow>
        if since
        then (case consume d (gt_marks g) of
            (True, marks) \<Rightarrow> (case get_hidden_room_ids_for_user w user_id (gt_hidden_cache g) of
                (hidden, cache) \<Rightarrow> (hidden, g\<lparr>gt_marks := marks, gt_hidden_cache := cache\<rparr>))
          | (False, marks) \<Rightarrow> ([], g\<lparr>gt_marks := marks\<rparr>))
        else ([], g)
    | None \<Rightarrow> ([], g))"

text \<open>
  The joined rooms of a sync and the rooms forced to be newly joined; \<open>since\<close> says whether the sync
  is incremental.
\<close>

definition gate_sync ::
    "(string \<Rightarrow> jdict option) \<Rightarrow> rat \<Rightarrow> gate_world \<Rightarrow> string \<Rightarrow> string option \<Rightarrow> bool \<Rightarrow> string list
      \<Rightarrow> string list \<Rightarrow> string list \<Rightarrow> gate option \<Rightarrow> (string list \<times> string list) res \<times> gate option" where
  "gate_sync http now w user_id device_id since joined excluded forced m =
     (case m of
        Some g \<Rightarrow>
          if gt_enabled g
          then (case gate_exclusions http now w user_id device_id g of
              (Inl e, g) \<Rightarrow> (Inl e, Some g)
            | (Inr hidden, g) \<Rightarrow> (case gate_forced w user_id device_id since g of
                  (newly, g) \<Rightarrow>
                    (Inr (filter (\<lambda>r. r \<notin> set excluded \<union> set hidden) joined, forced @ newly), Some g)))
          else (Inr (filter (\<lambda>r. r \<notin> set excluded) joined, forced), m)
      | None \<Rightarrow> (Inr (filter (\<lambda>r. r \<notin> set excluded) joined, forced), m))"

end
