(* ===== verification/Sync_Gate_Props.thy ===== *)
theory Sync_Gate_Props
  imports Sync_Gate
begin

text \<open>
  The gate of hidden rooms: what each operation leaves alone, that a right cache gives a right answer,
  and, over all sequences of reports, syncs, joins, leaves and changes of the topology, that no
  device passes without an answer of the version service. \<open>Sync_Gate_Runs\<close> takes the operations apart
  at their \<open>await\<close>s.
\<close>

section \<open>Runs\<close>

datatype gate_step =
    Report "string \<Rightarrow> jdict option" rat "string option" string string string int
  | Sync "string \<Rightarrow> jdict option" rat string "string option" bool
  | Join string string
  | Leave string string
  | Topology string jdict

text \<open>The state events of a room after a change of its topology.\<close>

definition topology_state :: "gate_world \<Rightarrow> string \<Rightarrow> jdict \<Rightarrow> ((string \<times> string) \<times> jdict) list" where
  "topology_state w room_id content =
     ((''com.liza.chat.topology'', []), content)
     # map (\<lambda>m. ((''m.room.member'', fst m), [(''membership'', JStr ''join'')]))
         (filter (\<lambda>m. snd m = room_id) (gw_joined w))"

fun do_step :: "gate_step \<Rightarrow> gate \<times> gate_world \<Rightarrow> gate \<times> gate_world" where
  "do_step (Report http now rd u d p b) (g, w) =
     (case snd (put_capabilities http now rd u d p b (Some g)) of Some g' \<Rightarrow> (g', w) | None \<Rightarrow> (g, w))"
| "do_step (Sync http now u d since) (g, w) =
     (case snd (gate_sync http now w u d since (rooms_for_user w u) [] [] (Some g)) of
        Some g' \<Rightarrow> (g', w) | None \<Rightarrow> (g, w))"
| "do_step (Join u r) (g, w) = (g, w\<lparr>gw_joined := gw_joined w @ [(u, r)]\<rparr>)"
| "do_step (Leave u r) (g, w) = (g, w\<lparr>gw_joined := removeAll (u, r) (gw_joined w)\<rparr>)"
| "do_step (Topology r c) (g, w) =
     (let w = w\<lparr>gw_topology := (gw_topology w)(r \<mapsto> c)\<rparr>
      in (gate_on_new_event ''com.liza.chat.topology'' (topology_state w r c) g, w))"

definition run_gate :: "gate_step list \<Rightarrow> gate \<times> gate_world \<Rightarrow> gate \<times> gate_world" where
  "run_gate steps s = fold do_step steps s"

text \<open>The service as a step sees it.\<close>

fun asked :: "gate_step \<Rightarrow> (string \<Rightarrow> jdict option) set" where
  "asked (Report http now rd u d p b) = {http}"
| "asked (Sync http now u d since) = {http}"
| "asked _ = {}"

section \<open>What an operation leaves alone\<close>

lemma device_passed_keeps [simp]:
  "gt_hidden_cache (snd (device_passed_gate http now d g)) = gt_hidden_cache g"
  "gt_marks (snd (device_passed_gate http now d g)) = gt_marks g"
  "gt_capabilities (snd (device_passed_gate http now d g)) = gt_capabilities g"
  "gt_enabled (snd (device_passed_gate http now d g)) = gt_enabled g"
  by (simp_all add: device_passed_gate_def split: option.split prod.split)

lemma device_passedD:
  "device_passed_gate http now d g = (r, g') \<Longrightarrow> gt_hidden_cache g' = gt_hidden_cache g
     \<and> gt_marks g' = gt_marks g \<and> gt_capabilities g' = gt_capabilities g \<and> gt_enabled g' = gt_enabled g"
  using device_passed_keeps [of http now d g] by simp

lemma put_capabilities_keeps:
  assumes "put_capabilities http now rd u d p b (Some g) = (r, m)"
  obtains g' where "m = Some g'" and "gt_hidden_cache g' = gt_hidden_cache g"
    and "gt_enabled g' = gt_enabled g" and "set (gt_marks g) \<subseteq> set (gt_marks g')"
  using assms unfolding put_capabilities_def
  by (auto simp: Let_def mark_def subset_insertI split: if_splits prod.splits sum.splits dest!: device_passedD)

section \<open>The cache of hidden rooms\<close>

text \<open>The cached list of a user is right for the rooms of the user.\<close>

definition coherent :: "gate \<Rightarrow> gate_world \<Rightarrow> string \<Rightarrow> bool" where
  "coherent g w u = (case dget (gt_hidden_cache g) u of
      None \<Rightarrow> True
    | Some hs \<Rightarrow> \<forall>r \<in> set (rooms_for_user w u). r \<in> set hs \<longleftrightarrow> room_hidden w r)"

lemma coherent_cong:
  "gt_hidden_cache g' = gt_hidden_cache g \<Longrightarrow> coherent g' w u = coherent g w u"
  by (simp add: coherent_def)

text \<open>Looking a user up keeps every cache right, and the answer is right for the rooms of the user.\<close>

lemma get_hidden_coherent:
  assumes "get_hidden_room_ids_for_user w v (gt_hidden_cache g) = (hidden, cache)"
    and "coherent g w u"
  shows "coherent (g\<lparr>gt_hidden_cache := cache\<rparr>) w u"
    and "u = v \<Longrightarrow> \<forall>r \<in> set (rooms_for_user w v). r \<in> set hidden \<longleftrightarrow> room_hidden w r"
proof -
  have "coherent (g\<lparr>gt_hidden_cache := cache\<rparr>) w u
      \<and> (u = v \<longrightarrow> (\<forall>r \<in> set (rooms_for_user w v). r \<in> set hidden \<longleftrightarrow> room_hidden w r))"
  proof (cases "dget (gt_hidden_cache g) v")
    case None
    then have "hidden = filter (room_hidden w) (rooms_for_user w v)" and "cache = dset (gt_hidden_cache g) v hidden"
      using assms(1) by (auto simp: get_hidden_room_ids_for_user_def Let_def)
    then show ?thesis
      using assms(2) by (cases "u = v") (simp_all add: coherent_def dget_dset)
  next
    case (Some hs)
    then have "hidden = hs" and "cache = gt_hidden_cache g"
      using assms(1) by (auto simp: get_hidden_room_ids_for_user_def)
    then show ?thesis
      using assms(2) Some by (auto simp: coherent_def)
  qed
  then show "coherent (g\<lparr>gt_hidden_cache := cache\<rparr>) w u"
    and "u = v \<Longrightarrow> \<forall>r \<in> set (rooms_for_user w v). r \<in> set hidden \<longleftrightarrow> room_hidden w r"
    by blast+
qed

lemma gate_exclusionsE:
  assumes "gate_exclusions http now w v dev g = (r, g')"
  obtains g1 where "g1 = (case dev of Some d \<Rightarrow> snd (device_passed_gate http now d g) | None \<Rightarrow> g)"
    and "g' = g1 \<or> (\<exists>hidden cache. get_hidden_room_ids_for_user w v (gt_hidden_cache g1) = (hidden, cache)
            \<and> r = Inr hidden \<and> g' = g1\<lparr>gt_hidden_cache := cache\<rparr>)"
proof (rule that [OF refl])
  let ?g1 = "case dev of Some d \<Rightarrow> snd (device_passed_gate http now d g) | None \<Rightarrow> g"
  obtain ok where ok: "(case dev of Some d \<Rightarrow> device_passed_gate http now d g | None \<Rightarrow> (Inr False, g)) = (ok, ?g1)"
    by (cases "case dev of Some d \<Rightarrow> device_passed_gate http now d g | None \<Rightarrow> (Inr False, g)")
      (auto split: option.splits)
  obtain hidden cache where h: "get_hidden_room_ids_for_user w v (gt_hidden_cache ?g1) = (hidden, cache)"
    by fastforce
  show "g' = ?g1 \<or> (\<exists>hidden cache. get_hidden_room_ids_for_user w v (gt_hidden_cache ?g1) = (hidden, cache)
      \<and> r = Inr hidden \<and> g' = ?g1\<lparr>gt_hidden_cache := cache\<rparr>)"
    using assms h unfolding gate_exclusions_def ok
    by (auto split: sum.splits bool.splits)
qed

lemma gate_exclusions_keeps:
  assumes "gate_exclusions http now w v dev g = (r, g')"
  shows "coherent g w u \<Longrightarrow> coherent g' w u" and "gt_enabled g' = gt_enabled g" and "gt_marks g' = gt_marks g"
proof -
  obtain g1 where g1: "g1 = (case dev of Some d \<Rightarrow> snd (device_passed_gate http now d g) | None \<Rightarrow> g)"
    and g': "g' = g1 \<or> (\<exists>hidden cache. get_hidden_room_ids_for_user w v (gt_hidden_cache g1) = (hidden, cache)
            \<and> r = Inr hidden \<and> g' = g1\<lparr>gt_hidden_cache := cache\<rparr>)"
    using assms by (rule gate_exclusionsE)
  have same: "gt_hidden_cache g1 = gt_hidden_cache g" "gt_enabled g1 = gt_enabled g" "gt_marks g1 = gt_marks g"
    by (simp_all add: g1 split: option.split)
  then show "gt_enabled g' = gt_enabled g" "gt_marks g' = gt_marks g"
    using g' by auto
  show "coherent g w u \<Longrightarrow> coherent g' w u"
    using g' same(1) get_hidden_coherent(1) [of w v g1] coherent_cong [of g1 g] by auto
qed

lemma gate_forced_keeps:
  assumes "gate_forced w v dev since g = (newly, g')"
  shows "coherent g w u \<Longrightarrow> coherent g' w u" and "gt_enabled g' = gt_enabled g"
    and "d \<in> set (gt_marks g') \<longleftrightarrow> d \<in> set (gt_marks g) \<and> \<not> (since \<and> dev = Some d)"
proof -
  obtain hidden cache where h: "get_hidden_room_ids_for_user w v (gt_hidden_cache g) = (hidden, cache)"
    by fastforce
  note splits = option.splits if_splits
  show "gt_enabled g' = gt_enabled g"
    and "d \<in> set (gt_marks g') \<longleftrightarrow> d \<in> set (gt_marks g) \<and> \<not> (since \<and> dev = Some d)"
    using assms h by (auto simp: gate_forced_def consume_def split: splits bool.splits)
  show "coherent g' w u" if "coherent g w u"
  proof -
    have "gt_hidden_cache g' \<in> {gt_hidden_cache g, cache}"
      using assms h by (auto simp: gate_forced_def consume_def split: splits bool.splits)
    then show ?thesis
      using get_hidden_coherent(1) [OF h that] that coherent_cong [of g' g]
        coherent_cong [of g' "g\<lparr>gt_hidden_cache := cache\<rparr>"] by auto
  qed
qed

text \<open>A sync of an enabled gate that does not raise.\<close>

lemma gate_syncE:
  assumes "gate_sync http now w v dev since joined excluded forced (Some g) = (Inr (shown, fr), m)"
    and "gt_enabled g"
  obtains hidden g1 newly g2 where "gate_exclusions http now w v dev g = (Inr hidden, g1)"
    and "gate_forced w v dev since g1 = (newly, g2)" and "m = Some g2"
    and "shown = filter (\<lambda>r. r \<notin> set excluded \<union> set hidden) joined" and "fr = forced @ newly"
  using assms by (auto simp: gate_sync_def split: prod.splits sum.splits)

lemma rooms_for_user_iff: "r \<in> set (rooms_for_user w u) \<longleftrightarrow> (u, r) \<in> set (gw_joined w)"
  by (force simp: rooms_for_user_def)

section \<open>Devices that have not passed the gate\<close>

text \<open>Whether the device of a sync has passed; a sync without a device has not.\<close>

definition passes :: "(string \<Rightarrow> jdict option) \<Rightarrow> rat \<Rightarrow> string option \<Rightarrow> gate \<Rightarrow> bool res" where
  "passes http now dev g = (case dev of Some d \<Rightarrow> fst (device_passed_gate http now d g) | None \<Rightarrow> Inr False)"

lemma exclusions_not_passed:
  assumes "gate_exclusions http now w u dev g = (Inr hidden, g')" and "passes http now dev g = Inr False"
    and "coherent g w u" and "r \<in> set (rooms_for_user w u)"
  shows "r \<in> set hidden \<longleftrightarrow> room_hidden w r"
proof -
  obtain g1 where g1: "(case dev of Some d \<Rightarrow> device_passed_gate http now d g | None \<Rightarrow> (Inr False, g)) = (Inr False, g1)"
    using assms(2) by (cases dev) (auto simp: passes_def prod_eq_iff)
  have same: "gt_hidden_cache g1 = gt_hidden_cache g"
    using g1 by (cases dev) (auto dest: device_passedD)
  obtain hs cache where h: "get_hidden_room_ids_for_user w u (gt_hidden_cache g1) = (hs, cache)"
    by fastforce
  have "hidden = hs"
    using assms(1) h unfolding gate_exclusions_def g1 by simp
  then show ?thesis
    using get_hidden_coherent(2) [OF h] assms(3,4) coherent_cong [OF same] by blast
qed

section \<open>The gate fails closed\<close>

text \<open>The service has answered with this threshold for the platform.\<close>

definition answered :: "(string \<Rightarrow> jdict option) set \<Rightarrow> thresholds \<Rightarrow> string \<Rightarrow> json \<Rightarrow> bool" where
  "answered H t p v \<longleftrightarrow> (\<exists>http \<in> H. \<exists>url \<in> set (gate_urls t p). \<exists>a.
     http url = Some a \<and> dget_none a ''min_stories_build'' = v)"

definition answered_cache :: "(string \<Rightarrow> jdict option) set \<Rightarrow> gate \<Rightarrow> bool" where
  "answered_cache H g \<longleftrightarrow> (\<forall>t p. gt_thresholds g = Some t \<longrightarrow> dget_none (th_cache t) p \<noteq> JNull
     \<longrightarrow> answered H t p (dget_none (th_cache t) p))"

lemma first_answer_Some: "first_answer http us = Some a \<Longrightarrow> \<exists>u \<in> set us. http u = Some a"
  by (induction us) (auto split: option.splits)

lemma dget_none_dset: "dget_none (dset d k v) k' = (if k' = k then v else dget_none d k')"
  using dget_dset [of d k v k'] by (auto simp: dget_none_def dget_def)

lemma get_min_build_cases:
  assumes "get_min_build http now p t = (v, t')"
  obtains "t' = t" and "v \<in> {JNull, dget_none (th_cache t) p}"
    | a where "first_answer http (gate_urls t p) = Some a" and "v = dget_none a ''min_stories_build''"
      and "t' = t\<lparr>th_cache := dset (th_cache t) p v, th_cache_ts := dset (th_cache_ts t) p now\<rparr>"
proof (cases "first_answer http (gate_urls t p)")
  case None
  have "t' = t" "v \<in> {JNull, dget_none (th_cache t) p}"
    using assms by (auto simp: get_min_build_def None split: if_splits)
  then show ?thesis by (rule that(1))
next
  case (Some a)
  show ?thesis
  proof (cases "get_min_build http now p t \<in> {(JNull, t), (dget_none (th_cache t) p, t)}")
    case True
    then show ?thesis using that(1) assms by auto
  next
    case False
    then have "(v, t') = (let threshold = dget_none a ''min_stories_build''
        in (threshold, t\<lparr>th_cache := dset (th_cache t) p threshold, th_cache_ts := dset (th_cache_ts t) p now\<rparr>))"
      unfolding assms [symmetric] by (simp add: get_min_build_def Some split: if_splits)
    then show ?thesis using that(2) [OF Some] by (simp add: Let_def)
  qed
qed

lemma get_min_build_answered:
  assumes "get_min_build http now p t = (v, t')" and "answered_cache H g" and "gt_thresholds g = Some t"
    and "http \<in> H"
  shows "v \<noteq> JNull \<Longrightarrow> answered H t p v" and "answered_cache H (g\<lparr>gt_thresholds := Some t'\<rparr>)"
    and "th_base_url t' = th_base_url t"
proof -
  have cached: "dget_none (th_cache t) q \<noteq> JNull \<longrightarrow> answered H t q (dget_none (th_cache t) q)" for q
    using assms(2,3) by (simp add: answered_cache_def)
  have upd: "answered_cache H (g\<lparr>gt_thresholds := Some t'\<rparr>)
      \<longleftrightarrow> (\<forall>q. dget_none (th_cache t') q \<noteq> JNull \<longrightarrow> answered H t' q (dget_none (th_cache t') q))"
    by (simp add: answered_cache_def)
  have "(v \<noteq> JNull \<longrightarrow> answered H t p v) \<and> answered_cache H (g\<lparr>gt_thresholds := Some t'\<rparr>)
      \<and> th_base_url t' = th_base_url t"
    using assms(1)
  proof (cases rule: get_min_build_cases)
    case 1
    then show ?thesis
      unfolding upd using cached by auto
  next
    case (2 a)
    obtain url where "url \<in> set (gate_urls t p)" and "http url = Some a"
      using first_answer_Some [OF 2(1)] by blast
    then have new: "answered H t p v"
      using 2(2) assms(4) unfolding answered_def by blast
    have "gate_urls t' = gate_urls t"
      by (rule ext) (simp add: 2(3) gate_urls_def)
    then have "answered H t' = answered H t"
      by (simp add: answered_def fun_eq_iff)
    then show ?thesis
      unfolding upd using new cached by (simp add: 2(3) dget_none_dset)
  qed
  then show "v \<noteq> JNull \<Longrightarrow> answered H t p v" and "answered_cache H (g\<lparr>gt_thresholds := Some t'\<rparr>)"
    and "th_base_url t' = th_base_url t"
    by blast+
qed

lemma answered_cache_cong:
  "gt_thresholds g' = gt_thresholds g \<Longrightarrow> answered_cache H g' = answered_cache H g"
  by (simp add: answered_cache_def)

lemma device_passed_answered:
  assumes "device_passed_gate http now d g = (r, g')" and "answered_cache H g" and "http \<in> H"
  shows "answered_cache H g'"
    and "r = Inr True \<Longrightarrow> \<exists>t c v. gt_thresholds g = Some t \<and> get_capability (gt_capabilities g) d = Some c
       \<and> answered H t (cap_platform c) v \<and> ge_json (cap_build c) v = Inr True"
proof -
  consider "g' = g" and "r = Inr False"
    | t c v t' where "gt_thresholds g = Some t" and "get_capability (gt_capabilities g) d = Some c"
      and "get_min_build http now (cap_platform c) t = (v, t')"
      and "r = (if v = JNull then Inr False else ge_json (cap_build c) v)"
      and "g' = g\<lparr>gt_thresholds := Some t'\<rparr>"
    using assms(1) unfolding device_passed_gate_def
    by (cases "gt_thresholds g"; cases "get_capability (gt_capabilities g) d")
      (fastforce split: if_splits prod.splits)+
  then have "answered_cache H g' \<and> (r = Inr True \<longrightarrow> (\<exists>t c v. gt_thresholds g = Some t
      \<and> get_capability (gt_capabilities g) d = Some c
      \<and> answered H t (cap_platform c) v \<and> ge_json (cap_build c) v = Inr True))"
  proof cases
    case 2
    then show ?thesis
      using get_min_build_answered [OF 2(3) assms(2) 2(1) assms(3)] by auto
  qed (use assms(2) in simp)
  then show "answered_cache H g'"
    and "r = Inr True \<Longrightarrow> \<exists>t c v. gt_thresholds g = Some t \<and> get_capability (gt_capabilities g) d = Some c
       \<and> answered H t (cap_platform c) v \<and> ge_json (cap_build c) v = Inr True"
    by blast+
qed

lemma put_answered:
  assumes "put_capabilities http now rd u d p b (Some g) = (r, Some g')" and "answered_cache H g" and "http \<in> H"
  shows "answered_cache H g'"
proof -
  let ?g = "g\<lparr>gt_capabilities := snd (upsert_capability d
    \<lparr>cap_user_id = u, cap_platform = p, cap_build = b\<rparr> (gt_capabilities g))\<rparr>"
  obtain ok g1 where pass: "device_passed_gate http now d ?g = (ok, g1)"
    by fastforce
  have "gt_thresholds g' \<in> {gt_thresholds g, gt_thresholds g1}"
    using assms(1) pass by (auto simp: put_capabilities_def Let_def split: if_splits prod.splits sum.splits)
  then show ?thesis
    using assms(2) device_passed_answered(1) [OF pass _ assms(3)] answered_cache_cong [of ?g g]
      answered_cache_cong [of g' g] answered_cache_cong [of g' g1] by auto
qed

lemma sync_answered:
  assumes "gate_sync http now w v dev since joined excluded forced (Some g) = (r, Some g')"
    and "answered_cache H g" and "http \<in> H"
  shows "answered_cache H g'"
proof -
  obtain ok g1 where pass: "(case dev of Some d \<Rightarrow> device_passed_gate http now d g | None \<Rightarrow> (Inr False, g)) = (ok, g1)"
    by fastforce
  then have g1: "answered_cache H g1"
    using assms(2,3) device_passed_answered(1) by (cases dev) auto
  obtain res g2 where ex: "gate_exclusions http now w v dev g = (res, g2)"
    by fastforce
  then have g2: "gt_thresholds g2 = gt_thresholds g1"
    unfolding gate_exclusions_def pass by (auto split: sum.splits bool.splits prod.splits)
  have "gt_thresholds (snd (gate_forced w v dev since g2)) = gt_thresholds g2"
    by (auto simp: gate_forced_def split: option.split prod.split bool.split)
  then have "gt_thresholds g' \<in> {gt_thresholds g, gt_thresholds g1}"
    using assms(1) ex g2 by (auto simp: gate_sync_def split: if_splits sum.splits prod.splits)
  then show ?thesis
    using g1 assms(2) answered_cache_cong [of g' g] answered_cache_cong [of g' g1] by auto
qed

lemma step_answered:
  assumes "answered_cache H (fst gw)" and "asked s \<subseteq> H"
  shows "answered_cache H (fst (do_step s gw))"
proof (cases "(s, gw)" rule: do_step.cases)
  case (1 http now rd v d p b g w)
  obtain r m where put: "put_capabilities http now rd v d p b (Some g) = (r, m)"
    by fastforce
  then show ?thesis
    using put_answered [of http now rd v d p b g r _ H] assms 1 by (auto split: option.split)
next
  case (2 http now v d since g w)
  obtain r m where sync: "gate_sync http now w v d since (rooms_for_user w v) [] [] (Some g) = (r, m)"
    by fastforce
  then show ?thesis
    using sync_answered [of http now w v d since _ _ _ g r _ H] assms 2 by (auto split: option.split)
qed (use assms(1) in \<open>auto simp: Let_def gate_on_new_event_def answered_cache_def\<close>)

lemma run_answered:
  assumes "answered_cache H (fst gw)" and "(\<Union>s \<in> set steps. asked s) \<subseteq> H"
  shows "answered_cache H (fst (run_gate steps gw))"
  using assms
proof (induction steps arbitrary: gw)
  case (Cons s steps)
  then have "answered_cache H (fst (do_step s gw))"
    by (intro step_answered) auto
  with Cons show ?case by (simp add: run_gate_def)
qed (simp add: run_gate_def)

text \<open>
  C31: the gate fails closed. Whatever has happened since the module was started, a device passes only
  if the build that is stored for it reaches a threshold that the version service has answered for
  its platform, now or at an earlier request; without an answer nobody passes.
\<close>

theorem gate_fails_closed:
  assumes "run_gate steps (new_gate enabled base_url ttl, w) = (g, w')"
    and "fst (device_passed_gate http now d g) = Inr True"
  shows "\<exists>t c v. gt_thresholds g = Some t \<and> get_capability (gt_capabilities g) d = Some c
    \<and> answered (insert http (\<Union>s \<in> set steps. asked s)) t (cap_platform c) v \<and> ge_json (cap_build c) v = Inr True"
proof -
  let ?H = "insert http (\<Union>s \<in> set steps. asked s)"
  have "answered_cache ?H (new_gate enabled base_url ttl)"
    by (auto simp: answered_cache_def new_gate_def new_thresholds_def dget_none_def split: option.splits list.splits)
  then have "answered_cache ?H g"
    using run_answered [of ?H "(new_gate enabled base_url ttl, w)" steps] assms(1) by auto
  then show ?thesis
    using device_passed_answered(2) [of http now d g "Inr True" "snd (device_passed_gate http now d g)" ?H] assms(2)
    by (simp add: prod_eq_iff)
qed

section \<open>Examples\<close>

text \<open>A version service that knows one platform, and one that does not answer.\<close>

definition service_up :: "string \<Rightarrow> jdict option" where
  "service_up url = (if url = ''gate/version/android'' then Some [(''min_stories_build'', JInt 10)] else None)"

definition service_down :: "string \<Rightarrow> jdict option" where
  "service_down url = None"

definition gate_example :: gate where
  "gate_example = new_gate True (Some ''gate/'') 300"

text \<open>A user in an ordinary room and in a hidden one; another room is hidden too.\<close>

definition world_example :: gate_world where
  "world_example = \<lparr>gw_joined = [(''@b:s'', ''!c:s''), (''@b:s'', ''!h:s'')],
     gw_topology = (\<lambda>r. if r = ''!h:s'' \<or> r = ''!i:s'' then Some [(''hidden'', JBool True)] else None),
     gw_create = (\<lambda>r. None)\<rparr>"

lemma example_fresh:
  "dget (gt_hidden_cache gate_example) u = None" "gt_enabled gate_example"
  by (simp_all add: gate_example_def new_gate_def dget_def)

lemma sync_result:
  "fst (gate_sync http now w u dev since joined excluded forced m) = r
   \<Longrightarrow> gate_sync http now w u dev since joined excluded forced m
     = (r, snd (gate_sync http now w u dev since joined excluded forced m))"
  by (simp add: prod_eq_iff)

text \<open>The device of the example is upgraded.\<close>

definition upgrade_steps :: "gate_step list" where
  "upgrade_steps = [Report service_up 0 (Some ''D'') ''@b:s'' ''D'' ''android'' 20,
     Leave ''@b:s'' ''!c:s'', Sync service_down 1 ''@b:s'' (Some ''D'') False]"

abbreviation after_upgrade :: "gate \<times> gate_world" where
  "after_upgrade \<equiv> run_gate upgrade_steps (gate_example, world_example)"

theorem gate_fails_closed_witness:
  "\<exists>t c v. gt_thresholds (fst after_upgrade) = Some t
    \<and> get_capability (gt_capabilities (fst after_upgrade)) ''D'' = Some c
    \<and> answered (insert service_down (\<Union>s \<in> set upgrade_steps. asked s)) t (cap_platform c) v
    \<and> ge_json (cap_build c) v = Inr True"
proof (rule gate_fails_closed)
  show "run_gate upgrade_steps (new_gate True (Some ''gate/'') 300, world_example) = (fst after_upgrade, snd after_upgrade)"
    by (simp add: gate_example_def)
  show "fst (device_passed_gate service_down 2 ''D'' (fst after_upgrade)) = Inr True" by code_simp
qed

section \<open>Agreement with the stories module, and findings\<close>

text \<open>The gate and the module \<open>stories_membership\<close> take the same rooms for hidden.\<close>

lemma hidden_predicates_agree:
  "room_hidden w room_id = is_hidden_room (gw_create w room_id) (gw_topology w room_id)"
  by (simp add: room_hidden_def is_hidden_room_def STORIES_TAG_def split: option.split)

text \<open>
  A hidden room that a user joins after the list of hidden rooms was cached is shown to a device that
  has not passed the gate: a join does not drop the cache.
\<close>

theorem hidden_room_shown_after_join:
  "let (g, w) = run_gate [Sync service_down 0 ''@b:s'' (Some ''D'') False, Join ''@b:s'' ''!i:s'']
         (gate_example, world_example)
   in passes service_down 1 (Some ''D'') g = Inr False \<and> room_hidden w ''!i:s''
      \<and> fst (gate_sync service_down 1 w ''@b:s'' (Some ''D'') True (rooms_for_user w ''@b:s'') [] [] (Some g))
          = Inr ([''!c:s'', ''!i:s''], [])"
  by code_simp

text \<open>
  Builds are stored by the id of the device alone, which is unique only for one user: the report of
  another user with the same device id lets a device pass that has reported nothing.
\<close>

theorem device_id_not_bound_to_user:
  "fst (gate_sync service_up 1 world_example ''@b:s'' (Some ''D'') True [''!c:s'', ''!h:s''] [] []
      (Some (fst (run_gate [Report service_up 0 (Some ''D'') ''@m:s'' ''D'' ''android'' 20]
        (gate_example, world_example)))))
   = Inr ([''!c:s'', ''!h:s''], [''!h:s''])"
  by code_simp

text \<open>
  A device that reports its build while the version service does not answer is never sent the full
  state of the hidden rooms: it passes later, but reporting the same build again sets no mark.
\<close>

theorem late_threshold_no_full_state:
  "let g = fst (run_gate [Report service_down 0 (Some ''D'') ''@b:s'' ''D'' ''android'' 20,
         Report service_up 1 (Some ''D'') ''@b:s'' ''D'' ''android'' 20] (gate_example, world_example))
   in passes service_up 2 (Some ''D'') g = Inr True
      \<and> fst (gate_sync service_up 2 world_example ''@b:s'' (Some ''D'') True [''!c:s'', ''!h:s''] [] [] (Some g))
          = Inr ([''!c:s'', ''!h:s''], [])"
  by code_simp

end
