(* ===== verification/Sync_Gate_Runs.thy ===== *)
theory Sync_Gate_Runs
  imports Sync_Gate_Props
begin

text \<open>
  The gate with its operations taken apart where they wait: a change of the topology is stored before
  its hook runs, and the search for the hidden rooms of a user reads one room after the other while
  other things happen. A device that has not passed the gate is shown exactly the rooms that are not
  hidden, unless the user joins a room after the list was cached, or a hook drops the cache while a
  search of the same user is under way; both make the gate show a hidden room. A device that reports
  a sufficient build is shown the hidden rooms and sent their full state, unless it fails the gate at
  the sync that takes the mark.
\<close>

section \<open>Steps\<close>

record gate_state =
  gs_gate :: gate
  gs_world :: gate_world
  gs_hooks :: "(string \<times> ((string \<times> string) \<times> jdict) list) list"
  gs_lookups :: "lookup list"

text \<open>
  A sync is \<open>Checks\<close> (whether its device passes), \<open>Begins\<close> and \<open>Advances\<close> (the search for the hidden
  rooms) and \<open>Consumes\<close> (the mark); a change of the topology is \<open>Persists\<close> and later \<open>Hooks\<close>. The numbers
  say which hook or which search goes on.
\<close>

datatype race_step =
    Reports "string \<Rightarrow> jdict option" rat "string option" string string string int
  | Checks "string \<Rightarrow> jdict option" rat string
  | Consumes string
  | Joins string string
  | Leaves string string
  | Persists string jdict
  | Hooks nat
  | Begins string
  | Advances nat

definition drop_nth :: "nat \<Rightarrow> 'a list \<Rightarrow> 'a list" where
  "drop_nth n xs = take n xs @ drop (Suc n) xs"

fun race :: "race_step \<Rightarrow> gate_state \<Rightarrow> gate_state" where
  "race (Reports http now rd u d p b) s =
     (case snd (put_capabilities http now rd u d p b (Some (gs_gate s))) of Some g \<Rightarrow> s\<lparr>gs_gate := g\<rparr> | None \<Rightarrow> s)"
| "race (Checks http now d) s = s\<lparr>gs_gate := snd (device_passed_gate http now d (gs_gate s))\<rparr>"
| "race (Consumes d) s = s\<lparr>gs_gate := (gs_gate s)\<lparr>gt_marks := snd (consume d (gt_marks (gs_gate s)))\<rparr>\<rparr>"
| "race (Joins u r) s = s\<lparr>gs_world := (gs_world s)\<lparr>gw_joined := gw_joined (gs_world s) @ [(u, r)]\<rparr>\<rparr>"
| "race (Leaves u r) s = s\<lparr>gs_world := (gs_world s)\<lparr>gw_joined := removeAll (u, r) (gw_joined (gs_world s))\<rparr>\<rparr>"
| "race (Persists r c) s = s\<lparr>gs_world := (gs_world s)\<lparr>gw_topology := (gw_topology (gs_world s))(r \<mapsto> c)\<rparr>,
     gs_hooks := gs_hooks s @ [(r, topology_state (gs_world s) r c)]\<rparr>"
| "race (Hooks n) s = (if n < length (gs_hooks s)
     then s\<lparr>gs_gate := gate_on_new_event ''com.liza.chat.topology'' (snd (gs_hooks s ! n)) (gs_gate s),
            gs_hooks := drop_nth n (gs_hooks s)\<rparr>
     else s)"
| "race (Begins u) s = (if dget (gt_hidden_cache (gs_gate s)) u = None
     then s\<lparr>gs_lookups := gs_lookups s @ [WantRooms u]\<rparr> else s)"
| "race (Advances n) s = (if n < length (gs_lookups s)
     then (case lookup_next (gs_world s) (gs_lookups s ! n) (gt_hidden_cache (gs_gate s)) of
         (Inl l, cache) \<Rightarrow> s\<lparr>gs_gate := (gs_gate s)\<lparr>gt_hidden_cache := cache\<rparr>, gs_lookups := (gs_lookups s)[n := l]\<rparr>
       | (Inr _, cache) \<Rightarrow> s\<lparr>gs_gate := (gs_gate s)\<lparr>gt_hidden_cache := cache\<rparr>, gs_lookups := drop_nth n (gs_lookups s)\<rparr>)
     else s)"

definition races :: "race_step list \<Rightarrow> gate_state \<Rightarrow> gate_state" where
  "races steps s = fold race steps s"

fun looked_up :: "lookup \<Rightarrow> string" where
  "looked_up (WantRooms u) = u"
| "looked_up (WantState u _ _) = u"

text \<open>A hook drops the cache of this user.\<close>

definition names :: "((string \<times> string) \<times> jdict) list \<Rightarrow> string \<Rightarrow> bool" where
  "names state_events u = list_ex (\<lambda>((t, k), content). t = ''m.room.member'' \<and> k = u
     \<and> dget_none content ''membership'' = JStr ''join'') state_events"

definition searching :: "gate_state \<Rightarrow> string \<Rightarrow> bool" where
  "searching s u = list_ex (\<lambda>l. looked_up l = u) (gs_lookups s)"

text \<open>
  What the theorems exclude of a step: that the user joins a room, and that a hook drops his cache
  while a search for him is under way.
\<close>

fun harmless :: "string \<Rightarrow> gate_state \<Rightarrow> race_step \<Rightarrow> bool" where
  "harmless u s (Joins v r) = (v \<noteq> u)"
| "harmless u s (Hooks n) = (n < length (gs_hooks s) \<longrightarrow> names (snd (gs_hooks s ! n)) u \<longrightarrow> \<not> searching s u)"
| "harmless u s _ = True"

fun harmless_run :: "string \<Rightarrow> race_step list \<Rightarrow> gate_state \<Rightarrow> bool" where
  "harmless_run u [] s = True"
| "harmless_run u (x # xs) s = (harmless u s x \<and> harmless_run u xs (race x s))"

section \<open>A search that nothing interrupts\<close>

lemma advance_all:
  assumes "gs_lookups s = ls @ [WantState u todo hidden]" and "todo \<noteq> []"
  shows "races (replicate (length todo) (Advances (length ls))) s
    = s\<lparr>gs_gate := (gs_gate s)\<lparr>gt_hidden_cache := dset (gt_hidden_cache (gs_gate s)) u
          (hidden @ filter (room_hidden (gs_world s)) todo)\<rparr>, gs_lookups := ls\<rparr>"
  using assms
proof (induction todo arbitrary: s hidden)
  case (Cons r todo)
  show ?case
  proof (cases "todo = []")
    case True
    then show ?thesis
      using Cons.prems by (simp add: races_def lookup_continue_def drop_nth_def)
  next
    case False
    let ?h = "if room_hidden (gs_world s) r then hidden @ [r] else hidden"
    have "race (Advances (length ls)) s = s\<lparr>gs_lookups := ls @ [WantState u todo ?h]\<rparr>"
      using Cons.prems False by (simp add: lookup_continue_def)
    then show ?thesis
      using Cons.IH [of "s\<lparr>gs_lookups := ls @ [WantState u todo ?h]\<rparr>" ?h] False by (simp add: races_def)
  qed
qed simp

lemma uninterrupted_lookup:
  assumes "dget (gt_hidden_cache (gs_gate s)) u = None"
  shows "races (Begins u # replicate (Suc (length (rooms_for_user (gs_world s) u))) (Advances (length (gs_lookups s)))) s
    = s\<lparr>gs_gate := (gs_gate s)\<lparr>gt_hidden_cache :=
          snd (get_hidden_room_ids_for_user (gs_world s) u (gt_hidden_cache (gs_gate s)))\<rparr>\<rparr>"
proof (cases "rooms_for_user (gs_world s) u = []")
  case True
  then show ?thesis
    using assms by (simp add: races_def lookup_continue_def drop_nth_def get_hidden_room_ids_for_user_def Let_def)
next
  case False
  let ?s = "s\<lparr>gs_lookups := gs_lookups s @ [WantState u (rooms_for_user (gs_world s) u) []]\<rparr>"
  have "race (Advances (length (gs_lookups s))) (race (Begins u) s) = ?s"
    using assms False by (simp add: lookup_continue_def)
  then have "races (Begins u # replicate (Suc (length (rooms_for_user (gs_world s) u))) (Advances (length (gs_lookups s)))) s
      = races (replicate (length (rooms_for_user (gs_world s) u)) (Advances (length (gs_lookups s)))) ?s"
    by (simp add: races_def)
  then show ?thesis
    using advance_all [of ?s "gs_lookups s" u "rooms_for_user (gs_world s) u" "[]"] False assms
    by (simp add: get_hidden_room_ids_for_user_def Let_def)
qed

section \<open>The cache and the searches under way\<close>

text \<open>
  A list of hidden rooms is right for a room of the user when the room is in it exactly if it is
  hidden, or when a hook that drops the cache of the user because of this room is still to run.
\<close>

definition hook_awaited :: "gate_state \<Rightarrow> string \<Rightarrow> string \<Rightarrow> bool" where
  "hook_awaited s u r \<longleftrightarrow> (\<exists>h \<in> set (gs_hooks s). fst h = r \<and> names (snd h) u)"

definition right :: "gate_state \<Rightarrow> string \<Rightarrow> string list \<Rightarrow> string \<Rightarrow> bool" where
  "right s u hidden r \<longleftrightarrow> hook_awaited s u r \<or> (r \<in> set hidden \<longleftrightarrow> room_hidden (gs_world s) r)"

fun lookup_right :: "gate_state \<Rightarrow> string \<Rightarrow> lookup \<Rightarrow> bool" where
  "lookup_right s u (WantRooms v) = True"
| "lookup_right s u (WantState v todo hidden) = (v = u \<longrightarrow> distinct todo \<and> set todo \<inter> set hidden = {}
     \<and> (\<forall>r \<in> set (rooms_for_user (gs_world s) u). r \<notin> set todo \<longrightarrow> right s u hidden r))"

definition cache_right :: "gate_state \<Rightarrow> string \<Rightarrow> bool" where
  "cache_right s u \<longleftrightarrow> (\<forall>hs. dget (gt_hidden_cache (gs_gate s)) u = Some hs
     \<longrightarrow> (\<forall>r \<in> set (rooms_for_user (gs_world s) u). right s u hs r))"

definition all_right :: "string \<Rightarrow> gate_state \<Rightarrow> bool" where
  "all_right u s \<longleftrightarrow> cache_right s u \<and> (\<forall>l \<in> set (gs_lookups s). lookup_right s u l)"

lemma set_drop_nth: "set (drop_nth n xs) \<subseteq> set xs"
  using set_take_subset [of n xs] set_drop_subset [of "Suc n" xs] by (auto simp: drop_nth_def)

lemma in_drop_nth: "x \<in> set xs \<Longrightarrow> n < length xs \<Longrightarrow> x \<noteq> xs ! n \<Longrightarrow> x \<in> set (drop_nth n xs)"
  by (metis Un_iff append_take_drop_id drop_nth_def id_take_nth_drop set_append set_ConsD)

text \<open>The steps that change neither the hidden rooms of the user nor the cache, the hooks and the searches.\<close>

lemma all_right_mono:
  assumes "all_right u s" and "set (rooms_for_user (gs_world s') u) \<subseteq> set (rooms_for_user (gs_world s) u)"
    and "\<And>r. r \<in> set (rooms_for_user (gs_world s') u) \<Longrightarrow> \<not> hook_awaited s' u r
           \<Longrightarrow> room_hidden (gs_world s') r = room_hidden (gs_world s) r"
    and "\<And>r. r \<in> set (rooms_for_user (gs_world s') u) \<Longrightarrow> hook_awaited s u r \<Longrightarrow> hook_awaited s' u r"
    and "dget (gt_hidden_cache (gs_gate s')) u \<in> {None, dget (gt_hidden_cache (gs_gate s)) u}"
    and "\<And>l. l \<in> set (gs_lookups s') \<Longrightarrow> l \<in> set (gs_lookups s) \<or> lookup_right s' u l"
  shows "all_right u s'"
proof -
  have r: "right s' u hs r" if "right s u hs r" "r \<in> set (rooms_for_user (gs_world s') u)" for hs r
    using that assms(3,4) by (auto simp: right_def)
  have "lookup_right s' u l" if "lookup_right s u l" for l
    using that assms(2) r by (cases l) auto
  then have "\<forall>l \<in> set (gs_lookups s'). lookup_right s' u l"
    using assms(1,6) unfolding all_right_def by blast
  moreover have "cache_right s' u"
    using assms(1,2,5) r by (auto simp: all_right_def cache_right_def)
  ultimately show ?thesis by (simp add: all_right_def)
qed

lemma names_dropped:
  "dget (gt_hidden_cache (gate_on_new_event ''com.liza.chat.topology'' sts g)) u
   = (if names sts u then None else dget (gt_hidden_cache g) u)"
proof -
  have "dget (fold (\<lambda>((t, member_id), content) cache.
       if t = ''m.room.member'' \<and> dget_none content ''membership'' = JStr ''join''
       then invalidate_user member_id cache else cache) sts cache) u
     = (if names sts u then None else dget cache u)" for cache
  proof (induction sts arbitrary: cache)
    case (Cons x sts)
    obtain t k content where x: "x = ((t, k), content)" by (metis prod.exhaust)
    show ?case using Cons by (simp add: x names_def invalidate_user_def dget_def delete_conv')
  qed (simp add: names_def)
  then show ?thesis by (simp add: gate_on_new_event_def)
qed

lemma names_topology_state: "(u, r) \<in> set (gw_joined w) \<Longrightarrow> names (topology_state w r c) u"
  by (force simp: names_def topology_state_def list_ex_iff dget_none_def)

lemma right_cong:
  "gs_hooks s' = gs_hooks s \<Longrightarrow> gs_world s' = gs_world s \<Longrightarrow> right s' u hs r = right s u hs r"
  by (simp add: right_def hook_awaited_def)

lemma cache_right_update:
  "cache_right (s\<lparr>gs_gate := (gs_gate s)\<lparr>gt_hidden_cache := cache\<rparr>\<rparr>) u
   \<longleftrightarrow> (\<forall>hs. dget cache u = Some hs \<longrightarrow> (\<forall>r \<in> set (rooms_for_user (gs_world s) u). right s u hs r))"
  by (simp add: cache_right_def right_def hook_awaited_def)

text \<open>One step of a search.\<close>

lemma lookup_continue_right:
  assumes "distinct todo" and "set todo \<inter> set hidden = {}"
    and "\<And>r. r \<in> set (rooms_for_user (gs_world s) u) \<Longrightarrow> r \<notin> set todo \<Longrightarrow> right s u hidden r"
    and "cache_right s u" and "lookup_continue u todo hidden (gt_hidden_cache (gs_gate s)) = (out, cache)"
  shows "cache_right (s\<lparr>gs_gate := (gs_gate s)\<lparr>gt_hidden_cache := cache\<rparr>\<rparr>) u \<and> (\<forall>l. out = Inl l \<longrightarrow> lookup_right s u l)"
proof (cases "todo = []")
  case True
  then have "out = Inr hidden" and "cache = dset (gt_hidden_cache (gs_gate s)) u hidden"
    using assms(5) by (simp_all add: lookup_continue_def)
  then show ?thesis using assms(3) True by (simp add: cache_right_update dget_dset)
next
  case False
  then have "out = Inl (WantState u todo hidden)" and "cache = gt_hidden_cache (gs_gate s)"
    using assms(5) by (simp_all add: lookup_continue_def)
  then show ?thesis using assms(1-4) by simp
qed

lemma lookup_continue_other:
  assumes "v \<noteq> u" and "cache_right s u" and "lookup_continue v todo hidden (gt_hidden_cache (gs_gate s)) = (out, cache)"
  shows "cache_right (s\<lparr>gs_gate := (gs_gate s)\<lparr>gt_hidden_cache := cache\<rparr>\<rparr>) u \<and> (\<forall>l. out = Inl l \<longrightarrow> lookup_right s u l)"
proof -
  have "dget cache u = dget (gt_hidden_cache (gs_gate s)) u" and "\<forall>l. out = Inl l \<longrightarrow> lookup_right s u l"
    using assms(1,3) by (auto simp: lookup_continue_def dget_dset split: if_splits)
  then show ?thesis using assms(2) by (simp add: cache_right_update) (simp add: cache_right_def)
qed

lemma lookup_next_right:
  assumes "lookup_next (gs_world s) l (gt_hidden_cache (gs_gate s)) = (out, cache)"
    and "lookup_right s u l" and cache: "cache_right s u"
  shows "cache_right (s\<lparr>gs_gate := (gs_gate s)\<lparr>gt_hidden_cache := cache\<rparr>\<rparr>) u \<and> (\<forall>l'. out = Inl l' \<longrightarrow> lookup_right s u l')"
proof (cases "looked_up l = u")
  case False
  obtain todo hidden where
    "lookup_continue (looked_up l) todo hidden (gt_hidden_cache (gs_gate s)) = (out, cache)"
    using assms(1) by (cases "(gs_world s, l, gt_hidden_cache (gs_gate s))" rule: lookup_next.cases) auto
  then show ?thesis by (rule lookup_continue_other [OF False cache])
next
  case True
  show ?thesis
  proof (cases "(gs_world s, l, gt_hidden_cache (gs_gate s))" rule: lookup_next.cases)
    case (1 w v c)
    then show ?thesis
      using assms(1) True lookup_continue_right [of "rooms_for_user (gs_world s) u" "[]" s u out cache] cache
      by (simp add: rooms_for_user_def)
  next
    case (2 w v hidden c)
    then show ?thesis
      using assms(1,2) True lookup_continue_right [of "[]" hidden s u out cache] cache by simp
  next
    case (3 w v r rs hidden c)
    let ?h = "if room_hidden (gs_world s) r then hidden @ [r] else hidden"
    have pre: "distinct (r # rs)" "set (r # rs) \<inter> set hidden = {}"
      "\<forall>x \<in> set (rooms_for_user (gs_world s) u). x \<notin> set (r # rs) \<longrightarrow> right s u hidden x"
      using 3 True assms(2) by auto
    have "right s u ?h x" if "x \<in> set (rooms_for_user (gs_world s) u)" "x \<notin> set rs" for x
      using that pre(2,3) by (cases "x = r") (auto simp: right_def)
    moreover have "set rs \<inter> set ?h = {}"
      using pre(1,2) by auto
    ultimately show ?thesis
      using assms(1) True 3 lookup_continue_right [of rs ?h s u out cache] cache pre(1) by simp
  qed
qed

lemma room_hidden_joined [simp]: "room_hidden (w\<lparr>gw_joined := js\<rparr>) r = room_hidden w r"
  by (simp add: room_hidden_def split: option.split)

text \<open>A step that only changes the gate, and not the cached list of the user.\<close>

lemma all_right_gate:
  assumes "all_right u s" and "gt_hidden_cache g = gt_hidden_cache (gs_gate s)"
  shows "all_right u (s\<lparr>gs_gate := g\<rparr>)"
  by (rule all_right_mono [OF assms(1)]) (auto simp: hook_awaited_def assms(2))

lemma lookup_right_cong:
  assumes "gs_hooks s' = gs_hooks s" and "gs_world s' = gs_world s"
  shows "lookup_right s' u l = lookup_right s u l"
  using right_cong [OF assms] by (cases l) (simp_all add: assms(2))

lemma other_lookup_right: "looked_up l \<noteq> u \<Longrightarrow> lookup_right s u l"
  by (cases l) auto

lemma persist_all_right:
  assumes "all_right u s"
  shows "all_right u (race (Persists r c) s)"
proof (rule all_right_mono [OF assms])
  let ?s = "race (Persists r c) s"
  show "room_hidden (gs_world ?s) x = room_hidden (gs_world s) x"
    if x: "x \<in> set (rooms_for_user (gs_world ?s) u)" "\<not> hook_awaited ?s u x" for x
  proof -
    have "(u, x) \<in> set (gw_joined (gs_world s))" using x(1) by (simp add: rooms_for_user_iff)
    then have "x \<noteq> r"
      using x(2) names_topology_state [of u r "gs_world s" c] by (auto simp: hook_awaited_def)
    then show ?thesis by (simp add: room_hidden_def split: option.split)
  qed
qed (auto simp: rooms_for_user_def hook_awaited_def)

lemma hook_all_right:
  assumes "all_right u s" and "n < length (gs_hooks s)" and "names (snd (gs_hooks s ! n)) u \<Longrightarrow> \<not> searching s u"
  shows "all_right u (race (Hooks n) s)"
proof (cases "names (snd (gs_hooks s ! n)) u")
  case True
  then have "\<forall>l \<in> set (gs_lookups s). looked_up l \<noteq> u"
    using assms(3) by (auto simp: searching_def list_ex_iff)
  then have "\<forall>l \<in> set (gs_lookups s). lookup_right s' u l" for s'
    using other_lookup_right by blast
  then show ?thesis
    using assms(2) True by (simp add: all_right_def cache_right_def names_dropped)
next
  case False
  have keep: "h \<in> set (drop_nth n (gs_hooks s))" if "h \<in> set (gs_hooks s)" "names (snd h) u" for h
    using in_drop_nth [OF that(1) assms(2)] that(2) False by auto
  show ?thesis
    by (rule all_right_mono [OF assms(1)])
      (use assms(2) False keep in \<open>auto simp: hook_awaited_def names_dropped\<close>)
qed

lemma advance_all_right:
  assumes "all_right u s" and n: "n < length (gs_lookups s)"
  shows "all_right u (race (Advances n) s)"
proof -
  obtain out cache where nx: "lookup_next (gs_world s) (gs_lookups s ! n) (gt_hidden_cache (gs_gate s)) = (out, cache)"
    by fastforce
  let ?s = "s\<lparr>gs_gate := (gs_gate s)\<lparr>gt_hidden_cache := cache\<rparr>\<rparr>"
  have "lookup_right s u (gs_lookups s ! n)" and old: "\<forall>l \<in> set (gs_lookups s). lookup_right s u l" and "cache_right s u"
    using assms by (auto simp: all_right_def)
  then have new: "cache_right ?s u" "\<forall>l'. out = Inl l' \<longrightarrow> lookup_right s u l'"
    using lookup_next_right [OF nx] by auto
  obtain ls where r: "race (Advances n) s = ?s\<lparr>gs_lookups := ls\<rparr>"
    and ls: "\<forall>l \<in> set ls. l \<in> set (gs_lookups s) \<or> out = Inl l"
  proof (cases out)
    case (Inl l)
    then show ?thesis
      using that [of "(gs_lookups s)[n := l]"] n nx set_update_subset_insert [of "gs_lookups s" n l] by auto
  next
    case (Inr h)
    then show ?thesis
      using that [of "drop_nth n (gs_lookups s)"] n nx set_drop_nth [of n "gs_lookups s"] by auto
  qed
  have "cache_right (?s\<lparr>gs_lookups := ls\<rparr>) u"
    using new(1) by (simp add: cache_right_def right_def hook_awaited_def)
  moreover have "\<forall>l \<in> set ls. lookup_right (?s\<lparr>gs_lookups := ls\<rparr>) u l"
    using ls new(2) old lookup_right_cong [of "?s\<lparr>gs_lookups := ls\<rparr>" s u] by auto
  ultimately show ?thesis by (simp only: r) (simp add: all_right_def)
qed

lemma race_all_right:
  assumes "all_right u s" and "harmless u s x"
  shows "all_right u (race x s)"
proof (cases x)
  case (Reports http now rd v d p b)
  obtain r m where put: "put_capabilities http now rd v d p b (Some (gs_gate s)) = (r, m)"
    by fastforce
  then obtain g where "m = Some g" and "gt_hidden_cache g = gt_hidden_cache (gs_gate s)"
    by (rule put_capabilities_keeps)
  then show ?thesis
    using all_right_gate [OF assms(1)] put by (simp add: Reports)
next
  case (Checks http now d)
  then show ?thesis using all_right_gate [OF assms(1)] by simp
next
  case (Consumes d)
  then show ?thesis using all_right_gate [OF assms(1)] by simp
next
  case (Joins v r)
  then have "rooms_for_user (gs_world (race x s)) u = rooms_for_user (gs_world s) u"
    using assms(2) by (simp add: rooms_for_user_def)
  then show ?thesis
    by (intro all_right_mono [OF assms(1)]) (auto simp: Joins hook_awaited_def)
next
  case (Leaves v r)
  show ?thesis
    by (rule all_right_mono [OF assms(1)]) (auto simp: Leaves rooms_for_user_iff hook_awaited_def)
next
  case (Hooks n)
  then show ?thesis using hook_all_right [OF assms(1)] assms by (cases "n < length (gs_hooks s)") auto
next
  case (Begins v)
  show ?thesis
    by (rule all_right_mono [OF assms(1)]) (auto simp: Begins hook_awaited_def)
next
  case (Advances n)
  then show ?thesis using advance_all_right [OF assms(1)] assms by (cases "n < length (gs_lookups s)") auto
qed (use persist_all_right [OF assms(1)] in simp)

lemma races_all_right: "all_right u s \<Longrightarrow> harmless_run u xs s \<Longrightarrow> all_right u (races xs s)"
  by (induction xs arbitrary: s) (auto simp: races_def race_all_right)

lemma race_enabled: "gt_enabled (gs_gate (race x s)) = gt_enabled (gs_gate s)"
proof (cases x)
  case (Reports http now rd v d p b)
  then show ?thesis
    by (cases "put_capabilities http now rd v d p b (Some (gs_gate s))") (auto elim!: put_capabilities_keeps)
qed (auto simp: gate_on_new_event_def split: prod.splits sum.splits)

lemma races_enabled: "gt_enabled (gs_gate (races xs s)) = gt_enabled (gs_gate s)"
  by (induction xs arbitrary: s) (auto simp: races_def race_enabled)

lemma all_right_start:
  "dget (gt_hidden_cache (gs_gate s)) u = None \<Longrightarrow> \<not> searching s u \<Longrightarrow> all_right u s"
  by (auto simp: all_right_def cache_right_def searching_def list_ex_iff other_lookup_right)

lemma all_right_coherent:
  assumes "all_right u s" and "\<forall>h \<in> set (gs_hooks s). \<not> names (snd h) u"
  shows "coherent (gs_gate s) (gs_world s) u"
  using assms by (auto simp: all_right_def cache_right_def right_def hook_awaited_def coherent_def split: option.split)

section \<open>Devices that have not passed the gate\<close>


section \<open>Devices that have just passed\<close>

lemma race_keeps_mark:
  assumes "d \<in> set (gt_marks (gs_gate s))" and "x \<noteq> Consumes d"
  shows "d \<in> set (gt_marks (gs_gate (race x s)))"
proof (cases x)
  case (Reports http now rd v d' p b)
  then show ?thesis
    using assms(1) by (cases "put_capabilities http now rd v d' p b (Some (gs_gate s))") (auto elim!: put_capabilities_keeps)
qed (use assms in \<open>auto simp: gate_on_new_event_def consume_def split: prod.splits sum.splits\<close>)

lemma races_keep_mark:
  "d \<in> set (gt_marks (gs_gate s)) \<Longrightarrow> Consumes d \<notin> set xs \<Longrightarrow> d \<in> set (gt_marks (gs_gate (races xs s)))"
proof (induction xs arbitrary: s)
  case (Cons x xs)
  then have "d \<in> set (gt_marks (gs_gate (race x s)))" by (intro race_keeps_mark) auto
  with Cons show ?case by (simp add: races_def)
qed (simp add: races_def)

lemma exclusions_passed:
  assumes "gate_exclusions http now w u (Some d) g = (Inr hidden, g')" and "passes http now (Some d) g = Inr True"
  shows "hidden = []"
  using assms by (auto simp: gate_exclusions_def passes_def split: prod.splits sum.splits)

text \<open>
  C32: a device that reports a larger build than before, with which it passes the gate, is shown the
  hidden rooms of its user and sent their full state at its next incremental sync, if it still passes
  then; the mark is taken by that sync. In between anything may happen that takes no mark of the
  device, with the same exceptions for the cache of the user as above.
\<close>

theorem upgraded_device_gets_hidden_rooms:
  assumes "dget (gt_hidden_cache (gs_gate s)) u = None" and "\<not> searching s u" and "gt_enabled (gs_gate s)"
    and "p \<in> set KNOWN_PLATFORMS"
    and "case dget (gt_capabilities (gs_gate s)) d of None \<Rightarrow> True | Some old \<Rightarrow> cap_build old < b"
    and "fst (device_passed_gate http now d ((gs_gate s)\<lparr>gt_capabilities := dset (gt_capabilities (gs_gate s)) d
           \<lparr>cap_user_id = v, cap_platform = p, cap_build = b\<rparr>\<rparr>)) = Inr True"
    and "harmless_run u (Reports http now (Some d) v d p b # steps) s" and "Consumes d \<notin> set steps"
    and "races (Reports http now (Some d) v d p b # steps) s = s'" and "\<forall>h \<in> set (gs_hooks s'). \<not> names (snd h) u"
    and "gate_sync http' now' (gs_world s') u (Some d) True joined excluded forced (Some (gs_gate s'))
           = (Inr (shown, fr), m)"
    and "passes http' now' (Some d) (gs_gate s') = Inr True"
  shows "shown = filter (\<lambda>r. r \<notin> set excluded) joined
    \<and> {r \<in> set (rooms_for_user (gs_world s') u). room_hidden (gs_world s') r} \<subseteq> set fr
    \<and> (\<exists>g2. m = Some g2 \<and> d \<notin> set (gt_marks g2))"
proof -
  let ?x = "Reports http now (Some d) v d p b"
  have "d \<in> set (gt_marks (gs_gate (race ?x s)))"
    using assms(4-6) by (auto simp: put_capabilities_def upsert_capability_def mark_def Let_def
        split: option.splits prod.splits sum.splits)
  then have mark: "d \<in> set (gt_marks (gs_gate s'))"
    using races_keep_mark [of d "race ?x s" steps] assms(8,9) by (simp add: races_def)
  have co: "coherent (gs_gate s') (gs_world s') u"
    using all_right_coherent races_all_right all_right_start assms(1,2,7,9,10) by blast
  have "gt_enabled (gs_gate s')"
    using races_enabled [of "?x # steps" s] assms(3,9) by simp
  with assms(11) obtain hidden g1 newly g2
    where ex: "gate_exclusions http' now' (gs_world s') u (Some d) (gs_gate s') = (Inr hidden, g1)"
      and fo: "gate_forced (gs_world s') u (Some d) True g1 = (newly, g2)" and m: "m = Some g2"
      and shown: "shown = filter (\<lambda>r. r \<notin> set excluded \<union> set hidden) joined" and fr: "fr = forced @ newly"
    by (rule gate_syncE)
  obtain cache where h: "get_hidden_room_ids_for_user (gs_world s') u (gt_hidden_cache g1) = (newly, cache)"
    using fo mark gate_exclusions_keeps(3) [OF ex]
    by (auto simp: gate_forced_def consume_def split: prod.splits)
  have "{r \<in> set (rooms_for_user (gs_world s') u). room_hidden (gs_world s') r} \<subseteq> set fr"
    using get_hidden_coherent(2) [OF h gate_exclusions_keeps(1) [OF ex co] refl] fr by auto
  then show ?thesis
    using m gate_forced_keeps(3) [OF fo, of d] shown exclusions_passed [OF ex assms(12)] by simp
qed

section \<open>Examples\<close>

definition start_example :: gate_state where
  "start_example = \<lparr>gs_gate = gate_example, gs_world = world_example, gs_hooks = [], gs_lookups = []\<rparr>"

lemma start_fresh:
  "dget (gt_hidden_cache (gs_gate start_example)) u = None" "\<not> searching start_example u"
  "gt_enabled (gs_gate start_example)"
  by (simp_all add: start_example_def gate_example_def new_gate_def dget_def searching_def)



definition upgrade_report :: race_step where
  "upgrade_report = Reports service_up 0 (Some ''D'') ''@b:s'' ''D'' ''android'' 20"

definition upgrade_example :: "race_step list" where
  "upgrade_example = [Begins ''@b:s'', Leaves ''@b:s'' ''!c:s'', Advances 0, Persists ''!c:s'' [(''hidden'', JBool True)],
     Checks service_down 1 ''D'', Advances 0, Hooks 0]"

abbreviation upgraded :: gate_state where
  "upgraded \<equiv> races (upgrade_report # upgrade_example) start_example"

theorem upgraded_device_gets_hidden_rooms_witness:
  "[''!h:s''] = filter (\<lambda>r. r \<notin> set []) [''!h:s'']
   \<and> {r \<in> set (rooms_for_user (gs_world upgraded) ''@b:s''). room_hidden (gs_world upgraded) r} \<subseteq> set [''!h:s'']
   \<and> (\<exists>g2. snd (gate_sync service_down 2 (gs_world upgraded) ''@b:s'' (Some ''D'') True [''!h:s''] [] []
        (Some (gs_gate upgraded))) = Some g2 \<and> ''D'' \<notin> set (gt_marks g2))"
proof (rule upgraded_device_gets_hidden_rooms [OF start_fresh(1) start_fresh(2) start_fresh(3)])
  show "''android'' \<in> set KNOWN_PLATFORMS" by code_simp
  show "case dget (gt_capabilities (gs_gate start_example)) ''D'' of None \<Rightarrow> True | Some old \<Rightarrow> cap_build old < 20"
    by code_simp
  show "fst (device_passed_gate service_up 0 ''D'' ((gs_gate start_example)\<lparr>gt_capabilities :=
      dset (gt_capabilities (gs_gate start_example)) ''D'' \<lparr>cap_user_id = ''@b:s'', cap_platform = ''android'', cap_build = 20\<rparr>\<rparr>))
      = Inr True"
    by code_simp
  have "harmless_run ''@b:s'' (upgrade_report # upgrade_example) start_example" by code_simp
  then show "harmless_run ''@b:s'' (Reports service_up 0 (Some ''D'') ''@b:s'' ''D'' ''android'' 20 # upgrade_example) start_example"
    by (simp add: upgrade_report_def)
  show "Consumes ''D'' \<notin> set upgrade_example" by (simp add: upgrade_example_def)
  show "races (Reports service_up 0 (Some ''D'') ''@b:s'' ''D'' ''android'' 20 # upgrade_example) start_example = upgraded"
    by (simp add: upgrade_report_def)
  have "list_all (\<lambda>h. \<not> names (snd h) ''@b:s'') (gs_hooks upgraded)" by code_simp
  then show "\<forall>h \<in> set (gs_hooks upgraded). \<not> names (snd h) ''@b:s''" by (simp add: list_all_iff)
  show "gate_sync service_down 2 (gs_world upgraded) ''@b:s'' (Some ''D'') True [''!h:s''] [] []
      (Some (gs_gate upgraded)) = (Inr ([''!h:s''], [''!h:s'']), snd (gate_sync service_down 2 (gs_world upgraded)
        ''@b:s'' (Some ''D'') True [''!h:s''] [] [] (Some (gs_gate upgraded))))"
    by (rule sync_result) code_simp
  show "passes service_down 2 (Some ''D'') (gs_gate upgraded) = Inr True" by code_simp
qed

section \<open>Findings\<close>

text \<open>
  A lost invalidation: a search has read a room when the room becomes hidden, the hook runs and
  finds nothing to drop, and the search ends and caches what it read. Then every sync of a device
  that has not passed the gate shows the hidden room; no room was joined, and no hook is left.
\<close>

lemma lost_invalidation_shows_hidden_room:
  "let s = races [Begins ''@b:s'', Advances 0, Advances 0, Persists ''!c:s'' [(''hidden'', JBool True)], Hooks 0, Advances 0]
         start_example
   in passes service_down 1 (Some ''D'') (gs_gate s) = Inr False \<and> gs_hooks s = [] \<and> gs_lookups s = []
      \<and> room_hidden (gs_world s) ''!c:s''
      \<and> fst (gate_sync service_down 1 (gs_world s) ''@b:s'' (Some ''D'') False (rooms_for_user (gs_world s) ''@b:s'') [] []
          (Some (gs_gate s))) = Inr ([''!c:s''], [])"
  by code_simp

text \<open>
  The mark is taken by the next incremental sync whether or not the device passes then: when the
  threshold was raised in between, that sync leaves the hidden rooms out, and when the device passes
  again, they come without their full state.
\<close>

definition service_raised :: "string \<Rightarrow> jdict option" where
  "service_raised url = (if url = ''gate/version/android'' then Some [(''min_stories_build'', JInt 30)] else None)"

lemma mark_lost_when_not_passing:
  "let g1 = fst (run_gate [Report service_up 0 (Some ''D'') ''@b:s'' ''D'' ''android'' 20] (gate_example, world_example));
       (r1, m2) = gate_sync service_raised 400 world_example ''@b:s'' (Some ''D'') True [''!c:s'', ''!h:s''] [] [] (Some g1);
       (r2, m3) = gate_sync service_up 800 world_example ''@b:s'' (Some ''D'') True [''!c:s'', ''!h:s''] [] [] m2
   in r1 = Inr ([''!c:s''], [''!h:s'']) \<and> r2 = Inr ([''!c:s'', ''!h:s''], [])"
  by code_simp

end
